(* ===== verification/Prelude.thy ===== *)
theory Prelude
  imports Main "HOL-Library.Word"
begin

text \<open>
  Shared vocabulary of the development: the ways in which the C++ code can stop or misbehave
  (\<open>fault\<close>), the sequencing of fallible steps (\<open>bindE\<close>), bounds-checked array access
  (\<open>std::array::at\<close>), and generic lemmas on lists that the components use.
\<close>

section \<open>Faults and fallible computations\<close>

text \<open>
  \<^item> \<open>AssertFailed\<close>: \<open>ASSERT(cond, msg)\<close> of \<open>common/Macros.h\<close> with a false condition; the
    process exits.
  \<^item> \<open>FatalExit\<close>: \<open>FATAL(msg)\<close>; the process exits.
  \<^item> \<open>OutOfRange\<close>: \<open>at\<close> on a \<open>std::array\<close> with an index past the end throws; every caller is
    \<open>noexcept\<close> or runs at the bottom of a thread, so the process terminates.
  \<^item> \<open>NullDeref\<close>, \<open>OutOfBounds\<close>: undefined behaviour, a null pointer is followed or a raw array
    is indexed past its end.
  \<^item> \<open>Diverges\<close>: a loop that never ends.
  \<^item> \<open>UnnamedEnumerator\<close>: a message carries an enumerator value that the enumeration does not name; the
    model does not follow such a message any further.
  \<^item> \<open>SignedOverflow\<close>: undefined behaviour, the result of a signed operation does not fit its type.
\<close>

datatype fault =
    AssertFailed string
  | FatalExit string
  | OutOfRange
  | NullDeref
  | OutOfBounds
  | Diverges
  | UnnamedEnumerator
  | SignedOverflow

type_synonym 'a outcome = "fault + 'a"

definition bindE :: "'e + 'a \<Rightarrow> ('a \<Rightarrow> 'e + 'b) \<Rightarrow> 'e + 'b" where
  "bindE m f = (case m of Inl e \<Rightarrow> Inl e | Inr x \<Rightarrow> f x)"

lemma bindE_Inr [simp]: "bindE (Inr x) f = f x"
  by (simp add: bindE_def)

lemma bindE_Inl [simp]: "bindE (Inl e) f = Inl e"
  by (simp add: bindE_def)

lemma bindE_eq_Inr: "bindE m f = Inr y \<longleftrightarrow> (\<exists>x. m = Inr x \<and> f x = Inr y)"
  by (cases m) auto

lemma bindE_InrE:
  assumes "bindE m f = Inr y"
  obtains x where "m = Inr x" and "f x = Inr y"
  using assms by (auto simp: bindE_eq_Inr)

lemma bindE_eq_Inl: "bindE m f = Inl e \<longleftrightarrow> m = Inl e \<or> (\<exists>x. m = Inr x \<and> f x = Inl e)"
  by (cases m) auto

lemma bindE_assoc: "bindE (bindE m f) g = bindE m (\<lambda>x. bindE (f x) g)"
  by (cases m) auto

lemma bindE_cong [fundef_cong]:
  "m = m' \<Longrightarrow> (\<And>x. m' = Inr x \<Longrightarrow> f x = f' x) \<Longrightarrow> bindE m f = bindE m' f'"
  by (cases m') auto

text \<open>\<open>ASSERT(cond, msg)\<close> and \<open>FATAL(msg)\<close>.\<close>

definition ASSERT :: "bool \<Rightarrow> string \<Rightarrow> unit outcome" where
  "ASSERT cond msg = (if \<not> cond then Inl (AssertFailed msg) else Inr ())"

definition FATAL :: "string \<Rightarrow> 'a outcome" where
  "FATAL msg = Inl (FatalExit msg)"

lemma ASSERT_True [simp]: "ASSERT True msg = Inr ()"
  by (simp add: ASSERT_def)

lemma ASSERT_False [simp]: "ASSERT False msg = Inl (AssertFailed msg)"
  by (simp add: ASSERT_def)

lemma ASSERT_eq_Inr: "ASSERT c msg = Inr u \<longleftrightarrow> c"
  by (cases c) auto

text \<open>
  A fixed-size array is a total function from the index together with its length; \<open>at\<close> checks
  the index against the length.
\<close>

definition arr_at :: "nat \<Rightarrow> ('i::len word \<Rightarrow> 'a) \<Rightarrow> 'i word \<Rightarrow> 'a outcome" where
  "arr_at n a i = (if unat i < n then Inr (a i) else Inl OutOfRange)"

definition arr_set :: "nat \<Rightarrow> ('i::len word \<Rightarrow> 'a) \<Rightarrow> 'i word \<Rightarrow> 'a \<Rightarrow> ('i word \<Rightarrow> 'a) outcome" where
  "arr_set n a i v = (if unat i < n then Inr (a(i := v)) else Inl OutOfRange)"

text \<open>\<open>operator[]\<close> does not check the index.\<close>

definition raw_at :: "nat \<Rightarrow> ('i::len word \<Rightarrow> 'a) \<Rightarrow> 'i word \<Rightarrow> 'a outcome" where
  "raw_at n a i = (if unat i < n then Inr (a i) else Inl OutOfBounds)"

lemma raw_at_ok [simp]: "unat i < n \<Longrightarrow> raw_at n a i = Inr (a i)"
  by (simp add: raw_at_def)

lemma arr_at_ok [simp]: "unat i < n \<Longrightarrow> arr_at n a i = Inr (a i)"
  by (simp add: arr_at_def)

lemma arr_set_ok [simp]: "unat i < n \<Longrightarrow> arr_set n a i v = Inr (a(i := v))"
  by (simp add: arr_set_def)

section \<open>Running a fallible step over a list\<close>

fun foldE :: "('a \<Rightarrow> 's \<Rightarrow> 's outcome) \<Rightarrow> 'a list \<Rightarrow> 's \<Rightarrow> 's outcome" where
  "foldE f [] s = Inr s"
| "foldE f (x # xs) s = bindE (f x s) (foldE f xs)"

lemma foldE_append: "foldE f (xs @ ys) s = bindE (foldE f xs s) (foldE f ys)"
  by (induction xs arbitrary: s) (auto simp: bindE_def split: sum.splits)

lemma foldE_invariant:
  assumes "\<And>x s s'. x \<in> set xs \<Longrightarrow> P s \<Longrightarrow> f x s = Inr s' \<Longrightarrow> P s'"
  shows "P s \<Longrightarrow> foldE f xs s = Inr s' \<Longrightarrow> P s'"
  using assms
proof (induction xs arbitrary: s)
  case Nil
  then show ?case by simp
next
  case (Cons x xs)
  from Cons.prems(2) obtain s1 where s1: "f x s = Inr s1" "foldE f xs s1 = Inr s'"
    by (auto simp: bindE_eq_Inr)
  have "P s1" using Cons.prems(3) [of x s s1] Cons.prems(1) s1(1) by simp
  then show ?case
  proof (rule Cons.IH [OF _ s1(2)])
    fix y u u'
    assume "y \<in> set xs" "P u" "f y u = Inr u'"
    then show "P u'" using Cons.prems(3) [of y u u'] by simp
  qed
qed

section \<open>Numbers as text\<close>

text \<open>\<open>std::to_string\<close> on unsigned integers.\<close>

definition digit :: "nat \<Rightarrow> char" where
  "digit d = char_of (48 + d)"

fun to_string_nat :: "nat \<Rightarrow> string" where
  "to_string_nat n = (if n < 10 then [digit n] else to_string_nat (n div 10) @ [digit (n mod 10)])"

declare to_string_nat.simps [simp del]

section \<open>Lists\<close>

lemma list_rotate_last: "xs \<noteq> [] \<Longrightarrow> \<exists>ys y. xs = ys @ [y]"
  by (cases xs rule: rev_cases) auto

lemma concat_map_cong_set:
  "(\<And>x. x \<in> set xs \<Longrightarrow> f x = g x) \<Longrightarrow> concat (map f xs) = concat (map g xs)"
  by (induction xs) auto

lemma set_map_filter: "set (List.map_filter m xs) = {y. \<exists>x\<in>set xs. m x = Some y}"
  by (induction xs) (auto simp: map_filter_simps split: option.split)

lemma map_filter_sorted:
  "sorted_wrt (<) xs \<Longrightarrow> (\<And>x y. x \<in> set xs \<Longrightarrow> m x = Some y \<Longrightarrow> f y = x) \<Longrightarrow>
    sorted_wrt (\<lambda>a b. f a < (f b :: 'a::linorder)) (List.map_filter m xs)"
proof (induction xs)
  case (Cons x xs)
  then have IH: "sorted_wrt (\<lambda>a b. f a < f b) (List.map_filter m xs)" by simp
  show ?case
  proof (cases "m x")
    case None
    then show ?thesis using IH by (simp add: map_filter_simps)
  next
    case (Some y)
    have "f y < f b" if b: "b \<in> set (List.map_filter m xs)" for b
    proof -
      obtain z where z: "z \<in> set xs" "m z = Some b" using b unfolding set_map_filter by blast
      have "f y = x" "f b = z" using Cons.prems(2) Some z by simp_all
      then show ?thesis using Cons.prems(1) z(1) by simp
    qed
    then show ?thesis using IH Some by (simp add: map_filter_simps)
  qed
qed (simp add: map_filter_simps)

lemma map_filter_distinct:
  assumes "distinct xs" and "\<And>i j n. i \<in> set xs \<Longrightarrow> j \<in> set xs \<Longrightarrow> m i = Some n \<Longrightarrow> m j = Some n \<Longrightarrow> i = j"
  shows "distinct (List.map_filter m xs)"
  using assms
proof (induction xs)
  case (Cons i xs)
  then have IH: "distinct (List.map_filter m xs)" by (simp add: Cons.IH)
  show ?case
  proof (cases "m i")
    case (Some n)
    have "m j \<noteq> Some n" if "j \<in> set xs" for j using Cons.prems Some that by fastforce
    then show ?thesis using IH Some by (simp add: map_filter_simps set_map_filter)
  qed (simp add: IH map_filter_simps)
qed (simp add: map_filter_simps)

section \<open>Words\<close>

lemma less_succ: "m + 1 \<noteq> 0 \<Longrightarrow> m < m + 1"
  for m :: "'n::len word"
proof -
  assume "m + 1 \<noteq> 0"
  then have "m \<noteq> - 1" by auto
  then show "m < m + 1" using inc_less_eq_self_iff_eq [of m] by (simp add: not_le [symmetric])
qed

end
