(* ===== verification/MemoryPool.thy ===== *)
theory MemoryPool
  imports Prelude
begin

text \<open>
  \<open>common/MemoryPool.h\<close> and \<open>common/OptMemoryPool.h\<close>: fixed pools of pre-allocated blocks.  A
  pool is the vector of blocks (a function of the index together with the vector's size) and the
  index of the next free block; a \<open>T *\<close> handed out by a pool is the block's index, the null
  pointer is \<open>None\<close>.  Blocks stay readable after \<open>Deallocate\<close>, exactly as in the code, which
  only marks them.

  The locale \<open>object_pool\<close> states what the clients of a pool (the order books, the snapshot
  synthesizer) rely on; both pools are interpreted.
\<close>

section \<open>The pool\<close>

record 'a SObjectBlock =
  object :: 'a
  isFree :: bool

record 'a CMemoryPool =
  m_store :: "nat \<Rightarrow> 'a SObjectBlock"
  m_size :: nat
  m_nextFreeIndex :: nat

type_synonym ptr = "nat option"

definition CMemoryPool_new :: "nat \<Rightarrow> 'a \<Rightarrow> 'a CMemoryPool" where
  "CMemoryPool_new numElems T =
     \<lparr>m_store = (\<lambda>_. \<lparr>object = T, isFree = True\<rparr>), m_size = numElems, m_nextFreeIndex = 0\<rparr>"

text \<open>
  The search loop of \<open>UpdateNextFreeIndex\<close>: \<open>i0\<close> is \<open>initialFreeIndex\<close>, \<open>i\<close> the current
  \<open>m_nextFreeIndex\<close>.
\<close>

function scan_free :: "'a CMemoryPool \<Rightarrow> nat \<Rightarrow> nat \<Rightarrow> nat outcome" where
  "scan_free p i0 i =
     (if \<not> (i < m_size p \<and> i0 < m_size p) then Inl OutOfBounds
      else if isFree (m_store p i) then Inr i
      else let j = (if Suc i = m_size p then 0 else Suc i)
           in if i0 = j then bindE (ASSERT False ''Memory Pool out of space.'') (\<lambda>_. Inr j)
              else scan_free p i0 j)"
  by pat_completeness auto
termination
  by (relation "measure (\<lambda>(p, i0, i). if i < i0 then i0 - i else m_size p - i + i0)")
    (auto simp: Let_def split: if_splits)

declare scan_free.simps [simp del]

definition UpdateNextFreeIndex :: "'a CMemoryPool \<Rightarrow> 'a CMemoryPool outcome" where
  "UpdateNextFreeIndex p =
     bindE (scan_free p (m_nextFreeIndex p) (m_nextFreeIndex p)) (\<lambda>i. Inr (p\<lparr>m_nextFreeIndex := i\<rparr>))"

definition Allocate :: "'a \<Rightarrow> 'a CMemoryPool \<Rightarrow> (nat \<times> 'a CMemoryPool) outcome" where
  "Allocate x p =
     (let i = m_nextFreeIndex p
      in if \<not> i < m_size p then Inl OutOfBounds
         else bindE (ASSERT (isFree (m_store p i)) (''Expected free SObjectBlock at index:'' @ to_string_nat i)) (\<lambda>_.
              bindE (UpdateNextFreeIndex (p\<lparr>m_store := (m_store p)(i := \<lparr>object = x, isFree = False\<rparr>)\<rparr>))
                (\<lambda>p'. Inr (i, p'))))"

definition Deallocate :: "ptr \<Rightarrow> 'a CMemoryPool \<Rightarrow> 'a CMemoryPool outcome" where
  "Deallocate elem p =
     (case elem of
        None \<Rightarrow> Inl (AssertFailed ''Element being deallocated does not belong to this Memory pool.'')
      | Some i \<Rightarrow>
          bindE (ASSERT (i < m_size p) ''Element being deallocated does not belong to this Memory pool.'') (\<lambda>_.
          bindE (ASSERT (\<not> isFree (m_store p i)) (''Expected in-use SObjectBlock at index:'' @ to_string_nat i)) (\<lambda>_.
          Inr (p\<lparr>m_store := (m_store p)(i := (m_store p i)\<lparr>isFree := True\<rparr>)\<rparr>))))"

text \<open>Reading and writing an object through a pointer.\<close>

definition deref :: "'a CMemoryPool \<Rightarrow> ptr \<Rightarrow> 'a outcome" where
  "deref p x = (case x of None \<Rightarrow> Inl NullDeref | Some i \<Rightarrow> Inr (object (m_store p i)))"

definition poke :: "nat \<Rightarrow> ('a \<Rightarrow> 'a) \<Rightarrow> 'a CMemoryPool \<Rightarrow> 'a CMemoryPool" where
  "poke i f p = p\<lparr>m_store := (m_store p)(i := (m_store p i)\<lparr>object := f (object (m_store p i))\<rparr>)\<rparr>"

definition modify :: "ptr \<Rightarrow> ('a \<Rightarrow> 'a) \<Rightarrow> 'a CMemoryPool \<Rightarrow> 'a CMemoryPool outcome" where
  "modify x f p = (case x of None \<Rightarrow> Inl NullDeref | Some i \<Rightarrow> Inr (poke i f p))"

section \<open>What a pool does\<close>

definition pobj :: "'a CMemoryPool \<Rightarrow> nat \<Rightarrow> 'a" where
  "pobj p i = object (m_store p i)"

definition pused :: "'a CMemoryPool \<Rightarrow> nat set" where
  "pused p = {i. i < m_size p \<and> \<not> isFree (m_store p i)}"

definition pool_ok :: "'a CMemoryPool \<Rightarrow> bool" where
  "pool_ok p \<longleftrightarrow> m_nextFreeIndex p < m_size p \<and> isFree (m_store p (m_nextFreeIndex p))"

lemma finite_pused [simp]: "finite (pused p)"
  by (simp add: pused_def)

lemma pused_lt: "i \<in> pused p \<Longrightarrow> i < m_size p"
  by (simp add: pused_def)

lemma deref_Some [simp]: "deref p (Some i) = Inr (pobj p i)"
  by (simp add: deref_def pobj_def)

lemma deref_None [simp]: "deref p None = Inl NullDeref"
  by (simp add: deref_def)

lemma modify_Some [simp]: "modify (Some i) f p = Inr (poke i f p)"
  by (simp add: modify_def)

lemma modify_None [simp]: "modify None f p = Inl NullDeref"
  by (simp add: modify_def)

lemma pobj_poke: "pobj (poke i f p) = (pobj p)(i := f (pobj p i))"
  by (auto simp: pobj_def poke_def fun_eq_iff)

lemma poke_frame [simp]:
  "m_size (poke i f p) = m_size p" "m_nextFreeIndex (poke i f p) = m_nextFreeIndex p"
  "isFree (m_store (poke i f p) j) = isFree (m_store p j)"
  by (simp_all add: poke_def)

lemma pused_poke [simp]: "pused (poke i f p) = pused p"
  by (simp add: pused_def)

lemma pool_ok_poke [simp]: "pool_ok (poke i f p) = pool_ok p"
  by (simp add: pool_ok_def)

lemma pool_ok_new: "0 < n \<Longrightarrow> pool_ok (CMemoryPool_new n T)"
  by (simp add: pool_ok_def CMemoryPool_new_def)

lemma m_size_new [simp]: "m_size (CMemoryPool_new n T) = n"
  by (simp add: CMemoryPool_new_def)

lemma pused_new [simp]: "pused (CMemoryPool_new n T) = {}"
  by (simp add: pused_def CMemoryPool_new_def)

text \<open>The indices the search still has to visit, from \<open>i\<close> round to \<open>i0\<close>.\<close>

definition to_visit :: "nat \<Rightarrow> nat \<Rightarrow> nat \<Rightarrow> nat set" where
  "to_visit n i0 i = (if i < i0 then {i..<i0} else {i..<n} \<union> {0..<i0})"

lemma to_visit_step:
  assumes "i < n" "i0 < n"
  defines "j \<equiv> (if Suc i = n then 0 else Suc i)"
  shows "to_visit n i0 i = insert i (if i0 = j then {} else to_visit n i0 j)"
  using assms by (auto simp: to_visit_def)

lemma to_visit_start: "i < n \<Longrightarrow> to_visit n i i = {0..<n}"
  by (auto simp: to_visit_def)

lemma scan_free_found:
  "scan_free p i0 i = Inr j \<Longrightarrow> j < m_size p \<and> isFree (m_store p j)"
proof (induction p i0 i rule: scan_free.induct)
  case (1 p i0 i)
  then show ?case
    by (subst (asm) (2) scan_free.simps) (auto simp: Let_def split: if_splits)
qed

lemma scan_free_complete:
  "i < m_size p \<Longrightarrow> i0 < m_size p \<Longrightarrow> k \<in> to_visit (m_size p) i0 i \<Longrightarrow> isFree (m_store p k)
    \<Longrightarrow> \<exists>j. scan_free p i0 i = Inr j"
proof (induction p i0 i rule: scan_free.induct)
  case (1 p i0 i)
  let ?j = "if Suc i = m_size p then 0 else Suc i"
  show ?case
  proof (cases "isFree (m_store p i)")
    case True
    with "1.prems" show ?thesis by (simp add: scan_free.simps [of p i0 i])
  next
    case False
    have ne: "i0 \<noteq> ?j"
    proof
      assume "i0 = ?j"
      then have "k = i" using "1.prems"(3) to_visit_step [OF "1.prems"(1,2)] by simp
      then show False using False "1.prems"(4) by simp
    qed
    have "k \<noteq> i" using False "1.prems"(4) by auto
    then have "k \<in> to_visit (m_size p) i0 ?j"
      using "1.prems"(3) to_visit_step [OF "1.prems"(1,2)] ne by simp
    then have "\<exists>j. scan_free p i0 ?j = Inr j"
      using "1.IH" [OF _ False refl ne] "1.prems" by auto
    then show ?thesis using False ne "1.prems" by (simp add: scan_free.simps [of p i0 i] Let_def)
  qed
qed

lemma scan_free_step:
  assumes "i < m_size p" "i0 < m_size p" "\<not> isFree (m_store p i)"
    and "j = (if Suc i = m_size p then 0 else Suc i)"
  shows "scan_free p i0 i =
    (if i0 = j then Inl (AssertFailed ''Memory Pool out of space.'') else scan_free p i0 j)"
  unfolding assms(4) using assms(1-3) by (subst scan_free.simps) (simp add: Let_def)

lemma scan_free_full:
  "i < m_size p \<Longrightarrow> i0 < m_size p \<Longrightarrow> \<forall>k<m_size p. \<not> isFree (m_store p k)
    \<Longrightarrow> scan_free p i0 i = Inl (AssertFailed ''Memory Pool out of space.'')"
proof (induction p i0 i rule: scan_free.induct)
  case (1 p i0 i)
  define j where "j = (if Suc i = m_size p then 0 else Suc i)"
  have f: "\<not> isFree (m_store p i)" using "1.prems" by blast
  note step = scan_free_step [OF "1.prems"(1,2) f j_def]
  show ?case
  proof (cases "i0 = j")
    case True
    then show ?thesis using step by simp
  next
    case False
    have "j < m_size p" using "1.prems"(1) by (auto simp: j_def)
    then have "scan_free p i0 j = Inl (AssertFailed ''Memory Pool out of space.'')"
      using "1.IH" [OF _ f j_def False] "1.prems" by blast
    then show ?thesis using step by simp
  qed
qed

lemma card_pused_free:
  assumes "card (pused p) < m_size p"
  shows "\<exists>k<m_size p. isFree (m_store p k)"
proof (rule ccontr)
  assume "\<not> ?thesis"
  then have "pused p = {..<m_size p}" by (auto simp: pused_def)
  then show False using assms by simp
qed

text \<open>Handing out the next free block: one more block in use, and whether another one is free.\<close>

definition take_next :: "'a \<Rightarrow> 'a CMemoryPool \<Rightarrow> 'a CMemoryPool" where
  "take_next x p = p\<lparr>m_store := (m_store p)(m_nextFreeIndex p := \<lparr>object = x, isFree = False\<rparr>)\<rparr>"

lemma take_next_simps [simp]:
  "m_size (take_next x p) = m_size p" "m_nextFreeIndex (take_next x p) = m_nextFreeIndex p"
  by (simp_all add: take_next_def)

lemma take_next_used:
  assumes "pool_ok p"
  shows "pused (take_next x p) = insert (m_nextFreeIndex p) (pused p)" and "m_nextFreeIndex p \<notin> pused p"
  using assms by (auto simp: pool_ok_def pused_def take_next_def)

lemma take_next_room:
  assumes "pool_ok p" and "Suc (card (pused p)) < m_size p"
  shows "\<exists>k<m_size p. isFree (m_store (take_next x p) k)"
  using card_pused_free [of "take_next x p"] take_next_used [OF assms(1)] assms(2) by simp

lemma take_next_full:
  assumes "pool_ok p" and "Suc (card (pused p)) = m_size p"
  shows "\<forall>k<m_size p. \<not> isFree (m_store (take_next x p) k)"
proof -
  have "card (pused (take_next x p)) = m_size p"
    using take_next_used [OF assms(1)] assms(2) by simp
  moreover have "pused (take_next x p) \<subseteq> {..<m_size p}" by (auto simp: pused_def)
  ultimately have "pused (take_next x p) = {..<m_size p}" by (simp add: card_subset_eq)
  then have "k \<in> pused (take_next x p)" if "k < m_size p" for k using that by blast
  then show ?thesis unfolding pused_def by simp
qed

lemma Allocate_unfold:
  "pool_ok p \<Longrightarrow> Allocate x p = bindE (UpdateNextFreeIndex (take_next x p)) (\<lambda>p'. Inr (m_nextFreeIndex p, p'))"
  by (simp add: Allocate_def pool_ok_def take_next_def Let_def)

lemma Allocate_block: "Allocate x p = Inr (n, p') \<Longrightarrow> pobj p' n = x"
  by (auto simp: Allocate_def UpdateNextFreeIndex_def Let_def bindE_eq_Inr pobj_def split: if_splits)

lemma Allocate_ok:
  assumes ok: "pool_ok p" and room: "Suc (card (pused p)) < m_size p"
  obtains p' where "Allocate x p = Inr (m_nextFreeIndex p, p')"
    and "pool_ok p'" and "m_size p' = m_size p"
    and "pobj p' = (pobj p)(m_nextFreeIndex p := x)"
    and "pused p' = insert (m_nextFreeIndex p) (pused p)"
    and "m_nextFreeIndex p \<notin> pused p"
proof -
  let ?i = "m_nextFreeIndex p"
  have i: "?i < m_size p" using ok by (simp add: pool_ok_def)
  obtain k where "k < m_size p" "isFree (m_store (take_next x p) k)"
    using take_next_room [OF ok room] by blast
  then obtain j where j: "scan_free (take_next x p) ?i ?i = Inr j"
    using scan_free_complete [of ?i "take_next x p" ?i k] i to_visit_start [of ?i "m_size p"] by auto
  note f = scan_free_found [OF j]
  let ?p' = "take_next x p\<lparr>m_nextFreeIndex := j\<rparr>"
  show thesis
  proof (rule that)
    show "Allocate x p = Inr (?i, ?p')" using j by (simp add: Allocate_unfold [OF ok] UpdateNextFreeIndex_def)
    show "pool_ok ?p'" using f by (simp add: pool_ok_def)
    show "m_size ?p' = m_size p" by simp
    show "pobj ?p' = (pobj p)(?i := x)" by (auto simp: pobj_def take_next_def fun_eq_iff)
    show "pused ?p' = insert ?i (pused p)" using take_next_used(1) [OF ok] by (simp add: pused_def)
    show "?i \<notin> pused p" by (rule take_next_used(2) [OF ok])
  qed
qed

lemma Allocate_last:
  assumes ok: "pool_ok p" and full: "Suc (card (pused p)) = m_size p"
  shows "Allocate x p = Inl (AssertFailed ''Memory Pool out of space.'')"
proof -
  have "scan_free (take_next x p) (m_nextFreeIndex p) (m_nextFreeIndex p)
      = Inl (AssertFailed ''Memory Pool out of space.'')"
    using ok take_next_full [OF ok full] by (intro scan_free_full) (simp_all add: pool_ok_def)
  then show ?thesis by (simp add: Allocate_unfold [OF ok] UpdateNextFreeIndex_def)
qed

lemma Deallocate_ok:
  assumes "pool_ok p" and "i \<in> pused p"
  obtains p' where "Deallocate (Some i) p = Inr p'" and "pool_ok p'" and "m_size p' = m_size p"
    and "pobj p' = pobj p" and "pused p' = pused p - {i}"
proof
  let ?p' = "p\<lparr>m_store := (m_store p)(i := (m_store p i)\<lparr>isFree := True\<rparr>)\<rparr>"
  show "Deallocate (Some i) p = Inr ?p'" using assms by (simp add: Deallocate_def pused_def)
  show "pool_ok ?p'" using assms by (auto simp: pool_ok_def)
  show "m_size ?p' = m_size p" by simp
  show "pobj ?p' = pobj p" by (auto simp: pobj_def fun_eq_iff)
  show "pused ?p' = pused p - {i}" by (auto simp: pused_def)
qed

lemma Deallocate_not_live: "i \<notin> pused p \<Longrightarrow> \<exists>msg. Deallocate (Some i) p = Inl (AssertFailed msg)"
  by (auto simp: Deallocate_def pused_def ASSERT_def bindE_def)

section \<open>The contract the clients rely on\<close>

fun alloc_all :: "('a \<Rightarrow> 'p \<Rightarrow> (nat \<times> 'p) outcome) \<Rightarrow> 'a list \<Rightarrow> 'p \<Rightarrow> (nat list \<times> 'p) outcome" where
  "alloc_all alloc [] p = Inr ([], p)"
| "alloc_all alloc (x # xs) p =
     bindE (alloc x p) (\<lambda>(i, p1). bindE (alloc_all alloc xs p1) (\<lambda>(is, p2). Inr (i # is, p2)))"

locale object_pool =
  fixes alloc :: "'a \<Rightarrow> 'p \<Rightarrow> (nat \<times> 'p) outcome"
    and dealloc :: "ptr \<Rightarrow> 'p \<Rightarrow> 'p outcome"
    and ok :: "'p \<Rightarrow> bool"
    and live :: "'p \<Rightarrow> nat set"
    and capacity :: "'p \<Rightarrow> nat"
    and val :: "'p \<Rightarrow> nat \<Rightarrow> 'a"
  assumes live_finite: "ok p \<Longrightarrow> finite (live p)"
    and alloc_law: "ok p \<Longrightarrow> Suc (card (live p)) < capacity p \<Longrightarrow>
      \<exists>i p'. alloc x p = Inr (i, p') \<and> ok p' \<and> i \<notin> live p \<and> live p' = insert i (live p)
        \<and> val p' = (val p)(i := x) \<and> capacity p' = capacity p"
    and dealloc_law: "ok p \<Longrightarrow> i \<in> live p \<Longrightarrow>
      \<exists>p'. dealloc (Some i) p = Inr p' \<and> ok p' \<and> live p' = live p - {i} \<and> val p' = val p
        \<and> capacity p' = capacity p"
begin

text \<open>A block given back can be allocated again: the pool is as full as before.\<close>

lemma alloc_dealloc_live:
  assumes "ok p" and "Suc (card (live p)) < capacity p" and "alloc x p = Inr (i, p1)"
  shows "\<exists>p2. dealloc (Some i) p1 = Inr p2 \<and> ok p2 \<and> live p2 = live p \<and> capacity p2 = capacity p"
proof -
  have p1: "ok p1" "i \<notin> live p" "live p1 = insert i (live p)" "capacity p1 = capacity p"
    using alloc_law [OF assms(1,2), of x] assms(3) by auto
  then have "i \<in> live p1" by simp
  from dealloc_law [OF p1(1) this] show ?thesis using p1 by auto
qed

text \<open>Allocating a batch hands out distinct fresh blocks holding the requested objects.\<close>

lemma alloc_all_law:
  "ok p \<Longrightarrow> card (live p) + length xs < capacity p \<Longrightarrow>
    \<exists>is p'. alloc_all alloc xs p = Inr (is, p') \<and> ok p' \<and> length is = length xs \<and> distinct is
      \<and> set is \<inter> live p = {} \<and> live p' = live p \<union> set is
      \<and> (\<forall>k<length xs. val p' (is ! k) = xs ! k) \<and> (\<forall>j. j \<notin> set is \<longrightarrow> val p' j = val p j)"
proof (induction xs arbitrary: p)
  case Nil
  then show ?case by simp
next
  case (Cons x xs)
  from Cons.prems obtain i p1 where 1: "alloc x p = Inr (i, p1)" "ok p1" "i \<notin> live p"
    "live p1 = insert i (live p)" "val p1 = (val p)(i := x)" "capacity p1 = capacity p"
    using alloc_law [of p x] by auto
  have "card (live p1) + length xs < capacity p1"
    using Cons.prems 1 live_finite [of p] by simp
  from Cons.IH [OF 1(2) this] obtain "is" p2 where 2: "alloc_all alloc xs p1 = Inr (is, p2)"
    "ok p2" "length is = length xs" "distinct is" "set is \<inter> live p1 = {}" "live p2 = live p1 \<union> set is"
    "\<forall>k<length xs. val p2 (is ! k) = xs ! k" "\<forall>j. j \<notin> set is \<longrightarrow> val p2 j = val p1 j"
    by blast
  have "\<forall>k<length (x # xs). val p2 ((i # is) ! k) = (x # xs) ! k"
    using 1 2 by (auto simp: nth_Cons split: nat.splits)
  with 1 2 show ?case by (intro exI [of _ "i # is"] exI [of _ p2]) auto
qed

end

interpretation pool: object_pool Allocate Deallocate pool_ok pused m_size pobj
proof
  show "finite (pused p)" for p :: "'a CMemoryPool" by simp
  show "\<exists>i p'. Allocate x p = Inr (i, p') \<and> pool_ok p' \<and> i \<notin> pused p \<and> pused p' = insert i (pused p)
      \<and> pobj p' = (pobj p)(i := x) \<and> m_size p' = m_size p"
    if "pool_ok p" and "Suc (card (pused p)) < m_size p" for p :: "'a CMemoryPool" and x
    using Allocate_ok [OF that] by metis
  show "\<exists>p'. Deallocate (Some i) p = Inr p' \<and> pool_ok p' \<and> pused p' = pused p - {i} \<and> pobj p' = pobj p
      \<and> m_size p' = m_size p"
    if "pool_ok p" and "i \<in> pused p" for p :: "'a CMemoryPool" and i
    using Deallocate_ok [OF that] by metis
qed

end
