(* ===== verification/OptMemoryPool.thy ===== *)
theory OptMemoryPool
  imports MemoryPool
begin

text \<open>
  \<open>common/OptMemoryPool.h\<close>: the pool whose checks are compiled in only when \<open>NDEBUG\<close> is not
  defined (the parameter \<open>ndebug\<close>).  Without the check the search for a free block in a full pool
  never ends, so the search is a partial function: \<open>None\<close> is a loop that does not return.  Below
  the capacity limit both builds agree with \<open>CMemoryPool\<close>.
\<close>

type_synonym 'a COptMemPool = "'a CMemoryPool"

partial_function (option) opt_scan_free ::
    "bool \<Rightarrow> 'a COptMemPool \<Rightarrow> nat \<Rightarrow> nat \<Rightarrow> nat outcome option" where
  "opt_scan_free ndebug p i0 i =
     (if \<not> i < m_size p then Some (Inl OutOfBounds)
      else if isFree (m_store p i) then Some (Inr i)
      else if \<not> ndebug \<and> i0 = (if Suc i = m_size p then 0 else Suc i)
        then Some (Inl (AssertFailed ''Memory Pool out of space.''))
      else opt_scan_free ndebug p i0 (if Suc i = m_size p then 0 else Suc i))"

definition opt_UpdateNextFreeIndex :: "bool \<Rightarrow> 'a COptMemPool \<Rightarrow> 'a COptMemPool outcome option" where
  "opt_UpdateNextFreeIndex ndebug p =
     map_option (\<lambda>r. bindE r (\<lambda>i. Inr (p\<lparr>m_nextFreeIndex := i\<rparr>)))
       (opt_scan_free ndebug p (m_nextFreeIndex p) (m_nextFreeIndex p))"

definition opt_Allocate :: "bool \<Rightarrow> 'a \<Rightarrow> 'a COptMemPool \<Rightarrow> (nat \<times> 'a COptMemPool) outcome option" where
  "opt_Allocate ndebug x p =
     (let i = m_nextFreeIndex p
      in if \<not> i < m_size p then Some (Inl OutOfBounds)
         else if \<not> ndebug \<and> \<not> isFree (m_store p i)
           then Some (Inl (AssertFailed (''Expected free SObjectBlock at index:'' @ to_string_nat i)))
         else map_option (\<lambda>r. bindE r (\<lambda>p'. Inr (i, p')))
                (opt_UpdateNextFreeIndex ndebug
                  (p\<lparr>m_store := (m_store p)(i := \<lparr>object = x, isFree = False\<rparr>)\<rparr>)))"

definition opt_Deallocate :: "bool \<Rightarrow> ptr \<Rightarrow> 'a COptMemPool \<Rightarrow> 'a COptMemPool outcome" where
  "opt_Deallocate ndebug elem p =
     (case elem of
        None \<Rightarrow>
          if ndebug then Inl OutOfBounds
          else Inl (AssertFailed ''Element being deallocated does not belong to this Memory pool.'')
      | Some i \<Rightarrow>
          if \<not> i < m_size p
          then (if ndebug then Inl OutOfBounds
                else Inl (AssertFailed ''Element being deallocated does not belong to this Memory pool.''))
          else if \<not> ndebug \<and> isFree (m_store p i)
          then Inl (AssertFailed (''Expected in-use SObjectBlock at index:'' @ to_string_nat i))
          else Inr (p\<lparr>m_store := (m_store p)(i := (m_store p i)\<lparr>isFree := True\<rparr>)\<rparr>))"

section \<open>Agreement with the checked pool while a block is free\<close>

lemma opt_scan_free_eq:
  "i < m_size p \<Longrightarrow> i0 < m_size p \<Longrightarrow> k \<in> to_visit (m_size p) i0 i \<Longrightarrow> isFree (m_store p k)
    \<Longrightarrow> opt_scan_free ndebug p i0 i = Some (scan_free p i0 i)"
proof (induction p i0 i rule: scan_free.induct)
  case (1 p i0 i)
  define j where "j = (if Suc i = m_size p then 0 else Suc i)"
  show ?case
  proof (cases "isFree (m_store p i)")
    case True
    then show ?thesis using "1.prems" by (simp add: opt_scan_free.simps [of _ p i0 i] scan_free.simps [of p i0 i])
  next
    case False
    note visit = to_visit_step [OF "1.prems"(1,2), folded j_def]
    have "k \<noteq> i" using False "1.prems"(4) by auto
    then have ne: "i0 \<noteq> j" and k: "k \<in> to_visit (m_size p) i0 j"
      using "1.prems"(3) visit by (auto split: if_splits)
    have "j < m_size p" using "1.prems"(1) by (auto simp: j_def)
    then have "opt_scan_free ndebug p i0 j = Some (scan_free p i0 j)"
      using "1.IH" [OF _ False j_def ne] k "1.prems" by blast
    moreover have "scan_free p i0 i = scan_free p i0 j"
      using scan_free_step [OF "1.prems"(1,2) False j_def] ne by simp
    moreover have "opt_scan_free ndebug p i0 i = opt_scan_free ndebug p i0 j"
      using False ne "1.prems" unfolding j_def
      by (subst opt_scan_free.simps) (simp only: if_True if_False not_not HOL.simp_thms)
    ultimately show ?thesis by simp
  qed
qed

text \<open>With every block in use the unchecked search never returns.\<close>

lemma opt_scan_free_full:
  assumes "\<forall>k<m_size p. \<not> isFree (m_store p k)" and "i < m_size p"
  shows "opt_scan_free True p i0 i = None"
proof (rule ccontr)
  assume "opt_scan_free True p i0 i \<noteq> None"
  then obtain r where r: "opt_scan_free True p i0 i = Some r" by auto
  let ?P = "\<lambda>nd (q :: 'a CMemoryPool) (i0 :: nat) i (r :: nat outcome).
    nd \<and> i < m_size q \<and> (\<forall>k<m_size q. \<not> isFree (m_store q k)) \<longrightarrow> False"
  have "?P True p i0 i r"
  proof (rule opt_scan_free.raw_induct [where P = ?P, OF _ r])
    fix f nd q i0 i r
    assume IH: "\<And>nd (q :: 'a CMemoryPool) i0 i r. f nd q i0 i = Some r \<Longrightarrow> ?P nd q i0 i r"
      and eq: "(if \<not> i < m_size q then Some (Inl OutOfBounds)
        else if isFree (m_store q i) then Some (Inr i)
        else if \<not> nd \<and> i0 = (if Suc i = m_size q then 0 else Suc i)
          then Some (Inl (AssertFailed ''Memory Pool out of space.''))
        else f nd q i0 (if Suc i = m_size q then 0 else Suc i)) = Some r"
    show "?P nd q i0 i r"
    proof
      assume a: "nd \<and> i < m_size q \<and> (\<forall>k<m_size q. \<not> isFree (m_store q k))"
      then have "f nd q i0 (if Suc i = m_size q then 0 else Suc i) = Some r" using eq by simp
      moreover have "(if Suc i = m_size q then 0 else Suc i) < m_size q" using a by auto
      ultimately show False using IH a by blast
    qed
  qed
  then show False using assms by blast
qed

lemma opt_Allocate_unfold:
  "pool_ok p \<Longrightarrow> opt_Allocate ndebug x p =
    map_option (\<lambda>r. bindE r (\<lambda>p'. Inr (m_nextFreeIndex p, p'))) (opt_UpdateNextFreeIndex ndebug (take_next x p))"
  by (simp add: opt_Allocate_def pool_ok_def take_next_def Let_def)

lemma opt_Allocate_eq:
  assumes ok: "pool_ok p" and room: "Suc (card (pused p)) < m_size p"
  shows "opt_Allocate ndebug x p = Some (Allocate x p)"
proof -
  let ?i = "m_nextFreeIndex p"
  obtain k where "k < m_size p" "isFree (m_store (take_next x p) k)"
    using take_next_room [OF ok room] by blast
  moreover have i: "?i < m_size p" using ok by (simp add: pool_ok_def)
  ultimately have "opt_scan_free ndebug (take_next x p) ?i ?i = Some (scan_free (take_next x p) ?i ?i)"
    using to_visit_start [of ?i "m_size p"] by (intro opt_scan_free_eq [of _ _ _ k]) auto
  then show ?thesis
    by (simp add: opt_Allocate_unfold [OF ok] Allocate_unfold [OF ok]
        opt_UpdateNextFreeIndex_def UpdateNextFreeIndex_def)
qed

lemma opt_Allocate_last:
  assumes ok: "pool_ok p" and full: "Suc (card (pused p)) = m_size p"
  shows "opt_Allocate True x p = None"
proof -
  have "opt_scan_free True (take_next x p) (m_nextFreeIndex p) (m_nextFreeIndex p) = None"
    using ok take_next_full [OF ok full] by (intro opt_scan_free_full) (simp_all add: pool_ok_def)
  then show ?thesis by (simp add: opt_Allocate_unfold [OF ok] opt_UpdateNextFreeIndex_def)
qed

lemma opt_Deallocate_eq: "i \<in> pused p \<Longrightarrow> opt_Deallocate ndebug (Some i) p = Deallocate (Some i) p"
  by (simp add: opt_Deallocate_def Deallocate_def pused_def)

text \<open>
  The contract of the pool, for each build: a call that does not return is no outcome, so the
  allocation is read through \<open>the\<close> only where it is known to return.
\<close>

definition opt_alloc_returned :: "bool \<Rightarrow> 'a \<Rightarrow> 'a COptMemPool \<Rightarrow> (nat \<times> 'a COptMemPool) outcome" where
  "opt_alloc_returned ndebug x p = (case opt_Allocate ndebug x p of None \<Rightarrow> Inl Diverges | Some r \<Rightarrow> r)"

interpretation opt_pool: object_pool "opt_alloc_returned ndebug" "opt_Deallocate ndebug" pool_ok pused m_size pobj
  for ndebug :: bool
proof
  show "finite (pused p)" for p :: "'a CMemoryPool" by simp
  show "\<exists>i p'. opt_alloc_returned ndebug x p = Inr (i, p') \<and> pool_ok p' \<and> i \<notin> pused p
      \<and> pused p' = insert i (pused p) \<and> pobj p' = (pobj p)(i := x) \<and> m_size p' = m_size p"
    if "pool_ok p" and "Suc (card (pused p)) < m_size p" for p :: "'a CMemoryPool" and x
    using pool.alloc_law [OF that, of x] opt_Allocate_eq [OF that, of ndebug x]
    by (simp add: opt_alloc_returned_def)
  show "\<exists>p'. opt_Deallocate ndebug (Some i) p = Inr p' \<and> pool_ok p' \<and> pused p' = pused p - {i}
      \<and> pobj p' = pobj p \<and> m_size p' = m_size p"
    if "pool_ok p" and "i \<in> pused p" for p :: "'a CMemoryPool" and i
    using pool.dealloc_law [OF that] opt_Deallocate_eq [OF that(2), of ndebug] by simp
qed

end
