(* ===== verification/LockFreeQueue.thy ===== *)
theory LockFreeQueue
  imports Prelude
begin

text \<open>
  \<open>common/LockFreeQueue.h\<close>: the ring buffer that connects the threads.  The queue is the vector
  of slots (a function of the index together with the vector's size) and the three atomic
  counters.  This theory treats calls as atomic; the interleavings of one producer and one
  consumer are the subject of theory \<open>SpscQueue\<close>.

  The locale \<open>fifo_queue\<close> is what the components that own a queue rely on.  Its client lemmas
  cover writing a batch and the consumer loop that every thread runs
  (\<open>for (x = GetNextToRead(); size() && x; x = GetNextToRead()) { ...; UpdateReadIndex(); }\<close>).
\<close>

section \<open>The queue\<close>

record 'a CLockFreeQueue =
  q_store :: "nat \<Rightarrow> 'a"
  q_size :: nat
  m_nextWriteIndex :: nat
  m_nextReadIndex :: nat
  m_numElements :: nat

definition CLockFreeQueue_new :: "nat \<Rightarrow> 'a \<Rightarrow> 'a CLockFreeQueue" where
  "CLockFreeQueue_new numElements T =
     \<lparr>q_store = (\<lambda>_. T), q_size = numElements, m_nextWriteIndex = 0, m_nextReadIndex = 0, m_numElements = 0\<rparr>"

text \<open>\<open>GetNextToWriteTo\<close> returns a pointer to a slot; \<open>write_slot\<close> is the assignment through it.\<close>

definition GetNextToWriteTo :: "'a CLockFreeQueue \<Rightarrow> nat" where
  "GetNextToWriteTo q = m_nextWriteIndex q"

definition write_slot :: "nat \<Rightarrow> 'a \<Rightarrow> 'a CLockFreeQueue \<Rightarrow> 'a CLockFreeQueue" where
  "write_slot i x q = q\<lparr>q_store := (q_store q)(i := x)\<rparr>"

definition UpdateWriteIndex :: "'a CLockFreeQueue \<Rightarrow> 'a CLockFreeQueue" where
  "UpdateWriteIndex q =
     q\<lparr>m_nextWriteIndex := (m_nextWriteIndex q + 1) mod q_size q, m_numElements := m_numElements q + 1\<rparr>"

definition queue_size :: "'a CLockFreeQueue \<Rightarrow> nat" where
  "queue_size q = m_numElements q"

definition GetNextToRead :: "'a CLockFreeQueue \<Rightarrow> nat option" where
  "GetNextToRead q = (if queue_size q \<noteq> 0 then Some (m_nextReadIndex q) else None)"

definition UpdateReadIndex :: "'a CLockFreeQueue \<Rightarrow> 'a CLockFreeQueue outcome" where
  "UpdateReadIndex q =
     (let q1 = q\<lparr>m_nextReadIndex := (m_nextReadIndex q + 1) mod q_size q\<rparr>
      in bindE (ASSERT (m_numElements q1 \<noteq> 0) ''Read an invalid element'') (\<lambda>_.
         Inr (q1\<lparr>m_numElements := m_numElements q1 - 1\<rparr>)))"

text \<open>The producers' idiom: \<open>*GetNextToWriteTo() = x; UpdateWriteIndex();\<close>\<close>

definition enqueue :: "'a \<Rightarrow> 'a CLockFreeQueue \<Rightarrow> 'a CLockFreeQueue" where
  "enqueue x q = UpdateWriteIndex (write_slot (GetNextToWriteTo q) x q)"

text \<open>The consumers' idiom: the element behind the pointer, if there is one.\<close>

definition front :: "'a CLockFreeQueue \<Rightarrow> 'a option" where
  "front q = map_option (q_store q) (GetNextToRead q)"

text \<open>
  The consumer loop with the body \<open>h\<close>.  Each round removes one element, so the number of rounds
  \<open>n\<close> is enough as soon as it exceeds the number of elements.
\<close>

fun drain :: "nat \<Rightarrow> ('q \<Rightarrow> 'a option) \<Rightarrow> ('q \<Rightarrow> 'q outcome) \<Rightarrow> ('a \<Rightarrow> 's \<Rightarrow> 's outcome) \<Rightarrow> 'q \<Rightarrow> 's
    \<Rightarrow> ('q \<times> 's) outcome" where
  "drain 0 rd rm h q s = Inl Diverges"
| "drain (Suc n) rd rm h q s =
     (case rd q of
        None \<Rightarrow> Inr (q, s)
      | Some x \<Rightarrow> bindE (h x s) (\<lambda>s'. bindE (rm q) (\<lambda>q'. drain n rd rm h q' s')))"

section \<open>The contract\<close>

locale fifo_queue =
  fixes enq :: "'a \<Rightarrow> 'q \<Rightarrow> 'q"
    and first :: "'q \<Rightarrow> 'a option"
    and pop :: "'q \<Rightarrow> 'q outcome"
    and contents :: "'q \<Rightarrow> 'a list"
    and ok :: "'q \<Rightarrow> bool"
    and capacity :: "'q \<Rightarrow> nat"
  assumes enq_law: "ok q \<Longrightarrow> length (contents q) < capacity q \<Longrightarrow>
      ok (enq x q) \<and> contents (enq x q) = contents q @ [x] \<and> capacity (enq x q) = capacity q"
    and first_law: "ok q \<Longrightarrow> first q = (case contents q of [] \<Rightarrow> None | x # xs \<Rightarrow> Some x)"
    and pop_law: "ok q \<Longrightarrow> contents q = x # xs \<Longrightarrow>
      \<exists>q'. pop q = Inr q' \<and> ok q' \<and> contents q' = xs \<and> capacity q' = capacity q"
    and pop_empty_law: "ok q \<Longrightarrow> contents q = [] \<Longrightarrow> \<exists>e. pop q = Inl e"
begin

lemma enq_all:
  "ok q \<Longrightarrow> length (contents q) + length xs \<le> capacity q \<Longrightarrow>
    ok (fold enq xs q) \<and> contents (fold enq xs q) = contents q @ xs \<and> capacity (fold enq xs q) = capacity q"
proof (induction xs arbitrary: q)
  case Nil
  then show ?case by simp
next
  case (Cons x xs)
  then have 1: "ok (enq x q)" "contents (enq x q) = contents q @ [x]" "capacity (enq x q) = capacity q"
    using enq_law [of q x] by auto
  show ?case using Cons.IH [OF 1(1)] 1 Cons.prems by simp
qed

text \<open>
  The consumer loop hands the elements to the body in the order in which they were written, once
  each, and leaves the queue empty; it stops early exactly when the body fails.
\<close>

lemma drain_law:
  "ok q \<Longrightarrow> length (contents q) < n \<Longrightarrow>
    (case foldE h (contents q) s of
       Inl e \<Rightarrow> drain n first pop h q s = Inl e
     | Inr s' \<Rightarrow> \<exists>q'. drain n first pop h q s = Inr (q', s') \<and> ok q' \<and> contents q' = [] \<and> capacity q' = capacity q)"
proof (induction "contents q" arbitrary: q s n)
  case Nil
  then obtain m where "n = Suc m" by (cases n) auto
  then show ?case using first_law [OF Nil.prems(1)] Nil by (auto simp flip: Nil.hyps)
next
  case (Cons x xs)
  then obtain m where n: "n = Suc m" by (cases n) auto
  have c: "contents q = x # xs" using Cons.hyps(2) by simp
  from pop_law [OF Cons.prems(1) c] obtain q' where q': "pop q = Inr q'" "ok q'" "contents q' = xs"
    "capacity q' = capacity q" by blast
  have f: "first q = Some x" using first_law [OF Cons.prems(1)] c by simp
  show ?case
  proof (cases "h x s")
    case (Inl e)
    then show ?thesis using n f c by simp
  next
    case (Inr s1)
    then have step: "drain n first pop h q s = drain m first pop h q' s1" using n f q'(1) by simp
    have "length (contents q') < m" using Cons.prems(2) c n q'(3) by simp
    from Cons.hyps(1) [OF q'(3)[symmetric] q'(2) this, of s1] show ?thesis
      using step Inr c q' by (simp split: sum.splits)
  qed
qed

end

section \<open>The ring buffer keeps the contract\<close>

definition contents :: "'a CLockFreeQueue \<Rightarrow> 'a list" where
  "contents q = map (\<lambda>k. q_store q ((m_nextReadIndex q + k) mod q_size q)) [0..<m_numElements q]"

definition queue_ok :: "'a CLockFreeQueue \<Rightarrow> bool" where
  "queue_ok q \<longleftrightarrow> 0 < q_size q \<and> m_nextReadIndex q < q_size q \<and> m_numElements q \<le> q_size q
     \<and> m_nextWriteIndex q = (m_nextReadIndex q + m_numElements q) mod q_size q"

lemma length_contents [simp]: "length (contents q) = m_numElements q"
  by (simp add: contents_def)

lemma contents_new [simp]: "contents (CLockFreeQueue_new n T) = []"
  by (simp add: contents_def CLockFreeQueue_new_def)

lemma q_size_new [simp]: "q_size (CLockFreeQueue_new n T) = n"
  by (simp add: CLockFreeQueue_new_def)

lemma queue_ok_new: "0 < n \<Longrightarrow> queue_ok (CLockFreeQueue_new n T)"
  by (simp add: queue_ok_def CLockFreeQueue_new_def)

lemma q_size_enqueue [simp]: "q_size (enqueue x q) = q_size q"
  by (simp add: enqueue_def UpdateWriteIndex_def write_slot_def)

text \<open>Two positions less than a full turn apart are different slots.\<close>

lemma mod_slot_neq:
  assumes "j < k" "k - j < n"
  shows "(j :: nat) mod n \<noteq> k mod n"
proof
  assume "j mod n = k mod n"
  then have "n dvd k - j" using assms(1) by (metis less_imp_le mod_eq_dvd_iff_nat)
  then show False using assms by (auto dest: dvd_imp_le)
qed

lemma enqueue_ok:
  assumes "queue_ok q" "m_numElements q < q_size q"
  shows "queue_ok (enqueue x q)" and "contents (enqueue x q) = contents q @ [x]"
proof -
  let ?n = "q_size q" and ?r = "m_nextReadIndex q" and ?m = "m_numElements q"
  have w: "m_nextWriteIndex q = (?r + ?m) mod ?n" using assms by (simp add: queue_ok_def)
  have "Suc (m_nextWriteIndex q) mod ?n = (?r + Suc ?m) mod ?n"
    unfolding w by (simp add: mod_Suc_eq)
  then show "queue_ok (enqueue x q)" using assms
    by (simp add: queue_ok_def enqueue_def UpdateWriteIndex_def write_slot_def GetNextToWriteTo_def)
  have "(?r + k) mod ?n \<noteq> (?r + ?m) mod ?n" if "k < ?m" for k
    using that assms by (intro mod_slot_neq) auto
  then show "contents (enqueue x q) = contents q @ [x]"
    by (simp add: contents_def enqueue_def UpdateWriteIndex_def write_slot_def GetNextToWriteTo_def w)
qed

lemma contents_Cons:
  assumes "0 < m_numElements q" and "m_nextReadIndex q < q_size q"
  shows "contents q = q_store q (m_nextReadIndex q) #
    map (\<lambda>k. q_store q ((m_nextReadIndex q + Suc k) mod q_size q)) [0..<m_numElements q - 1]"
proof -
  obtain m where m: "m_numElements q = Suc m" using assms(1) by (cases "m_numElements q") auto
  show ?thesis using assms(2)
    by (simp add: contents_def m upt_conv_Cons map_Suc_upt [symmetric] del: upt_Suc map_Suc_upt)
qed

lemma UpdateReadIndex_ok:
  assumes ok: "queue_ok q" and c: "contents q = x # xs"
  shows "\<exists>q'. UpdateReadIndex q = Inr q' \<and> queue_ok q' \<and> contents q' = xs \<and> q_size q' = q_size q"
proof -
  let ?n = "q_size q" and ?r = "m_nextReadIndex q"
  have m: "0 < m_numElements q" using c length_contents [of q] by (metis length_greater_0_conv list.distinct(1))
  let ?q' = "q\<lparr>m_nextReadIndex := Suc ?r mod ?n, m_numElements := m_numElements q - 1\<rparr>"
  have "UpdateReadIndex q = Inr ?q'" using m by (simp add: UpdateReadIndex_def Let_def)
  moreover have "(Suc ?r mod ?n + (m_numElements q - 1)) mod ?n = (?r + m_numElements q) mod ?n"
    using m mod_add_left_eq [of "Suc ?r" ?n "m_numElements q - 1"] by simp
  then have "queue_ok ?q'" using ok m by (auto simp: queue_ok_def)
  moreover have "contents ?q' = xs"
    using contents_Cons [of q] m ok c by (simp add: queue_ok_def contents_def mod_add_left_eq)
  ultimately show ?thesis by simp
qed

interpretation lfq: fifo_queue enqueue front UpdateReadIndex contents queue_ok q_size
proof
  show "queue_ok (enqueue x q) \<and> contents (enqueue x q) = contents q @ [x] \<and> q_size (enqueue x q) = q_size q"
    if "queue_ok q" "length (contents q) < q_size q" for q :: "'a CLockFreeQueue" and x
    using enqueue_ok [OF that(1)] that(2) by simp
  show "front q = (case contents q of [] \<Rightarrow> None | x # xs \<Rightarrow> Some x)" if "queue_ok q" for q :: "'a CLockFreeQueue"
    using that contents_Cons [of q]
    by (cases "m_numElements q = 0")
      (auto simp: front_def GetNextToRead_def queue_size_def contents_def queue_ok_def)
  show "\<exists>q'. UpdateReadIndex q = Inr q' \<and> queue_ok q' \<and> contents q' = xs \<and> q_size q' = q_size q"
    if "queue_ok q" "contents q = x # xs" for q :: "'a CLockFreeQueue" and x xs
    by (rule UpdateReadIndex_ok [OF that])
  show "\<exists>e. UpdateReadIndex q = Inl e" if "queue_ok q" "contents q = []" for q :: "'a CLockFreeQueue"
    using that length_contents [of q] by (simp add: UpdateReadIndex_def Let_def)
qed

end
