(* ===== verification/SpscQueue.thy ===== *)
theory SpscQueue
  imports LockFreeQueue
begin

text \<open>
  One producer thread and one consumer thread on a \<open>CLockFreeQueue\<close>, with every access to shared
  memory as its own step: the producer fills the slot, advances \<open>m_nextWriteIndex\<close> and increments
  \<open>m_numElements\<close>; the consumer tests \<open>size()\<close>, uses the slot behind the pointer, advances
  \<open>m_nextReadIndex\<close>, and checks and decrements \<open>m_numElements\<close>.  The counters are
  \<open>std::atomic\<close> with the default (sequentially consistent) order, so a run is an interleaving of
  the steps.

  The producer never tests for a full queue: the premise of \<open>w_fill\<close> is what the callers have to
  ensure by choosing the capacity.
\<close>

datatype wpc = W_idle | W_filled | W_indexed

datatype 'a rpc = R_idle | R_got 'a | R_indexed

record 'a spsc =
  queue :: "'a CLockFreeQueue"
  writer :: wpc
  reader :: "'a rpc"
  produced :: "'a list"
  consumed :: "'a list"

definition spsc_init :: "nat \<Rightarrow> 'a \<Rightarrow> 'a spsc" where
  "spsc_init n T = \<lparr>queue = CLockFreeQueue_new n T, writer = W_idle, reader = R_idle,
     produced = [], consumed = []\<rparr>"

inductive spsc_step :: "'a spsc \<Rightarrow> 'a spsc \<Rightarrow> bool" where
  w_fill: "writer s = W_idle \<Longrightarrow> m_numElements (queue s) < q_size (queue s) \<Longrightarrow>
    spsc_step s (s\<lparr>queue := write_slot (GetNextToWriteTo (queue s)) x (queue s),
                   writer := W_filled, produced := produced s @ [x]\<rparr>)"
| w_index: "writer s = W_filled \<Longrightarrow>
    spsc_step s (s\<lparr>queue := (queue s)\<lparr>m_nextWriteIndex := (m_nextWriteIndex (queue s) + 1) mod q_size (queue s)\<rparr>,
                   writer := W_indexed\<rparr>)"
| w_count: "writer s = W_indexed \<Longrightarrow>
    spsc_step s (s\<lparr>queue := (queue s)\<lparr>m_numElements := m_numElements (queue s) + 1\<rparr>, writer := W_idle\<rparr>)"
| r_get: "reader s = R_idle \<Longrightarrow> GetNextToRead (queue s) = Some i \<Longrightarrow>
    spsc_step s (s\<lparr>reader := R_got (q_store (queue s) i)\<rparr>)"
| r_index: "reader s = R_got x \<Longrightarrow>
    spsc_step s (s\<lparr>queue := (queue s)\<lparr>m_nextReadIndex := (m_nextReadIndex (queue s) + 1) mod q_size (queue s)\<rparr>,
                   reader := R_indexed,
                   consumed := consumed s @ [q_store (queue s) (m_nextReadIndex (queue s))]\<rparr>)"
| r_count: "reader s = R_indexed \<Longrightarrow> m_numElements (queue s) \<noteq> 0 \<Longrightarrow>
    spsc_step s (s\<lparr>queue := (queue s)\<lparr>m_numElements := m_numElements (queue s) - 1\<rparr>, reader := R_idle\<rparr>)"

inductive spsc_reachable :: "nat \<Rightarrow> 'a \<Rightarrow> 'a spsc \<Rightarrow> bool" for n T where
  start: "spsc_reachable n T (spsc_init n T)"
| step: "spsc_reachable n T s \<Longrightarrow> spsc_step s t \<Longrightarrow> spsc_reachable n T t"

inductive_cases spsc_idle_stepE: "spsc_step s (s\<lparr>writer := W_idle\<rparr>)"

section \<open>The invariant\<close>

text \<open>
  \<open>committed\<close> elements are counted in by the producer, \<open>released\<close> ones counted out by the
  consumer; the slots between them hold the produced elements, and the indices are the two list
  lengths modulo the size.
\<close>

definition committed :: "'a spsc \<Rightarrow> nat" where
  "committed s = length (produced s) - (if writer s = W_idle then 0 else 1)"

definition released :: "'a spsc \<Rightarrow> nat" where
  "released s = length (consumed s) - (if reader s = R_indexed then 1 else 0)"

definition spsc_inv :: "nat \<Rightarrow> 'a spsc \<Rightarrow> bool" where
  "spsc_inv n s \<longleftrightarrow>
     0 < n \<and> q_size (queue s) = n
     \<and> (writer s \<noteq> W_idle \<longrightarrow> produced s \<noteq> [])
     \<and> (reader s = R_indexed \<longrightarrow> consumed s \<noteq> [])
     \<and> committed s = released s + m_numElements (queue s)
     \<and> length (produced s) \<le> released s + n
     \<and> length (consumed s) + (case reader s of R_got x \<Rightarrow> 1 | _ \<Rightarrow> 0) \<le> committed s
     \<and> m_nextReadIndex (queue s) = length (consumed s) mod n
     \<and> m_nextWriteIndex (queue s) = (length (produced s) - (if writer s = W_filled then 1 else 0)) mod n
     \<and> (\<forall>k. length (consumed s) \<le> k \<longrightarrow> k < length (produced s) \<longrightarrow> q_store (queue s) (k mod n) = produced s ! k)
     \<and> consumed s = take (length (consumed s)) (produced s)
     \<and> (\<forall>x. reader s = R_got x \<longrightarrow> x = produced s ! length (consumed s))"

lemma spsc_inv_init: "0 < n \<Longrightarrow> spsc_inv n (spsc_init n T)"
  by (simp add: spsc_inv_def spsc_init_def CLockFreeQueue_new_def committed_def released_def)

lemma spsc_w_fill:
  assumes inv: "spsc_inv n s" and w: "writer s = W_idle" and room: "m_numElements (queue s) < q_size (queue s)"
  shows "spsc_inv n (s\<lparr>queue := write_slot (GetNextToWriteTo (queue s)) x (queue s),
                       writer := W_filled, produced := produced s @ [x]\<rparr>)" (is "spsc_inv n ?t")
proof -
  let ?p = "length (produced s)" and ?c = "length (consumed s)"
  have rel: "released ?t = released s" "released s \<le> ?c" by (auto simp: released_def)
  have com: "committed s = ?p" "committed ?t = ?p" using w by (simp_all add: committed_def)
  have facts: "?p = released s + m_numElements (queue s)" "q_size (queue s) = n" "?c \<le> ?p"
    "consumed s = take ?c (produced s)" "m_nextWriteIndex (queue s) = ?p mod n"
    using inv w com(1) by (auto simp: spsc_inv_def)
  have "k mod n \<noteq> ?p mod n" if "?c \<le> k" "k < ?p" for k
    using that facts(1,2) room rel(2) by (intro mod_slot_neq) linarith+
  then have slots: "\<forall>k. ?c \<le> k \<longrightarrow> k < length (produced ?t) \<longrightarrow> q_store (queue ?t) (k mod n) = produced ?t ! k"
    using inv facts(5) by (auto simp: spsc_inv_def write_slot_def GetNextToWriteTo_def nth_append less_Suc_eq)
  have got: "?c < ?p \<and> v = produced s ! ?c" if "reader s = R_got v" for v
    using inv that com(1) by (simp add: spsc_inv_def)
  have n: "0 < n" "m_nextReadIndex (queue s) = ?c mod n" "reader s = R_indexed \<longrightarrow> consumed s \<noteq> []"
    "?c + (case reader s of R_got x \<Rightarrow> 1 | _ \<Rightarrow> 0) \<le> ?p"
    using inv com(1) by (simp_all add: spsc_inv_def)
  have pre: "consumed s = take ?c (produced s @ [x])" using facts(3,4) by simp
  show ?thesis unfolding spsc_inv_def
  proof (intro conjI)
    show "\<forall>k. length (consumed ?t) \<le> k \<longrightarrow> k < length (produced ?t) \<longrightarrow> q_store (queue ?t) (k mod n) = produced ?t ! k"
      using slots by simp
    show "\<forall>v. reader ?t = R_got v \<longrightarrow> v = produced ?t ! length (consumed ?t)"
      using got by (auto simp: nth_append)
  qed (use n pre facts rel com room in \<open>simp_all add: write_slot_def\<close>)
qed

lemma spsc_w_index:
  assumes inv: "spsc_inv n s" and w: "writer s = W_filled"
  shows "spsc_inv n (s\<lparr>queue := (queue s)\<lparr>m_nextWriteIndex := (m_nextWriteIndex (queue s) + 1) mod q_size (queue s)\<rparr>,
                       writer := W_indexed\<rparr>)"
proof -
  have "produced s \<noteq> []" using inv w by (simp add: spsc_inv_def)
  then have "Suc ((length (produced s) - 1) mod n) mod n = length (produced s) mod n"
    by (simp add: mod_Suc_eq)
  then show ?thesis using inv w
    by (simp add: spsc_inv_def committed_def released_def)
qed

lemma spsc_w_count:
  assumes inv: "spsc_inv n s" and w: "writer s = W_indexed"
  shows "spsc_inv n (s\<lparr>queue := (queue s)\<lparr>m_numElements := m_numElements (queue s) + 1\<rparr>, writer := W_idle\<rparr>)"
proof -
  have "produced s \<noteq> []" using inv w by (simp add: spsc_inv_def)
  then have "Suc (length (produced s) - Suc 0) = length (produced s)" by (cases "produced s") auto
  then show ?thesis using inv w
    by (auto simp: spsc_inv_def committed_def released_def)
qed

lemma spsc_r_get:
  assumes inv: "spsc_inv n s" and r: "reader s = R_idle" and i: "GetNextToRead (queue s) = Some i"
  shows "spsc_inv n (s\<lparr>reader := R_got (q_store (queue s) i)\<rparr>)"
proof -
  let ?p = "length (produced s)" and ?c = "length (consumed s)"
  have m: "m_numElements (queue s) \<noteq> 0" "i = ?c mod n"
    using inv i by (auto simp: GetNextToRead_def queue_size_def spsc_inv_def split: if_splits)
  have "?c < committed s" using inv r m(1) by (simp add: spsc_inv_def released_def)
  moreover have "committed s \<le> ?p" by (simp add: committed_def)
  ultimately have "?c < ?p" by simp
  then have "q_store (queue s) i = produced s ! ?c" using inv m(2) by (simp add: spsc_inv_def)
  with \<open>?c < committed s\<close> show ?thesis using inv r
    by (simp add: spsc_inv_def committed_def released_def)
qed

lemma spsc_r_index:
  assumes inv: "spsc_inv n s" and r: "reader s = R_got x"
  shows "spsc_inv n (s\<lparr>queue := (queue s)\<lparr>m_nextReadIndex := (m_nextReadIndex (queue s) + 1) mod q_size (queue s)\<rparr>,
                       reader := R_indexed,
                       consumed := consumed s @ [q_store (queue s) (m_nextReadIndex (queue s))]\<rparr>)"
proof -
  let ?p = "length (produced s)" and ?c = "length (consumed s)"
  have "?c < committed s" using inv r by (simp add: spsc_inv_def)
  moreover have "committed s \<le> ?p" by (simp add: committed_def)
  ultimately have c: "?c < ?p" by simp
  then have v: "q_store (queue s) (?c mod n) = produced s ! ?c"
    using inv by (simp add: spsc_inv_def)
  have t: "take ?c (produced s) @ [produced s ! ?c] = take (Suc ?c) (produced s)"
    using c by (simp add: take_Suc_conv_app_nth)
  have cons: "consumed s = take ?c (produced s)" using inv by (simp add: spsc_inv_def)
  have pre: "consumed s @ [q_store (queue s) (?c mod n)] = take (Suc ?c) (produced s)"
    using cons t v by metis
  have lc: "min ?p (Suc ?c) = Suc ?c" and ne: "produced s \<noteq> []" using c by auto
  show ?thesis
    using inv r \<open>?c < committed s\<close>
    by (simp add: spsc_inv_def committed_def released_def mod_Suc_eq pre lc ne)
qed

lemma spsc_r_count:
  assumes inv: "spsc_inv n s" and r: "reader s = R_indexed" and m: "m_numElements (queue s) \<noteq> 0"
  shows "spsc_inv n (s\<lparr>queue := (queue s)\<lparr>m_numElements := m_numElements (queue s) - 1\<rparr>, reader := R_idle\<rparr>)"
proof -
  have "consumed s \<noteq> []" using inv r by (simp add: spsc_inv_def)
  then have "Suc (length (consumed s) - Suc 0) = length (consumed s)" by (cases "consumed s") auto
  then show ?thesis using inv r m
    by (auto simp: spsc_inv_def committed_def released_def)
qed

lemma spsc_step_inv:
  assumes "spsc_step s t" and "spsc_inv n s"
  shows "spsc_inv n t"
  using assms
proof (induction rule: spsc_step.induct)
  case (w_fill s x)
  then show ?case by (intro spsc_w_fill)
next
  case (w_index s)
  then show ?case by (intro spsc_w_index)
next
  case (w_count s)
  then show ?case by (intro spsc_w_count)
next
  case (r_get s i)
  then show ?case by (intro spsc_r_get)
next
  case (r_index s x)
  then show ?case by (intro spsc_r_index)
next
  case (r_count s)
  then show ?case by (intro spsc_r_count)
qed

lemma spsc_reachable_inv:
  assumes "spsc_reachable n T s" and "0 < n"
  shows "spsc_inv n s"
  using assms
proof (induction rule: spsc_reachable.induct)
  case start
  then show ?case by (rule spsc_inv_init)
next
  case (step s t)
  then show ?case by (blast intro: spsc_step_inv)
qed

text \<open>The count the consumer is about to decrement is never zero.\<close>

lemma spsc_inv_count: "spsc_inv n s \<Longrightarrow> reader s = R_indexed \<Longrightarrow> m_numElements (queue s) \<noteq> 0"
  by (cases "consumed s") (auto simp: spsc_inv_def released_def)

end
