(* ===== verification/Types.thy ===== *)
theory Types
  imports Prelude
begin

text \<open>
  \<open>common/Types.h\<close>: the integer types shared by exchange and clients (kept at their width), their
  invalid sentinels, the enumerations, the conversions to text, and the container bounds.
  Prices are signed 64-bit values; the code only compares them and reduces them modulo the number
  of price levels, and comparisons read the word with \<open>sint\<close>.
\<close>

section \<open>Container bounds\<close>

definition ME_MAX_TICKERS :: nat where "ME_MAX_TICKERS = 8"
definition ME_MAX_CLIENT_UPDATES :: nat where "ME_MAX_CLIENT_UPDATES = 256 * 1024"
definition ME_MAX_MARKET_UPDATES :: nat where "ME_MAX_MARKET_UPDATES = 256 * 1024"
definition ME_MAX_NUM_CLIENTS :: nat where "ME_MAX_NUM_CLIENTS = 256"
definition ME_MAX_ORDER_IDS :: nat where "ME_MAX_ORDER_IDS = 1024 * 1024"
definition ME_MAX_PRICE_LEVELS :: nat where "ME_MAX_PRICE_LEVELS = 256"

lemmas bounds_defs = ME_MAX_TICKERS_def ME_MAX_CLIENT_UPDATES_def ME_MAX_MARKET_UPDATES_def
  ME_MAX_NUM_CLIENTS_def ME_MAX_ORDER_IDS_def ME_MAX_PRICE_LEVELS_def

section \<open>Identifiers and quantities\<close>

type_synonym OrderId = "64 word"
type_synonym TickerId = "32 word"
type_synonym ClientId = "32 word"
type_synonym Price = "64 word"
type_synonym Qty = "32 word"
type_synonym Priority = "64 word"
type_synonym Nanos = "64 word"

definition OrderId_INVALID :: OrderId where "OrderId_INVALID = - 1"
definition TickerId_INVALID :: TickerId where "TickerId_INVALID = - 1"
definition ClientId_INVALID :: ClientId where "ClientId_INVALID = - 1"
definition Price_INVALID :: Price where "Price_INVALID = 2 ^ 63 - 1"
definition Qty_INVALID :: Qty where "Qty_INVALID = - 1"
definition Priority_INVALID :: Priority where "Priority_INVALID = - 1"

lemmas invalid_defs = OrderId_INVALID_def TickerId_INVALID_def ClientId_INVALID_def
  Price_INVALID_def Qty_INVALID_def Priority_INVALID_def

definition to_string_int :: "int \<Rightarrow> string" where
  "to_string_int i = (if i < 0 then CHR ''-'' # to_string_nat (nat (- i)) else to_string_nat (nat i))"

definition OrderIdToString :: "OrderId \<Rightarrow> string" where
  "OrderIdToString orderId =
     (if orderId = OrderId_INVALID then ''INVALID'' else to_string_nat (unat orderId))"

definition TickerIdToString :: "TickerId \<Rightarrow> string" where
  "TickerIdToString tickerId =
     (if tickerId = TickerId_INVALID then ''INVALID'' else to_string_nat (unat tickerId))"

definition ClientIdToString :: "ClientId \<Rightarrow> string" where
  "ClientIdToString clientId =
     (if clientId = ClientId_INVALID then ''INVALID'' else to_string_nat (unat clientId))"

definition PriceToString :: "Price \<Rightarrow> string" where
  "PriceToString price =
     (if price = Price_INVALID then ''INVALID'' else to_string_int (sint price))"

definition QtyToString :: "Qty \<Rightarrow> string" where
  "QtyToString qty =
     (if qty = Qty_INVALID then ''INVALID'' else to_string_nat (unat qty))"

definition PriorityToString :: "Priority \<Rightarrow> string" where
  "PriorityToString priority =
     (if priority = Priority_INVALID then ''INVALID'' else to_string_nat (unat priority))"

section \<open>Enumerations\<close>

datatype ESide = Side_INVALID | BUY | SELL | Side_MAX

fun SideToString :: "ESide \<Rightarrow> string" where
  "SideToString BUY = ''BUY''"
| "SideToString SELL = ''SELL''"
| "SideToString Side_INVALID = ''INVALID''"
| "SideToString Side_MAX = ''MAX''"

text \<open>The underlying \<open>int8_t\<close> value of the enumerator.\<close>

fun SideToValue :: "ESide \<Rightarrow> int" where
  "SideToValue Side_INVALID = 0"
| "SideToValue BUY = 1"
| "SideToValue SELL = - 1"
| "SideToValue Side_MAX = 2"

text \<open>\<open>static_cast<size_t>(side) + 1\<close>: the cast of \<open>-1\<close> wraps and the addition wraps back to 0.\<close>

definition SideToIndex :: "ESide \<Rightarrow> 64 word" where
  "SideToIndex side = word_of_int (SideToValue side) + 1"

datatype EAlgoType = Algo_INVALID | RANDOM | MAKER | TAKER | Algo_MAX

fun AlgoTypeToString :: "EAlgoType \<Rightarrow> string" where
  "AlgoTypeToString RANDOM = ''RANDOM''"
| "AlgoTypeToString MAKER = ''MAKER''"
| "AlgoTypeToString TAKER = ''TAKER''"
| "AlgoTypeToString Algo_INVALID = ''INVALID''"
| "AlgoTypeToString Algo_MAX = ''MAX''"

text \<open>The loop of \<open>StringToAlgoType\<close> tries the enumerators from \<open>INVALID\<close> to \<open>MAX\<close> in turn.\<close>

definition algo_types :: "EAlgoType list" where
  "algo_types = [Algo_INVALID, RANDOM, MAKER, TAKER, Algo_MAX]"

definition StringToAlgoType :: "string \<Rightarrow> EAlgoType" where
  "StringToAlgoType str =
     (case find (\<lambda>t. AlgoTypeToString t = str) algo_types of Some t \<Rightarrow> t | None \<Rightarrow> Algo_INVALID)"

text \<open>Enumerators compare by their underlying value.\<close>

lemma SideToValue_inj: "SideToValue a = SideToValue b \<longleftrightarrow> a = b"
  by (cases a; cases b) simp_all

instantiation ESide :: linorder
begin

definition less_eq_ESide :: "ESide \<Rightarrow> ESide \<Rightarrow> bool" where
  "less_eq_ESide a b \<longleftrightarrow> SideToValue a \<le> SideToValue b"

definition less_ESide :: "ESide \<Rightarrow> ESide \<Rightarrow> bool" where
  "less_ESide a b \<longleftrightarrow> SideToValue a < SideToValue b"

instance
  by standard (auto simp: less_eq_ESide_def less_ESide_def SideToValue_inj)

end

section \<open>Printing is faithful\<close>

lemma digit_inj: "a < 10 \<Longrightarrow> b < 10 \<Longrightarrow> digit a = digit b \<Longrightarrow> a = b"
proof -
  assume "a < 10" "b < 10" "digit a = digit b"
  then have "of_char (digit a) = (of_char (digit b) :: nat)" by simp
  with \<open>a < 10\<close> \<open>b < 10\<close> show "a = b" by (simp add: digit_def)
qed

lemma to_string_nat_small: "n < 10 \<Longrightarrow> to_string_nat n = [digit n]"
  by (simp add: to_string_nat.simps)

lemma to_string_nat_large: "\<not> n < 10 \<Longrightarrow> to_string_nat n = to_string_nat (n div 10) @ [digit (n mod 10)]"
  by (simp add: to_string_nat.simps [of n])

lemma to_string_nat_ne: "to_string_nat n \<noteq> []"
  by (simp add: to_string_nat.simps [of n])

lemma to_string_nat_inj: "to_string_nat m = to_string_nat n \<Longrightarrow> m = n"
proof (induction m arbitrary: n rule: less_induct)
  case (less m)
  show ?case
  proof (cases "m < 10 \<or> n < 10")
    case True
    with less.prems show ?thesis
      using to_string_nat_ne [of "m div 10"] to_string_nat_ne [of "n div 10"]
      by (cases "m < 10"; cases "n < 10")
        (auto simp: to_string_nat_small to_string_nat_large dest: digit_inj)
  next
    case False
    then have m: "\<not> m < 10" and n: "\<not> n < 10" by auto
    from less.prems have "to_string_nat (m div 10) = to_string_nat (n div 10)"
      and d: "digit (m mod 10) = digit (n mod 10)"
      by (simp_all add: to_string_nat_large [OF m] to_string_nat_large [OF n])
    then have "m div 10 = n div 10" using less.IH [of "m div 10"] m by auto
    moreover have "m mod 10 = n mod 10" using d by (auto intro: digit_inj)
    ultimately show ?thesis by (metis div_mult_mod_eq)
  qed
qed

lemma to_string_nat_digits: "c \<in> set (to_string_nat n) \<Longrightarrow> \<exists>d<10. c = digit d"
proof (induction n rule: to_string_nat.induct)
  case (1 n)
  then show ?case
    by (cases "n < 10") (auto simp: to_string_nat_small to_string_nat_large intro: exI [of _ "n mod 10"])
qed

lemma digit_not_letter: "d < 10 \<Longrightarrow> digit d \<noteq> CHR ''I'' \<and> digit d \<noteq> CHR ''-''"
proof -
  assume "d < 10"
  then have "of_char (digit d) = 48 + d" by (simp add: digit_def)
  then have "of_char (digit d) \<noteq> (73 :: nat)" "of_char (digit d) \<noteq> (45 :: nat)" using \<open>d < 10\<close> by simp_all
  moreover have "of_char CHR ''I'' = (73 :: nat)" "of_char CHR ''-'' = (45 :: nat)" by simp_all
  ultimately show ?thesis by metis
qed

lemma to_string_nat_not_INVALID: "to_string_nat n \<noteq> ''INVALID''"
proof
  assume "to_string_nat n = ''INVALID''"
  then have "CHR ''I'' \<in> set (to_string_nat n)" by simp
  from to_string_nat_digits [OF this] digit_not_letter show False by metis
qed

lemma to_string_nat_not_minus: "to_string_nat n \<noteq> CHR ''-'' # s"
proof
  assume "to_string_nat n = CHR ''-'' # s"
  then have "CHR ''-'' \<in> set (to_string_nat n)" by simp
  from to_string_nat_digits [OF this] digit_not_letter show False by metis
qed

lemma to_string_int_inj: "to_string_int i = to_string_int j \<Longrightarrow> i = j"
  by (auto simp: to_string_int_def to_string_nat_not_minus split: if_splits dest: to_string_nat_inj)
    (metis to_string_nat_not_minus)+

lemma to_string_int_not_INVALID: "to_string_int i \<noteq> ''INVALID''"
  by (simp add: to_string_int_def to_string_nat_not_INVALID)

lemma unsigned_string_inj:
  "(if a = x then ''INVALID'' else to_string_nat (unat a)) = (if b = x then ''INVALID'' else to_string_nat (unat b))
    \<longleftrightarrow> a = b"
  for a b x :: "'n::len word"
  using to_string_nat_not_INVALID [of "unat a"] to_string_nat_not_INVALID [of "unat b"]
    to_string_nat_inj [of "unat a" "unat b"]
  by (auto simp: word_unat_eq_iff)

lemma OrderIdToString_inj: "OrderIdToString a = OrderIdToString b \<longleftrightarrow> a = b"
  unfolding OrderIdToString_def by (rule unsigned_string_inj)

lemma PriceToString_inj: "PriceToString a = PriceToString b \<longleftrightarrow> a = b"
  using to_string_int_not_INVALID [of "sint a"] to_string_int_not_INVALID [of "sint b"]
    to_string_int_inj [of "sint a" "sint b"]
  by (auto simp: PriceToString_def intro: signed_word_eqI)

section \<open>Indices of the sides\<close>

lemma SideToIndex_simps [simp]:
  "SideToIndex SELL = 0" "SideToIndex Side_INVALID = 1" "SideToIndex BUY = 2" "SideToIndex Side_MAX = 3"
  by (simp_all add: SideToIndex_def)

lemma SideToIndex_inj: "SideToIndex a = SideToIndex b \<longleftrightarrow> a = b"
  by (cases a; cases b) simp_all

end
