(* ===== verification/CommonProperties.thy ===== *)
theory CommonProperties
  imports OptMemoryPool SpscQueue Types
begin

text \<open>
  The properties of the shared containers of \<open>common/\<close>: the two memory pools, the lock-free queue
  and its interleavings, and the printing of identifiers and prices.
\<close>

lemma map_val_list:
  "length is = length xs \<Longrightarrow> (\<forall>k<length xs. f (is ! k) = xs ! k) \<Longrightarrow> map f is = xs"
  by (rule nth_equalityI) auto

text \<open>Filling a fresh pool up to its last block.\<close>

lemma fill_pool:
  "\<exists>is p. alloc_all Allocate xs (CMemoryPool_new (Suc (length xs)) T) = Inr (is, p) \<and> pool_ok p
    \<and> distinct is \<and> map (pobj p) is = xs \<and> m_size p = Suc (length xs) \<and> card (pused p) = length xs"
proof -
  let ?p = "CMemoryPool_new (Suc (length xs)) T"
  have ok: "pool_ok ?p" by (rule pool_ok_new) simp
  have room: "card (pused ?p) + length xs < m_size ?p" by simp
  obtain "is" p where p: "alloc_all Allocate xs ?p = Inr (is, p)" "pool_ok p" "length is = length xs" "distinct is"
    "pused p = pused ?p \<union> set is" "\<forall>k<length xs. pobj p (is ! k) = xs ! k"
    using pool.alloc_all_law [OF ok room] by blast
  have "alloc_all Allocate ys q = Inr (js, q') \<Longrightarrow> pool_ok q \<Longrightarrow> card (pused q) + length ys < m_size q \<Longrightarrow> m_size q' = m_size q"
    for ys js and q q' :: "'a CMemoryPool"
  proof (induction ys arbitrary: q js)
    case (Cons y ys)
    have "Suc (card (pused q)) < m_size q" using Cons.prems(3) by simp
    from Allocate_ok [OF Cons.prems(2) this, of y] obtain q1 where q1: "Allocate y q = Inr (m_nextFreeIndex q, q1)"
      "pool_ok q1" "m_size q1 = m_size q" "pused q1 = insert (m_nextFreeIndex q) (pused q)" "m_nextFreeIndex q \<notin> pused q" by blast
    from Cons.prems(1) q1(1) obtain js' where js': "alloc_all Allocate ys q1 = Inr (js', q')"
      by (auto simp: bindE_eq_Inr)
    have "card (pused q1) + length ys < m_size q1" using Cons.prems(3) q1 by simp
    then show ?case using Cons.IH [OF js' q1(2)] q1(3) by simp
  qed simp
  then have "m_size p = Suc (length xs)" using p(1) ok room by (metis m_size_new)
  moreover have "card (pused p) = length xs" using p(3,4,5) by (simp add: distinct_card)
  ultimately show ?thesis using p map_val_list by blast
qed

text \<open>C35: a \<open>CMemoryPool\<close> built for \<open>n + 1\<close> elements hands out \<open>n\<close> distinct blocks that hold the requested
  objects, and the next \<open>Allocate\<close> stops the process with \<open>Memory Pool out of space.\<close>: one block can
  never be used.\<close>

theorem pool_capacity:
  "\<exists>is p. alloc_all Allocate xs (CMemoryPool_new (Suc (length xs)) T) = Inr (is, p)
    \<and> distinct is \<and> map (pobj p) is = xs
    \<and> Allocate y p = Inl (AssertFailed ''Memory Pool out of space.'')"
  using fill_pool [of xs T] Allocate_last [of _ y] by metis

text \<open>C36: \<open>COptMemPool\<close> in a release build: after the same \<open>n\<close> allocations the next one never returns, since
  the search for a free block has lost its wrap-around check.\<close>

theorem opt_pool_full_diverges:
  "\<exists>is p. alloc_all (opt_alloc_returned True) xs (CMemoryPool_new (Suc (length xs)) T) = Inr (is, p)
    \<and> map (pobj p) is = xs \<and> opt_Allocate True y p = None"
proof -
  obtain "is" p where p: "alloc_all Allocate xs (CMemoryPool_new (Suc (length xs)) T) = Inr (is, p)" "pool_ok p"
    "map (pobj p) is = xs" "m_size p = Suc (length xs)" "card (pused p) = length xs" using fill_pool [of xs T] by blast
  have "pool_ok q \<Longrightarrow> card (pused q) + length ys < m_size q \<Longrightarrow>
      alloc_all (opt_alloc_returned True) ys q = alloc_all Allocate ys q" for ys and q :: "'a CMemoryPool"
  proof (induction ys arbitrary: q)
    case (Cons y ys)
    have room: "Suc (card (pused q)) < m_size q" using Cons.prems(2) by simp
    from Allocate_ok [OF Cons.prems(1) room, of y] obtain q1 where q1: "Allocate y q = Inr (m_nextFreeIndex q, q1)"
      "pool_ok q1" "m_size q1 = m_size q" "pused q1 = insert (m_nextFreeIndex q) (pused q)" "m_nextFreeIndex q \<notin> pused q" by blast
    have "alloc_all (opt_alloc_returned True) ys q1 = alloc_all Allocate ys q1"
      using Cons.IH [OF q1(2)] Cons.prems(2) q1 by simp
    moreover have "opt_alloc_returned True y q = Allocate y q"
      using opt_Allocate_eq [OF Cons.prems(1) room, of True y] by (simp add: opt_alloc_returned_def)
    ultimately show ?case using q1(1) by simp
  qed simp
  then have "alloc_all (opt_alloc_returned True) xs (CMemoryPool_new (Suc (length xs)) T) = Inr (is, p)"
    using p(1) by (simp add: pool_ok_new)
  then show ?thesis using p opt_Allocate_last [of p y] by auto
qed

text \<open>While at least two blocks are free, both builds of \<open>COptMemPool::Allocate\<close> return, with the same block
  and pool as \<open>CMemoryPool::Allocate\<close>.\<close>

theorem opt_pool_agrees:
  assumes "pool_ok p" and "Suc (card (pused p)) < m_size p"
  shows "opt_Allocate ndebug x p = Some (Allocate x p)"
  by (rule opt_Allocate_eq [OF assms])

theorem opt_pool_agrees_witness:
  "opt_Allocate True (7 :: nat) (CMemoryPool_new 3 0) = Some (Allocate 7 (CMemoryPool_new 3 0))"
  by (rule opt_pool_agrees) (simp_all add: pool_ok_new)

text \<open>C23: everything written to a \<open>CLockFreeQueue\<close> that is large enough is read back by the consumer loop once
  each and in order, and the loop ends with an empty queue.\<close>

theorem queue_roundtrip:
  "\<exists>q. drain (Suc (length xs)) front UpdateReadIndex (\<lambda>x s. Inr (s @ [x]))
       (fold enqueue xs (CLockFreeQueue_new (Suc (length xs)) T)) [] = Inr (q, xs) \<and> contents q = []"
proof -
  let ?q = "CLockFreeQueue_new (Suc (length xs)) T"
  have q: "queue_ok (fold enqueue xs ?q)" "contents (fold enqueue xs ?q) = xs"
    using lfq.enq_all [of ?q xs] queue_ok_new [of "Suc (length xs)" T] by simp_all
  have "foldE (\<lambda>x s. Inr (s @ [x])) ys s = Inr (s @ ys)" for ys s :: "'a list"
    by (induction ys arbitrary: s) simp_all
  then show ?thesis using lfq.drain_law [OF q(1), of "Suc (length xs)" "\<lambda>x s. Inr (s @ [x])" "[]"] q(2)
    by (auto simp: q(2))
qed

text \<open>C22: in every interleaving of one producer and one consumer on a \<open>CLockFreeQueue\<close> that is never overfilled,
  what the consumer has read is a prefix of what the producer has written, and the assertion in
  \<open>UpdateReadIndex\<close> does not fire.\<close>

theorem spsc_fifo:
  assumes "spsc_reachable n T s" and "0 < n"
  shows "consumed s = take (length (consumed s)) (produced s)
    \<and> (reader s = R_indexed \<longrightarrow> m_numElements (queue s) \<noteq> 0)
    \<and> (\<forall>x. reader s = R_got x \<longrightarrow> x = produced s ! length (consumed s))"
proof -
  have inv: "spsc_inv n s" using spsc_reachable_inv [OF assms] .
  then show ?thesis using spsc_inv_count [OF inv] by (simp add: spsc_inv_def)
qed

theorem spsc_fifo_witness:
  "let s = (spsc_init 4 (0 :: nat))\<lparr>queue := write_slot 0 9 (CLockFreeQueue_new 4 0), writer := W_filled, produced := [9]\<rparr>
   in consumed s = take (length (consumed s)) (produced s)"
proof -
  let ?s = "(spsc_init 4 0)\<lparr>queue := write_slot 0 9 (CLockFreeQueue_new 4 0), writer := W_filled, produced := [9]\<rparr> :: nat spsc"
  let ?i = "spsc_init 4 0 :: nat spsc"
  have "spsc_step ?i (?i\<lparr>queue := write_slot (GetNextToWriteTo (queue ?i)) 9 (queue ?i),
                   writer := W_filled, produced := produced ?i @ [9]\<rparr>)"
    by (rule w_fill) (simp_all add: spsc_init_def CLockFreeQueue_new_def)
  then have "spsc_step (spsc_init 4 0) ?s"
    by (simp add: spsc_init_def CLockFreeQueue_new_def GetNextToWriteTo_def)
  then have "spsc_reachable 4 0 ?s" by (rule spsc_reachable.step [OF spsc_reachable.start])
  from spsc_fifo [OF this] show ?thesis by (simp add: Let_def)
qed

text \<open>Printing loses nothing: two prices (or two order ids) that print the same are equal, the invalid
  sentinels included.\<close>

theorem printing_injective:
  "(PriceToString p = PriceToString q \<longleftrightarrow> p = q) \<and> (OrderIdToString a = OrderIdToString b \<longleftrightarrow> a = b)"
  by (simp add: PriceToString_inj OrderIdToString_inj)

text \<open>\<open>StringToAlgoType\<close> reads back what \<open>AlgoTypeToString\<close> prints, and answers \<open>INVALID\<close> for any other
  text; \<open>SideToIndex\<close> maps the enumerators to the distinct indices 0 to 3.\<close>

theorem enums_roundtrip:
  "StringToAlgoType (AlgoTypeToString t) = t
    \<and> (s \<notin> range AlgoTypeToString \<longrightarrow> StringToAlgoType s = Algo_INVALID)
    \<and> unat (SideToIndex a) < 4 \<and> (SideToIndex a = SideToIndex b \<longleftrightarrow> a = b)"
proof -
  have "StringToAlgoType (AlgoTypeToString t) = t" by (cases t) (simp_all add: StringToAlgoType_def algo_types_def)
  moreover have "StringToAlgoType s = Algo_INVALID" if "s \<notin> range AlgoTypeToString"
  proof -
    have "\<not> (\<exists>t. t \<in> set algo_types \<and> AlgoTypeToString t = s)" using that by blast
    then have "find (\<lambda>t. AlgoTypeToString t = s) algo_types = None" unfolding find_None_iff by blast
    then show ?thesis by (simp add: StringToAlgoType_def)
  qed
  moreover have "unat (SideToIndex a) < 4" by (cases a) simp_all
  ultimately show ?thesis by (simp add: SideToIndex_inj)
qed

theorem enums_roundtrip_witness:
  "StringToAlgoType (AlgoTypeToString MAKER) = MAKER \<and> StringToAlgoType ''FAST'' = Algo_INVALID
    \<and> unat (SideToIndex BUY) < 4 \<and> SideToIndex BUY \<noteq> SideToIndex SELL"
proof -
  have "AlgoTypeToString t \<noteq> ''FAST''" for t by (cases t) simp_all
  then have "''FAST'' \<notin> range AlgoTypeToString" by (metis rangeE)
  then show ?thesis using enums_roundtrip [of MAKER "''FAST''" BUY SELL] by simp
qed

end
