(* ===== verification/Logging.thy ===== *)
theory Logging
  imports LockFreeQueue Types
begin

text \<open>
  \<open>common/Logging.h\<close> and \<open>common/OptLogging.h\<close>: the loggers.  A call of \<open>Log\<close> substitutes its arguments for
  the \<open>%\<close> signs of the format string and writes the result, one element per character or number, to a
  queue; a background thread (\<open>FlushQueue\<close>) writes the elements to the file.  The optimised logger writes a
  string argument as one element with room for 255 characters.  How a \<open>double\<close> is printed is a parameter.
\<close>

section \<open>Elements\<close>

definition LOG_QUEUE_SIZE :: nat where "LOG_QUEUE_SIZE = 8 * 1024 * 1024"

datatype 'd SLogElement =
    LOG_CHAR char
  | INTEGER "32 word"
  | LONG_INTEGER "64 word"
  | LONG_LONG_INTEGER "64 word"
  | UNSIGNED_INTEGER "32 word"
  | UNSIGNED_LONG_INTEGER "64 word"
  | UNSIGNED_LONG_LONG_INTEGER "64 word"
  | FLOAT 'd
  | DOUBLE 'd

text \<open>What the stream operator of \<open>FlushQueue\<close> writes for an element.\<close>

fun log_text :: "('d \<Rightarrow> string) \<Rightarrow> 'd SLogElement \<Rightarrow> string" where
  "log_text pd (LOG_CHAR c) = [c]"
| "log_text pd (INTEGER i) = to_string_int (sint i)"
| "log_text pd (LONG_INTEGER l) = to_string_int (sint l)"
| "log_text pd (LONG_LONG_INTEGER ll) = to_string_int (sint ll)"
| "log_text pd (UNSIGNED_INTEGER u) = to_string_nat (unat u)"
| "log_text pd (UNSIGNED_LONG_INTEGER ul) = to_string_nat (unat ul)"
| "log_text pd (UNSIGNED_LONG_LONG_INTEGER ull) = to_string_nat (unat ull)"
| "log_text pd (FLOAT f) = pd f"
| "log_text pd (DOUBLE d) = pd d"

datatype 'd OptLogElement = Primitive "'d SLogElement" | STRING string

fun opt_log_text :: "('d \<Rightarrow> string) \<Rightarrow> 'd OptLogElement \<Rightarrow> string" where
  "opt_log_text pd (Primitive e) = log_text pd e"
| "opt_log_text pd (STRING s) = s"

text \<open>An argument of \<open>Log\<close> selects an overload of \<open>PushValue\<close>: a primitive value, or a string.\<close>

datatype 'd log_arg = ArgElem "'d SLogElement" | ArgString string

definition c_str :: "string \<Rightarrow> string" where
  "c_str s = takeWhile (\<lambda>c. c \<noteq> CHR 0x00) s"

section \<open>The loggers\<close>

record 'e CLogger =
  m_file :: string
  log_queue :: "'e CLockFreeQueue"

definition CLogger_new :: "string \<Rightarrow> bool \<Rightarrow> bool \<Rightarrow> 'd SLogElement CLogger outcome" where
  "CLogger_new fileName is_open thread_started =
     bindE (ASSERT is_open (''Could not open log file:'' @ fileName)) (\<lambda>_.
     bindE (ASSERT thread_started ''Failed to start CLogger thread.'') (\<lambda>_.
     Inr \<lparr>m_file = [], log_queue = CLockFreeQueue_new LOG_QUEUE_SIZE (LOG_CHAR (CHR 0x00))\<rparr>))"

definition COptLogger_new :: "string \<Rightarrow> bool \<Rightarrow> bool \<Rightarrow> 'd OptLogElement CLogger outcome" where
  "COptLogger_new fileName is_open thread_started =
     bindE (ASSERT is_open (''Could not open log file:'' @ fileName)) (\<lambda>_.
     bindE (ASSERT thread_started ''Failed to start COptLogger thread.'') (\<lambda>_.
     Inr \<lparr>m_file = [], log_queue = CLockFreeQueue_new LOG_QUEUE_SIZE (Primitive (LOG_CHAR (CHR 0x00)))\<rparr>))"

definition PushValue :: "'e \<Rightarrow> 'e CLogger \<Rightarrow> 'e CLogger" where
  "PushValue logElement l = l\<lparr>log_queue := enqueue logElement (log_queue l)\<rparr>"

fun PushArg :: "'d log_arg \<Rightarrow> 'd SLogElement CLogger \<Rightarrow> 'd SLogElement CLogger" where
  "PushArg (ArgElem e) l = PushValue e l"
| "PushArg (ArgString s) l = fold (\<lambda>c. PushValue (LOG_CHAR c)) (c_str s) l"

fun opt_PushArg :: "'d log_arg \<Rightarrow> 'd OptLogElement CLogger \<Rightarrow> 'd OptLogElement CLogger" where
  "opt_PushArg (ArgElem e) l = PushValue (Primitive e) l"
| "opt_PushArg (ArgString s) l = PushValue (STRING (take 255 (c_str s))) l"

text \<open>
  The two overloads of \<open>Log\<close>, with and without arguments, walk along the format string in the same way; it
  is the list of the characters before the terminating null.
\<close>

fun log_loop :: "(char \<Rightarrow> 'l \<Rightarrow> 'l) \<Rightarrow> ('a \<Rightarrow> 'l \<Rightarrow> 'l) \<Rightarrow> string \<Rightarrow> 'a list \<Rightarrow> 'l \<Rightarrow> 'l outcome" where
  "log_loop pc pa [] [] l = Inr l"
| "log_loop pc pa [] (value # args) l = FATAL ''extra arguments provided to log()''"
| "log_loop pc pa (c # s) args l =
     (if c = CHR ''%''
      then if s \<noteq> [] \<and> hd s = CHR ''%'' then log_loop pc pa (tl s) args (pc (hd s) l)
           else (case args of
                   [] \<Rightarrow> FATAL ''missing arguments to log()''
                 | value # args' \<Rightarrow> log_loop pc pa s args' (pa value l))
      else log_loop pc pa s args (pc c l))"

definition Log :: "string \<Rightarrow> 'd log_arg list \<Rightarrow> 'd SLogElement CLogger \<Rightarrow> 'd SLogElement CLogger outcome" where
  "Log szBuffer args l = log_loop (\<lambda>c. PushValue (LOG_CHAR c)) PushArg szBuffer args l"

definition opt_Log :: "string \<Rightarrow> 'd log_arg list \<Rightarrow> 'd OptLogElement CLogger \<Rightarrow> 'd OptLogElement CLogger outcome" where
  "opt_Log s args l = log_loop (\<lambda>c. PushValue (Primitive (LOG_CHAR c))) opt_PushArg s args l"

text \<open>One round of the loop of \<open>FlushQueue\<close>.\<close>

definition flush_with :: "('e \<Rightarrow> string) \<Rightarrow> 'e CLogger \<Rightarrow> 'e CLogger outcome" where
  "flush_with show_elem l =
     bindE (drain (Suc (m_numElements (log_queue l))) front UpdateReadIndex (\<lambda>e f. Inr (f @ show_elem e)) (log_queue l) (m_file l)) (\<lambda>(q, f).
     Inr (l\<lparr>m_file := f, log_queue := q\<rparr>))"

definition FlushQueue :: "('d \<Rightarrow> string) \<Rightarrow> 'd SLogElement CLogger \<Rightarrow> 'd SLogElement CLogger outcome" where
  "FlushQueue pd = flush_with (log_text pd)"

definition opt_FlushQueue :: "('d \<Rightarrow> string) \<Rightarrow> 'd OptLogElement CLogger \<Rightarrow> 'd OptLogElement CLogger outcome" where
  "opt_FlushQueue pd = flush_with (opt_log_text pd)"

section \<open>What a call writes\<close>

text \<open>A format string is a list of characters to copy and places to fill.\<close>

datatype piece = Lit char | Hole

fun pieces :: "string \<Rightarrow> piece list" where
  "pieces (CHR ''%'' # CHR ''%'' # s) = Lit (CHR ''%'') # pieces s"
| "pieces (c # s) = (if c = CHR ''%'' then Hole else Lit c) # pieces s"
| "pieces [] = []"

definition holes :: "string \<Rightarrow> nat" where
  "holes s = length (filter (\<lambda>p. p = Hole) (pieces s))"

fun fill :: "piece list \<Rightarrow> string list \<Rightarrow> string" where
  "fill (Lit c # ps) ts = c # fill ps ts"
| "fill (Hole # ps) (t # ts) = t @ fill ps ts"
| "fill _ _ = []"

lemma pieces_Cons:
  "pieces (c # s) = (if c = CHR ''%'' then if s \<noteq> [] \<and> hd s = CHR ''%'' then Lit (CHR ''%'') # pieces (tl s) else Hole # pieces s
     else Lit c # pieces s)"
  by (cases "(c # s)" rule: pieces.cases) auto

text \<open>The elements a call writes, besides those of its arguments.\<close>

definition literals :: "string \<Rightarrow> nat" where
  "literals s = length (filter (\<lambda>p. p \<noteq> Hole) (pieces s))"

lemma piece_counts [simp]: "holes [] = 0" "literals [] = 0"
  by (simp_all add: holes_def literals_def)

lemma piece_counts_Cons:
  "holes (c # s) = (if c = CHR ''%'' then if s \<noteq> [] \<and> hd s = CHR ''%'' then holes (tl s) else Suc (holes s) else holes s)"
  "literals (c # s) = (if c = CHR ''%'' then if s \<noteq> [] \<and> hd s = CHR ''%'' then Suc (literals (tl s)) else literals s else Suc (literals s))"
  by (simp_all add: holes_def literals_def pieces_Cons)

text \<open>Too few or too many arguments stop the process, whatever the state of the logger.\<close>

lemma log_loop_mismatch:
  "holes s < length args \<Longrightarrow> log_loop pc pa s args l = FATAL ''extra arguments provided to log()''"
  "length args < holes s \<Longrightarrow> log_loop pc pa s args l = FATAL ''missing arguments to log()''"
  by (induction pc pa s args l rule: log_loop.induct) (auto simp: piece_counts_Cons split: list.splits if_splits)

section \<open>Sinks for characters and arguments\<close>

locale log_sink =
  fixes pc :: "char \<Rightarrow> 'l \<Rightarrow> 'l"
    and pa :: "'a \<Rightarrow> 'l \<Rightarrow> 'l"
    and shown :: "'l \<Rightarrow> string"
    and room :: "'l \<Rightarrow> nat"
    and ok :: "'l \<Rightarrow> bool"
    and arg_text :: "'a \<Rightarrow> string"
    and arg_cost :: "'a \<Rightarrow> nat"
  assumes pc_law: "ok l \<Longrightarrow> 1 \<le> room l \<Longrightarrow> ok (pc c l) \<and> shown (pc c l) = shown l @ [c] \<and> room (pc c l) + 1 = room l"
    and pa_law: "ok l \<Longrightarrow> arg_cost a \<le> room l \<Longrightarrow>
      ok (pa a l) \<and> shown (pa a l) = shown l @ arg_text a \<and> room (pa a l) + arg_cost a = room l"
begin

definition cost :: "string \<times> 'a list \<Rightarrow> nat" where
  "cost r = literals (fst r) + sum_list (map arg_cost (snd r))"

definition line :: "string \<times> 'a list \<Rightarrow> string" where
  "line r = fill (pieces (fst r)) (map arg_text (snd r))"

lemma log_loop_writes:
  "holes s = length args \<Longrightarrow> ok l \<Longrightarrow> cost (s, args) \<le> room l \<Longrightarrow>
    \<exists>l'. log_loop pc pa s args l = Inr l' \<and> ok l' \<and> shown l' = shown l @ line (s, args) \<and> room l' + cost (s, args) = room l"
proof (induction "length s" arbitrary: s args l rule: less_induct)
  case less
  show ?case
  proof (cases s)
    case Nil
    then show ?thesis using less.prems by (simp add: cost_def line_def)
  next
    case (Cons c t)
    consider (escape) "c = CHR ''%''" "t \<noteq> []" "hd t = CHR ''%''" | (hole) "c = CHR ''%''" "\<not> (t \<noteq> [] \<and> hd t = CHR ''%'')"
      | (lit) "c \<noteq> CHR ''%''" by blast
    then show ?thesis
    proof cases
      case escape
      have *: "length (tl t) < length s" "holes (tl t) = length args" "cost (s, args) = Suc (cost (tl t, args))"
        using less.prems(1) Cons escape by (simp_all add: piece_counts_Cons cost_def)
      have "ok (pc c l)" "shown (pc c l) = shown l @ [c]" "room (pc c l) + 1 = room l" "cost (tl t, args) \<le> room (pc c l)"
        using pc_law [OF less.prems(2), of c] less.prems(3) *(3) by auto
      then show ?thesis using less.hyps [OF *(1,2), of "pc c l"] Cons escape *(3) by (auto simp: line_def pieces_Cons)
    next
      case hole
      then obtain a as where args: "args = a # as" using less.prems(1) Cons by (cases args) (auto simp: piece_counts_Cons)
      have *: "length t < length s" "holes t = length as" "cost (s, args) = arg_cost a + cost (t, as)"
        using less.prems(1) Cons hole args by (auto simp: piece_counts_Cons cost_def)
      have "ok (pa a l)" "shown (pa a l) = shown l @ arg_text a" "room (pa a l) + arg_cost a = room l" "cost (t, as) \<le> room (pa a l)"
        using pa_law [OF less.prems(2), of a] less.prems(3) *(3) by auto
      then show ?thesis using less.hyps [OF *(1,2), of "pa a l"] Cons hole args *(3) by (auto simp: line_def pieces_Cons)
    next
      case lit
      have *: "length t < length s" "holes t = length args" "cost (s, args) = Suc (cost (t, args))"
        using less.prems(1) Cons lit by (simp_all add: piece_counts_Cons cost_def)
      have "ok (pc c l)" "shown (pc c l) = shown l @ [c]" "room (pc c l) + 1 = room l" "cost (t, args) \<le> room (pc c l)"
        using pc_law [OF less.prems(2), of c] less.prems(3) *(3) by auto
      then show ?thesis using less.hyps [OF *(1,2), of "pc c l"] Cons lit *(3) by (auto simp: line_def pieces_Cons)
    qed
  qed
qed

text \<open>A sequence of calls.\<close>

lemma log_all:
  "\<forall>r\<in>set rs. holes (fst r) = length (snd r) \<Longrightarrow> ok l \<Longrightarrow> sum_list (map cost rs) \<le> room l \<Longrightarrow>
    \<exists>l'. foldE (\<lambda>r. log_loop pc pa (fst r) (snd r)) rs l = Inr l' \<and> ok l' \<and> shown l' = shown l @ concat (map line rs)"
proof (induction rs arbitrary: l)
  case (Cons r rs)
  then have "cost (fst r, snd r) \<le> room l" by simp
  from log_loop_writes [OF _ Cons.prems(2) this] Cons.prems(1)
  obtain l1 where 1: "log_loop pc pa (fst r) (snd r) l = Inr l1" "ok l1" "shown l1 = shown l @ line r" "room l1 + cost r = room l"
    by auto
  have "sum_list (map cost rs) \<le> room l1" using Cons.prems(3) 1(4) by simp
  from Cons.IH [OF _ 1(2) this] Cons.prems(1) show ?case using 1 by auto
qed simp

end

section \<open>The two loggers as sinks\<close>

text \<open>What the file will hold when the queue is empty, and the free slots.\<close>

definition shown_text :: "('e \<Rightarrow> string) \<Rightarrow> 'e CLogger \<Rightarrow> string" where
  "shown_text show_elem l = m_file l @ concat (map show_elem (contents (log_queue l)))"

definition free_slots :: "'e CLogger \<Rightarrow> nat" where
  "free_slots l = q_size (log_queue l) - length (contents (log_queue l))"

definition logger_ok :: "'e CLogger \<Rightarrow> bool" where
  "logger_ok l \<longleftrightarrow> queue_ok (log_queue l)"

lemma PushValue_law:
  assumes "logger_ok l" and "1 \<le> free_slots l"
  shows "logger_ok (PushValue e l) \<and> shown_text show_elem (PushValue e l) = shown_text show_elem l @ show_elem e
    \<and> free_slots (PushValue e l) + 1 = free_slots l"
  using assms lfq.enq_law [of "log_queue l" e]
  by (simp add: logger_ok_def free_slots_def shown_text_def PushValue_def del: length_contents)

lemma PushValue_all:
  "logger_ok l \<Longrightarrow> length es \<le> free_slots l \<Longrightarrow>
    logger_ok (fold PushValue es l) \<and> shown_text show_elem (fold PushValue es l) = shown_text show_elem l @ concat (map show_elem es)
    \<and> free_slots (fold PushValue es l) + length es = free_slots l"
proof (induction es arbitrary: l)
  case (Cons e es)
  then show ?case using PushValue_law [of l e show_elem] Cons.IH [of "PushValue e l"] by auto
qed simp

fun arg_text :: "('d \<Rightarrow> string) \<Rightarrow> 'd log_arg \<Rightarrow> string" where
  "arg_text pd (ArgElem e) = log_text pd e"
| "arg_text pd (ArgString s) = c_str s"

fun arg_cost :: "'d log_arg \<Rightarrow> nat" where
  "arg_cost (ArgElem e) = 1"
| "arg_cost (ArgString s) = length (c_str s)"

fun opt_arg_text :: "('d \<Rightarrow> string) \<Rightarrow> 'd log_arg \<Rightarrow> string" where
  "opt_arg_text pd (ArgElem e) = log_text pd e"
| "opt_arg_text pd (ArgString s) = take 255 (c_str s)"

interpretation logger: log_sink "\<lambda>c. PushValue (LOG_CHAR c)" PushArg "shown_text (log_text pd)" free_slots logger_ok "arg_text pd" arg_cost
  for pd :: "'d \<Rightarrow> string"
proof
  show "logger_ok (PushValue (LOG_CHAR c) l) \<and> shown_text (log_text pd) (PushValue (LOG_CHAR c) l) = shown_text (log_text pd) l @ [c]
      \<and> free_slots (PushValue (LOG_CHAR c) l) + 1 = free_slots l" if "logger_ok l" "1 \<le> free_slots l" for l c
    using PushValue_law [OF that, of "LOG_CHAR c" "log_text pd"] by simp
  have fold: "fold (\<lambda>c. PushValue (LOG_CHAR c)) cs l = fold PushValue (map LOG_CHAR cs) l" for cs and l :: "'d SLogElement CLogger"
    by (simp add: fold_map comp_def)
  show "logger_ok (PushArg a l) \<and> shown_text (log_text pd) (PushArg a l) = shown_text (log_text pd) l @ arg_text pd a
      \<and> free_slots (PushArg a l) + arg_cost a = free_slots l" if "logger_ok l" "arg_cost a \<le> free_slots l" for l a
    using that PushValue_law [of l _ "log_text pd"] PushValue_all [of l "map LOG_CHAR (c_str s)" "log_text pd" for s]
    by (cases a) (simp_all add: fold comp_def)
qed

interpretation opt_logger: log_sink "\<lambda>c. PushValue (Primitive (LOG_CHAR c))" opt_PushArg "shown_text (opt_log_text pd)" free_slots logger_ok
  "opt_arg_text pd" "\<lambda>_. 1"
  for pd :: "'d \<Rightarrow> string"
proof
  show "logger_ok (PushValue (Primitive (LOG_CHAR c)) l)
      \<and> shown_text (opt_log_text pd) (PushValue (Primitive (LOG_CHAR c)) l) = shown_text (opt_log_text pd) l @ [c]
      \<and> free_slots (PushValue (Primitive (LOG_CHAR c)) l) + 1 = free_slots l" if "logger_ok l" "1 \<le> free_slots l" for l c
    using PushValue_law [OF that, of "Primitive (LOG_CHAR c)" "opt_log_text pd"] by simp
  show "logger_ok (opt_PushArg a l) \<and> shown_text (opt_log_text pd) (opt_PushArg a l) = shown_text (opt_log_text pd) l @ opt_arg_text pd a
      \<and> free_slots (opt_PushArg a l) + 1 = free_slots l" if "logger_ok l" "1 \<le> free_slots l" for l a
    using PushValue_law [OF that, of _ "opt_log_text pd"] by (cases a) simp_all
qed

lemma flush_writes:
  assumes "logger_ok l"
  shows "\<exists>l'. flush_with show_elem l = Inr l' \<and> logger_ok l' \<and> m_file l' = shown_text show_elem l \<and> contents (log_queue l') = []"
proof -
  have "foldE (\<lambda>e f. Inr (f @ show_elem e)) es f = Inr (f @ concat (map show_elem es))" for es f
    by (induction es arbitrary: f) simp_all
  then show ?thesis using lfq.drain_law [of "log_queue l" "Suc (m_numElements (log_queue l))" "\<lambda>e f. Inr (f @ show_elem e)" "m_file l"] assms
    by (auto simp: flush_with_def logger_ok_def shown_text_def)
qed

end
