(* ===== verification/LoggingProperties.thy ===== *)
theory LoggingProperties
  imports Logging
begin

text \<open>
  Properties of the loggers: what reaches the file, and which calls stop the process.
\<close>

text \<open>C24: when every call has as many arguments as its format string has places for, and the queue has room, the file
  afterwards holds the formatted lines, in order, behind what was written or pending before.\<close>

theorem log_writes_lines:
  assumes "logger_ok l" and "\<forall>r\<in>set rs. holes (fst r) = length (snd r)"
    and "(\<Sum>r\<leftarrow>rs. literals (fst r) + sum_list (map arg_cost (snd r))) \<le> free_slots l"
  shows "\<exists>l1 l2. foldE (\<lambda>r. Log (fst r) (snd r)) rs l = Inr l1 \<and> FlushQueue pd l1 = Inr l2
    \<and> m_file l2 = shown_text (log_text pd) l @ concat (map (\<lambda>r. fill (pieces (fst r)) (map (arg_text pd) (snd r))) rs)
    \<and> contents (log_queue l2) = []"
proof -
  obtain l1 where "foldE (\<lambda>r. Log (fst r) (snd r)) rs l = Inr l1" "logger_ok l1"
    "shown_text (log_text pd) l1 = shown_text (log_text pd) l @ concat (map (\<lambda>r. fill (pieces (fst r)) (map (arg_text pd) (snd r))) rs)"
    using logger.log_all [OF assms(2,1), of pd] assms(3) unfolding Log_def logger.cost_def logger.line_def by blast
  then show ?thesis using flush_writes [of l1 "log_text pd"] unfolding FlushQueue_def by metis
qed

definition fresh_logger :: "'d SLogElement CLogger" where
  "fresh_logger = \<lparr>m_file = [], log_queue = CLockFreeQueue_new LOG_QUEUE_SIZE (LOG_CHAR (CHR 0x00))\<rparr>"

definition fresh_opt_logger :: "'d OptLogElement CLogger" where
  "fresh_opt_logger = \<lparr>m_file = [], log_queue = CLockFreeQueue_new LOG_QUEUE_SIZE (Primitive (LOG_CHAR (CHR 0x00)))\<rparr>"

lemma fresh_loggers:
  "logger_ok fresh_logger" "free_slots fresh_logger = LOG_QUEUE_SIZE" "shown_text f fresh_logger = []"
  "logger_ok fresh_opt_logger" "free_slots fresh_opt_logger = LOG_QUEUE_SIZE" "shown_text g fresh_opt_logger = []"
  by (simp_all add: fresh_logger_def fresh_opt_logger_def logger_ok_def queue_ok_new LOG_QUEUE_SIZE_def free_slots_def shown_text_def
      del: length_contents)

definition ex_lines :: "(string \<times> unit log_arg list) list" where
  "ex_lines = [(''fd:% full:%%%'', [ArgElem (INTEGER (- 3)), ArgElem (LOG_CHAR (CHR ''.''))]), (''%'', [ArgString ''ok''])]"

lemma ex_lines_shape:
  "\<forall>r\<in>set ex_lines. holes (fst r) = length (snd r)"
  "(\<Sum>r\<leftarrow>ex_lines. literals (fst r) + sum_list (map arg_cost (snd r))) \<le> LOG_QUEUE_SIZE"
  by (simp_all add: ex_lines_def holes_def literals_def pieces_Cons c_str_def LOG_QUEUE_SIZE_def)

theorem log_writes_lines_witness:
  "\<exists>l1 l2. foldE (\<lambda>r. Log (fst r) (snd r)) ex_lines fresh_logger = Inr l1 \<and> FlushQueue (\<lambda>_. []) l1 = Inr l2
    \<and> m_file l2 = ''fd:-3 full:%.ok''"
proof -
  have "concat (map (\<lambda>r. fill (pieces (fst r)) (map (arg_text (\<lambda>_. [])) (snd r))) ex_lines) = ''fd:-3 full:%.ok''"
    by (simp add: ex_lines_def pieces_Cons c_str_def to_string_int_def to_string_nat.simps digit_def char_of_def bit_0)
  then show ?thesis
    using log_writes_lines [OF fresh_loggers(1) ex_lines_shape(1), of "\<lambda>_. []"] ex_lines_shape(2) by (simp add: fresh_loggers) blast
qed

text \<open>A call with too many or too few arguments stops the process, in both loggers and in every state.\<close>

theorem log_mismatch_stops:
  assumes "holes s \<noteq> length args"
  shows "Log s args l = FATAL (if holes s < length args then ''extra arguments provided to log()'' else ''missing arguments to log()'')
    \<and> opt_Log s args l' = FATAL (if holes s < length args then ''extra arguments provided to log()'' else ''missing arguments to log()'')"
  using assms by (cases "holes s < length args") (simp_all add: Log_def opt_Log_def log_loop_mismatch)

theorem log_mismatch_stops_witness:
  "Log ''fd:%'' [] (fresh_logger :: unit SLogElement CLogger) = FATAL ''missing arguments to log()''"
  using log_mismatch_stops [of "''fd:%''" "[] :: unit log_arg list" fresh_logger fresh_opt_logger] by (simp add: holes_def pieces_Cons)

text \<open>C33: the optimised logger writes the same file as the plain one when no string argument has more than 255 characters;
  of a longer one it writes the first 255.\<close>

theorem opt_log_agrees:
  assumes "logger_ok l" and "logger_ok l'" and "shown_text (log_text pd) l = shown_text (opt_log_text pd) l'"
    and "\<forall>r\<in>set rs. holes (fst r) = length (snd r)"
    and "(\<Sum>r\<leftarrow>rs. literals (fst r) + sum_list (map arg_cost (snd r))) \<le> free_slots l"
    and "(\<Sum>r\<leftarrow>rs. literals (fst r) + length (snd r)) \<le> free_slots l'"
  shows "\<exists>l1 l2 k1 k2. foldE (\<lambda>r. Log (fst r) (snd r)) rs l = Inr l1 \<and> FlushQueue pd l1 = Inr l2
    \<and> foldE (\<lambda>r. opt_Log (fst r) (snd r)) rs l' = Inr k1 \<and> opt_FlushQueue pd k1 = Inr k2
    \<and> m_file k2 = shown_text (opt_log_text pd) l' @ concat (map (\<lambda>r. fill (pieces (fst r)) (map (opt_arg_text pd) (snd r))) rs)
    \<and> ((\<forall>r\<in>set rs. \<forall>s. ArgString s \<in> set (snd r) \<longrightarrow> length (c_str s) \<le> 255) \<longrightarrow> m_file k2 = m_file l2)"
proof -
  obtain l1 where 1: "foldE (\<lambda>r. Log (fst r) (snd r)) rs l = Inr l1" "logger_ok l1"
    "shown_text (log_text pd) l1 = shown_text (log_text pd) l @ concat (map (\<lambda>r. fill (pieces (fst r)) (map (arg_text pd) (snd r))) rs)"
    using logger.log_all [OF assms(4,1), of pd] assms(5) unfolding Log_def logger.cost_def logger.line_def by blast
  have "sum_list (map opt_logger.cost rs) \<le> free_slots l'"
    using assms(6) unfolding opt_logger.cost_def sum_list_triv by simp
  then obtain k1 where 2: "foldE (\<lambda>r. opt_Log (fst r) (snd r)) rs l' = Inr k1" "logger_ok k1"
    "shown_text (opt_log_text pd) k1 = shown_text (opt_log_text pd) l' @ concat (map (\<lambda>r. fill (pieces (fst r)) (map (opt_arg_text pd) (snd r))) rs)"
    using opt_logger.log_all [OF assms(4,2), of pd] unfolding opt_Log_def opt_logger.line_def by blast
  have same: "opt_arg_text pd a = arg_text pd a" if "\<And>s. a = ArgString s \<Longrightarrow> length (c_str s) \<le> 255" for a
    using that by (cases a) simp_all
  have "map (opt_arg_text pd) (snd r) = map (arg_text pd) (snd r)"
    if "\<forall>s. ArgString s \<in> set (snd r) \<longrightarrow> length (c_str s) \<le> 255" for r :: "string \<times> 'a log_arg list"
    using that by (intro map_cong refl same) blast
  then have "concat (map (\<lambda>r. fill (pieces (fst r)) (map (opt_arg_text pd) (snd r))) rs)
      = concat (map (\<lambda>r. fill (pieces (fst r)) (map (arg_text pd) (snd r))) rs)"
    if "\<forall>r\<in>set rs. \<forall>s. ArgString s \<in> set (snd r) \<longrightarrow> length (c_str s) \<le> 255"
    using that by (intro concat_map_cong_set) (metis (no_types, lifting))
  moreover obtain l2 where "FlushQueue pd l1 = Inr l2" "m_file l2 = shown_text (log_text pd) l1"
    using flush_writes [OF 1(2), of "log_text pd"] unfolding FlushQueue_def by blast
  moreover obtain k2 where "opt_FlushQueue pd k1 = Inr k2" "m_file k2 = shown_text (opt_log_text pd) k1"
    using flush_writes [OF 2(2), of "opt_log_text pd"] unfolding opt_FlushQueue_def by blast
  ultimately show ?thesis using 1 2 assms(3) by auto
qed

theorem opt_log_agrees_witness:
  "\<exists>l1 l2 k1 k2. foldE (\<lambda>r. Log (fst r) (snd r)) ex_lines fresh_logger = Inr l1 \<and> FlushQueue (\<lambda>_. []) l1 = Inr l2
    \<and> foldE (\<lambda>r. opt_Log (fst r) (snd r)) ex_lines fresh_opt_logger = Inr k1 \<and> opt_FlushQueue (\<lambda>_. []) k1 = Inr k2
    \<and> m_file k2 = m_file l2"
proof -
  have "(\<Sum>r\<leftarrow>ex_lines. literals (fst r) + length (snd r)) \<le> LOG_QUEUE_SIZE"
    and "\<forall>r\<in>set ex_lines. \<forall>s. ArgString s \<in> set (snd r) \<longrightarrow> length (c_str s) \<le> 255"
    by (simp_all add: ex_lines_def literals_def pieces_Cons c_str_def LOG_QUEUE_SIZE_def)
  then show ?thesis
    using opt_log_agrees [of fresh_logger fresh_opt_logger "\<lambda>_. []" ex_lines] ex_lines_shape by (simp add: fresh_loggers) blast
qed

end
