(* ===== verification/Ring.thy ===== *)
theory Ring
  imports Prelude
begin

text \<open>
  Circular doubly linked lists, as the order books build them out of \<open>pPrev...\<close> and
  \<open>pNext...\<close> members: a pool index is a node, \<open>nx\<close> and \<open>pv\<close> are the two link fields read as
  functions, and \<open>ring nx pv xs\<close> says that the nodes \<open>xs\<close>, in this order, form one ring.  The
  lemmas say what the link updates of the code do to a ring: making a one-node ring, linking a
  node between the last and the first one, and unlinking a node.
\<close>

type_synonym links = "nat \<Rightarrow> nat option"

fun chain :: "links \<Rightarrow> links \<Rightarrow> nat list \<Rightarrow> bool" where
  "chain nx pv [] = True"
| "chain nx pv [x] = True"
| "chain nx pv (x # y # zs) \<longleftrightarrow> nx x = Some y \<and> pv y = Some x \<and> chain nx pv (y # zs)"

definition ring :: "links \<Rightarrow> links \<Rightarrow> nat list \<Rightarrow> bool" where
  "ring nx pv xs \<longleftrightarrow> distinct xs \<and> (xs \<noteq> [] \<longrightarrow> chain nx pv (xs @ [hd xs]))"

lemma chain_append:
  "chain nx pv (xs @ y # zs) \<longleftrightarrow> chain nx pv (xs @ [y]) \<and> chain nx pv (y # zs)"
  by (induction nx pv xs rule: chain.induct) auto

lemma chain_cong:
  assumes "\<And>x. x \<in> set (butlast xs) \<Longrightarrow> nx x = nx' x" and "\<And>x. x \<in> set (tl xs) \<Longrightarrow> pv x = pv' x"
  shows "chain nx pv xs = chain nx' pv' xs"
  using assms
  by (induction nx pv xs rule: chain.induct) auto

lemma ring_distinct: "ring nx pv xs \<Longrightarrow> distinct xs"
  by (simp add: ring_def)

lemma ring_Nil [simp]: "ring nx pv []"
  by (simp add: ring_def)

lemma ring_cong:
  assumes "\<And>x. x \<in> set xs \<Longrightarrow> nx x = nx' x" and "\<And>x. x \<in> set xs \<Longrightarrow> pv x = pv' x"
  shows "ring nx pv xs = ring nx' pv' xs"
proof (cases xs)
  case Nil
  then show ?thesis by simp
next
  case (Cons a as)
  have "chain nx pv (xs @ [hd xs]) = chain nx' pv' (xs @ [hd xs])"
    using assms Cons by (intro chain_cong) auto
  then show ?thesis by (simp add: ring_def)
qed

text \<open>A ring can be read from any of its nodes.\<close>

lemma ring_rotate: "ring nx pv (xs @ ys) \<longleftrightarrow> ring nx pv (ys @ xs)"
proof (cases xs)
  case Nil
  then show ?thesis by simp
next
  case (Cons x xt)
  note xs = Cons
  show ?thesis
  proof (cases ys)
    case Nil
    then show ?thesis by simp
  next
    case (Cons y yt)
    have "chain nx pv ((xs @ ys) @ [x]) \<longleftrightarrow> chain nx pv (xs @ [y]) \<and> chain nx pv (ys @ [x])"
      using chain_append [of nx pv xs y "yt @ [x]"] Cons by simp
    moreover have "chain nx pv ((ys @ xs) @ [y]) \<longleftrightarrow> chain nx pv (ys @ [x]) \<and> chain nx pv (xs @ [y])"
      using chain_append [of nx pv ys x "xt @ [y]"] xs by simp
    ultimately show ?thesis using xs Cons by (auto simp: ring_def)
  qed
qed

text \<open>The links at the ends and inside a ring.\<close>

lemma ring_last_links:
  assumes "ring nx pv xs" and "xs \<noteq> []"
  shows "nx (last xs) = Some (hd xs)" and "pv (hd xs) = Some (last xs)"
proof -
  obtain ys y where xs: "xs = ys @ [y]" using list_rotate_last [OF assms(2)] by blast
  have "chain nx pv (ys @ y # [hd xs])" using assms xs by (simp add: ring_def)
  then have "chain nx pv [y, hd xs]" using chain_append [of nx pv ys y "[hd xs]"] by blast
  then show "nx (last xs) = Some (hd xs)" and "pv (hd xs) = Some (last xs)" using xs by simp_all
qed

lemma ring_next_mid:
  assumes "ring nx pv (xs @ x # y # ys)"
  shows "nx x = Some y" and "pv y = Some x"
proof -
  have r: "ring nx pv ((y # ys) @ (xs @ [x]))"
    using assms ring_rotate [of nx pv "xs @ [x]" "y # ys"] by simp
  show "nx x = Some y" and "pv y = Some x"
    using ring_last_links [OF r] by simp_all
qed

lemma ring_next_in:
  assumes "ring nx pv xs" and "x \<in> set xs"
  obtains y where "nx x = Some y" and "y \<in> set xs"
proof -
  obtain as bs where xs: "xs = as @ x # bs" using assms(2) by (auto simp: in_set_conv_decomp)
  have r: "ring nx pv (bs @ (as @ [x]))" using assms(1) xs ring_rotate [of nx pv "as @ [x]" bs] by simp
  have "nx x = Some (hd (bs @ as @ [x]))" using ring_last_links(1) [OF r] by simp
  moreover have "hd (bs @ as @ [x]) \<in> set (bs @ as @ [x])" by (rule hd_in_set) simp
  ultimately show thesis using that xs by auto
qed

lemma ring_prev_in:
  assumes "ring nx pv xs" and "x \<in> set xs"
  obtains y where "pv x = Some y" and "y \<in> set xs"
proof -
  obtain as bs where xs: "xs = as @ x # bs" using assms(2) by (auto simp: in_set_conv_decomp)
  have r: "ring nx pv ((x # bs) @ as)" using assms(1) xs ring_rotate [of nx pv as "x # bs"] by simp
  have "pv x = Some (last (x # bs @ as))" using ring_last_links(2) [OF r] by simp
  moreover have "last (x # bs @ as) \<in> set (x # bs @ as)" by (rule last_in_set) simp
  ultimately show thesis using that xs by auto
qed

text \<open>A node is alone in its ring exactly if its own link points to itself.\<close>

lemma ring_self_next:
  assumes "ring nx pv xs" and "x \<in> set xs"
  shows "nx x = Some x \<longleftrightarrow> xs = [x]"
proof
  obtain as bs where xs: "xs = as @ x # bs" using assms(2) by (auto simp: in_set_conv_decomp)
  have r: "ring nx pv (bs @ (as @ [x]))" using assms(1) xs ring_rotate [of nx pv "as @ [x]" bs] by simp
  assume "nx x = Some x"
  then have h: "hd (bs @ as @ [x]) = x" using ring_last_links(1) [OF r] by simp
  have "x \<notin> set bs" "x \<notin> set as" using ring_distinct [OF assms(1)] xs by auto
  then have "bs = []" "as = []" using h by (cases bs; cases as; auto)+
  then show "xs = [x]" using xs by simp
next
  assume "xs = [x]"
  then show "nx x = Some x" using assms(1) by (simp add: ring_def)
qed

lemma ring_self_prev:
  assumes "ring nx pv xs" and "x \<in> set xs"
  shows "pv x = Some x \<longleftrightarrow> xs = [x]"
proof
  obtain as bs where xs: "xs = as @ x # bs" using assms(2) by (auto simp: in_set_conv_decomp)
  have r: "ring nx pv ((x # bs) @ as)" using assms(1) xs ring_rotate [of nx pv as "x # bs"] by simp
  assume "pv x = Some x"
  then have h: "last (x # bs @ as) = x" using ring_last_links(2) [OF r] by simp
  have "x \<notin> set bs" "x \<notin> set as" using ring_distinct [OF assms(1)] xs by auto
  then have "bs @ as = []" using h by (metis Un_iff last_ConsR last_in_set set_append)
  then show "xs = [x]" using xs by simp
next
  assume "xs = [x]"
  then show "pv x = Some x" using assms(1) by (simp add: ring_def)
qed

section \<open>Updates\<close>

lemma ring_single: "nx x = Some x \<Longrightarrow> pv x = Some x \<Longrightarrow> ring nx pv [x]"
  by (simp add: ring_def)

text \<open>Linking a fresh node \<open>n\<close> between the last and the first node.\<close>

lemma ring_link_last:
  assumes r: "ring nx pv xs" and ne: "xs \<noteq> []" and n: "n \<notin> set xs"
  shows "ring (nx(last xs := Some n, n := Some (hd xs))) (pv(n := Some (last xs), hd xs := Some n)) (xs @ [n])"
    (is "ring ?nx ?pv _")
proof -
  obtain ys y where xs: "xs = ys @ [y]" using list_rotate_last [OF ne] by blast
  have d: "distinct xs" by (rule ring_distinct [OF r])
  have "chain nx pv (ys @ y # [hd xs])" using r xs by (simp add: ring_def)
  then have "chain nx pv (ys @ [y])" using chain_append by blast
  moreover have "hd xs \<notin> set (tl xs)" "n \<notin> set (tl xs)" using d ne n by (cases xs; auto)+
  ultimately have c: "chain ?nx ?pv (ys @ [y])"
    using n d xs by (subst chain_cong [of _ ?nx nx ?pv pv]) auto
  have l: "last xs = y" using xs by simp
  have "n \<noteq> hd xs" using n hd_in_set [OF ne] by metis
  moreover have "n \<noteq> y" using n xs by auto
  ultimately have "chain ?nx ?pv (y # n # [hd xs])" using l by simp
  with c have "chain ?nx ?pv (ys @ y # n # [hd xs])"
    using chain_append [of ?nx ?pv ys y "[n, hd xs]"] by blast
  moreover have "(xs @ [n]) @ [hd (xs @ [n])] = ys @ y # n # [hd xs]" using xs by (cases ys) auto
  ultimately have "chain ?nx ?pv ((xs @ [n]) @ [hd (xs @ [n])])" by (simp only:)
  then show ?thesis using d n unfolding ring_def by simp
qed

text \<open>Unlinking the last node: its two neighbours are joined.\<close>

lemma ring_unlink_last:
  assumes r: "ring nx pv (ys @ [x])" and ne: "ys \<noteq> []"
  shows "ring (nx(last ys := Some (hd ys))) (pv(hd ys := Some (last ys))) ys"
    (is "ring ?nx ?pv _")
proof -
  have d: "distinct ys" using ring_distinct [OF r] by simp
  obtain zs z where ys: "ys = zs @ [z]" using list_rotate_last [OF ne] by blast
  have "chain nx pv (zs @ z # [x, hd ys])" using r ne ys unfolding ring_def by (cases zs) auto
  then have "chain nx pv (zs @ [z])" using chain_append by blast
  moreover have "hd ys \<notin> set (tl ys)" using d ne by (cases ys) auto
  ultimately have c: "chain ?nx ?pv (zs @ [z])"
    using d ys by (subst chain_cong [of _ ?nx nx ?pv pv]) auto
  have "chain ?nx ?pv (z # [hd ys])" using ys by simp
  with c have "chain ?nx ?pv (zs @ z # [hd ys])"
    using chain_append [of ?nx ?pv zs z "[hd ys]"] by blast
  then show ?thesis using d ne ys by (simp add: ring_def)
qed

text \<open>The same for a node anywhere in the ring, and for linking a node before another one.\<close>

lemma ring_link_before:
  assumes r: "ring nx pv (as @ t # bs)" and n: "n \<notin> set (as @ t # bs)" and p: "pv t = Some p"
  shows "ring (nx(p := Some n, n := Some t)) (pv(n := Some p, t := Some n)) (as @ n # t # bs)"
proof -
  let ?xs = "(t # bs) @ as"
  have r': "ring nx pv ?xs" using r ring_rotate [of nx pv as "t # bs"] by simp
  have lp: "p = last ?xs" using ring_last_links(2) [OF r'] p by simp
  have "ring (nx(last ?xs := Some n, n := Some (hd ?xs))) (pv(n := Some (last ?xs), hd ?xs := Some n)) (?xs @ [n])"
    using r' n by (intro ring_link_last) auto
  then have "ring (nx(p := Some n, n := Some t)) (pv(n := Some p, t := Some n)) ((t # bs) @ (as @ [n]))"
    unfolding lp by simp
  then show ?thesis using ring_rotate [of _ _ "t # bs" "as @ [n]"] by simp
qed

lemma ring_unlink:
  assumes r: "ring nx pv (as @ x # bs)" and ne: "as @ bs \<noteq> []"
    and p: "pv x = Some p" and q: "nx x = Some q"
  shows "ring (nx(p := Some q)) (pv(q := Some p)) (as @ bs)"
proof -
  let ?ys = "bs @ as"
  have r': "ring nx pv (?ys @ [x])" using r ring_rotate [of nx pv "as @ [x]" bs] by simp
  have r'': "ring nx pv (x # ?ys)" using r' ring_rotate [of nx pv ?ys "[x]"] by simp
  have lp: "p = last ?ys" using ring_last_links(2) [OF r''] p ne by (auto split: if_splits)
  have hq: "q = hd ?ys" using ring_last_links(1) [OF r'] q ne by (cases ?ys) auto
  have "ring (nx(last ?ys := Some (hd ?ys))) (pv(hd ?ys := Some (last ?ys))) ?ys"
    using r' ne by (intro ring_unlink_last [of _ _ _ x]) auto
  then have "ring (nx(p := Some q)) (pv(q := Some p)) ?ys" unfolding lp hq .
  then show ?thesis using ring_rotate [of _ _ bs as] by simp
qed

end
