(* ===== verification/BookCore.thy ===== *)
theory BookCore
  imports MemoryPool Types Ring
begin

text \<open>
  The part that the exchange's \<open>CMEOrderBook\<close> (\<open>exchange/matcher\<close>) and the client's
  \<open>CMarketOrderBook\<close> (\<open>trading/strategy\<close>) have in common, member for member and statement for
  statement: two pools, the tops of the two circular lists of price levels, the table from price
  index to level, and the private methods that link and unlink levels and orders.  The exchange's
  \<open>SMEOrder\<close> has three more members than the client's \<open>SMarketOrder\<close>; the definitions here are
  polymorphic in them.

  Pointers are pool indices.  Every read or write through a pointer is a step that fails on the
  null pointer, in the order of the code's statements, so aliasing behaves as in the code.
\<close>

section \<open>Orders and price levels\<close>

record SMarketOrder =
  ord_orderId :: OrderId
  ord_side :: ESide
  ord_price :: Price
  ord_qty :: Qty
  ord_priority :: Priority
  pPrevOrder :: ptr
  pNextOrder :: ptr

record SMEOrder = SMarketOrder +
  ord_tickerId :: TickerId
  ord_clientId :: ClientId
  ord_clientOrderId :: OrderId

record SMEOrdersAtPrice =
  lvl_side :: ESide
  lvl_price :: Price
  pFirstOrder :: ptr
  pPrevEntry :: ptr
  pNextEntry :: ptr

record 'o book_core =
  m_ordersAtPricePool :: "SMEOrdersAtPrice CMemoryPool"
  m_pBidsByPrice :: ptr
  m_pAsksByPrice :: ptr
  m_priceOrdersAtPrice :: "64 word \<Rightarrow> ptr"
  m_orderPool :: "'o SMarketOrder_scheme CMemoryPool"

section \<open>Access through pointers\<close>

definition get_lvl :: "'o book_core \<Rightarrow> ptr \<Rightarrow> SMEOrdersAtPrice outcome" where
  "get_lvl b x = deref (m_ordersAtPricePool b) x"

definition set_lvl :: "ptr \<Rightarrow> (SMEOrdersAtPrice \<Rightarrow> SMEOrdersAtPrice) \<Rightarrow> 'o book_core \<Rightarrow> 'o book_core outcome" where
  "set_lvl x f b = bindE (modify x f (m_ordersAtPricePool b)) (\<lambda>p. Inr (b\<lparr>m_ordersAtPricePool := p\<rparr>))"

definition get_ord :: "'o book_core \<Rightarrow> ptr \<Rightarrow> 'o SMarketOrder_scheme outcome" where
  "get_ord b x = deref (m_orderPool b) x"

definition set_ord :: "ptr \<Rightarrow> ('o SMarketOrder_scheme \<Rightarrow> 'o SMarketOrder_scheme) \<Rightarrow> 'o book_core \<Rightarrow> 'o book_core outcome" where
  "set_ord x f b = bindE (modify x f (m_orderPool b)) (\<lambda>p. Inr (b\<lparr>m_orderPool := p\<rparr>))"

text \<open>\<open>(side == ESide::BUY ? m_pBidsByPrice : m_pAsksByPrice)\<close>, read and assigned.\<close>

definition best_of :: "ESide \<Rightarrow> 'o book_core \<Rightarrow> ptr" where
  "best_of sd b = (if sd = BUY then m_pBidsByPrice b else m_pAsksByPrice b)"

definition set_best :: "ESide \<Rightarrow> ptr \<Rightarrow> 'o book_core \<Rightarrow> 'o book_core" where
  "set_best sd x b = (if sd = BUY then b\<lparr>m_pBidsByPrice := x\<rparr> else b\<lparr>m_pAsksByPrice := x\<rparr>)"

definition PriceToIndex :: "Price \<Rightarrow> 64 word" where
  "PriceToIndex price = price mod of_nat ME_MAX_PRICE_LEVELS"

definition GetOrdersAtPrice :: "Price \<Rightarrow> 'o book_core \<Rightarrow> ptr outcome" where
  "GetOrdersAtPrice price b = arr_at ME_MAX_PRICE_LEVELS (m_priceOrdersAtPrice b) (PriceToIndex price)"

definition set_price_entry :: "Price \<Rightarrow> ptr \<Rightarrow> 'o book_core \<Rightarrow> 'o book_core outcome" where
  "set_price_entry price x b =
     bindE (arr_set ME_MAX_PRICE_LEVELS (m_priceOrdersAtPrice b) (PriceToIndex price) x) (\<lambda>t.
     Inr (b\<lparr>m_priceOrdersAtPrice := t\<rparr>))"

section \<open>Adding a price level\<close>

text \<open>The test that decides \<open>add_after\<close>: the new price is worse than the target's price.\<close>

definition worse :: "ESide \<Rightarrow> Price \<Rightarrow> Price \<Rightarrow> bool" where
  "worse sd new target \<longleftrightarrow> (sd = SELL \<and> sint new > sint target) \<or> (sd = BUY \<and> sint new < sint target)"

text \<open>
  The loop \<open>while (add_after && target != best_orders_by_price)\<close>.  Each round moves to the next
  level or stops, and the walk is back at the best level after at most one round per block of the
  pool, so a walk that uses up \<open>fuel\<close> (the size of the pool) is one that never ends.
\<close>

fun find_target :: "nat \<Rightarrow> 'o book_core \<Rightarrow> ptr \<Rightarrow> ESide \<Rightarrow> Price \<Rightarrow> ptr \<Rightarrow> bool \<Rightarrow> (ptr \<times> bool) outcome" where
  "find_target fuel b best sd price target add_after =
     (if \<not> (add_after \<and> target \<noteq> best) then Inr (target, add_after)
      else if fuel = 0 then Inl Diverges
      else bindE (get_lvl b target) (\<lambda>t.
           find_target (fuel - 1) b best sd price
             (if worse sd price (lvl_price t) then pNextEntry t else target)
             (worse sd price (lvl_price t))))"

declare find_target.simps [simp del]

definition start_target :: "'o book_core \<Rightarrow> ptr \<Rightarrow> ESide \<Rightarrow> Price \<Rightarrow> (ptr \<times> bool) outcome" where
  "start_target b best sd price =
     bindE (get_lvl b best) (\<lambda>t.
     if worse sd price (lvl_price t)
     then bindE (get_lvl b (pNextEntry t)) (\<lambda>t'. Inr (pNextEntry t, worse sd price (lvl_price t')))
     else Inr (best, False))"

text \<open>\<open>// add pNewOrdersAtPrice after target.\<close>\<close>

definition link_level_after :: "ptr \<Rightarrow> ptr \<Rightarrow> 'o book_core \<Rightarrow> 'o book_core outcome" where
  "link_level_after pNew target b0 =
     bindE (set_lvl pNew (\<lambda>l. l\<lparr>pPrevEntry := target\<rparr>) b0) (\<lambda>b1.
     bindE (get_lvl b1 target) (\<lambda>t1.
     bindE (set_lvl (pNextEntry t1) (\<lambda>l. l\<lparr>pPrevEntry := pNew\<rparr>) b1) (\<lambda>b2.
     bindE (get_lvl b2 target) (\<lambda>t2.
     bindE (set_lvl pNew (\<lambda>l. l\<lparr>pNextEntry := pNextEntry t2\<rparr>) b2) (\<lambda>b3.
     set_lvl target (\<lambda>l. l\<lparr>pNextEntry := pNew\<rparr>) b3)))))"

text \<open>\<open>// add pNewOrdersAtPrice before target.\<close>\<close>

definition link_level_before :: "ptr \<Rightarrow> ptr \<Rightarrow> 'o book_core \<Rightarrow> 'o book_core outcome" where
  "link_level_before pNew target b0 =
     bindE (get_lvl b0 target) (\<lambda>t0.
     bindE (set_lvl pNew (\<lambda>l. l\<lparr>pPrevEntry := pPrevEntry t0\<rparr>) b0) (\<lambda>b1.
     bindE (set_lvl pNew (\<lambda>l. l\<lparr>pNextEntry := target\<rparr>) b1) (\<lambda>b2.
     bindE (get_lvl b2 target) (\<lambda>t2.
     bindE (set_lvl (pPrevEntry t2) (\<lambda>l. l\<lparr>pNextEntry := pNew\<rparr>) b2) (\<lambda>b3.
     set_lvl target (\<lambda>l. l\<lparr>pPrevEntry := pNew\<rparr>) b3)))))"

definition new_best_level :: "ptr \<Rightarrow> ptr \<Rightarrow> ptr \<Rightarrow> ESide \<Rightarrow> Price \<Rightarrow> 'o book_core \<Rightarrow> 'o book_core outcome" where
  "new_best_level pNew target best sd price b0 =
     bindE (get_lvl b0 best) (\<lambda>bst.
     if (sd = BUY \<and> sint price > sint (lvl_price bst)) \<or> (sd = SELL \<and> sint price < sint (lvl_price bst))
     then bindE (get_lvl b0 target) (\<lambda>t.
          bindE (set_lvl target (\<lambda>l. l\<lparr>pNextEntry := (if pNextEntry t = best then pNew else pNextEntry t)\<rparr>) b0) (\<lambda>b1.
          Inr (set_best sd pNew b1)))
     else Inr b0)"

definition AddOrdersAtPrice :: "ptr \<Rightarrow> 'o book_core \<Rightarrow> 'o book_core outcome" where
  "AddOrdersAtPrice pNew b0 =
     bindE (get_lvl b0 pNew) (\<lambda>new.
     bindE (set_price_entry (lvl_price new) pNew b0) (\<lambda>b1.
     let sd = lvl_side new; price = lvl_price new; best = best_of sd b1
     in if best = None
        then bindE (set_lvl pNew (\<lambda>l. l\<lparr>pNextEntry := pNew\<rparr>) (set_best sd pNew b1)) (\<lambda>b2.
             set_lvl pNew (\<lambda>l. l\<lparr>pPrevEntry := pNew\<rparr>) b2)
        else bindE (start_target b1 best sd price) (\<lambda>(target0, after0).
             bindE (find_target (m_size (m_ordersAtPricePool b1)) b1 best sd price target0 after0) (\<lambda>(target, add_after).
             if add_after
             then bindE (if target = best
                         then bindE (get_lvl b1 best) (\<lambda>t. Inr (pPrevEntry t))
                         else Inr target) (\<lambda>target'.
                  link_level_after pNew target' b1)
             else bindE (link_level_before pNew target b1) (\<lambda>b2.
                  new_best_level pNew target best sd price b2)))))"

section \<open>Removing a price level\<close>

definition unlink_level :: "ptr \<Rightarrow> ptr \<Rightarrow> ESide \<Rightarrow> 'o book_core \<Rightarrow> 'o book_core outcome" where
  "unlink_level oap best sd b0 =
     bindE (get_lvl b0 oap) (\<lambda>l0.
     bindE (set_lvl (pPrevEntry l0) (\<lambda>l. l\<lparr>pNextEntry := pNextEntry l0\<rparr>) b0) (\<lambda>b1.
     bindE (get_lvl b1 oap) (\<lambda>l1.
     bindE (set_lvl (pNextEntry l1) (\<lambda>l. l\<lparr>pPrevEntry := pPrevEntry l1\<rparr>) b1) (\<lambda>b2.
     bindE (get_lvl b2 oap) (\<lambda>l2.
     bindE (set_lvl oap (\<lambda>l. l\<lparr>pNextEntry := None\<rparr>)
              (if oap = best then set_best sd (pNextEntry l2) b2 else b2)) (\<lambda>b3.
     set_lvl oap (\<lambda>l. l\<lparr>pPrevEntry := None\<rparr>) b3))))))"

definition RemoveOrdersAtPrice :: "ESide \<Rightarrow> Price \<Rightarrow> 'o book_core \<Rightarrow> 'o book_core outcome" where
  "RemoveOrdersAtPrice sd price b0 =
     bindE (GetOrdersAtPrice price b0) (\<lambda>oap.
     bindE (get_lvl b0 oap) (\<lambda>l.
     bindE (if pNextEntry l = oap then Inr (set_best sd None b0)
            else unlink_level oap (best_of sd b0) sd b0) (\<lambda>b1.
     bindE (set_price_entry price None b1) (\<lambda>b2.
     bindE (Deallocate oap (m_ordersAtPricePool b2)) (\<lambda>p.
     Inr (b2\<lparr>m_ordersAtPricePool := p\<rparr>))))))"

section \<open>Linking and unlinking an order\<close>

definition GetNextPriority :: "Price \<Rightarrow> 'o book_core \<Rightarrow> Priority outcome" where
  "GetNextPriority price b =
     bindE (GetOrdersAtPrice price b) (\<lambda>oap.
     if oap = None then Inr 1
     else bindE (get_lvl b oap) (\<lambda>l.
          bindE (get_ord b (pFirstOrder l)) (\<lambda>f.
          bindE (get_ord b (pPrevOrder f)) (\<lambda>t. Inr (ord_priority t + 1)))))"

text \<open>\<open>RemoveOrder\<close> up to the removal from the id map and the pool.\<close>

definition unlink_order :: "ptr \<Rightarrow> ptr \<Rightarrow> 'o book_core \<Rightarrow> 'o book_core outcome" where
  "unlink_order order oap b0 =
     bindE (get_ord b0 order) (\<lambda>o0.
     bindE (set_ord (pPrevOrder o0) (\<lambda>x. x\<lparr>pNextOrder := pNextOrder o0\<rparr>) b0) (\<lambda>b1.
     bindE (set_ord (pNextOrder o0) (\<lambda>x. x\<lparr>pPrevOrder := pPrevOrder o0\<rparr>) b1) (\<lambda>b2.
     bindE (get_lvl b2 oap) (\<lambda>l.
     bindE (if pFirstOrder l = order
            then set_lvl oap (\<lambda>l. l\<lparr>pFirstOrder := pNextOrder o0\<rparr>) b2 else Inr b2) (\<lambda>b3.
     bindE (set_ord order (\<lambda>x. x\<lparr>pNextOrder := None\<rparr>) b3) (\<lambda>b4.
     set_ord order (\<lambda>x. x\<lparr>pPrevOrder := None\<rparr>) b4))))))"

definition RemoveOrder_links :: "ptr \<Rightarrow> 'o book_core \<Rightarrow> 'o book_core outcome" where
  "RemoveOrder_links order b0 =
     bindE (get_ord b0 order) (\<lambda>o0.
     bindE (GetOrdersAtPrice (ord_price o0) b0) (\<lambda>oap.
     if pPrevOrder o0 = order
     then RemoveOrdersAtPrice (ord_side o0) (ord_price o0) b0
     else unlink_order order oap b0))"

text \<open>\<open>AddOrder\<close> up to the insertion into the id map.\<close>

definition link_order :: "ptr \<Rightarrow> ptr \<Rightarrow> 'o book_core \<Rightarrow> 'o book_core outcome" where
  "link_order order first b0 =
     bindE (get_ord b0 first) (\<lambda>f0.
     bindE (set_ord (pPrevOrder f0) (\<lambda>x. x\<lparr>pNextOrder := order\<rparr>) b0) (\<lambda>b1.
     bindE (get_ord b1 first) (\<lambda>f1.
     bindE (set_ord order (\<lambda>x. x\<lparr>pPrevOrder := pPrevOrder f1\<rparr>) b1) (\<lambda>b2.
     bindE (set_ord order (\<lambda>x. x\<lparr>pNextOrder := first\<rparr>) b2) (\<lambda>b3.
     set_ord first (\<lambda>x. x\<lparr>pPrevOrder := order\<rparr>) b3)))))"

definition AddOrder_links :: "ptr \<Rightarrow> 'o book_core \<Rightarrow> 'o book_core outcome" where
  "AddOrder_links order b0 =
     bindE (get_ord b0 order) (\<lambda>o0.
     bindE (GetOrdersAtPrice (ord_price o0) b0) (\<lambda>oap.
     if oap = None
     then bindE (set_ord order (\<lambda>x. x\<lparr>pPrevOrder := order\<rparr>) b0) (\<lambda>b1.
          bindE (set_ord order (\<lambda>x. x\<lparr>pNextOrder := order\<rparr>) b1) (\<lambda>b2.
          bindE (Allocate \<lparr>lvl_side = ord_side o0, lvl_price = ord_price o0, pFirstOrder = order,
                           pPrevEntry = None, pNextEntry = None\<rparr> (m_ordersAtPricePool b2)) (\<lambda>(n, p).
          AddOrdersAtPrice (Some n) (b2\<lparr>m_ordersAtPricePool := p\<rparr>))))
     else bindE (get_lvl b0 oap) (\<lambda>l. link_order order (pFirstOrder l) b0)))"

text \<open>The empty book: pools of the two sizes, no levels, an empty table.\<close>

definition book_core_new :: "nat \<Rightarrow> nat \<Rightarrow> 'o SMarketOrder_scheme \<Rightarrow> 'o book_core" where
  "book_core_new levels orders dummy =
     \<lparr>m_ordersAtPricePool = CMemoryPool_new levels
        \<lparr>lvl_side = Side_INVALID, lvl_price = Price_INVALID, pFirstOrder = None, pPrevEntry = None, pNextEntry = None\<rparr>,
      m_pBidsByPrice = None, m_pAsksByPrice = None, m_priceOrdersAtPrice = (\<lambda>_. None),
      m_orderPool = CMemoryPool_new orders dummy\<rparr>"

end
