(* ===== verification/BookLinks.thy ===== *)
theory BookLinks
  imports BookCore
begin

text \<open>
  What the linking and unlinking methods of theory \<open>BookCore\<close> do to the rings of levels and
  orders: each is one ring update of theory \<open>Ring\<close>, and it changes nothing but link members of
  the nodes of that ring.
\<close>

section \<open>Link members of a pool, and what an update leaves alone\<close>

definition nxL :: "SMEOrdersAtPrice CMemoryPool \<Rightarrow> links" where "nxL P i = pNextEntry (pobj P i)"
definition pvL :: "SMEOrdersAtPrice CMemoryPool \<Rightarrow> links" where "pvL P i = pPrevEntry (pobj P i)"
definition nxO :: "'o SMarketOrder_scheme CMemoryPool \<Rightarrow> links" where "nxO O' i = pNextOrder (pobj O' i)"
definition pvO :: "'o SMarketOrder_scheme CMemoryPool \<Rightarrow> links" where "pvO O' i = pPrevOrder (pobj O' i)"

lemmas link_defs = nxL_def pvL_def nxO_def pvO_def

text \<open>The members of a level and of an order that are not links.\<close>

definition lvl_data :: "SMEOrdersAtPrice \<Rightarrow> ESide \<times> Price \<times> ptr" where
  "lvl_data l = (lvl_side l, lvl_price l, pFirstOrder l)"

definition strip :: "'o SMarketOrder_scheme \<Rightarrow> 'o SMarketOrder_scheme" where
  "strip o' = o'\<lparr>pPrevOrder := None, pNextOrder := None\<rparr>"

definition same_except :: "('a \<Rightarrow> 'd) \<Rightarrow> nat set \<Rightarrow> 'a CMemoryPool \<Rightarrow> 'a CMemoryPool \<Rightarrow> bool" where
  "same_except dt S P P' \<longleftrightarrow>
     m_size P' = m_size P \<and> m_nextFreeIndex P' = m_nextFreeIndex P
     \<and> (\<forall>i. isFree (m_store P' i) = isFree (m_store P i))
     \<and> (\<forall>i. dt (pobj P' i) = dt (pobj P i)) \<and> (\<forall>i. i \<notin> S \<longrightarrow> pobj P' i = pobj P i)"

lemma same_except_refl [simp]: "same_except dt S P P"
  by (simp add: same_except_def)

lemma same_except_poke [intro]:
  "same_except dt S P P' \<Longrightarrow> i \<in> S \<Longrightarrow> dt (f (pobj P' i)) = dt (pobj P' i)
    \<Longrightarrow> same_except dt S P (poke i f P')"
  by (auto simp: same_except_def pobj_poke)

lemma same_except_mono: "same_except dt S P P' \<Longrightarrow> S \<subseteq> T \<Longrightarrow> same_except dt T P P'"
  unfolding same_except_def by blast

lemma same_exceptD:
  assumes "same_except dt S P P'"
  shows "m_size P' = m_size P" and "pused P' = pused P" and "pool_ok P' = pool_ok P"
    and "dt (pobj P' i) = dt (pobj P i)" and "i \<notin> S \<Longrightarrow> pobj P' i = pobj P i"
  using assms by (auto simp: same_except_def pused_def pool_ok_def)

lemma lvl_data_simps [simp]:
  "lvl_data (l\<lparr>pPrevEntry := x\<rparr>) = lvl_data l" "lvl_data (l\<lparr>pNextEntry := x\<rparr>) = lvl_data l"
  by (simp_all add: lvl_data_def)

lemma lvl_data_eqD:
  "lvl_data l = lvl_data l' \<Longrightarrow> lvl_side l = lvl_side l' \<and> lvl_price l = lvl_price l' \<and> pFirstOrder l = pFirstOrder l'"
  by (simp add: lvl_data_def)

lemma strip_simps [simp]:
  "strip (o'\<lparr>pPrevOrder := x\<rparr>) = strip o'" "strip (o'\<lparr>pNextOrder := x\<rparr>) = strip o'"
  by (simp_all add: strip_def)

lemma strip_sel [simp]:
  "ord_orderId (strip o') = ord_orderId o'" "ord_side (strip o') = ord_side o'"
  "ord_price (strip o') = ord_price o'" "ord_qty (strip o') = ord_qty o'"
  "ord_priority (strip o') = ord_priority o'" "SMarketOrder.more (strip o') = SMarketOrder.more o'"
  by (simp_all add: strip_def)

lemma strip_eqD:
  assumes "strip a = strip b"
  shows "ord_orderId a = ord_orderId b" and "ord_side a = ord_side b" and "ord_price a = ord_price b"
    and "ord_qty a = ord_qty b" and "ord_priority a = ord_priority b"
    and "SMarketOrder.more a = SMarketOrder.more b"
  by (metis assms strip_sel(1), metis assms strip_sel(2), metis assms strip_sel(3),
      metis assms strip_sel(4), metis assms strip_sel(5), metis assms strip_sel(6))

section \<open>Access through valid pointers\<close>

lemma get_lvl_Some [simp]: "get_lvl b (Some i) = Inr (pobj (m_ordersAtPricePool b) i)"
  by (simp add: get_lvl_def)

lemma set_lvl_Some [simp]:
  "set_lvl (Some i) f b = Inr (b\<lparr>m_ordersAtPricePool := poke i f (m_ordersAtPricePool b)\<rparr>)"
  by (simp add: set_lvl_def)

lemma get_ord_Some [simp]: "get_ord b (Some i) = Inr (pobj (m_orderPool b) i)"
  by (simp add: get_ord_def)

lemma set_ord_Some [simp]: "set_ord (Some i) f b = Inr (b\<lparr>m_orderPool := poke i f (m_orderPool b)\<rparr>)"
  by (simp add: set_ord_def)

lemma PriceToIndex_lt: "unat (PriceToIndex p) < ME_MAX_PRICE_LEVELS"
  by (simp add: PriceToIndex_def ME_MAX_PRICE_LEVELS_def unat_mod)

lemma GetOrdersAtPrice_eq [simp]: "GetOrdersAtPrice p b = Inr (m_priceOrdersAtPrice b (PriceToIndex p))"
  by (simp add: GetOrdersAtPrice_def PriceToIndex_lt)

lemma set_price_entry_eq [simp]:
  "set_price_entry p x b = Inr (b\<lparr>m_priceOrdersAtPrice := (m_priceOrdersAtPrice b)(PriceToIndex p := x)\<rparr>)"
  by (simp add: set_price_entry_def PriceToIndex_lt)

lemma set_best_sel [simp]:
  "m_ordersAtPricePool (set_best sd x b) = m_ordersAtPricePool b"
  "m_orderPool (set_best sd x b) = m_orderPool b"
  "m_priceOrdersAtPrice (set_best sd x b) = m_priceOrdersAtPrice b"
  by (simp_all add: set_best_def)

lemma set_best_pool:
  "set_best sd x (b\<lparr>m_ordersAtPricePool := p\<rparr>) = (set_best sd x b)\<lparr>m_ordersAtPricePool := p\<rparr>"
  by (simp add: set_best_def)

lemma best_of_upd [simp]:
  "best_of sd (b\<lparr>m_ordersAtPricePool := p\<rparr>) = best_of sd b"
  "best_of sd (b\<lparr>m_orderPool := q\<rparr>) = best_of sd b"
  "best_of sd (b\<lparr>m_priceOrdersAtPrice := t\<rparr>) = best_of sd b"
  by (simp_all add: best_of_def)

section \<open>Levels\<close>

lemma link_level_after_ring:
  fixes b :: "'o book_core"
  defines "P \<equiv> m_ordersAtPricePool b"
  assumes r: "ring (nxL P) (pvL P) ls" and ne: "ls \<noteq> []" and n: "n \<notin> set ls"
  shows "\<exists>P'. link_level_after (Some n) (Some (last ls)) b = Inr (b\<lparr>m_ordersAtPricePool := P'\<rparr>)
    \<and> ring (nxL P') (pvL P') (ls @ [n]) \<and> same_except lvl_data (insert n (set ls)) P P'"
proof -
  let ?t = "last ls" and ?h = "hd ls"
  have t: "pNextEntry (pobj P ?t) = Some ?h" using ring_last_links(1) [OF r ne] by (simp add: nxL_def)
  have neq: "n \<noteq> ?t" "n \<noteq> ?h" using n ne by (metis last_in_set, metis hd_in_set)
  define P' where "P' = poke ?t (\<lambda>l. l\<lparr>pNextEntry := Some n\<rparr>) (poke n (\<lambda>l. l\<lparr>pNextEntry := Some ?h\<rparr>)
     (poke ?h (\<lambda>l. l\<lparr>pPrevEntry := Some n\<rparr>) (poke n (\<lambda>l. l\<lparr>pPrevEntry := Some ?t\<rparr>) P)))"
  have "link_level_after (Some n) (Some ?t) b = Inr (b\<lparr>m_ordersAtPricePool := P'\<rparr>)"
    using t neq by (cases "?h = ?t") (simp_all add: link_level_after_def P'_def pobj_poke P_def)
  moreover have nx: "nxL P' = (nxL P)(?t := Some n, n := Some ?h)" and pv: "pvL P' = (pvL P)(n := Some ?t, ?h := Some n)"
    using neq by (auto simp: P'_def link_defs pobj_poke fun_eq_iff)
  then have "ring (nxL P') (pvL P') (ls @ [n])" using ring_link_last [OF r ne n] by simp
  moreover have "same_except lvl_data (insert n (set ls)) P P'"
    unfolding P'_def using ne by (intro same_except_poke) auto
  ultimately show ?thesis by blast
qed

lemma link_level_before_ring:
  fixes b :: "'o book_core"
  defines "P \<equiv> m_ordersAtPricePool b"
  assumes r: "ring (nxL P) (pvL P) (as @ t # bs)" and n: "n \<notin> set (as @ t # bs)"
  shows "\<exists>P'. link_level_before (Some n) (Some t) b = Inr (b\<lparr>m_ordersAtPricePool := P'\<rparr>)
    \<and> ring (nxL P') (pvL P') (as @ n # t # bs) \<and> same_except lvl_data (insert n (set (as @ t # bs))) P P'"
proof -
  obtain p where p: "pvL P t = Some p" and pin: "p \<in> set (as @ t # bs)"
    using ring_prev_in [OF r, of t] by auto
  have neq: "n \<noteq> t" "n \<noteq> p" using n pin by auto
  define P' where "P' = poke t (\<lambda>l. l\<lparr>pPrevEntry := Some n\<rparr>) (poke p (\<lambda>l. l\<lparr>pNextEntry := Some n\<rparr>)
     (poke n (\<lambda>l. l\<lparr>pNextEntry := Some t\<rparr>) (poke n (\<lambda>l. l\<lparr>pPrevEntry := Some p\<rparr>) P)))"
  have "link_level_before (Some n) (Some t) b = Inr (b\<lparr>m_ordersAtPricePool := P'\<rparr>)"
    using p neq by (simp add: link_level_before_def P'_def pobj_poke P_def pvL_def)
  moreover have "nxL P' = (nxL P)(p := Some n, n := Some t)" and "pvL P' = (pvL P)(n := Some p, t := Some n)"
    using neq by (auto simp: P'_def link_defs pobj_poke fun_eq_iff)
  then have "ring (nxL P') (pvL P') (as @ n # t # bs)" using ring_link_before [OF r n p] by simp
  moreover have "same_except lvl_data (insert n (set (as @ t # bs))) P P'"
    unfolding P'_def using pin by (intro same_except_poke) auto
  ultimately show ?thesis by blast
qed

lemma unlink_level_ring:
  fixes b :: "'o book_core"
  defines "P \<equiv> m_ordersAtPricePool b"
  assumes r: "ring (nxL P) (pvL P) (as @ x # bs)" and ne: "as @ bs \<noteq> []"
  shows "\<exists>P'. unlink_level (Some x) best sd b =
      Inr ((if Some x = best then set_best sd (Some (hd (bs @ as))) b else b)\<lparr>m_ordersAtPricePool := P'\<rparr>)
    \<and> ring (nxL P') (pvL P') (as @ bs) \<and> same_except lvl_data (set (as @ x # bs)) P P'"
proof -
  obtain p where p: "pvL P x = Some p" and pin: "p \<in> set (as @ x # bs)"
    using ring_prev_in [OF r, of x] by auto
  obtain q where q: "nxL P x = Some q" and qin: "q \<in> set (as @ x # bs)"
    using ring_next_in [OF r, of x] by auto
  have r': "ring (nxL P) (pvL P) ((bs @ as) @ [x])" using r ring_rotate [of _ _ "as @ [x]" bs] by simp
  have xs: "as @ x # bs \<noteq> [x]" using ne by (cases as; cases bs) auto
  have neq: "p \<noteq> x" "q \<noteq> x"
    using ring_self_prev [OF r, of x] ring_self_next [OF r, of x] p q xs by auto
  have hq: "q = hd (bs @ as)" using ring_last_links(1) [OF r'] q ne by (cases "bs @ as") auto
  define P' where "P' = poke x (\<lambda>l. l\<lparr>pPrevEntry := None\<rparr>) (poke x (\<lambda>l. l\<lparr>pNextEntry := None\<rparr>)
     (poke q (\<lambda>l. l\<lparr>pPrevEntry := Some p\<rparr>) (poke p (\<lambda>l. l\<lparr>pNextEntry := Some q\<rparr>) P)))"
  have "unlink_level (Some x) best sd b =
      Inr ((if Some x = best then set_best sd (Some q) b else b)\<lparr>m_ordersAtPricePool := P'\<rparr>)"
    using p q neq
    by (simp add: unlink_level_def P'_def pobj_poke P_def nxL_def pvL_def set_best_pool)
  moreover have nx: "nxL P' = ((nxL P)(p := Some q))(x := None)" and pv: "pvL P' = ((pvL P)(q := Some p))(x := None)"
    using neq by (auto simp: P'_def link_defs pobj_poke fun_eq_iff)
  have "x \<notin> set (as @ bs)" using ring_distinct [OF r] by auto
  then have "ring (nxL P') (pvL P') (as @ bs) \<longleftrightarrow> ring ((nxL P)(p := Some q)) ((pvL P)(q := Some p)) (as @ bs)"
    unfolding nx pv by (intro ring_cong) auto
  then have "ring (nxL P') (pvL P') (as @ bs)" using ring_unlink [OF r ne p q] by simp
  moreover have "same_except lvl_data (set (as @ x # bs)) P P'"
    unfolding P'_def using pin qin by (intro same_except_poke) auto
  ultimately show ?thesis unfolding hq by blast
qed

section \<open>Orders\<close>

lemma link_order_ring:
  fixes b :: "'o book_core"
  defines "Q \<equiv> m_orderPool b"
  assumes r: "ring (nxO Q) (pvO Q) os" and ne: "os \<noteq> []" and n: "n \<notin> set os"
  shows "\<exists>Q'. link_order (Some n) (Some (hd os)) b = Inr (b\<lparr>m_orderPool := Q'\<rparr>)
    \<and> ring (nxO Q') (pvO Q') (os @ [n]) \<and> same_except strip (insert n (set os)) Q Q'"
proof -
  let ?t = "last os" and ?h = "hd os"
  have t: "pPrevOrder (pobj Q ?h) = Some ?t" using ring_last_links(2) [OF r ne] by (simp add: pvO_def)
  have neq: "n \<noteq> ?t" "n \<noteq> ?h" using n ne by (metis last_in_set, metis hd_in_set)
  define Q' where "Q' = poke ?h (\<lambda>l. l\<lparr>pPrevOrder := Some n\<rparr>) (poke n (\<lambda>l. l\<lparr>pNextOrder := Some ?h\<rparr>)
     (poke n (\<lambda>l. l\<lparr>pPrevOrder := Some ?t\<rparr>) (poke ?t (\<lambda>l. l\<lparr>pNextOrder := Some n\<rparr>) Q)))"
  have "link_order (Some n) (Some ?h) b = Inr (b\<lparr>m_orderPool := Q'\<rparr>)"
    using t neq by (cases "?h = ?t") (simp_all add: link_order_def Q'_def pobj_poke Q_def)
  moreover have "nxO Q' = (nxO Q)(?t := Some n, n := Some ?h)" and "pvO Q' = (pvO Q)(n := Some ?t, ?h := Some n)"
    using neq by (auto simp: Q'_def link_defs pobj_poke fun_eq_iff)
  then have "ring (nxO Q') (pvO Q') (os @ [n])" using ring_link_last [OF r ne n] by simp
  moreover have "same_except strip (insert n (set os)) Q Q'"
    unfolding Q'_def using ne by (intro same_except_poke) auto
  ultimately show ?thesis by blast
qed

lemma unlink_order_ring:
  fixes b :: "'o book_core"
  defines "Q \<equiv> m_orderPool b" and "P \<equiv> m_ordersAtPricePool b"
  assumes r: "ring (nxO Q) (pvO Q) (as @ x # bs)" and ne: "as @ bs \<noteq> []"
    and f: "pFirstOrder (pobj P l) = Some (hd (as @ x # bs))"
  shows "\<exists>Q' P'. unlink_order (Some x) (Some l) b = Inr (b\<lparr>m_ordersAtPricePool := P', m_orderPool := Q'\<rparr>)
    \<and> ring (nxO Q') (pvO Q') (as @ bs) \<and> same_except strip (set (as @ x # bs)) Q Q'
    \<and> (\<exists>f. P' = poke l f P \<and> f (pobj P l) = (pobj P l)\<lparr>pFirstOrder := Some (hd (as @ bs))\<rparr>)"
proof -
  obtain p where p: "pvO Q x = Some p" and pin: "p \<in> set (as @ x # bs)"
    using ring_prev_in [OF r, of x] by auto
  obtain q where q: "nxO Q x = Some q" and qin: "q \<in> set (as @ x # bs)"
    using ring_next_in [OF r, of x] by auto
  have r': "ring (nxO Q) (pvO Q) ((bs @ as) @ [x])" using r ring_rotate [of _ _ "as @ [x]" bs] by simp
  have xs: "as @ x # bs \<noteq> [x]" using ne by (cases as; cases bs) auto
  have neq: "p \<noteq> x" "q \<noteq> x"
    using ring_self_prev [OF r, of x] ring_self_next [OF r, of x] p q xs by auto
  have hq: "q = hd (bs @ as)" using ring_last_links(1) [OF r'] q ne by (cases "bs @ as") auto
  have x: "x \<notin> set (as @ bs)" using ring_distinct [OF r] by auto
  have fx: "(Some (hd (as @ x # bs)) = Some x) \<longleftrightarrow> as = []" using x by (cases as) auto
  define Q' where "Q' = poke x (\<lambda>l. l\<lparr>pPrevOrder := None\<rparr>) (poke x (\<lambda>l. l\<lparr>pNextOrder := None\<rparr>)
     (poke q (\<lambda>l. l\<lparr>pPrevOrder := Some p\<rparr>) (poke p (\<lambda>l. l\<lparr>pNextOrder := Some q\<rparr>) Q)))"
  define g :: "SMEOrdersAtPrice \<Rightarrow> SMEOrdersAtPrice" where "g = (if as = [] then (\<lambda>l. l\<lparr>pFirstOrder := Some q\<rparr>) else (\<lambda>l. l))"
  have id: "poke l (\<lambda>l. l) P = P" by (auto simp: poke_def)
  have "unlink_order (Some x) (Some l) b = Inr (b\<lparr>m_ordersAtPricePool := poke l g P, m_orderPool := Q'\<rparr>)"
    using p q neq f fx id
    by (cases "as = []") (auto simp: unlink_order_def Q'_def g_def pobj_poke P_def Q_def nxO_def pvO_def)
  moreover have "g (pobj P l) = (pobj P l)\<lparr>pFirstOrder := Some (hd (as @ bs))\<rparr>"
    using f hq by (cases as) (auto simp: g_def)
  moreover have nx: "nxO Q' = ((nxO Q)(p := Some q))(x := None)" and pv: "pvO Q' = ((pvO Q)(q := Some p))(x := None)"
    using neq by (auto simp: Q'_def link_defs pobj_poke fun_eq_iff)
  have "ring (nxO Q') (pvO Q') (as @ bs) \<longleftrightarrow> ring ((nxO Q)(p := Some q)) ((pvO Q)(q := Some p)) (as @ bs)"
    unfolding nx pv using x by (intro ring_cong) auto
  then have "ring (nxO Q') (pvO Q') (as @ bs)" using ring_unlink [OF r ne p q] by simp
  moreover have "same_except strip (set (as @ x # bs)) Q Q'"
    unfolding Q'_def using pin qin by (intro same_except_poke) auto
  ultimately show ?thesis by blast
qed

end
