(* ===== verification/BookRep.thy ===== *)
theory BookRep
  imports BookLinks
begin

text \<open>
  When a linked book represents a price-time ordered book: the relation \<open>book_rep\<close> between the
  linked state of theory \<open>BookCore\<close> and, for each side, the list of its price levels from best to
  worst, each with the list of its orders from oldest to newest.
\<close>

section \<open>The representation relation\<close>

text \<open>A level is its block in the level pool and the blocks of its orders in the order pool.\<close>

type_synonym level_nodes = "nat \<times> nat list"

definition sides :: "ESide set" where "sides = {BUY, SELL}"

definition px :: "'o book_core \<Rightarrow> level_nodes \<Rightarrow> Price" where
  "px b x = lvl_price (pobj (m_ordersAtPricePool b) (fst x))"

definition lvl_rep :: "'o book_core \<Rightarrow> ESide \<Rightarrow> level_nodes \<Rightarrow> bool" where
  "lvl_rep b sd x \<longleftrightarrow>
     lvl_side (pobj (m_ordersAtPricePool b) (fst x)) = sd \<and> snd x \<noteq> []
     \<and> pFirstOrder (pobj (m_ordersAtPricePool b) (fst x)) = Some (hd (snd x))
     \<and> ring (nxO (m_orderPool b)) (pvO (m_orderPool b)) (snd x)
     \<and> (\<forall>i\<in>set (snd x). ord_side (pobj (m_orderPool b) i) = sd \<and> ord_price (pobj (m_orderPool b) i) = px b x)"

definition levels_ok :: "'o book_core \<Rightarrow> ESide \<Rightarrow> level_nodes list \<Rightarrow> bool" where
  "levels_ok b sd s \<longleftrightarrow> sorted_wrt (\<lambda>x y. worse sd (px b y) (px b x)) s \<and> (\<forall>x\<in>set s. lvl_rep b sd x)"

definition side_links :: "'o book_core \<Rightarrow> ESide \<Rightarrow> nat list \<Rightarrow> bool" where
  "side_links b sd ls \<longleftrightarrow> best_of sd b = (if ls = [] then None else Some (hd ls))
     \<and> ring (nxL (m_ordersAtPricePool b)) (pvL (m_ordersAtPricePool b)) ls"

definition level_set :: "(ESide \<Rightarrow> level_nodes list) \<Rightarrow> level_nodes set" where
  "level_set ss = (\<Union>sd\<in>sides. set (ss sd))"

definition onodes :: "level_nodes list \<Rightarrow> nat list" where
  "onodes s = concat (map snd s)"

definition order_set :: "(ESide \<Rightarrow> level_nodes list) \<Rightarrow> nat set" where
  "order_set ss = (\<Union>sd\<in>sides. set (onodes (ss sd)))"

definition table_ok :: "'o book_core \<Rightarrow> (ESide \<Rightarrow> level_nodes list) \<Rightarrow> bool" where
  "table_ok b ss \<longleftrightarrow> (\<forall>k l. m_priceOrdersAtPrice b k = Some l
      \<longleftrightarrow> (\<exists>x\<in>level_set ss. fst x = l \<and> PriceToIndex (px b x) = k))"

text \<open>\<open>X\<close>: the blocks of the order pool that are allocated but not linked.\<close>

definition book_rep :: "'o book_core \<Rightarrow> (ESide \<Rightarrow> level_nodes list) \<Rightarrow> nat set \<Rightarrow> bool" where
  "book_rep b ss X \<longleftrightarrow> pool_ok (m_ordersAtPricePool b) \<and> pool_ok (m_orderPool b)
     \<and> (\<forall>sd\<in>sides. side_links b sd (map fst (ss sd)) \<and> levels_ok b sd (ss sd))
     \<and> pused (m_ordersAtPricePool b) = fst ` level_set ss
     \<and> pused (m_orderPool b) = order_set ss \<union> X \<and> order_set ss \<inter> X = {}
     \<and> table_ok b ss"

lemmas rep_defs = book_rep_def lvl_rep_def levels_ok_def side_links_def table_ok_def

section \<open>Comparing prices\<close>

lemma sint_word_eq: "sint a = sint b \<longleftrightarrow> a = b" for a b :: "'n::len word"
  by (auto intro: signed_word_eqI)

lemma worse_irrefl [simp]: "\<not> worse sd p p"
  by (simp add: worse_def)

lemma worse_trans: "worse sd a b \<Longrightarrow> worse sd b c \<Longrightarrow> worse sd a c"
  by (auto simp: worse_def)

lemma worse_total: "sd \<in> sides \<Longrightarrow> a \<noteq> b \<Longrightarrow> \<not> worse sd a b \<longleftrightarrow> worse sd b a"
  by (auto simp: worse_def sides_def sint_word_eq not_less order_less_le)

lemma worse_asym: "worse sd a b \<Longrightarrow> \<not> worse sd b a"
  by (auto simp: worse_def)

section \<open>What the relation depends on\<close>

lemma lvl_rep_cong:
  assumes "lvl_data (pobj (m_ordersAtPricePool b') (fst x)) = lvl_data (pobj (m_ordersAtPricePool b) (fst x))"
    and "\<And>i. i \<in> set (snd x) \<Longrightarrow> pobj (m_orderPool b') i = pobj (m_orderPool b) i"
  shows "lvl_rep b' sd x = lvl_rep b sd x"
proof -
  have "ring (nxO (m_orderPool b')) (pvO (m_orderPool b')) (snd x) = ring (nxO (m_orderPool b)) (pvO (m_orderPool b)) (snd x)"
    using assms(2) by (intro ring_cong) (simp_all add: link_defs)
  then show ?thesis using lvl_data_eqD [OF assms(1)] assms(2) by (simp add: lvl_rep_def px_def)
qed

lemma px_cong:
  "lvl_data (pobj (m_ordersAtPricePool b') (fst x)) = lvl_data (pobj (m_ordersAtPricePool b) (fst x)) \<Longrightarrow> px b' x = px b x"
  by (drule lvl_data_eqD) (simp add: px_def)

lemma levels_ok_cong:
  assumes "\<And>x. x \<in> set s \<Longrightarrow> lvl_data (pobj (m_ordersAtPricePool b') (fst x)) = lvl_data (pobj (m_ordersAtPricePool b) (fst x))"
    and "\<And>x i. x \<in> set s \<Longrightarrow> i \<in> set (snd x) \<Longrightarrow> pobj (m_orderPool b') i = pobj (m_orderPool b) i"
  shows "levels_ok b' sd s = levels_ok b sd s"
proof -
  have p: "px b' x = px b x" if "x \<in> set s" for x using px_cong assms(1) that by blast
  have "sorted_wrt (\<lambda>x y. worse sd (px b' y) (px b' x)) s = sorted_wrt (\<lambda>x y. worse sd (px b y) (px b x)) s"
    using p by (auto intro: sorted_wrt_mono_rel [rotated])
  moreover have "(\<forall>x\<in>set s. lvl_rep b' sd x) = (\<forall>x\<in>set s. lvl_rep b sd x)"
    using lvl_rep_cong [of b' _ b sd] assms by blast
  ultimately show ?thesis by (simp add: levels_ok_def)
qed

lemma side_links_cong:
  assumes "best_of sd b' = best_of sd b"
    and "\<And>i. i \<in> set ls \<Longrightarrow> pobj (m_ordersAtPricePool b') i = pobj (m_ordersAtPricePool b) i"
  shows "side_links b' sd ls = side_links b sd ls"
proof -
  have "ring (nxL (m_ordersAtPricePool b')) (pvL (m_ordersAtPricePool b')) ls = ring (nxL (m_ordersAtPricePool b)) (pvL (m_ordersAtPricePool b)) ls"
    using assms(2) by (intro ring_cong) (simp_all add: link_defs)
  then show ?thesis using assms(1) by (simp add: side_links_def)
qed

section \<open>Nodes belong to one place\<close>

lemma in_onodes: "i \<in> set (onodes s) \<longleftrightarrow> (\<exists>x\<in>set s. i \<in> set (snd x))"
  by (auto simp: onodes_def)

lemma onodes_simps [simp]:
  "onodes [] = []" "onodes (x # s) = snd x @ onodes s" "onodes (s @ t) = onodes s @ onodes t"
  by (simp_all add: onodes_def)

lemma repD:
  assumes "book_rep b ss X" and "sd \<in> sides" and "x \<in> set (ss sd)"
  shows "lvl_rep b sd x"
  using assms by (simp add: rep_defs)

lemma rep_side_unique:
  assumes "book_rep b ss X" and "sd \<in> sides" "sd' \<in> sides" and "x \<in> set (ss sd)" "y \<in> set (ss sd')"
    and "fst x = fst y"
  shows "sd = sd'"
  using repD [OF assms(1,2,4)] repD [OF assms(1,3,5)] assms(6) by (simp add: lvl_rep_def)

lemma levels_ok_price_inj:
  assumes "levels_ok b sd s" and "x \<in> set s" "y \<in> set s" and "px b x = px b y"
  shows "x = y"
proof (rule ccontr)
  assume "x \<noteq> y"
  from assms(2) obtain k where k: "k < length s" "s ! k = x" by (auto simp: in_set_conv_nth)
  from assms(3) obtain m where m: "m < length s" "s ! m = y" by (auto simp: in_set_conv_nth)
  have "k \<noteq> m" using k m \<open>x \<noteq> y\<close> by auto
  then have "worse sd (px b y) (px b x) \<or> worse sd (px b x) (px b y)"
    using assms(1) k m unfolding levels_ok_def sorted_wrt_iff_nth_less by (metis linorder_neqE_nat)
  then show False using assms(4) by simp
qed

lemma rep_order_unique:
  assumes "book_rep b ss X" and "sd \<in> sides" "sd' \<in> sides" and "x \<in> set (ss sd)" "y \<in> set (ss sd')"
    and "i \<in> set (snd x)" "i \<in> set (snd y)"
  shows "sd = sd' \<and> x = y"
proof -
  have r: "lvl_rep b sd x" "lvl_rep b sd' y" using repD assms by metis+
  have "sd = sd'" using r assms(6,7) by (auto simp: lvl_rep_def)
  moreover have "px b x = px b y" using r assms(6,7) by (auto simp: lvl_rep_def)
  moreover have "levels_ok b sd (ss sd)" using assms(1,2) by (simp add: rep_defs)
  ultimately show ?thesis using levels_ok_price_inj assms(4,5) by blast
qed

lemma rep_fst_inj:
  assumes "book_rep b ss X" and "sd \<in> sides" and "x \<in> set (ss sd)" "y \<in> set (ss sd)" and "fst x = fst y"
  shows "x = y"
proof -
  have "px b x = px b y" using assms(5) by (simp add: px_def)
  moreover have "levels_ok b sd (ss sd)" using assms(1,2) by (simp add: rep_defs)
  ultimately show ?thesis using levels_ok_price_inj assms(3,4) by blast
qed

lemma levels_ok_distinct_onodes: "levels_ok b sd s \<Longrightarrow> distinct (onodes s)"
proof (induction s)
  case Nil
  then show ?case by simp
next
  case (Cons x s)
  have s: "levels_ok b sd s" using Cons.prems by (simp add: levels_ok_def)
  have x: "distinct (snd x)" using Cons.prems ring_distinct by (auto simp: levels_ok_def lvl_rep_def)
  have "i \<notin> set (onodes s)" if i: "i \<in> set (snd x)" for i
  proof
    assume "i \<in> set (onodes s)"
    then obtain y where y: "y \<in> set s" "i \<in> set (snd y)" by (auto simp: in_onodes)
    have "px b x = px b y" using Cons.prems i y by (auto simp: levels_ok_def lvl_rep_def)
    moreover have "worse sd (px b y) (px b x)" using Cons.prems y by (simp add: levels_ok_def)
    ultimately show False by simp
  qed
  then show ?case using Cons.IH [OF s] x by auto
qed

end
