(* ===== verification/BookLevels.thy ===== *)
theory BookLevels
  imports BookRep
begin

text \<open>
  \<open>AddOrdersAtPrice\<close> and \<open>RemoveOrdersAtPrice\<close> on represented books: the walk over the levels
  ends, and stops at the first level that is not better than the new price; the new level is linked
  there, and the top of the side is right afterwards.
\<close>

section \<open>The walk to the place of a new price\<close>

definition walk_result :: "'o book_core \<Rightarrow> ESide \<Rightarrow> Price \<Rightarrow> nat \<Rightarrow> nat list \<Rightarrow> ptr \<times> bool" where
  "walk_result b sd price h zs =
     (case dropWhile (\<lambda>l. worse sd price (lvl_price (pobj (m_ordersAtPricePool b) l))) zs of
        [] \<Rightarrow> (Some h, True) | m # _ \<Rightarrow> (Some m, False))"

lemma find_target_False [simp]: "find_target fuel b best sd price target False = Inr (target, False)"
  by (simp add: find_target.simps)

lemma find_target_best [simp]: "find_target fuel b best sd price best True = Inr (best, True)"
  by (simp add: find_target.simps)

lemma find_target_walk:
  assumes "ring (nxL (m_ordersAtPricePool b)) (pvL (m_ordersAtPricePool b)) (h # ys @ zs)" and "length zs \<le> fuel"
  shows "find_target fuel b (Some h) sd price (Some (hd (zs @ [h]))) True
    = Inr (walk_result b sd price h zs)"
  using assms
proof (induction zs arbitrary: ys fuel)
  case Nil
  then show ?case by (simp add: walk_result_def)
next
  case (Cons z zs)
  let ?P = "m_ordersAtPricePool b"
  have zh: "z \<noteq> h" using ring_distinct [OF Cons.prems(1)] by auto
  obtain f where f: "fuel = Suc f" using Cons.prems(2) by (cases fuel) auto
  have nz: "pNextEntry (pobj ?P z) = Some (hd (zs @ [h]))"
  proof (cases zs)
    case Nil
    then show ?thesis using ring_last_links(1) [OF Cons.prems(1)] by (simp add: nxL_def)
  next
    case zs: (Cons z' zs')
    then have "nxL ?P z = Some z'" using ring_next_mid(1) [of "nxL ?P" "pvL ?P" "h # ys" z z' zs'] Cons.prems(1) by simp
    then show ?thesis using zs by (simp add: nxL_def)
  qed
  have step: "find_target fuel b (Some h) sd price (Some z) True =
    find_target f b (Some h) sd price (if worse sd price (lvl_price (pobj ?P z)) then pNextEntry (pobj ?P z) else Some z)
      (worse sd price (lvl_price (pobj ?P z)))"
    using zh by (simp add: find_target.simps [of "Suc f"] f)
  show ?case
  proof (cases "worse sd price (lvl_price (pobj ?P z))")
    case True
    have "find_target f b (Some h) sd price (Some (hd (zs @ [h]))) True = Inr (walk_result b sd price h zs)"
      using Cons.IH [of "ys @ [z]" f] Cons.prems f by simp
    then show ?thesis using True step nz by (simp add: walk_result_def)
  next
    case False
    then show ?thesis using step by (simp add: walk_result_def)
  qed
qed

lemma find_target_spec:
  assumes r: "ring (nxL (m_ordersAtPricePool b)) (pvL (m_ordersAtPricePool b)) (h # zs)" and "length zs \<le> fuel"
  shows "bindE (start_target b (Some h) sd price) (\<lambda>(t, after). find_target fuel b (Some h) sd price t after)
    = Inr (walk_result b sd price h (h # zs))"
proof -
  let ?P = "m_ordersAtPricePool b" and ?m = "hd (zs @ [h])"
  have nh: "pNextEntry (pobj ?P h) = Some ?m"
    using ring_last_links(1) [OF r] ring_next_mid(1) [of "nxL ?P" "pvL ?P" "[]" h] r
    by (cases zs) (auto simp: nxL_def)
  show ?thesis
  proof (cases "worse sd price (lvl_price (pobj ?P h))")
    case False
    then show ?thesis by (simp add: start_target_def walk_result_def)
  next
    case True
    show ?thesis
    proof (cases "worse sd price (lvl_price (pobj ?P ?m))")
      case w: True
      have "find_target fuel b (Some h) sd price (Some ?m) True = Inr (walk_result b sd price h zs)"
        using find_target_walk [of b h "[]" zs fuel sd price] assms by simp
      then show ?thesis using True w nh by (simp add: start_target_def walk_result_def)
    next
      case w: False
      then obtain z zs' where "zs = z # zs'" using True by (cases zs) auto
      then show ?thesis using True w nh by (simp add: start_target_def walk_result_def)
    qed
  qed
qed

lemma set_best_idem: "best_of sd b = x \<Longrightarrow> set_best sd x b = b"
  by (auto simp: best_of_def set_best_def)

lemma best_of_set_best [simp]: "best_of sd (set_best sd x b) = x"
  by (simp add: best_of_def set_best_def)

lemma best_of_set_best_other: "sd \<in> sides \<Longrightarrow> sd' \<in> sides \<Longrightarrow> sd \<noteq> sd' \<Longrightarrow> best_of sd' (set_best sd x b) = best_of sd' b"
  by (auto simp: best_of_def set_best_def sides_def)

lemma set_best_tab:
  "set_best sd x (b\<lparr>m_priceOrdersAtPrice := t\<rparr>) = (set_best sd x b)\<lparr>m_priceOrdersAtPrice := t\<rparr>"
  by (simp add: set_best_def)

lemma poke_id: "f (pobj P i) = pobj P i \<Longrightarrow> poke i f P = P"
  by (auto simp: poke_def pobj_def)

section \<open>Adding a level\<close>

text \<open>The levels after the insertion of \<open>n\<close> with price \<open>price\<close>.\<close>

definition insert_level :: "(nat \<Rightarrow> Price) \<Rightarrow> ESide \<Rightarrow> Price \<Rightarrow> nat \<Rightarrow> nat list \<Rightarrow> nat list" where
  "insert_level pr sd price n ls = takeWhile (\<lambda>l. worse sd price (pr l)) ls @ n # dropWhile (\<lambda>l. worse sd price (pr l)) ls"

lemma new_best_cond:
  "sd \<in> sides \<Longrightarrow> (sd = BUY \<and> sint q < sint p) \<or> (sd = SELL \<and> sint p < sint q) \<longleftrightarrow> worse sd q p"
  by (auto simp: worse_def)

lemma AddOrdersAtPrice_empty:
  fixes b :: "'o book_core"
  defines "P \<equiv> m_ordersAtPricePool b"
  assumes sd: "sd = lvl_side (pobj P n)" and e: "best_of sd b = None"
  shows "\<exists>P'. AddOrdersAtPrice (Some n) b =
      Inr ((set_best sd (Some n) b)\<lparr>m_priceOrdersAtPrice := (m_priceOrdersAtPrice b)(PriceToIndex (lvl_price (pobj P n)) := Some n),
             m_ordersAtPricePool := P'\<rparr>)
    \<and> ring (nxL P') (pvL P') [n] \<and> same_except lvl_data {n} P P'"
proof -
  define P' where "P' = poke n (\<lambda>l. l\<lparr>pPrevEntry := Some n\<rparr>) (poke n (\<lambda>l. l\<lparr>pNextEntry := Some n\<rparr>) P)"
  have "AddOrdersAtPrice (Some n) b =
      Inr ((set_best sd (Some n) b)\<lparr>m_priceOrdersAtPrice := (m_priceOrdersAtPrice b)(PriceToIndex (lvl_price (pobj P n)) := Some n),
             m_ordersAtPricePool := P'\<rparr>)"
    using e sd by (simp add: AddOrdersAtPrice_def P_def P'_def Let_def set_best_tab)
  moreover have "ring (nxL P') (pvL P') [n]" by (rule ring_single) (simp_all add: P'_def link_defs pobj_poke)
  moreover have "same_except lvl_data {n} P P'" unfolding P'_def by (intro same_except_poke) auto
  ultimately show ?thesis by blast
qed

lemma walk_result_cases:
  fixes b :: "'o book_core" and h :: nat and zs :: "nat list" and sd :: ESide and price :: Price
  defines "W \<equiv> \<lambda>l. worse sd price (lvl_price (pobj (m_ordersAtPricePool b) l))" and "ls \<equiv> h # zs"
  obtains (last) "dropWhile W ls = []" "takeWhile W ls = ls" "walk_result b sd price h ls = (Some h, True)"
  | (mid) t bs where "dropWhile W ls = t # bs" "ls = takeWhile W ls @ t # bs" "\<not> W t"
      "walk_result b sd price h ls = (Some t, False)"
proof (cases "dropWhile W ls")
  case Nil
  then have "takeWhile W ls = ls" by (metis append_Nil2 takeWhile_dropWhile_id)
  moreover have "walk_result b sd price h ls = (Some h, True)"
    unfolding walk_result_def using Nil [unfolded W_def] by (simp only: list.case)
  ultimately show ?thesis using Nil last by blast
next
  case (Cons t bs)
  then have "ls = takeWhile W ls @ t # bs" by (metis takeWhile_dropWhile_id)
  moreover have "\<not> W t" using Cons hd_dropWhile [of W ls] by simp
  ultimately show ?thesis using Cons mid by (simp add: walk_result_def W_def)
qed


lemma find_target_then:
  assumes "ring (nxL (m_ordersAtPricePool b)) (pvL (m_ordersAtPricePool b)) (h # zs)" and "length zs \<le> fuel"
  shows "bindE (start_target b (Some h) sd price) (\<lambda>(t, after). bindE (find_target fuel b (Some h) sd price t after) k)
    = k (walk_result b sd price h (h # zs))"
proof -
  have "bindE (bindE S (\<lambda>(t, a). F t a)) k = bindE S (\<lambda>(t, a). bindE (F t a) k)" for S F
    by (cases S) (auto split: prod.split)
  from this [of "start_target b (Some h) sd price" "find_target fuel b (Some h) sd price"]
  show ?thesis using find_target_spec [OF assms] by simp
qed

lemma AddOrdersAtPrice_last:
  fixes b :: "'o book_core" and h :: nat and zs :: "nat list"
  defines "P \<equiv> m_ordersAtPricePool b" and "ls \<equiv> h # zs"
  assumes sd: "sd = lvl_side (pobj P n)" and pr: "price = lvl_price (pobj P n)"
    and best: "best_of sd b = Some h" and r: "ring (nxL P) (pvL P) ls" and len: "length ls \<le> m_size P"
    and n: "n \<notin> set ls" and walk: "walk_result b sd price h ls = (Some h, True)"
  shows "\<exists>P'. AddOrdersAtPrice (Some n) b =
      Inr (b\<lparr>m_priceOrdersAtPrice := (m_priceOrdersAtPrice b)(PriceToIndex price := Some n), m_ordersAtPricePool := P'\<rparr>)
    \<and> ring (nxL P') (pvL P') (ls @ [n]) \<and> same_except lvl_data (insert n (set ls)) P P'"
proof -
  let ?b1 = "b\<lparr>m_priceOrdersAtPrice := (m_priceOrdersAtPrice b)(PriceToIndex price := Some n)\<rparr>"
  have r1: "ring (nxL (m_ordersAtPricePool ?b1)) (pvL (m_ordersAtPricePool ?b1)) (h # zs)" and f: "length zs \<le> m_size (m_ordersAtPricePool b)"
    using r len by (simp_all add: P_def ls_def)
  have w: "walk_result ?b1 sd price h (h # zs) = (Some h, True)" using walk by (simp add: walk_result_def ls_def)
  have pv: "pPrevEntry (pobj P h) = Some (last ls)" using ring_last_links(2) [OF r] by (simp add: pvL_def ls_def)
  have "AddOrdersAtPrice (Some n) b = link_level_after (Some n) (Some (last ls)) ?b1"
    using best sd [symmetric] pr [symmetric] pv w by (simp add: AddOrdersAtPrice_def P_def Let_def find_target_then [OF r1 f])
  moreover obtain P' where "link_level_after (Some n) (Some (last ls)) ?b1 = Inr (?b1\<lparr>m_ordersAtPricePool := P'\<rparr>)"
      "ring (nxL P') (pvL P') (ls @ [n])" "same_except lvl_data (insert n (set ls)) P P'"
    using link_level_after_ring [of ?b1 ls n] r n by (auto simp: P_def ls_def)
  ultimately show ?thesis by auto
qed

lemma AddOrdersAtPrice_mid:
  fixes b :: "'o book_core" and h :: nat and zs :: "nat list"
  defines "P \<equiv> m_ordersAtPricePool b" and "ls \<equiv> h # zs"
  assumes sd: "sd = lvl_side (pobj P n)" "sd \<in> sides" and pr: "price = lvl_price (pobj P n)"
    and best: "best_of sd b = Some h" and r: "ring (nxL P) (pvL P) ls" and len: "length ls \<le> m_size P"
    and n: "n \<notin> set ls" and walk: "walk_result b sd price h ls = (Some t, False)"
    and ls: "ls = as @ t # bs" and nb: "as = [] \<longleftrightarrow> worse sd (lvl_price (pobj P h)) price"
  shows "\<exists>P'. AddOrdersAtPrice (Some n) b =
      Inr ((set_best sd (Some (hd (as @ [n]))) b)\<lparr>m_priceOrdersAtPrice := (m_priceOrdersAtPrice b)(PriceToIndex price := Some n),
          m_ordersAtPricePool := P'\<rparr>)
    \<and> ring (nxL P') (pvL P') (as @ n # t # bs) \<and> same_except lvl_data (insert n (set ls)) P P'"
proof -
  let ?b1 = "b\<lparr>m_priceOrdersAtPrice := (m_priceOrdersAtPrice b)(PriceToIndex price := Some n)\<rparr>"
  have r1: "ring (nxL (m_ordersAtPricePool ?b1)) (pvL (m_ordersAtPricePool ?b1)) (h # zs)" and f: "length zs \<le> m_size (m_ordersAtPricePool b)"
    using r len by (simp_all add: P_def ls_def)
  have w: "walk_result ?b1 sd price h (h # zs) = (Some t, False)" using walk by (simp add: walk_result_def ls_def)
  obtain P' where l: "link_level_before (Some n) (Some t) ?b1 = Inr (?b1\<lparr>m_ordersAtPricePool := P'\<rparr>)"
    and r': "ring (nxL P') (pvL P') (as @ n # t # bs)" and se: "same_except lvl_data (insert n (set ls)) P P'"
    using link_level_before_ring [of ?b1 as t bs n] r n ls by (auto simp: P_def)
  have "lvl_data (pobj P' h) = lvl_data (pobj P h)" using se by (rule same_exceptD)
  then have c: "(sd = BUY \<and> sint (lvl_price (pobj P' h)) < sint price) \<or> (sd = SELL \<and> sint price < sint (lvl_price (pobj P' h)))
      \<longleftrightarrow> as = []"
    using new_best_cond [OF sd(2)] nb lvl_data_eqD [of "pobj P' h" "pobj P h"] by simp
  have add: "AddOrdersAtPrice (Some n) b = new_best_level (Some n) (Some t) (Some h) sd price (?b1\<lparr>m_ordersAtPricePool := P'\<rparr>)"
    using best sd(1) [symmetric] pr [symmetric] w l by (simp add: AddOrdersAtPrice_def P_def Let_def find_target_then [OF r1 f])
  have new: "new_best_level (Some n) (Some t) (Some h) sd price (?b1\<lparr>m_ordersAtPricePool := P'\<rparr>)
      = Inr ((set_best sd (Some (hd (as @ [n]))) ?b1)\<lparr>m_ordersAtPricePool := P'\<rparr>)"
  proof (cases as)
    case Nil
    then have th: "t = h" using ls by (simp add: ls_def)
    have "pNextEntry (pobj P' h) \<noteq> Some h" using ring_self_next [OF r', of t] Nil th by (simp add: nxL_def)
    moreover have "poke h (\<lambda>l. l\<lparr>pNextEntry := pNextEntry (pobj P' h)\<rparr>) P' = P'" by (intro poke_id) simp
    ultimately show ?thesis using Nil th c by (simp add: new_best_level_def set_best_pool)
  next
    case (Cons a as')
    then have "hd (as @ [n]) = h" using ls by (simp add: ls_def)
    then have "set_best sd (Some (hd (as @ [n]))) ?b1 = ?b1" using best by (simp add: set_best_idem)
    moreover have "as \<noteq> []" using Cons by simp
    ultimately show ?thesis using c by (auto simp: new_best_level_def)
  qed
  show ?thesis using add new r' se by (auto simp: set_best_tab)
qed

lemma AddOrdersAtPrice_spec:
  fixes b :: "'o book_core"
  defines "P \<equiv> m_ordersAtPricePool b"
  assumes sd: "sd = lvl_side (pobj P n)" "sd \<in> sides" and pr: "price = lvl_price (pobj P n)"
    and links: "side_links b sd ls" and len: "length ls \<le> m_size P"
    and n: "n \<notin> set ls" and new: "\<forall>l\<in>set ls. lvl_price (pobj P l) \<noteq> price"
    and ns: "ns = insert_level (\<lambda>l. lvl_price (pobj P l)) sd price n ls"
  shows "\<exists>P'. AddOrdersAtPrice (Some n) b =
      Inr ((set_best sd (Some (hd ns)) b)\<lparr>m_priceOrdersAtPrice := (m_priceOrdersAtPrice b)(PriceToIndex price := Some n),
          m_ordersAtPricePool := P'\<rparr>)
    \<and> ring (nxL P') (pvL P') ns \<and> same_except lvl_data (insert n (set ls)) P P'"
proof (cases ls)
  case Nil
  then have "best_of sd b = None" "ns = [n]" using links ns by (simp_all add: side_links_def insert_level_def)
  then show ?thesis using AddOrdersAtPrice_empty [of sd b n] Nil sd pr by (simp add: P_def)
next
  case (Cons h zs)
  have best: "best_of sd b = Some h" and r: "ring (nxL P) (pvL P) (h # zs)"
    using links Cons by (simp_all add: side_links_def P_def)
  note len' = len [unfolded Cons] and n' = n [unfolded Cons]
  show ?thesis
  proof (cases rule: walk_result_cases [of sd price b h zs])
    case last
    have "ns = ls @ [n]" using last ns Cons by (simp add: insert_level_def P_def)
    moreover have "set_best sd (Some (hd (ls @ [n]))) b = b" using Cons best by (simp add: set_best_idem)
    ultimately show ?thesis
      using AddOrdersAtPrice_last [of sd b n price h zs] sd pr best r len' n' last(3) Cons by (simp add: P_def)
  next
    case (mid t bs)
    let ?as = "takeWhile (\<lambda>l. worse sd price (lvl_price (pobj P l))) ls"
    have "dropWhile (\<lambda>l. worse sd price (lvl_price (pobj P l))) ls = t # bs" using mid(1) by (simp only: Cons P_def)
    then have ns': "ns = ?as @ n # t # bs" by (simp only: ns insert_level_def)
    have "(?as = []) = (\<not> worse sd price (lvl_price (pobj P h)))" using Cons by simp
    also have "\<dots> = worse sd (lvl_price (pobj P h)) price" using worse_total [OF sd(2)] new Cons by auto
    finally have nb: "(?as = []) = worse sd (lvl_price (pobj P h)) price" .
    have hdn: "hd ns = hd (?as @ [n])" using ns' by (cases ?as) auto
    have dec: "h # zs = ?as @ t # bs" using mid(2) by (simp only: Cons P_def)
    have lsE: "h # zs = ls" using Cons by simp
    show ?thesis
      using AddOrdersAtPrice_mid [OF sd(1) [unfolded P_def] sd(2) pr [unfolded P_def] best r [unfolded P_def]
          len' [unfolded P_def] n' mid(4) dec [unfolded P_def] nb [unfolded P_def]]
      unfolding P_def [symmetric] lsE ns' [symmetric] hdn [symmetric] .
  qed
qed

end
