(* ===== verification/BookOps.thy ===== *)
theory BookOps
  imports BookLevels
begin

text \<open>
  Adding and removing an order on represented books: an order goes behind every order of its side
  whose price is at least as good, and removing one takes exactly it out.
\<close>

section \<open>Price-time insertion\<close>

definition spec_insert :: "('i \<Rightarrow> Price) \<Rightarrow> ESide \<Rightarrow> 'i \<Rightarrow> 'i list \<Rightarrow> 'i list" where
  "spec_insert pr sd n ns = takeWhile (\<lambda>i. \<not> worse sd (pr i) (pr n)) ns @ n # dropWhile (\<lambda>i. \<not> worse sd (pr i) (pr n)) ns"

lemma spec_insert_set [simp]: "set (spec_insert pr sd n ns) = insert n (set ns)"
proof -
  have "set ns = set (takeWhile P ns) \<union> set (dropWhile P ns)" for P
    by (metis set_append takeWhile_dropWhile_id)
  then show ?thesis by (auto simp: spec_insert_def)
qed

lemma onodes_takeWhile:
  assumes "\<And>x i. x \<in> set s \<Longrightarrow> i \<in> set (snd x) \<Longrightarrow> R i = W x" and "\<And>x. x \<in> set s \<Longrightarrow> snd x \<noteq> []"
  shows "takeWhile R (onodes s) = onodes (takeWhile W s) \<and> dropWhile R (onodes s) = onodes (dropWhile W s)"
  using assms
proof (induction s)
  case Nil
  then show ?case by simp
next
  case (Cons x s)
  have IH: "takeWhile R (onodes s) = onodes (takeWhile W s) \<and> dropWhile R (onodes s) = onodes (dropWhile W s)"
    using Cons.prems by (intro Cons.IH) simp_all
  have all: "R i = W x" if "i \<in> set (snd x)" for i using Cons.prems(1) that by simp
  show ?case
  proof (cases "W x")
    case True
    then show ?thesis using IH all by (simp add: takeWhile_append2 dropWhile_append2)
  next
    case False
    have "snd x \<noteq> []" using Cons.prems(2) by simp
    then have "snd x = hd (snd x) # tl (snd x)" "\<not> R (hd (snd x))" using False all by auto
    then have "takeWhile R (snd x @ onodes s) = [] \<and> dropWhile R (snd x @ onodes s) = snd x @ onodes s"
      by (metis append_Cons dropWhile.simps(2) takeWhile.simps(2))
    then show ?thesis using False by simp
  qed
qed

lemma sorted_insert_wrt:
  assumes "sorted_wrt (\<lambda>x y. worse sd (f y) (f x)) s" and "sd \<in> sides" and "\<forall>x\<in>set s. f x \<noteq> f z"
  shows "sorted_wrt (\<lambda>x y. worse sd (f y) (f x)) (takeWhile (\<lambda>x. worse sd (f z) (f x)) s @ z # dropWhile (\<lambda>x. worse sd (f z) (f x)) s)"
  using assms
proof (induction s)
  case Nil
  then show ?case by simp
next
  case (Cons x s)
  show ?case
  proof (cases "worse sd (f z) (f x)")
    case True
    then show ?thesis using Cons by (auto dest: set_takeWhileD set_dropWhileD)
  next
    case False
    then have "worse sd (f x) (f z)" using Cons.prems worse_total by auto
    then show ?thesis using Cons.prems False by (auto intro: worse_trans)
  qed
qed

lemma takeWhile_split_level:
  assumes "sorted_wrt (\<lambda>x y. worse sd (f y) (f x)) (s1 @ x # s2)"
  shows "takeWhile (\<lambda>y. \<not> worse sd (f y) (f x)) (s1 @ x # s2) = s1 @ [x]"
    and "dropWhile (\<lambda>y. \<not> worse sd (f y) (f x)) (s1 @ x # s2) = s2"
proof -
  have a: "\<forall>y\<in>set s1. \<not> worse sd (f y) (f x)" and b: "\<forall>y\<in>set s2. worse sd (f y) (f x)"
    using assms worse_asym by (auto simp: sorted_wrt_append)
  show "takeWhile (\<lambda>y. \<not> worse sd (f y) (f x)) (s1 @ x # s2) = s1 @ [x]"
    using a b by (cases s2) (auto simp: takeWhile_append2)
  show "dropWhile (\<lambda>y. \<not> worse sd (f y) (f x)) (s1 @ x # s2) = s2"
    using a b by (cases s2) (auto simp: dropWhile_append2)
qed

section \<open>Replacing the orders of one level\<close>

lemma in_level_set: "x \<in> level_set ss \<longleftrightarrow> (\<exists>sd\<in>sides. x \<in> set (ss sd))"
  by (auto simp: level_set_def)

lemma level_setI: "sd \<in> sides \<Longrightarrow> x \<in> set (ss sd) \<Longrightarrow> x \<in> level_set ss"
  by (auto simp: level_set_def)

lemma in_order_set: "i \<in> order_set ss \<longleftrightarrow> (\<exists>x\<in>level_set ss. i \<in> set (snd x))"
  by (auto simp: order_set_def in_onodes level_set_def)

lemma order_set_levels: "order_set ss = (\<Union>y\<in>level_set ss. set (snd y))"
  unfolding set_eq_iff in_order_set UN_iff by blast

lemma levels_sorted_fst:
  "sorted_wrt (\<lambda>x y. worse sd (px b y) (px b x)) s
    = sorted_wrt (\<lambda>k l. worse sd (lvl_price (pobj (m_ordersAtPricePool b) l)) (lvl_price (pobj (m_ordersAtPricePool b) k))) (map fst s)"
  by (simp add: sorted_wrt_map px_def)

lemma level_set_replace:
  assumes "sd \<in> sides" and "ss sd = s1 @ x # s2"
  shows "level_set (ss(sd := s1 @ y # s2)) = insert y (set s1 \<union> set s2 \<union> (\<Union>sd'\<in>sides - {sd}. set (ss sd')))"
    and "level_set ss = insert x (set s1 \<union> set s2 \<union> (\<Union>sd'\<in>sides - {sd}. set (ss sd')))"
    and "level_set (ss(sd := s1 @ s2)) = set s1 \<union> set s2 \<union> (\<Union>sd'\<in>sides - {sd}. set (ss sd'))"
  using assms by (auto simp: level_set_def split: if_splits)

lemma rep_others:
  assumes rep: "book_rep b ss X" and sd: "sd \<in> sides" and s: "ss sd = s1 @ x # s2"
    and y: "y \<in> set s1 \<union> set s2 \<union> (\<Union>sd'\<in>sides - {sd}. set (ss sd'))"
  shows "fst y \<noteq> fst x" and "set (snd y) \<inter> set (snd x) = {}"
proof -
  have dx: "x \<notin> set s1 \<union> set s2"
  proof -
    have "levels_ok b sd (ss sd)" using rep sd by (simp add: book_rep_def)
    then have "levels_ok b sd (s1 @ x # s2)" by (simp only: s)
    then show ?thesis by (auto simp: levels_ok_def sorted_wrt_append)
  qed
  have xs: "x \<in> set (ss sd)" using s by simp
  from y obtain sd' where sd': "sd' \<in> sides" "y \<in> set (ss sd')" "sd' \<noteq> sd \<or> y \<noteq> x"
  proof (cases "y \<in> set s1 \<union> set s2")
    case True
    then have "y \<in> set (ss sd)" "y \<noteq> x" using dx unfolding s by auto
    then show ?thesis using that sd by blast
  next
    case False
    then show ?thesis using that y by blast
  qed
  then show "fst y \<noteq> fst x" using rep_side_unique [OF rep sd sd'(1) xs sd'(2)] rep_fst_inj [OF rep sd xs] by metis
  show "set (snd y) \<inter> set (snd x) = {}" using rep_order_unique [OF rep sd sd'(1) xs sd'(2)] sd'(3) by blast
qed

lemma swap_part:
  "A = O1 \<union> R \<Longrightarrow> B = S \<union> R \<Longrightarrow> R \<inter> X' = {} \<Longrightarrow> O1 \<union> X' = S \<union> X \<Longrightarrow> O1 \<inter> X' = {}
    \<Longrightarrow> A \<union> X' = B \<union> X \<and> A \<inter> X' = {}"
  by blast

lemma book_rep_update_level:
  assumes rep: "book_rep b ss X" and sd: "sd \<in> sides" and s: "ss sd = s1 @ x # s2"
    and P: "pool_ok P'" "pused P' = pused (m_ordersAtPricePool b)"
      "\<And>i. i \<noteq> fst x \<Longrightarrow> pobj P' i = pobj (m_ordersAtPricePool b) i"
      "pobj P' (fst x) = (pobj (m_ordersAtPricePool b) (fst x))\<lparr>pFirstOrder := Some (hd os')\<rparr>"
    and Q: "same_except strip S (m_orderPool b) Q'" "S \<subseteq> set (snd x) \<union> X"
    and os: "ring (nxO Q') (pvO Q') os'" "os' \<noteq> []" "set os' \<union> X' = set (snd x) \<union> X" "set os' \<inter> X' = {}"
      "\<forall>i\<in>set os'. ord_side (pobj (m_orderPool b) i) = sd \<and> ord_price (pobj (m_orderPool b) i) = px b x"
  shows "book_rep (b\<lparr>m_ordersAtPricePool := P', m_orderPool := Q'\<rparr>) (ss(sd := s1 @ (fst x, os') # s2)) X'"
    (is "book_rep ?b ?ss X'")
proof -
  let ?P = "m_ordersAtPricePool b" and ?Q = "m_orderPool b" and ?x = "(fst x, os')"
  let ?o = "set s1 \<union> set s2 \<union> (\<Union>sd'\<in>sides - {sd}. set (ss sd'))"
  note oth = rep_others [OF rep sd s] and lss = level_set_replace [of sd ss s1 x s2, OF sd s]
  note qD = same_exceptD [OF Q(1)]
  have olv: "\<And>y. y \<in> ?o \<Longrightarrow> y \<in> level_set ss" unfolding lss(2) by blast
  have oX: "set (snd y) \<inter> X = {}" if "y \<in> ?o" for y
    using rep olv [OF that] unfolding book_rep_def in_order_set disjoint_iff by blast
  have Qo: "pobj Q' i = pobj ?Q i" if "y \<in> ?o" "i \<in> set (snd y)" for y i
    using qD(5) oth(2) [OF that(1)] oX [OF that(1)] that(2) Q(2) by blast
  have Po: "pobj P' (fst y) = pobj ?P (fst y)" if "y \<in> ?o" for y using P(3) oth(1) [OF that] by simp
  have nx: "nxL P' = nxL ?P" "pvL P' = pvL ?P"
  proof -
    have "nxL P' i = nxL ?P i \<and> pvL P' i = pvL ?P i" for i
      using P(3,4) by (cases "i = fst x") (simp_all add: link_defs)
    then show "nxL P' = nxL ?P" "pvL P' = pvL ?P" by blast+
  qed
  have lp: "lvl_price (pobj P' i) = lvl_price (pobj ?P i)" for i using P(3,4) by (cases "i = fst x") simp_all
  have pxE: "px ?b y = px b y" for y by (simp add: px_def lp)
  have lvo: "lvl_rep ?b sd' y = lvl_rep b sd' y" if "y \<in> ?o" for y sd'
    using Po Qo that by (intro lvl_rep_cong) auto
  have lvx: "lvl_rep ?b sd ?x"
    using repD [OF rep sd, of x] s P(4) os strip_eqD(2,3) [OF qD(4)] by (auto simp: lvl_rep_def px_def)
  have sides: "side_links ?b sd' (map fst (?ss sd')) \<and> levels_ok ?b sd' (?ss sd')" if sd': "sd' \<in> sides" for sd'
  proof
    have "map fst (?ss sd') = map fst (ss sd')" using s by auto
    then show "side_links ?b sd' (map fst (?ss sd'))"
      using rep sd' nx by (simp add: book_rep_def side_links_def)
    have "sorted_wrt (\<lambda>x y. worse sd' (px ?b y) (px ?b x)) (?ss sd')"
      using rep sd' s unfolding book_rep_def levels_ok_def levels_sorted_fst by (auto simp: lp)
    moreover have "lvl_rep ?b sd' y" if "y \<in> set (?ss sd')" for y
    proof (cases "y = ?x \<and> sd' = sd")
      case True
      then show ?thesis using lvx by simp
    next
      case False
      then have "y \<in> ?o" "y \<in> set (ss sd')" using that sd' s by (auto split: if_splits)
      then show ?thesis using lvo repD [OF rep sd'] by simp
    qed
    ultimately show "levels_ok ?b sd' (?ss sd')" by (simp add: levels_ok_def)
  qed
  have ord: "order_set ?ss \<union> X' = order_set ss \<union> X" "order_set ?ss \<inter> X' = {}"
  proof -
    have AB: "order_set ?ss = set os' \<union> (\<Union>y\<in>?o. set (snd y))" "order_set ss = set (snd x) \<union> (\<Union>y\<in>?o. set (snd y))"
      unfolding order_set_levels lss(1) [of ?x] lss(2) by simp_all
    have "(\<Union>y\<in>?o. set (snd y)) \<inter> X = {}" "(\<Union>y\<in>?o. set (snd y)) \<inter> set (snd x) = {}"
      using oX oth(2) unfolding disjoint_iff UN_iff by metis+
    then have "(\<Union>y\<in>?o. set (snd y)) \<inter> X' = {}" using os(3) by blast
    then show "order_set ?ss \<union> X' = order_set ss \<union> X" "order_set ?ss \<inter> X' = {}"
      using swap_part [OF AB _ os(3,4)] by simp_all
  qed
  have "table_ok ?b ?ss"
  proof -
    have "(\<exists>y\<in>level_set ?ss. fst y = l \<and> PriceToIndex (px ?b y) = k) = (\<exists>y\<in>level_set ss. fst y = l \<and> PriceToIndex (px b y) = k)" for l k
      unfolding lss(1) [of ?x] lss(2) pxE by (simp add: px_def)
    then show ?thesis using rep by (simp add: book_rep_def table_ok_def)
  qed
  moreover have "fst ` level_set ?ss = fst ` level_set ss" unfolding lss(1)[of ?x] lss(2) by auto
  ultimately show ?thesis using rep sides P(1,2) qD(2,3) ord by (simp add: book_rep_def)
qed


section \<open>Adding an order\<close>

text \<open>No live level has a price that differs from \<open>price\<close> (or lies on the other side) and shares its table entry.\<close>

definition no_collision :: "'o book_core \<Rightarrow> (ESide \<Rightarrow> level_nodes list) \<Rightarrow> ESide \<Rightarrow> Price \<Rightarrow> bool" where
  "no_collision b ss sd price \<longleftrightarrow> (\<forall>sd'\<in>sides. \<forall>x\<in>set (ss sd').
     PriceToIndex (px b x) = PriceToIndex price \<longrightarrow> sd' = sd \<and> px b x = price)"

abbreviation opx :: "'o book_core \<Rightarrow> nat \<Rightarrow> Price" where
  "opx b i \<equiv> ord_price (pobj (m_orderPool b) i)"

definition add_post :: "'o book_core \<Rightarrow> (ESide \<Rightarrow> level_nodes list) \<Rightarrow> ESide \<Rightarrow> nat \<Rightarrow> 'o book_core \<Rightarrow> (ESide \<Rightarrow> level_nodes list) \<Rightarrow> bool" where
  "add_post b ss sd n b' ss' \<longleftrightarrow>
     (\<forall>sd'. sd' \<noteq> sd \<longrightarrow> ss' sd' = ss sd')
     \<and> onodes (ss' sd) = spec_insert (opx b) sd n (onodes (ss sd))
     \<and> (\<forall>i. strip (pobj (m_orderPool b') i) = strip (pobj (m_orderPool b) i))
     \<and> m_size (m_orderPool b') = m_size (m_orderPool b)
     \<and> m_size (m_ordersAtPricePool b') = m_size (m_ordersAtPricePool b)"

lemma onodes_split:
  assumes "book_rep b ss X" and "sd \<in> sides"
    and "W = (\<lambda>x. \<not> worse sd (px b x) p)"
  shows "takeWhile (\<lambda>i. \<not> worse sd (opx b i) p) (onodes (ss sd)) = onodes (takeWhile W (ss sd))
    \<and> dropWhile (\<lambda>i. \<not> worse sd (opx b i) p) (onodes (ss sd)) = onodes (dropWhile W (ss sd))"
  by (rule onodes_takeWhile) (use repD [OF assms(1,2)] in \<open>auto simp: lvl_rep_def assms(3)\<close>)

lemma table_None:
  assumes "book_rep b ss X" and "m_priceOrdersAtPrice b k = None" and "x \<in> level_set ss"
  shows "PriceToIndex (px b x) \<noteq> k"
proof -
  have "m_priceOrdersAtPrice b (PriceToIndex (px b x)) = Some (fst x)"
    using assms(1,3) unfolding book_rep_def table_ok_def by blast
  then show ?thesis using assms(2) by auto
qed

lemma AddOrder_existing:
  fixes b :: "'o book_core"
  assumes rep: "book_rep b ss X" and n: "n \<in> X" and sd: "sd = ord_side (pobj (m_orderPool b) n)" "sd \<in> sides"
    and nc: "no_collision b ss sd (opx b n)" and tab: "m_priceOrdersAtPrice b (PriceToIndex (opx b n)) = Some l"
  shows "\<exists>b' ss'. AddOrder_links (Some n) b = Inr b' \<and> book_rep b' ss' (X - {n}) \<and> add_post b ss sd n b' ss'"
proof -
  let ?Q = "m_orderPool b" and ?P = "m_ordersAtPricePool b"
  obtain x where x: "x \<in> level_set ss" "fst x = l" "PriceToIndex (px b x) = PriceToIndex (opx b n)"
    using rep tab unfolding book_rep_def table_ok_def by blast
  obtain sd' where sd': "sd' \<in> sides" "x \<in> set (ss sd')" using x(1) by (auto simp: in_level_set)
  then have "sd' = sd \<and> px b x = opx b n" using nc x(3) by (simp add: no_collision_def)
  then have xs: "x \<in> set (ss sd)" and xp: "px b x = opx b n" using sd'(2) by auto
  from xs obtain s1 s2 where s: "ss sd = s1 @ x # s2" by (auto simp: in_set_conv_decomp)
  note lx = repD [OF rep sd(2) xs, unfolded lvl_rep_def]
  have dX: "set (snd x) \<inter> X = {}" using rep x(1) unfolding book_rep_def order_set_levels by blast
  then have nx: "n \<notin> set (snd x)" using n by blast
  obtain Q' where Q': "link_order (Some n) (Some (hd (snd x))) b = Inr (b\<lparr>m_orderPool := Q'\<rparr>)"
    "ring (nxO Q') (pvO Q') (snd x @ [n])" "same_except strip (insert n (set (snd x))) ?Q Q'"
    using link_order_ring [of b "snd x" n] lx nx by blast
  let ?b = "b\<lparr>m_orderPool := Q'\<rparr>" and ?ss = "ss(sd := s1 @ (fst x, snd x @ [n]) # s2)"
  have "AddOrder_links (Some n) b = Inr ?b" using tab Q'(1) lx x(2) by (simp add: AddOrder_links_def)
  moreover have "book_rep (b\<lparr>m_ordersAtPricePool := ?P, m_orderPool := Q'\<rparr>) ?ss (X - {n})"
    by (rule book_rep_update_level [OF rep sd(2) s _ _ _ _ Q'(3)])
      (use rep lx n nx dX Q'(2) sd(1) xp in \<open>auto simp: book_rep_def\<close>)
  moreover have "add_post b ss sd n ?b ?ss"
  proof -
    have so: "sorted_wrt (\<lambda>x y. worse sd (px b y) (px b x)) (s1 @ x # s2)"
      using rep sd(2) s [symmetric] by (simp add: book_rep_def levels_ok_def)
    have "spec_insert (opx b) sd n (onodes (ss sd)) = onodes (s1 @ [x]) @ n # onodes s2"
      using onodes_split [OF rep sd(2) refl, of "opx b n"] takeWhile_split_level [OF so]
      unfolding spec_insert_def xp [symmetric] s by simp
    then show ?thesis using same_exceptD(1,4) [OF Q'(3)] by (simp add: add_post_def)
  qed
  ultimately show ?thesis by auto
qed


text \<open>A new level: what the book looks like once it is linked.\<close>

lemma book_rep_new_level:
  fixes b :: "'o book_core"
  assumes rep: "book_rep b ss X" and n: "n \<in> X" and sd: "sd \<in> sides"
    and o: "ord_side (pobj (m_orderPool b) n) = sd" "opx b n = price"
    and tab: "m_priceOrdersAtPrice b (PriceToIndex price) = None"
    and s': "s' = takeWhile (\<lambda>x. worse sd price (px b x)) (ss sd) @ (m, [n]) # dropWhile (\<lambda>x. worse sd price (px b x)) (ss sd)"
    and b': "b' = (set_best sd (Some (hd (map fst s'))) b)\<lparr>m_priceOrdersAtPrice := (m_priceOrdersAtPrice b)(PriceToIndex price := Some m),
        m_ordersAtPricePool := P', m_orderPool := Q'\<rparr>"
    and P': "pool_ok P'" "pused P' = insert m (pused (m_ordersAtPricePool b))" "m \<notin> pused (m_ordersAtPricePool b)"
      "ring (nxL P') (pvL P') (map fst s')"
      "lvl_data (pobj P' m) = (sd, price, Some n)"
      "\<And>i. i \<noteq> m \<Longrightarrow> lvl_data (pobj P' i) = lvl_data (pobj (m_ordersAtPricePool b) i)"
      "\<And>i. i \<notin> insert m (set (map fst (ss sd))) \<Longrightarrow> pobj P' i = pobj (m_ordersAtPricePool b) i"
    and Q': "same_except strip {n} (m_orderPool b) Q'" "ring (nxO Q') (pvO Q') [n]"
  shows "book_rep b' (ss(sd := s')) (X - {n})" (is "book_rep b' ?ss ?X")
proof -
  let ?P = "m_ordersAtPricePool b" and ?Q = "m_orderPool b"
  have sets: "set s' = insert (m, [n]) (set (ss sd))"
    unfolding s' by (subst (3) takeWhile_dropWhile_id [of "\<lambda>x. worse sd price (px b x)" "ss sd", symmetric]) (simp only: set_append set_simps, blast)
  have lv: "level_set ?ss = insert (m, [n]) (level_set ss)" using sd sets by (auto simp: level_set_def split: if_splits)
  have fm: "fst y \<noteq> m" if "y \<in> level_set ss" for y using rep P'(3) that unfolding book_rep_def by auto
  have nn: "n \<notin> set (snd y)" if "y \<in> level_set ss" for y
    using rep n that unfolding book_rep_def order_set_levels by blast
  note qD = same_exceptD [OF Q'(1)]
  have b'P: "m_ordersAtPricePool b' = P'" and b'Q: "m_orderPool b' = Q'"
    and b't: "m_priceOrdersAtPrice b' = (m_priceOrdersAtPrice b)(PriceToIndex price := Some m)" by (simp_all add: b')
  have dat: "lvl_data (pobj P' (fst y)) = lvl_data (pobj ?P (fst y))" if "y \<in> level_set ss" for y
    using P'(6) fm that by simp
  have Qs: "pobj Q' i = pobj ?Q i" if "y \<in> level_set ss" "i \<in> set (snd y)" for y i
    using qD(5) [of i] nn [OF that(1)] that(2) by auto
  have pxE: "px b' y = px b y" if "y \<in> level_set ss" for y using dat that b'P by (intro px_cong) simp
  have pxm: "px b' (m, [n]) = price" using P'(5) by (simp add: px_def b'P lvl_data_def)
  have lok: "levels_ok b' sd' (ss sd')" if sd': "sd' \<in> sides" for sd'
  proof -
    note lvI = level_setI [of sd' _ ss, OF sd']
    have "levels_ok b' sd' (ss sd') = levels_ok b sd' (ss sd')"
      unfolding b'P b'Q by (rule levels_ok_cong, unfold b'P b'Q) (rule dat [OF lvI], assumption, rule Qs [OF lvI], assumption+)
    then show ?thesis using rep sd' by (simp add: book_rep_def)
  qed
  have lvm: "lvl_rep b' sd (m, [n])"
    using P'(5) Q'(2) o strip_eqD(2,3) [OF qD(4) [of n]] pxm by (simp add: lvl_rep_def b'P b'Q lvl_data_def)
  have srt: "sorted_wrt (\<lambda>x y. worse sd (px b' y) (px b' x)) s'"
  proof -
    have w: "takeWhile (\<lambda>x. worse sd price (px b x)) (ss sd) = takeWhile (\<lambda>x. worse sd (px b' (m, [n])) (px b' x)) (ss sd)"
      "dropWhile (\<lambda>x. worse sd price (px b x)) (ss sd) = dropWhile (\<lambda>x. worse sd (px b' (m, [n])) (px b' x)) (ss sd)"
      using pxE [OF level_setI [OF sd]] pxm by (simp_all cong: takeWhile_cong dropWhile_cong)
    have "\<forall>x\<in>set (ss sd). px b' x \<noteq> px b' (m, [n])"
      using table_None [OF rep tab] pxE pxm level_setI [OF sd] by metis
    then show ?thesis unfolding s' w using lok [OF sd] sd by (intro sorted_insert_wrt) (simp_all add: levels_ok_def)
  qed
  have sideA: "side_links b' sd (map fst s') \<and> levels_ok b' sd s'"
    using P'(4) srt lvm lok [OF sd] sets by (auto simp: side_links_def levels_ok_def b' s')
  have sideB: "side_links b' sd' (map fst (ss sd'))" if "sd' \<in> sides" "sd' \<noteq> sd" for sd'
  proof -
    have "side_links b' sd' (map fst (ss sd')) = side_links b sd' (map fst (ss sd'))"
    proof (rule side_links_cong)
      show "best_of sd' b' = best_of sd' b" using that sd by (simp add: b' best_of_set_best_other)
      fix i assume "i \<in> set (map fst (ss sd'))"
      then obtain y where y: "y \<in> set (ss sd')" "fst y = i" by auto
      then have "i \<noteq> m" using fm [OF level_setI [of sd' y ss, OF that(1) y(1)]] y(2) by simp
      moreover have "i \<notin> set (map fst (ss sd))" using rep_side_unique [OF rep that(1) sd y(1)] y(2) that(2) by auto
      ultimately show "pobj (m_ordersAtPricePool b') i = pobj ?P i" using P'(7) b'P by simp
    qed
    then show ?thesis using rep that by (simp add: book_rep_def)
  qed
  have "table_ok b' ?ss"
  proof -
    have "PriceToIndex (px b y) \<noteq> PriceToIndex price" if "y \<in> level_set ss" for y using table_None [OF rep tab that] .
    then show ?thesis
      using rep pxE pxm unfolding table_ok_def lv b't book_rep_def by (auto simp: px_def) 
  qed
  moreover have "order_set ?ss = insert n (order_set ss)" unfolding order_set_levels lv by simp
  moreover have "fst ` level_set ?ss = insert m (fst ` level_set ss)" unfolding lv by simp
  ultimately show ?thesis
    using rep n P'(1,2) qD(2,3) sideA sideB lok by (auto simp: book_rep_def b'P b'Q)
qed


lemma map_fst_insert_level:
  "insert_level (\<lambda>l. lvl_price (pobj (m_ordersAtPricePool b) l)) sd price m (map fst s)
    = map fst (takeWhile (\<lambda>x. worse sd price (px b x)) s @ (m, os) # dropWhile (\<lambda>x. worse sd price (px b x)) s)"
  by (simp add: insert_level_def takeWhile_map dropWhile_map px_def comp_def)

lemma rep_length_le:
  assumes rep: "book_rep b ss X" and sd: "sd \<in> sides"
  shows "length (ss sd) \<le> m_size (m_ordersAtPricePool b)"
proof -
  have "distinct (map fst (ss sd))" using rep sd ring_distinct by (auto simp: book_rep_def side_links_def)
  then have "length (ss sd) = card (set (map fst (ss sd)))" using distinct_card by fastforce
  also have "set (map fst (ss sd)) \<subseteq> pused (m_ordersAtPricePool b)"
    using rep sd by (auto simp: book_rep_def level_set_def)
  then have "card (set (map fst (ss sd))) \<le> card (pused (m_ordersAtPricePool b))" by (intro card_mono) simp
  also have "\<dots> \<le> m_size (m_ordersAtPricePool b)"
    using card_mono [of "{..<m_size (m_ordersAtPricePool b)}" "pused (m_ordersAtPricePool b)"] by (auto simp: pused_def)
  finally show ?thesis .
qed

lemma AddOrder_new:
  fixes b :: "'o book_core"
  assumes rep: "book_rep b ss X" and n: "n \<in> X" and sd: "sd = ord_side (pobj (m_orderPool b) n)" "sd \<in> sides"
    and tab: "m_priceOrdersAtPrice b (PriceToIndex (opx b n)) = None"
    and room: "Suc (card (fst ` level_set ss)) < m_size (m_ordersAtPricePool b)"
  shows "\<exists>b' ss'. AddOrder_links (Some n) b = Inr b' \<and> book_rep b' ss' (X - {n}) \<and> add_post b ss sd n b' ss'"
proof -
  let ?Q = "m_orderPool b" and ?P = "m_ordersAtPricePool b"
  define price where "price = opx b n"
  define Q' where "Q' = poke n (\<lambda>x. x\<lparr>pNextOrder := Some n\<rparr>) (poke n (\<lambda>x. x\<lparr>pPrevOrder := Some n\<rparr>) ?Q)"
  have Q': "same_except strip {n} ?Q Q'" "ring (nxO Q') (pvO Q') [n]"
    unfolding Q'_def by (intro same_except_poke; simp) (intro ring_single; simp add: link_defs pobj_poke)
  define L where "L = \<lparr>lvl_side = sd, lvl_price = price, pFirstOrder = Some n, pPrevEntry = None, pNextEntry = None\<rparr>"
  have ok: "pool_ok ?P" and us: "pused ?P = fst ` level_set ss" using rep by (simp_all add: book_rep_def)
  obtain P1 where P1: "Allocate L ?P = Inr (m_nextFreeIndex ?P, P1)" "pool_ok P1" "m_size P1 = m_size ?P"
    "pobj P1 = (pobj ?P)(m_nextFreeIndex ?P := L)" "pused P1 = insert (m_nextFreeIndex ?P) (pused ?P)"
    "m_nextFreeIndex ?P \<notin> pused ?P"
    using Allocate_ok [OF ok, of L] room us by auto
  define m where "m = m_nextFreeIndex ?P"
  define b2 where "b2 = b\<lparr>m_orderPool := Q', m_ordersAtPricePool := P1\<rparr>"
  define s' where "s' = takeWhile (\<lambda>x. worse sd price (px b x)) (ss sd) @ (m, [n]) # dropWhile (\<lambda>x. worse sd price (px b x)) (ss sd)"
  have mfst: "m \<notin> set (map fst (ss sd))" using P1(6) us sd(2) by (auto simp: m_def level_set_def)
  have P1o: "pobj P1 l = pobj ?P l" if "l \<in> set (map fst (ss sd))" for l
    using that mfst P1(4) by (metis fun_upd_other m_def)
  have links: "side_links b2 sd (map fst (ss sd))"
  proof -
    have "side_links b2 sd (map fst (ss sd)) = side_links b sd (map fst (ss sd))"
    proof (rule side_links_cong)
      fix i assume "i \<in> set (map fst (ss sd))"
      then show "pobj (m_ordersAtPricePool b2) i = pobj ?P i" using P1o by (simp add: b2_def)
    qed (simp add: b2_def)
    then show ?thesis using rep sd(2) by (simp add: book_rep_def)
  qed
  have new: "\<forall>l\<in>set (map fst (ss sd)). lvl_price (pobj P1 l) \<noteq> price"
  proof
    fix l assume l: "l \<in> set (map fst (ss sd))"
    then obtain x where x: "x \<in> set (ss sd)" "fst x = l" by auto
    have "px b x \<noteq> price" using table_None [OF rep tab level_setI [of sd x ss, OF sd(2) x(1)]] by (auto simp: price_def)
    moreover have "pobj P1 l = pobj ?P l" using P1o l .
    ultimately show "lvl_price (pobj P1 l) \<noteq> price" using x(2) by (simp add: px_def)
  qed
  have ns: "map fst s' = insert_level (\<lambda>l. lvl_price (pobj P1 l)) sd price m (map fst (ss sd))"
  proof -
    have "insert_level (\<lambda>l. lvl_price (pobj P1 l)) sd price m (map fst (ss sd))
        = insert_level (\<lambda>l. lvl_price (pobj ?P l)) sd price m (map fst (ss sd))"
      unfolding insert_level_def
      by (intro arg_cong2 [of _ _ _ _ append] arg_cong2 [of _ _ _ _ Cons] takeWhile_cong dropWhile_cong refl; simp only: P1o)
    then show ?thesis by (simp add: map_fst_insert_level [of b sd price m "ss sd" "[n]"] s'_def)
  qed
  have Lm: "pobj P1 m = L" using P1(4) by (simp add: m_def)
  have b2P: "m_ordersAtPricePool b2 = P1" and Lsd: "sd = lvl_side (pobj P1 m)" "price = lvl_price (pobj P1 m)"
    using Lm by (simp_all add: b2_def L_def)
  have len: "length (map fst (ss sd)) \<le> m_size P1" using rep_length_le [OF rep sd(2)] P1(3) by simp
  obtain P' where P': "AddOrdersAtPrice (Some m) b2 =
      Inr ((set_best sd (Some (hd (map fst s'))) b2)\<lparr>m_priceOrdersAtPrice := (m_priceOrdersAtPrice b2)(PriceToIndex price := Some m),
          m_ordersAtPricePool := P'\<rparr>)" "ring (nxL P') (pvL P') (map fst s')"
    "same_except lvl_data (insert m (set (map fst (ss sd)))) P1 P'"
    using AddOrdersAtPrice_spec [of sd b2 m price "map fst (ss sd)" "map fst s'", unfolded b2P, OF Lsd(1) sd(2) Lsd(2) links len mfst new ns]
    by blast
  let ?b' = "(set_best sd (Some (hd (map fst s'))) b)\<lparr>m_priceOrdersAtPrice := (m_priceOrdersAtPrice b)(PriceToIndex price := Some m),
        m_ordersAtPricePool := P', m_orderPool := Q'\<rparr>"
  have "AddOrder_links (Some n) b = AddOrdersAtPrice (Some m) b2"
    using tab P1(1) sd(1) [symmetric] by (simp add: AddOrder_links_def L_def price_def b2_def Q'_def m_def)
  also have "\<dots> = Inr ?b'" using P'(1) by (simp add: b2_def set_best_def)
  finally have run: "AddOrder_links (Some n) b = Inr ?b'" .
  note pD = same_exceptD [OF P'(3)]
  have "book_rep ?b' (ss(sd := s')) (X - {n})"
  proof (rule book_rep_new_level [OF rep n sd(2) sd(1) [symmetric] price_def [symmetric] _ s'_def refl _ _ _ P'(2) _ _ _ Q'])
    show "m_priceOrdersAtPrice b (PriceToIndex price) = None" using tab by (simp add: price_def)
    show "pool_ok P'" using pD(3) P1(2) by simp
    show "pused P' = insert m (pused ?P)" "m \<notin> pused ?P" using pD(2) P1(5,6) by (simp_all add: m_def)
    show "lvl_data (pobj P' m) = (sd, price, Some n)" using pD(4) [of m] Lm by (simp add: L_def lvl_data_def)
    show "lvl_data (pobj P' i) = lvl_data (pobj ?P i)" if "i \<noteq> m" for i using pD(4) [of i] P1(4) that by (simp add: m_def)
    show "pobj P' i = pobj ?P i" if "i \<notin> insert m (set (map fst (ss sd)))" for i
      using pD(5) [of i] P1(4) that by (simp add: m_def)
  qed
  moreover have "add_post b ss sd n ?b' (ss(sd := s'))"
  proof -
    have w: "(worse sd price (px b x)) = (\<not> worse sd (px b x) price)" if "x \<in> set (ss sd)" for x
    proof -
      have "px b x \<noteq> price" using table_None [OF rep tab level_setI [of sd x ss, OF sd(2) that]] by (auto simp: price_def)
      then show ?thesis using worse_total [OF sd(2)] by metis
    qed
    have "onodes s' = spec_insert (opx b) sd n (onodes (ss sd))"
      using onodes_split [OF rep sd(2) refl, of price] w unfolding s'_def spec_insert_def price_def [symmetric]
      by (simp cong: takeWhile_cong dropWhile_cong)
    then show ?thesis using same_exceptD(1,4) [OF Q'(1)] pD(1) P1(3) by (simp add: add_post_def)
  qed
  ultimately show ?thesis using run by blast
qed

lemma AddOrder_links_spec:
  fixes b :: "'o book_core"
  assumes rep: "book_rep b ss X" and n: "n \<in> X" and sd: "sd = ord_side (pobj (m_orderPool b) n)" "sd \<in> sides"
    and nc: "no_collision b ss sd (opx b n)"
    and room: "Suc (card (fst ` level_set ss)) < m_size (m_ordersAtPricePool b)"
  shows "\<exists>b' ss'. AddOrder_links (Some n) b = Inr b' \<and> book_rep b' ss' (X - {n}) \<and> add_post b ss sd n b' ss'"
proof (cases "m_priceOrdersAtPrice b (PriceToIndex (opx b n))")
  case None
  then show ?thesis using AddOrder_new [OF rep n sd _ room] by blast
next
  case (Some l)
  then show ?thesis using AddOrder_existing [OF rep n sd nc] by blast
qed

end
