(* ===== verification/BookRemove.thy ===== *)
theory BookRemove
  imports BookOps
begin

text \<open>
  \<open>RemoveOrder\<close> and \<open>RemoveOrdersAtPrice\<close> on represented books; allocating, releasing and
  rewriting the data of an order.
\<close>

section \<open>Removing a level\<close>

definition head_ptr :: "nat list \<Rightarrow> ptr" where
  "head_ptr ls = (if ls = [] then None else Some (hd ls))"

lemma RemoveOrdersAtPrice_spec:
  fixes b :: "'o book_core"
  defines "P \<equiv> m_ordersAtPricePool b"
  assumes links: "side_links b sd (as @ l # bs)" and tab: "m_priceOrdersAtPrice b (PriceToIndex price) = Some l"
    and ok: "pool_ok P" and l: "l \<in> pused P"
  shows "\<exists>P'. RemoveOrdersAtPrice sd price b = Inr ((set_best sd (head_ptr (as @ bs)) b)
        \<lparr>m_priceOrdersAtPrice := (m_priceOrdersAtPrice b)(PriceToIndex price := None), m_ordersAtPricePool := P'\<rparr>)
    \<and> ring (nxL P') (pvL P') (as @ bs) \<and> pool_ok P' \<and> m_size P' = m_size P \<and> pused P' = pused P - {l}
    \<and> (\<forall>i. lvl_data (pobj P' i) = lvl_data (pobj P i))
    \<and> (\<forall>i. i \<notin> set (as @ l # bs) \<longrightarrow> pobj P' i = pobj P i)"
proof -
  have r: "ring (nxL P) (pvL P) (as @ l # bs)" and best: "best_of sd b = Some (hd (as @ l # bs))"
    using links by (simp_all add: side_links_def P_def)
  have self: "pNextEntry (pobj P l) = Some l \<longleftrightarrow> as @ bs = []"
    using ring_self_next [OF r, of l] by (cases as) (auto simp: nxL_def)
  obtain P1 where P1: "(if pNextEntry (pobj P l) = Some l then Inr (set_best sd None b) else unlink_level (Some l) (best_of sd b) sd b)
      = Inr ((set_best sd (head_ptr (as @ bs)) b)\<lparr>m_ordersAtPricePool := P1\<rparr>)"
    "ring (nxL P1) (pvL P1) (as @ bs)" "same_except lvl_data (set (as @ l # bs)) P P1"
  proof (cases "as @ bs = []")
    case True
    then show ?thesis using that [of P] self by (simp add: head_ptr_def P_def set_best_def)
  next
    case False
    have ld: "l \<notin> set as" using ring_distinct [OF r] by auto
    obtain P1 where P1: "unlink_level (Some l) (best_of sd b) sd b =
        Inr ((if Some l = best_of sd b then set_best sd (Some (hd (bs @ as))) b else b)\<lparr>m_ordersAtPricePool := P1\<rparr>)"
      "ring (nxL P1) (pvL P1) (as @ bs)" "same_except lvl_data (set (as @ l # bs)) P P1"
      using unlink_level_ring [of b as l bs "best_of sd b" sd] r False by (auto simp: P_def)
    have "(if Some l = best_of sd b then set_best sd (Some (hd (bs @ as))) b else b) = set_best sd (head_ptr (as @ bs)) b"
    proof (cases as)
      case Nil
      then show ?thesis using best False by (simp add: head_ptr_def)
    next
      case (Cons a as')
      then have "best_of sd b = Some a" "a \<noteq> l" using best ld by auto
      then show ?thesis using Cons by (simp add: head_ptr_def set_best_idem)
    qed
    then show ?thesis using that [of P1] P1 self False by auto
  qed
  note d = same_exceptD [OF P1(3)]
  have "pool_ok P1" "l \<in> pused P1" using d(2,3) ok l by simp_all
  then obtain P' where P': "Deallocate (Some l) P1 = Inr P'" "pool_ok P'" "m_size P' = m_size P1" "pobj P' = pobj P1"
    "pused P' = pused P1 - {l}" by (rule Deallocate_ok)
  have "RemoveOrdersAtPrice sd price b = Inr ((set_best sd (head_ptr (as @ bs)) b)
        \<lparr>m_priceOrdersAtPrice := (m_priceOrdersAtPrice b)(PriceToIndex price := None), m_ordersAtPricePool := P'\<rparr>)"
    using tab P1(1) P'(1) by (simp add: RemoveOrdersAtPrice_def P_def)
  moreover have "nxL P' = nxL P1" "pvL P' = pvL P1" using P'(4) by (simp_all add: link_defs fun_eq_iff)
  ultimately show ?thesis using P1(2) P'(2-5) d by auto
qed

lemma levels_ok_append_remove: "levels_ok b sd (s1 @ x # s2) \<Longrightarrow> levels_ok b sd (s1 @ s2)"
  by (auto simp: levels_ok_def sorted_wrt_append)

lemma table_ok_level:
  assumes "book_rep b ss X" and "x \<in> level_set ss"
  shows "m_priceOrdersAtPrice b (PriceToIndex (px b x)) = Some (fst x)"
  using assms unfolding book_rep_def table_ok_def by blast

lemma table_ok_inj:
  assumes "book_rep b ss X" and "x \<in> level_set ss" "y \<in> level_set ss"
    and "PriceToIndex (px b x) = PriceToIndex (px b y)"
  shows "fst x = fst y"
  using table_ok_level [OF assms(1,2)] table_ok_level [OF assms(1,3)] assms(4) by simp

lemma book_rep_remove_level:
  fixes b :: "'o book_core"
  assumes rep: "book_rep b ss X" and sd: "sd \<in> sides" and s: "ss sd = s1 @ x # s2" and x: "snd x = [n]"
    and b': "b' = (set_best sd (head_ptr (map fst (s1 @ s2))) b)
        \<lparr>m_priceOrdersAtPrice := (m_priceOrdersAtPrice b)(PriceToIndex (px b x) := None), m_ordersAtPricePool := P'\<rparr>"
    and P': "ring (nxL P') (pvL P') (map fst (s1 @ s2))" "pool_ok P'" "pused P' = pused (m_ordersAtPricePool b) - {fst x}"
      "\<And>i. lvl_data (pobj P' i) = lvl_data (pobj (m_ordersAtPricePool b) i)"
      "\<And>i. i \<notin> set (map fst (ss sd)) \<Longrightarrow> pobj P' i = pobj (m_ordersAtPricePool b) i"
  shows "book_rep b' (ss(sd := s1 @ s2)) (insert n X)" (is "book_rep b' ?ss _")
proof -
  let ?P = "m_ordersAtPricePool b"
  let ?o = "set s1 \<union> set s2 \<union> (\<Union>sd'\<in>sides - {sd}. set (ss sd'))"
  note oth = rep_others [OF rep sd s] and lss = level_set_replace [of sd ss s1 x s2, OF sd s]
  have xs: "x \<in> level_set ss" unfolding lss(2) by blast
  have olv: "y \<in> level_set ss" if "y \<in> ?o" for y using that unfolding lss(2) by blast
  have b'P: "m_ordersAtPricePool b' = P'" and b'Q: "m_orderPool b' = m_orderPool b"
    and b't: "m_priceOrdersAtPrice b' = (m_priceOrdersAtPrice b)(PriceToIndex (px b x) := None)" by (simp_all add: b')
  have pxE: "px b' y = px b y" for y using P'(4) by (intro px_cong) (simp add: b'P)
  have lok: "levels_ok b' sd' t = levels_ok b sd' t" for sd' t
    by (rule levels_ok_cong) (simp_all add: b'P b'Q P'(4))
  have sides: "side_links b' sd' (map fst (?ss sd')) \<and> levels_ok b' sd' (?ss sd')" if sd': "sd' \<in> sides" for sd'
  proof (cases "sd' = sd")
    case True
    have "levels_ok b sd (ss sd)" using rep sd by (simp add: book_rep_def)
    then have "levels_ok b sd (s1 @ s2)" unfolding s by (rule levels_ok_append_remove)
    then show ?thesis using True P'(1) lok by (simp add: side_links_def b' head_ptr_def)
  next
    case False
    have "side_links b' sd' (map fst (ss sd')) = side_links b sd' (map fst (ss sd'))"
    proof (rule side_links_cong)
      show "best_of sd' b' = best_of sd' b" using False sd sd' by (simp add: b' best_of_set_best_other)
      fix i assume "i \<in> set (map fst (ss sd'))"
      then obtain y where y: "y \<in> set (ss sd')" "fst y = i" by auto
      have "i \<notin> set (map fst (ss sd))" using rep_side_unique [OF rep sd' sd y(1)] y(2) False by auto
      then show "pobj (m_ordersAtPricePool b') i = pobj ?P i" using P'(5) b'P by simp
    qed
    then show ?thesis using rep sd' False lok by (simp add: book_rep_def)
  qed
  have os: "order_set ss = insert n (order_set ?ss)" and nn: "n \<notin> order_set ?ss"
  proof -
    show "order_set ss = insert n (order_set ?ss)" unfolding order_set_levels lss(2,3) by (simp add: x)
    show "n \<notin> order_set ?ss" unfolding order_set_levels lss(3) using oth(2) x by fastforce
  qed
  have ps: "fst ` level_set ?ss = fst ` level_set ss - {fst x}"
    unfolding lss(2,3) using oth(1) by force
  have "table_ok b' ?ss"
    unfolding table_ok_def
  proof (intro allI)
    fix k l
    have "(\<exists>y\<in>level_set ?ss. fst y = l \<and> PriceToIndex (px b' y) = k)
        \<longleftrightarrow> k \<noteq> PriceToIndex (px b x) \<and> (\<exists>y\<in>level_set ss. fst y = l \<and> PriceToIndex (px b y) = k)"
      unfolding pxE lss(3) using table_ok_inj [OF rep _ xs] olv oth(1) lss(2) by (metis (no_types, lifting) insert_iff)
    then show "(m_priceOrdersAtPrice b' k = Some l) = (\<exists>y\<in>level_set ?ss. fst y = l \<and> PriceToIndex (px b' y) = k)"
      using rep by (simp add: b't book_rep_def table_ok_def)
  qed
  then show ?thesis using rep sides P'(2,3) os nn ps by (auto simp: book_rep_def b'P b'Q)
qed

section \<open>Removing an order\<close>

definition remove_post :: "'o book_core \<Rightarrow> (ESide \<Rightarrow> level_nodes list) \<Rightarrow> ESide \<Rightarrow> nat \<Rightarrow> 'o book_core \<Rightarrow> (ESide \<Rightarrow> level_nodes list) \<Rightarrow> bool" where
  "remove_post b ss sd n b' ss' \<longleftrightarrow>
     (\<forall>sd'. sd' \<noteq> sd \<longrightarrow> ss' sd' = ss sd')
     \<and> onodes (ss' sd) = remove1 n (onodes (ss sd))
     \<and> (\<forall>i. strip (pobj (m_orderPool b') i) = strip (pobj (m_orderPool b) i))
     \<and> m_size (m_orderPool b') = m_size (m_orderPool b)
     \<and> m_size (m_ordersAtPricePool b') = m_size (m_ordersAtPricePool b)
     \<and> fst ` level_set ss' \<subseteq> fst ` level_set ss"

lemma RemoveOrder_links_spec:
  fixes b :: "'o book_core"
  assumes rep: "book_rep b ss X" and sd: "sd \<in> sides" and n: "n \<in> set (onodes (ss sd))"
  shows "\<exists>b' ss'. RemoveOrder_links (Some n) b = Inr b' \<and> book_rep b' ss' (insert n X) \<and> remove_post b ss sd n b' ss'"
proof -
  let ?P = "m_ordersAtPricePool b" and ?Q = "m_orderPool b"
  obtain x where x: "x \<in> set (ss sd)" "n \<in> set (snd x)" using n by (auto simp: in_onodes)
  obtain s1 s2 where s: "ss sd = s1 @ x # s2" using x(1) by (auto simp: in_set_conv_decomp)
  obtain as bs where o: "snd x = as @ n # bs" using x(2) by (auto simp: in_set_conv_decomp)
  note xlv = level_setI [of sd x ss, OF sd x(1)] and lx = repD [OF rep sd x(1), unfolded lvl_rep_def]
  have on: "ord_side (pobj ?Q n) = sd" "opx b n = px b x" using lx x(2) by auto
  have r: "ring (nxO ?Q) (pvO ?Q) (as @ n # bs)" using lx o by simp
  have tab: "m_priceOrdersAtPrice b (PriceToIndex (px b x)) = Some (fst x)" by (rule table_ok_level [OF rep xlv])
  have self: "pPrevOrder (pobj ?Q n) = Some n \<longleftrightarrow> as @ bs = []"
    using ring_self_prev [OF r, of n] by (cases as) (auto simp: pvO_def)
  have dist: "distinct (onodes (ss sd))" using rep sd levels_ok_distinct_onodes by (auto simp: book_rep_def)
  have n1: "n \<notin> set (onodes s1)" "n \<notin> set as" using dist unfolding s by (auto simp: o)
  have rem: "remove1 n (onodes (ss sd)) = onodes s1 @ (as @ bs) @ onodes s2"
    using n1 unfolding s by (simp add: o remove1_append)
  have lss: "fst ` level_set (ss(sd := s1 @ s2)) \<subseteq> fst ` level_set ss"
    "fst ` level_set (ss(sd := s1 @ (fst x, os) # s2)) = fst ` level_set ss" for os
    using level_set_replace [of sd ss s1 x s2, OF sd s] by auto
  show ?thesis
  proof (cases "as @ bs = []")
    case True
    have "side_links b sd (map fst (ss sd))" using rep sd by (simp add: book_rep_def)
    then have links: "side_links b sd (map fst s1 @ fst x # map fst s2)" unfolding s by simp
    have ok: "pool_ok ?P" and us: "fst x \<in> pused ?P" using rep xlv by (auto simp: book_rep_def)
    obtain P' where P': "RemoveOrdersAtPrice sd (px b x) b = Inr ((set_best sd (head_ptr (map fst (s1 @ s2))) b)
        \<lparr>m_priceOrdersAtPrice := (m_priceOrdersAtPrice b)(PriceToIndex (px b x) := None), m_ordersAtPricePool := P'\<rparr>)"
      "ring (nxL P') (pvL P') (map fst (s1 @ s2))" "pool_ok P'" "m_size P' = m_size ?P" "pused P' = pused ?P - {fst x}"
      "\<And>i. lvl_data (pobj P' i) = lvl_data (pobj ?P i)"
      "\<And>i. i \<notin> set (map fst s1 @ fst x # map fst s2) \<Longrightarrow> pobj P' i = pobj ?P i"
      using RemoveOrdersAtPrice_spec [OF links tab ok us] by auto
    have ob: "\<And>i. i \<notin> set (map fst (ss sd)) \<Longrightarrow> pobj P' i = pobj ?P i" using P'(7) unfolding s by simp
    have xn: "snd x = [n]" using o True by simp
    note rep' = book_rep_remove_level [OF rep sd s xn refl P'(2,3,5,6) ob]
    have "RemoveOrder_links (Some n) b = RemoveOrdersAtPrice sd (px b x) b"
      using on self True by (simp add: RemoveOrder_links_def)
    then show ?thesis using P'(1,4) rep' rem True lss(1) by (auto simp: remove_post_def)
  next
    case False
    obtain Q' P' f where u: "unlink_order (Some n) (Some (fst x)) b = Inr (b\<lparr>m_ordersAtPricePool := P', m_orderPool := Q'\<rparr>)"
      "ring (nxO Q') (pvO Q') (as @ bs)" "same_except strip (set (as @ n # bs)) ?Q Q'" "P' = poke (fst x) f ?P"
      "f (pobj ?P (fst x)) = (pobj ?P (fst x))\<lparr>pFirstOrder := Some (hd (as @ bs))\<rparr>"
      using unlink_order_ring [of b as n bs "fst x"] r False lx o by auto
    have dX: "set (snd x) \<inter> X = {}" using rep xlv unfolding book_rep_def order_set_levels by blast
    have dn: "n \<notin> set (as @ bs)" using ring_distinct [OF r] by auto
    have "book_rep (b\<lparr>m_ordersAtPricePool := P', m_orderPool := Q'\<rparr>) (ss(sd := s1 @ (fst x, as @ bs) # s2)) (insert n X)"
      by (rule book_rep_update_level [OF rep sd s _ _ _ _ u(3) _ u(2) False])
        (use rep lx dX dn u(4,5) o in \<open>auto simp: book_rep_def pobj_poke\<close>)
    moreover have "RemoveOrder_links (Some n) b = unlink_order (Some n) (Some (fst x)) b"
      using on self False tab by (auto simp: RemoveOrder_links_def)
    moreover have "m_size P' = m_size ?P" using u(4) by simp
    ultimately show ?thesis
      using u(1) rem lss(2) same_exceptD(1,4) [OF u(3)]
      by (intro exI [of _ "b\<lparr>m_ordersAtPricePool := P', m_orderPool := Q'\<rparr>"] exI [of _ "ss(sd := s1 @ (fst x, as @ bs) # s2)"])
        (simp add: remove_post_def)
  qed
qed


section \<open>Allocating, releasing and rewriting an order\<close>

lemma book_rep_cong_orders:
  assumes rep: "book_rep b ss X" and ok: "pool_ok Q'" and us: "pused Q' = order_set ss \<union> X'" "order_set ss \<inter> X' = {}"
    and same: "\<And>i. i \<in> order_set ss \<Longrightarrow> pobj Q' i = pobj (m_orderPool b) i"
  shows "book_rep (b\<lparr>m_orderPool := Q'\<rparr>) ss X'" (is "book_rep ?b _ _")
proof -
  have "levels_ok ?b sd (ss sd) = levels_ok b sd (ss sd)" if "sd \<in> sides" for sd
    using same that by (intro levels_ok_cong) (auto simp: order_set_def in_onodes)
  moreover have "side_links ?b sd ls = side_links b sd ls" for sd ls by (rule side_links_cong) simp_all
  moreover have "table_ok ?b ss = table_ok b ss" by (simp add: table_ok_def px_def)
  ultimately show ?thesis using rep ok us by (simp add: book_rep_def)
qed

lemma book_rep_allocate:
  assumes rep: "book_rep b ss X" and room: "Suc (card (order_set ss \<union> X)) < m_size (m_orderPool b)"
  obtains n Q' where "Allocate v (m_orderPool b) = Inr (n, Q')" and "n \<notin> order_set ss \<union> X"
    and "book_rep (b\<lparr>m_orderPool := Q'\<rparr>) ss (insert n X)" and "pobj Q' = (pobj (m_orderPool b))(n := v)"
    and "m_size Q' = m_size (m_orderPool b)"
proof -
  let ?Q = "m_orderPool b"
  have ok: "pool_ok ?Q" and us: "pused ?Q = order_set ss \<union> X" using rep by (simp_all add: book_rep_def)
  have "Suc (card (pused ?Q)) < m_size ?Q" using room us by simp
  from Allocate_ok [OF ok this, of v] obtain Q' where Q': "Allocate v ?Q = Inr (m_nextFreeIndex ?Q, Q')" "pool_ok Q'"
    "m_size Q' = m_size ?Q" "pobj Q' = (pobj ?Q)(m_nextFreeIndex ?Q := v)" "pused Q' = insert (m_nextFreeIndex ?Q) (pused ?Q)"
    "m_nextFreeIndex ?Q \<notin> pused ?Q" by blast
  have "book_rep (b\<lparr>m_orderPool := Q'\<rparr>) ss (insert (m_nextFreeIndex ?Q) X)"
    using rep Q' us by (intro book_rep_cong_orders [OF rep]) (auto simp: book_rep_def)
  then show thesis using that Q' us by blast
qed

lemma book_rep_deallocate:
  assumes rep: "book_rep b ss X" and n: "n \<in> X"
  obtains Q' where "Deallocate (Some n) (m_orderPool b) = Inr Q'"
    and "book_rep (b\<lparr>m_orderPool := Q'\<rparr>) ss (X - {n})" and "pobj Q' = pobj (m_orderPool b)"
    and "m_size Q' = m_size (m_orderPool b)"
proof -
  let ?Q = "m_orderPool b"
  have ok: "pool_ok ?Q" and us: "pused ?Q = order_set ss \<union> X" "order_set ss \<inter> X = {}" using rep by (simp_all add: book_rep_def)
  then have "n \<in> pused ?Q" using n by simp
  from Deallocate_ok [OF ok this] obtain Q' where Q': "Deallocate (Some n) ?Q = Inr Q'" "pool_ok Q'" "m_size Q' = m_size ?Q"
    "pobj Q' = pobj ?Q" "pused Q' = pused ?Q - {n}" by blast
  have "book_rep (b\<lparr>m_orderPool := Q'\<rparr>) ss (X - {n})"
    using Q' us n by (intro book_rep_cong_orders [OF rep]) auto
  then show thesis using that Q' by blast
qed

text \<open>A member that is neither a link nor the side nor the price can be rewritten in place.\<close>

lemma book_rep_poke_order:
  assumes rep: "book_rep b ss X"
    and f: "\<And>o'. pPrevOrder (f o') = pPrevOrder o'" "\<And>o'. pNextOrder (f o') = pNextOrder o'"
      "\<And>o'. ord_side (f o') = ord_side o'" "\<And>o'. ord_price (f o') = ord_price o'"
  shows "book_rep (b\<lparr>m_orderPool := poke n f (m_orderPool b)\<rparr>) ss X" (is "book_rep ?b _ _")
proof -
  let ?Q = "m_orderPool b"
  have o: "pPrevOrder (pobj (poke n f ?Q) i) = pPrevOrder (pobj ?Q i)" "pNextOrder (pobj (poke n f ?Q) i) = pNextOrder (pobj ?Q i)"
    "ord_side (pobj (poke n f ?Q) i) = ord_side (pobj ?Q i)" "ord_price (pobj (poke n f ?Q) i) = ord_price (pobj ?Q i)" for i
    by (simp_all add: pobj_poke f)
  have "nxO (poke n f ?Q) = nxO ?Q" "pvO (poke n f ?Q) = pvO ?Q" by (simp_all add: link_defs o fun_eq_iff)
  then have l: "lvl_rep ?b sd x = lvl_rep b sd x" for sd x by (simp add: lvl_rep_def o px_def)
  have p: "px ?b x = px b x" for x by (simp add: px_def)
  show ?thesis using rep by (simp add: book_rep_def levels_ok_def side_links_def table_ok_def l p)
qed

lemma book_rep_new:
  assumes "0 < levels" and "0 < orders"
  shows "book_rep (book_core_new levels orders d) (\<lambda>_. []) {}"
  using assms by (auto simp: rep_defs book_core_new_def CMemoryPool_new_def pool_ok_def pused_def sides_def
      best_of_def level_set_def order_set_def)

section \<open>What the next priority and the best order are\<close>

lemma last_by_pPrev:
  assumes rep: "book_rep b ss X" and sd: "sd \<in> sides" and x: "x \<in> set (ss sd)"
  shows "pPrevOrder (pobj (m_orderPool b) (hd (snd x))) = Some (last (snd x))"
  using repD [OF rep sd x] ring_last_links(2) by (auto simp: lvl_rep_def pvO_def)

lemma best_order:
  assumes rep: "book_rep b ss X" and sd: "sd \<in> sides"
  shows "bindE (Inr (best_of sd b)) (\<lambda>p. case p of None \<Rightarrow> Inr None | Some l \<Rightarrow> bindE (get_lvl b (Some l)) (\<lambda>t. Inr (pFirstOrder t)))
    = Inr (head_ptr (onodes (ss sd)))"
proof (cases "ss sd")
  case Nil
  then show ?thesis using rep sd by (simp add: book_rep_def side_links_def head_ptr_def)
next
  case (Cons x s)
  have lx: "lvl_rep b sd x" using repD [OF rep sd] Cons by simp
  have "best_of sd b = Some (fst x)" using rep sd Cons by (simp add: book_rep_def side_links_def)
  then show ?thesis using lx Cons by (simp add: lvl_rep_def head_ptr_def)
qed

lemma onodes_Nil_iff:
  assumes "book_rep b ss X" and "sd \<in> sides"
  shows "onodes (ss sd) = [] \<longleftrightarrow> ss sd = []"
  using repD [OF assms] by (cases "ss sd") (auto simp: lvl_rep_def)

end
