(* ===== verification/BookFacts.thy ===== *)
theory BookFacts
  imports BookRemove
begin

text \<open>
  Facts about represented books that both order books use: the two sides share no node, the tops of
  the sides, the number of levels, and insertion under a renaming of the orders.
\<close>

section \<open>The two sides\<close>

definition opp :: "ESide \<Rightarrow> ESide" where
  "opp sd = (if sd = BUY then SELL else BUY)"

lemma opp_simps [simp]: "opp BUY = SELL" "opp SELL = BUY" "opp sd \<in> sides"
  by (simp_all add: opp_def sides_def)

lemma opp_neq [simp]: "sd \<in> sides \<Longrightarrow> opp sd \<noteq> sd" "sd \<in> sides \<Longrightarrow> sd \<noteq> opp sd"
  by (auto simp: opp_def sides_def)

lemma order_set_sides: "order_set ss = set (onodes (ss BUY)) \<union> set (onodes (ss SELL))"
  by (auto simp: order_set_def sides_def)

lemma order_set_update:
  assumes "sd \<in> sides" and "\<forall>sd'. sd' \<noteq> sd \<longrightarrow> ss' sd' = ss sd'"
  shows "order_set ss' = set (onodes (ss' sd)) \<union> set (onodes (ss (opp sd)))"
    and "order_set ss = set (onodes (ss sd)) \<union> set (onodes (ss (opp sd)))"
  using assms by (auto simp: order_set_def sides_def opp_def)

lemma rep_sides_disjoint:
  assumes "book_rep b ss X" and "sd \<in> sides"
  shows "set (onodes (ss sd)) \<inter> set (onodes (ss (opp sd))) = {}"
proof -
  have "False" if "i \<in> set (onodes (ss sd))" "i \<in> set (onodes (ss (opp sd)))" for i
  proof -
    obtain x y where "x \<in> set (ss sd)" "i \<in> set (snd x)" "y \<in> set (ss (opp sd))" "i \<in> set (snd y)"
      using \<open>i \<in> set (onodes (ss sd))\<close> \<open>i \<in> set (onodes (ss (opp sd)))\<close> unfolding in_onodes by blast
    then show False using rep_order_unique [OF assms(1,2), of "opp sd" x y i] assms(2) by auto
  qed
  then show ?thesis by blast
qed

lemma rep_distinct_onodes: "book_rep b ss X \<Longrightarrow> sd \<in> sides \<Longrightarrow> distinct (onodes (ss sd))"
  using levels_ok_distinct_onodes by (auto simp: book_rep_def)

section \<open>The top of a side, and the number of levels\<close>

lemma top_of_side:
  assumes rep: "book_rep b ss X" and sd: "sd \<in> sides"
  shows "onodes (ss sd) = [] \<Longrightarrow> best_of sd b = None"
    and "onodes (ss sd) = n # ns \<Longrightarrow> \<exists>l. best_of sd b = Some l \<and> pFirstOrder (pobj (m_ordersAtPricePool b) l) = Some n"
proof -
  note bo = best_order [OF rep sd]
  show "best_of sd b = None" if "onodes (ss sd) = []"
    using that onodes_Nil_iff [OF rep sd] rep sd by (simp add: book_rep_def side_links_def)
  show "\<exists>l. best_of sd b = Some l \<and> pFirstOrder (pobj (m_ordersAtPricePool b) l) = Some n" if "onodes (ss sd) = n # ns"
    using that bo by (cases "best_of sd b") (auto simp: head_ptr_def)
qed

text \<open>There are no more levels than prices of live orders.\<close>

lemma card_levels:
  assumes rep: "book_rep b ss X"
  shows "card (fst ` level_set ss) \<le> card (opx b ` order_set ss)"
proof -
  let ?L = "fst ` level_set ss"
  let ?pr = "\<lambda>l. lvl_price (pobj (m_ordersAtPricePool b) l)"
  have "inj_on ?pr ?L"
  proof (rule inj_onI)
    fix l m assume "l \<in> ?L" "m \<in> ?L" and e: "?pr l = ?pr m"
    then obtain x y where "x \<in> level_set ss" "fst x = l" "y \<in> level_set ss" "fst y = m" by blast
    then show "l = m" using table_ok_inj [OF rep, of x y] e by (simp add: px_def)
  qed
  then have "card ?L = card (?pr ` ?L)" by (simp add: card_image)
  also have "?pr ` ?L \<subseteq> opx b ` order_set ss"
  proof
    fix p assume "p \<in> ?pr ` ?L"
    then obtain x where x: "x \<in> level_set ss" "p = px b x" by (auto simp: px_def)
    then obtain sd where sd: "sd \<in> sides" "x \<in> set (ss sd)" by (auto simp: in_level_set)
    have "snd x \<noteq> []" "opx b (hd (snd x)) = p" using repD [OF rep sd] x(2) by (auto simp: lvl_rep_def)
    moreover have "hd (snd x) \<in> order_set ss" unfolding in_order_set using x(1) calculation(1) by (metis hd_in_set)
    ultimately show "p \<in> opx b ` order_set ss" by blast
  qed
  then have "card (?pr ` ?L) \<le> card (opx b ` order_set ss)"
    by (intro card_mono) (simp_all add: order_set_def sides_def)
  finally show ?thesis .
qed

lemma card_order_nodes: "card (order_set ss) \<le> length (onodes (ss BUY)) + length (onodes (ss SELL))"
proof -
  have "card (order_set ss) \<le> card (set (onodes (ss BUY))) + card (set (onodes (ss SELL)))"
    unfolding order_set_sides by (rule card_Un_le)
  also have "\<dots> \<le> length (onodes (ss BUY)) + length (onodes (ss SELL))" by (intro add_mono card_length)
  finally show ?thesis .
qed

text \<open>A side has no more orders than the pool has blocks.\<close>

lemma rep_onodes_le:
  assumes rep: "book_rep b ss X" and sd: "sd \<in> sides"
  shows "length (onodes (ss sd)) \<le> m_size (m_orderPool b)"
proof -
  have "length (onodes (ss sd)) = card (set (onodes (ss sd)))"
    using rep_distinct_onodes [OF rep sd] by (simp add: distinct_card)
  also have "\<dots> \<le> card (pused (m_orderPool b))"
    using rep sd by (intro card_mono [OF finite_pused]) (auto simp: book_rep_def order_set_def)
  also have "\<dots> \<le> m_size (m_orderPool b)"
    using card_mono [of "{..<m_size (m_orderPool b)}" "pused (m_orderPool b)"] by (auto simp: pused_def)
  finally show ?thesis .
qed

section \<open>The orders of one price\<close>

lemma filter_level:
  assumes "levels_ok b sd (s1 @ x # s2)"
  shows "filter (\<lambda>i. opx b i = px b x) (onodes (s1 @ x # s2)) = snd x"
proof -
  have p: "opx b i = px b y" if "y \<in> set (s1 @ x # s2)" "i \<in> set (snd y)" for y i
    using assms that by (auto simp: levels_ok_def lvl_rep_def)
  have n: "px b y \<noteq> px b x" if "y \<in> set s1 \<union> set s2" for y
    using assms that by (auto simp: levels_ok_def sorted_wrt_append)
  have "filter (\<lambda>i. opx b i = px b x) (onodes s) = []" if "set s \<subseteq> set s1 \<union> set s2" for s
  proof -
    have "opx b i \<noteq> px b x" if i: "i \<in> set (onodes s)" for i
    proof -
      obtain y where "y \<in> set s" "i \<in> set (snd y)" using i unfolding in_onodes by blast
      then show ?thesis using p [of y i] n [of y] \<open>set s \<subseteq> _\<close> by auto
    qed
    then show ?thesis by (simp add: filter_empty_conv)
  qed
  then show ?thesis using p [of x] by simp
qed

section \<open>Insertion\<close>

lemma spec_insert_map:
  "(\<And>i. pr' (f i) = pr i) \<Longrightarrow> map f (spec_insert pr sd n ns) = spec_insert pr' sd (f n) (map f ns)"
  by (simp add: spec_insert_def takeWhile_map dropWhile_map comp_def)

section \<open>Price-time order\<close>

text \<open>\<open>x\<close> has precedence over \<open>y\<close>: a better price, or the same price and an earlier market order id.\<close>

definition precedes :: "ESide \<Rightarrow> 'o SMarketOrder_scheme \<Rightarrow> 'o SMarketOrder_scheme \<Rightarrow> bool" where
  "precedes sd x y \<longleftrightarrow> worse sd (ord_price y) (ord_price x) \<or> (ord_price x = ord_price y \<and> ord_orderId x < ord_orderId y)"

lemma precedes_trans: "precedes sd x y \<Longrightarrow> precedes sd y z \<Longrightarrow> precedes sd x z"
  by (auto simp: precedes_def worse_def)

lemma spec_insert_sorted:
  assumes "sorted_wrt (precedes sd) rs" and "sd \<in> sides" and "\<forall>r\<in>set rs. ord_orderId r < ord_orderId n"
  shows "sorted_wrt (precedes sd) (spec_insert ord_price sd n rs)"
  using assms
proof (induction rs)
  case Nil
  then show ?case by (simp add: spec_insert_def)
next
  case (Cons r rs)
  have IH: "sorted_wrt (precedes sd) (spec_insert ord_price sd n rs)" using Cons by simp
  show ?case
  proof (cases "worse sd (ord_price r) (ord_price n)")
    case True
    then have "precedes sd n r" by (simp add: precedes_def)
    then have "\<forall>y\<in>set rs. precedes sd n y" using Cons.prems(1) precedes_trans [OF \<open>precedes sd n r\<close>] by simp
    then show ?thesis using True \<open>precedes sd n r\<close> Cons.prems(1) by (simp add: spec_insert_def)
  next
    case False
    then have "spec_insert ord_price sd n (r # rs) = r # spec_insert ord_price sd n rs" by (simp add: spec_insert_def)
    moreover have "precedes sd r n"
      using False Cons.prems(2,3) worse_total [OF Cons.prems(2), of "ord_price r" "ord_price n"] by (auto simp: precedes_def)
    ultimately show ?thesis using IH Cons.prems(1) by simp
  qed
qed

end
