(* ===== verification/Messages.thy ===== *)
theory Messages
  imports Types
begin

text \<open>
  The messages that travel between the components and over the wire:
  \<open>exchange/order_server/ClientRequest.h\<close>, \<open>exchange/order_server/ClientResponse.h\<close> and
  \<open>exchange/market_data/MarketUpdate.h\<close>.  Field names carry a prefix (\<open>req_\<close>, \<open>resp_\<close>,
  \<open>upd_\<close>) because the structs share member names.
\<close>

section \<open>Client requests\<close>

datatype EClientRequestType = Req_INVALID | Req_NEW | Req_CANCEL

fun ClientRequestTypeToString :: "EClientRequestType \<Rightarrow> string" where
  "ClientRequestTypeToString Req_NEW = ''NEW''"
| "ClientRequestTypeToString Req_CANCEL = ''CANCEL''"
| "ClientRequestTypeToString Req_INVALID = ''INVALID''"

record SMEClientRequest =
  req_type :: EClientRequestType
  req_clientId :: ClientId
  req_tickerId :: TickerId
  req_orderId :: OrderId
  req_side :: ESide
  req_price :: Price
  req_qty :: Qty

definition SMEClientRequest_default :: SMEClientRequest where
  "SMEClientRequest_default = \<lparr>req_type = Req_INVALID, req_clientId = ClientId_INVALID,
     req_tickerId = TickerId_INVALID, req_orderId = OrderId_INVALID, req_side = Side_INVALID,
     req_price = Price_INVALID, req_qty = Qty_INVALID\<rparr>"

definition SMEClientRequest_ToString :: "SMEClientRequest \<Rightarrow> string" where
  "SMEClientRequest_ToString r =
     ''SMEClientRequest'' @ '' ['' @ ''type:'' @ ClientRequestTypeToString (req_type r)
     @ '' client:'' @ ClientIdToString (req_clientId r)
     @ '' ticker:'' @ TickerIdToString (req_tickerId r)
     @ '' oid:'' @ OrderIdToString (req_orderId r)
     @ '' side:'' @ SideToString (req_side r)
     @ '' qty:'' @ QtyToString (req_qty r)
     @ '' price:'' @ PriceToString (req_price r) @ '']''"

record SOMClientRequest =
  som_seqNum :: "64 word"
  som_meClientRequest :: SMEClientRequest

definition SOMClientRequest_ToString :: "SOMClientRequest \<Rightarrow> string" where
  "SOMClientRequest_ToString r =
     ''SOMClientRequest'' @ '' ['' @ ''seq:'' @ to_string_nat (unat (som_seqNum r))
     @ '' '' @ SMEClientRequest_ToString (som_meClientRequest r) @ '']''"

section \<open>Client responses\<close>

datatype EClientResponseType = Resp_INVALID | ACCEPTED | CANCELED | FILLED | CANCEL_REJECTED

fun ClientResponseTypeToString :: "EClientResponseType \<Rightarrow> string" where
  "ClientResponseTypeToString ACCEPTED = ''ACCEPTED''"
| "ClientResponseTypeToString CANCELED = ''CANCELED''"
| "ClientResponseTypeToString FILLED = ''FILLED''"
| "ClientResponseTypeToString CANCEL_REJECTED = ''CANCEL_REJECTED''"
| "ClientResponseTypeToString Resp_INVALID = ''INVALID''"

record SMEClientResponse =
  resp_type :: EClientResponseType
  resp_clientId :: ClientId
  resp_tickerId :: TickerId
  resp_clientOrderId :: OrderId
  resp_marketOrderId :: OrderId
  resp_side :: ESide
  resp_price :: Price
  resp_execQty :: Qty
  resp_leavesQty :: Qty

definition SMEClientResponse_default :: SMEClientResponse where
  "SMEClientResponse_default = \<lparr>resp_type = Resp_INVALID, resp_clientId = ClientId_INVALID,
     resp_tickerId = TickerId_INVALID, resp_clientOrderId = OrderId_INVALID,
     resp_marketOrderId = OrderId_INVALID, resp_side = Side_INVALID, resp_price = Price_INVALID,
     resp_execQty = Qty_INVALID, resp_leavesQty = Qty_INVALID\<rparr>"

definition SMEClientResponse_ToString :: "SMEClientResponse \<Rightarrow> string" where
  "SMEClientResponse_ToString r =
     ''SMEClientResponse'' @ '' ['' @ ''type:'' @ ClientResponseTypeToString (resp_type r)
     @ '' client:'' @ ClientIdToString (resp_clientId r)
     @ '' ticker:'' @ TickerIdToString (resp_tickerId r)
     @ '' coid:'' @ OrderIdToString (resp_clientOrderId r)
     @ '' moid:'' @ OrderIdToString (resp_marketOrderId r)
     @ '' side:'' @ SideToString (resp_side r)
     @ '' exec_qty:'' @ QtyToString (resp_execQty r)
     @ '' leaves_qty:'' @ QtyToString (resp_leavesQty r)
     @ '' price:'' @ PriceToString (resp_price r) @ '']''"

record SOMClientResponse =
  somr_seqNum :: "64 word"
  somr_meClientResponse :: SMEClientResponse

definition SOMClientResponse_ToString :: "SOMClientResponse \<Rightarrow> string" where
  "SOMClientResponse_ToString r =
     ''SOMClientResponse'' @ '' ['' @ ''seq:'' @ to_string_nat (unat (somr_seqNum r))
     @ '' '' @ SMEClientResponse_ToString (somr_meClientResponse r) @ '']''"

section \<open>Market updates\<close>

datatype EMarketUpdateType =
  Upd_INVALID | CLEAR | ADD | MODIFY | CANCEL | TRADE | SNAPSHOT_START | SNAPSHOT_END

fun MarketUpdateTypeToString :: "EMarketUpdateType \<Rightarrow> string" where
  "MarketUpdateTypeToString CLEAR = ''CLEAR''"
| "MarketUpdateTypeToString ADD = ''ADD''"
| "MarketUpdateTypeToString MODIFY = ''MODIFY''"
| "MarketUpdateTypeToString CANCEL = ''CANCEL''"
| "MarketUpdateTypeToString TRADE = ''TRADE''"
| "MarketUpdateTypeToString SNAPSHOT_START = ''SNAPSHOT_START''"
| "MarketUpdateTypeToString SNAPSHOT_END = ''SNAPSHOT_END''"
| "MarketUpdateTypeToString Upd_INVALID = ''INVALID''"

record SMEMarketUpdate =
  upd_type :: EMarketUpdateType
  upd_orderId :: OrderId
  upd_tickerId :: TickerId
  upd_side :: ESide
  upd_price :: Price
  upd_qty :: Qty
  upd_priority :: Priority

definition SMEMarketUpdate_default :: SMEMarketUpdate where
  "SMEMarketUpdate_default = \<lparr>upd_type = Upd_INVALID, upd_orderId = OrderId_INVALID,
     upd_tickerId = TickerId_INVALID, upd_side = Side_INVALID, upd_price = Price_INVALID,
     upd_qty = Qty_INVALID, upd_priority = Priority_INVALID\<rparr>"

definition SMEMarketUpdate_ToString :: "SMEMarketUpdate \<Rightarrow> string" where
  "SMEMarketUpdate_ToString u =
     ''EMEMarketUpdate'' @ '' ['' @ '' type:'' @ MarketUpdateTypeToString (upd_type u)
     @ '' ticker:'' @ TickerIdToString (upd_tickerId u)
     @ '' oid:'' @ OrderIdToString (upd_orderId u)
     @ '' side:'' @ SideToString (upd_side u)
     @ '' qty:'' @ QtyToString (upd_qty u)
     @ '' price:'' @ PriceToString (upd_price u)
     @ '' priority:'' @ PriorityToString (upd_priority u) @ '']''"

record MDPMarketUpdate =
  mdp_seqNum :: "64 word"
  mdp_update :: SMEMarketUpdate

definition MDPMarketUpdate_ToString :: "MDPMarketUpdate \<Rightarrow> string" where
  "MDPMarketUpdate_ToString u =
     ''MDPMarketUpdate'' @ '' ['' @ '' seq:'' @ to_string_nat (unat (mdp_seqNum u))
     @ '' '' @ SMEMarketUpdate_ToString (mdp_update u) @ '']''"

end
