(* ===== verification/MEOrderBook.thy ===== *)
theory MEOrderBook
  imports BookFacts Messages
begin

text \<open>
  \<open>exchange/matcher/MatchingEngineOrderBook.h\<close> and \<open>.cpp\<close>: the order book of one ticker.  The
  linked part is a \<open>book_core\<close>; \<open>m_cidOidToOrder\<close> maps client and client order id to the live
  order.  The back pointer to the matching engine is used only to send responses and market
  updates; the calls made through it are recorded in order in \<open>sent\<close>, and theory
  \<open>MatchingEngine\<close> performs them.
\<close>

section \<open>State\<close>

datatype engine_call = SendClientResponse SMEClientResponse | SendMarketUpdate SMEMarketUpdate

type_synonym me_core = "\<lparr>ord_tickerId :: TickerId, ord_clientId :: ClientId, ord_clientOrderId :: OrderId\<rparr> book_core"

record CMEOrderBook =
  m_tickerId :: TickerId
  m_cidOidToOrder :: "ClientId \<Rightarrow> OrderId \<Rightarrow> ptr"
  core :: me_core
  m_nextMarketOrderId :: OrderId
  sent :: "engine_call list"

definition SMEOrder_default :: SMEOrder where
  "SMEOrder_default = \<lparr>ord_orderId = OrderId_INVALID, ord_side = Side_INVALID, ord_price = Price_INVALID,
     ord_qty = Qty_INVALID, ord_priority = Priority_INVALID, pPrevOrder = None, pNextOrder = None,
     ord_tickerId = TickerId_INVALID, ord_clientId = ClientId_INVALID, ord_clientOrderId = OrderId_INVALID\<rparr>"

text \<open>
  The constructor.  It leaves the two arrays of pointers uninitialised; the model starts them with
  null pointers, which is what the rest of the code relies on.
\<close>

definition CMEOrderBook_new :: "TickerId \<Rightarrow> CMEOrderBook" where
  "CMEOrderBook_new ticker_id = \<lparr>m_tickerId = ticker_id, m_cidOidToOrder = (\<lambda>_ _. None),
     core = book_core_new ME_MAX_PRICE_LEVELS ME_MAX_ORDER_IDS SMEOrder_default,
     m_nextMarketOrderId = 1, sent = []\<rparr>"

definition SendCall :: "engine_call \<Rightarrow> CMEOrderBook \<Rightarrow> CMEOrderBook" where
  "SendCall c bk = bk\<lparr>sent := sent bk @ [c]\<rparr>"

definition with_core :: "(me_core \<Rightarrow> me_core outcome) \<Rightarrow> CMEOrderBook \<Rightarrow> CMEOrderBook outcome" where
  "with_core f bk = bindE (f (core bk)) (\<lambda>c. Inr (bk\<lparr>core := c\<rparr>))"

definition GenerateNewMarketOrderId :: "CMEOrderBook \<Rightarrow> OrderId \<times> CMEOrderBook" where
  "GenerateNewMarketOrderId bk = (m_nextMarketOrderId bk, bk\<lparr>m_nextMarketOrderId := m_nextMarketOrderId bk + 1\<rparr>)"

text \<open>\<open>m_cidOidToOrder.at(cid).at(oid)\<close>, read and assigned.\<close>

definition id_at :: "(ClientId \<Rightarrow> OrderId \<Rightarrow> ptr) \<Rightarrow> ClientId \<Rightarrow> OrderId \<Rightarrow> ptr outcome" where
  "id_at m cid oid = bindE (arr_at ME_MAX_NUM_CLIENTS m cid) (\<lambda>row. arr_at ME_MAX_ORDER_IDS row oid)"

definition id_set :: "ClientId \<Rightarrow> OrderId \<Rightarrow> ptr \<Rightarrow> CMEOrderBook \<Rightarrow> CMEOrderBook outcome" where
  "id_set cid oid x bk =
     bindE (arr_at ME_MAX_NUM_CLIENTS (m_cidOidToOrder bk) cid) (\<lambda>row.
     bindE (arr_set ME_MAX_ORDER_IDS row oid x) (\<lambda>row'.
     Inr (bk\<lparr>m_cidOidToOrder := (m_cidOidToOrder bk)(cid := row')\<rparr>)))"

section \<open>Adding and removing a single order\<close>

definition me_RemoveOrder :: "ptr \<Rightarrow> CMEOrderBook \<Rightarrow> CMEOrderBook outcome" where
  "me_RemoveOrder order b0 =
     bindE (with_core (RemoveOrder_links order) b0) (\<lambda>b1.
     bindE (get_ord (core b1) order) (\<lambda>o1.
     bindE (id_set (ord_clientId o1) (ord_clientOrderId o1) None b1) (\<lambda>b2.
     with_core (\<lambda>c. bindE (Deallocate order (m_orderPool c)) (\<lambda>p. Inr (c\<lparr>m_orderPool := p\<rparr>))) b2)))"

definition me_AddOrder_node :: "ptr \<Rightarrow> CMEOrderBook \<Rightarrow> CMEOrderBook outcome" where
  "me_AddOrder_node order b0 =
     bindE (with_core (AddOrder_links order) b0) (\<lambda>b1.
     bindE (get_ord (core b1) order) (\<lambda>o1.
     id_set (ord_clientId o1) (ord_clientOrderId o1) order b1))"

section \<open>Matching\<close>

definition Match :: "TickerId \<Rightarrow> ClientId \<Rightarrow> ESide \<Rightarrow> OrderId \<Rightarrow> OrderId \<Rightarrow> ptr \<Rightarrow> Qty \<Rightarrow> CMEOrderBook \<Rightarrow> (Qty \<times> CMEOrderBook) outcome" where
  "Match ticker_id client_id side client_order_id new_market_order_id itr leaves_qty0 b0 =
     bindE (get_ord (core b0) itr) (\<lambda>o0.
     let order_qty = ord_qty o0;
         fill_qty = min leaves_qty0 order_qty;
         leaves_qty = leaves_qty0 - fill_qty
     in
     bindE (with_core (set_ord itr (\<lambda>x. x\<lparr>ord_qty := ord_qty x - fill_qty\<rparr>)) b0) (\<lambda>b1.
     bindE (get_ord (core b1) itr) (\<lambda>o1.
     let b2 = SendCall (SendClientResponse \<lparr>resp_type = FILLED, resp_clientId = client_id, resp_tickerId = ticker_id,
                resp_clientOrderId = client_order_id, resp_marketOrderId = new_market_order_id, resp_side = side,
                resp_price = ord_price o1, resp_execQty = fill_qty, resp_leavesQty = leaves_qty\<rparr>) b1;
         b3 = SendCall (SendClientResponse \<lparr>resp_type = FILLED, resp_clientId = ord_clientId o1, resp_tickerId = ticker_id,
                resp_clientOrderId = ord_clientOrderId o1, resp_marketOrderId = ord_orderId o1, resp_side = ord_side o1,
                resp_price = ord_price o1, resp_execQty = fill_qty, resp_leavesQty = ord_qty o1\<rparr>) b2;
         b4 = SendCall (SendMarketUpdate \<lparr>upd_type = TRADE, upd_orderId = OrderId_INVALID, upd_tickerId = ticker_id,
                upd_side = side, upd_price = ord_price o1, upd_qty = fill_qty, upd_priority = Priority_INVALID\<rparr>) b3
     in
     if ord_qty o1 = 0
     then bindE (me_RemoveOrder itr
            (SendCall (SendMarketUpdate \<lparr>upd_type = CANCEL, upd_orderId = ord_orderId o1, upd_tickerId = ticker_id,
               upd_side = ord_side o1, upd_price = ord_price o1, upd_qty = order_qty, upd_priority = Priority_INVALID\<rparr>) b4))
            (\<lambda>b5. Inr (leaves_qty, b5))
     else Inr (leaves_qty,
            SendCall (SendMarketUpdate \<lparr>upd_type = MODIFY, upd_orderId = ord_orderId o1, upd_tickerId = ticker_id,
              upd_side = ord_side o1, upd_price = ord_price o1, upd_qty = ord_qty o1, upd_priority = ord_priority o1\<rparr>) b4))))"

text \<open>
  The two loops of \<open>CheckForMatch\<close>, one per side of the aggressor.  Every round but the last
  removes an order, so \<open>fuel\<close> beyond the size of the order pool is never used up.
\<close>

definition opposite_top :: "ESide \<Rightarrow> CMEOrderBook \<Rightarrow> ptr" where
  "opposite_top side bk = (if side = BUY then m_pAsksByPrice (core bk) else m_pBidsByPrice (core bk))"

definition price_misses :: "ESide \<Rightarrow> Price \<Rightarrow> Price \<Rightarrow> bool" where
  "price_misses side price itr_price = (if side = BUY then sint price < sint itr_price else sint price > sint itr_price)"

fun match_loop :: "nat \<Rightarrow> ClientId \<Rightarrow> OrderId \<Rightarrow> TickerId \<Rightarrow> ESide \<Rightarrow> Price \<Rightarrow> OrderId \<Rightarrow> Qty \<Rightarrow> CMEOrderBook \<Rightarrow> (Qty \<times> CMEOrderBook) outcome" where
  "match_loop fuel client_id client_order_id ticker_id side price new_market_order_id leaves_qty b0 =
     (if \<not> (leaves_qty \<noteq> 0 \<and> opposite_top side b0 \<noteq> None) then Inr (leaves_qty, b0)
      else bindE (get_lvl (core b0) (opposite_top side b0)) (\<lambda>top.
           bindE (get_ord (core b0) (pFirstOrder top)) (\<lambda>itr.
           if price_misses side price (ord_price itr) then Inr (leaves_qty, b0)
           else if fuel = 0 then Inl Diverges
           else bindE (Match ticker_id client_id side client_order_id new_market_order_id (pFirstOrder top) leaves_qty b0)
                  (\<lambda>(leaves_qty', b1).
                     match_loop (fuel - 1) client_id client_order_id ticker_id side price new_market_order_id leaves_qty' b1))))"

declare match_loop.simps [simp del]

text \<open>The last parameter has type \<open>Qty\<close> in the code, which narrows the 64-bit order id.\<close>

definition CheckForMatch :: "ClientId \<Rightarrow> OrderId \<Rightarrow> TickerId \<Rightarrow> ESide \<Rightarrow> Price \<Rightarrow> Qty \<Rightarrow> Qty \<Rightarrow> CMEOrderBook \<Rightarrow> (Qty \<times> CMEOrderBook) outcome" where
  "CheckForMatch client_id client_order_id ticker_id side price qty new_market_order_id b0 =
     (if side = BUY \<or> side = SELL
      then match_loop (m_size (m_orderPool (core b0))) client_id client_order_id ticker_id side price (ucast new_market_order_id) qty b0
      else Inr (qty, b0))"

section \<open>The public operations\<close>

definition me_AddOrder :: "ClientId \<Rightarrow> OrderId \<Rightarrow> TickerId \<Rightarrow> ESide \<Rightarrow> Price \<Rightarrow> Qty \<Rightarrow> CMEOrderBook \<Rightarrow> CMEOrderBook outcome" where
  "me_AddOrder client_id client_order_id ticker_id side price qty b0 =
     (let (new_market_order_id, b1) = GenerateNewMarketOrderId b0;
          b2 = SendCall (SendClientResponse \<lparr>resp_type = ACCEPTED, resp_clientId = client_id, resp_tickerId = ticker_id,
                 resp_clientOrderId = client_order_id, resp_marketOrderId = new_market_order_id, resp_side = side,
                 resp_price = price, resp_execQty = 0, resp_leavesQty = qty\<rparr>) b1
      in
      bindE (CheckForMatch client_id client_order_id ticker_id side price qty (ucast new_market_order_id) b2) (\<lambda>(leaves_qty, b3).
      if leaves_qty \<noteq> 0
      then bindE (GetNextPriority price (core b3)) (\<lambda>priority.
           bindE (Allocate \<lparr>ord_orderId = new_market_order_id, ord_side = side, ord_price = price, ord_qty = leaves_qty,
                    ord_priority = priority, pPrevOrder = None, pNextOrder = None, ord_tickerId = ticker_id,
                    ord_clientId = client_id, ord_clientOrderId = client_order_id\<rparr> (m_orderPool (core b3))) (\<lambda>(n, p).
           bindE (me_AddOrder_node (Some n) (b3\<lparr>core := (core b3)\<lparr>m_orderPool := p\<rparr>\<rparr>)) (\<lambda>b4.
           Inr (SendCall (SendMarketUpdate \<lparr>upd_type = ADD, upd_orderId = new_market_order_id, upd_tickerId = ticker_id,
                  upd_side = side, upd_price = price, upd_qty = leaves_qty, upd_priority = priority\<rparr>) b4))))
      else Inr b3))"

definition me_CancelOrder :: "ClientId \<Rightarrow> OrderId \<Rightarrow> TickerId \<Rightarrow> CMEOrderBook \<Rightarrow> CMEOrderBook outcome" where
  "me_CancelOrder client_id order_id ticker_id b0 =
     bindE (if unat client_id < ME_MAX_NUM_CLIENTS then id_at (m_cidOidToOrder b0) client_id order_id else Inr None)
       (\<lambda>exchange_order.
     if exchange_order = None
     then Inr (SendCall (SendClientResponse \<lparr>resp_type = CANCEL_REJECTED, resp_clientId = client_id, resp_tickerId = ticker_id,
            resp_clientOrderId = order_id, resp_marketOrderId = OrderId_INVALID, resp_side = Side_INVALID,
            resp_price = Price_INVALID, resp_execQty = Qty_INVALID, resp_leavesQty = Qty_INVALID\<rparr>) b0)
     else bindE (get_ord (core b0) exchange_order) (\<lambda>o0.
          let m_clientResponse = \<lparr>resp_type = CANCELED, resp_clientId = client_id, resp_tickerId = ticker_id,
                resp_clientOrderId = order_id, resp_marketOrderId = ord_orderId o0, resp_side = ord_side o0,
                resp_price = ord_price o0, resp_execQty = Qty_INVALID, resp_leavesQty = ord_qty o0\<rparr>;
              m_marketUpdate = \<lparr>upd_type = CANCEL, upd_orderId = ord_orderId o0, upd_tickerId = ticker_id,
                upd_side = ord_side o0, upd_price = ord_price o0, upd_qty = 0, upd_priority = ord_priority o0\<rparr>
          in bindE (me_RemoveOrder exchange_order b0) (\<lambda>b1.
             Inr (SendCall (SendClientResponse m_clientResponse) (SendCall (SendMarketUpdate m_marketUpdate) b1)))))"

end
