(* ===== verification/MESpec.thy ===== *)
theory MESpec
  imports MEOrderBook
begin

text \<open>
  The contract of the exchange's order book, without pointers: each side is a list of orders from
  best to worst, oldest first within a price.  A new order first trades with the front of the
  opposite list, and what is left of it goes behind every order of its side at the same or a
  better price.
\<close>

section \<open>The abstract book\<close>

type_synonym abook = "ESide \<Rightarrow> SMEOrder list"

text \<open>Does an order to \<open>side\<close> at \<open>price\<close> trade with a resting order at \<open>q\<close>?\<close>

definition crosses :: "ESide \<Rightarrow> Price \<Rightarrow> Price \<Rightarrow> bool" where
  "crosses side price q \<longleftrightarrow> \<not> price_misses side price q"

text \<open>The trades of an aggressor with \<open>leaves\<close> left: the resting orders and the traded quantities.\<close>

fun spec_fill :: "ESide \<Rightarrow> Price \<Rightarrow> Qty \<Rightarrow> SMEOrder list \<Rightarrow> (SMEOrder \<times> Qty) list \<times> Qty \<times> SMEOrder list" where
  "spec_fill side price leaves [] = ([], leaves, [])"
| "spec_fill side price leaves (r # rs) =
     (if leaves = 0 \<or> \<not> crosses side price (ord_price r) then ([], leaves, r # rs)
      else if ord_qty r \<le> leaves
           then (let (fills, l, rest) = spec_fill side price (leaves - ord_qty r) rs in ((r, ord_qty r) # fills, l, rest))
           else ([(r, leaves)], 0, r\<lparr>ord_qty := ord_qty r - leaves\<rparr> # rs))"

text \<open>The messages of one trade, and of all of them.\<close>

definition trade_calls :: "TickerId \<Rightarrow> ClientId \<Rightarrow> ESide \<Rightarrow> OrderId \<Rightarrow> OrderId \<Rightarrow> Qty \<Rightarrow> SMEOrder \<Rightarrow> Qty \<Rightarrow> engine_call list" where
  "trade_calls ticker client side coid moid leaves r f =
     [SendClientResponse \<lparr>resp_type = FILLED, resp_clientId = client, resp_tickerId = ticker, resp_clientOrderId = coid,
        resp_marketOrderId = moid, resp_side = side, resp_price = ord_price r, resp_execQty = f, resp_leavesQty = leaves - f\<rparr>,
      SendClientResponse \<lparr>resp_type = FILLED, resp_clientId = ord_clientId r, resp_tickerId = ticker,
        resp_clientOrderId = ord_clientOrderId r, resp_marketOrderId = ord_orderId r, resp_side = ord_side r,
        resp_price = ord_price r, resp_execQty = f, resp_leavesQty = ord_qty r - f\<rparr>,
      SendMarketUpdate \<lparr>upd_type = TRADE, upd_orderId = OrderId_INVALID, upd_tickerId = ticker, upd_side = side,
        upd_price = ord_price r, upd_qty = f, upd_priority = Priority_INVALID\<rparr>,
      (if ord_qty r = f
       then SendMarketUpdate \<lparr>upd_type = CANCEL, upd_orderId = ord_orderId r, upd_tickerId = ticker, upd_side = ord_side r,
              upd_price = ord_price r, upd_qty = ord_qty r, upd_priority = Priority_INVALID\<rparr>
       else SendMarketUpdate \<lparr>upd_type = MODIFY, upd_orderId = ord_orderId r, upd_tickerId = ticker, upd_side = ord_side r,
              upd_price = ord_price r, upd_qty = ord_qty r - f, upd_priority = ord_priority r\<rparr>)]"

fun fill_calls :: "TickerId \<Rightarrow> ClientId \<Rightarrow> ESide \<Rightarrow> OrderId \<Rightarrow> OrderId \<Rightarrow> Qty \<Rightarrow> (SMEOrder \<times> Qty) list \<Rightarrow> engine_call list" where
  "fill_calls ticker client side coid moid leaves [] = []"
| "fill_calls ticker client side coid moid leaves ((r, f) # fs) =
     trade_calls ticker client side coid moid leaves r f @ fill_calls ticker client side coid moid (leaves - f) fs"

text \<open>The priority of a new order: one more than the last order's at its price.\<close>

definition spec_priority :: "Price \<Rightarrow> SMEOrder list \<Rightarrow> Priority" where
  "spec_priority price rs =
     (let same = filter (\<lambda>r. ord_price r = price) rs in if same = [] then 1 else ord_priority (last same) + 1)"

definition spec_AddOrder :: "ClientId \<Rightarrow> OrderId \<Rightarrow> TickerId \<Rightarrow> ESide \<Rightarrow> Price \<Rightarrow> Qty \<Rightarrow> OrderId \<Rightarrow> abook \<Rightarrow> abook \<times> engine_call list" where
  "spec_AddOrder client coid ticker side price qty moid B =
     (let (fills, leaves, rest) = spec_fill side price qty (B (opp side));
          B1 = B(opp side := rest);
          prio = spec_priority price (B1 side);
          new = \<lparr>ord_orderId = moid, ord_side = side, ord_price = price, ord_qty = leaves, ord_priority = prio,
                 pPrevOrder = None, pNextOrder = None, ord_tickerId = ticker, ord_clientId = client, ord_clientOrderId = coid\<rparr>;
          accepted = SendClientResponse \<lparr>resp_type = ACCEPTED, resp_clientId = client, resp_tickerId = ticker,
                 resp_clientOrderId = coid, resp_marketOrderId = moid, resp_side = side, resp_price = price,
                 resp_execQty = 0, resp_leavesQty = qty\<rparr>;
          calls = accepted # fill_calls ticker client side coid (ucast (ucast moid :: Qty)) qty fills
      in if leaves = 0 then (B1, calls)
         else (B1(side := spec_insert ord_price side new (B1 side)),
               calls @ [SendMarketUpdate \<lparr>upd_type = ADD, upd_orderId = moid, upd_tickerId = ticker, upd_side = side,
                 upd_price = price, upd_qty = leaves, upd_priority = prio\<rparr>]))"

definition spec_find :: "ClientId \<Rightarrow> OrderId \<Rightarrow> abook \<Rightarrow> SMEOrder option" where
  "spec_find client coid B = find (\<lambda>r. ord_clientId r = client \<and> ord_clientOrderId r = coid) (B BUY @ B SELL)"

definition spec_CancelOrder :: "ClientId \<Rightarrow> OrderId \<Rightarrow> TickerId \<Rightarrow> abook \<Rightarrow> abook \<times> engine_call list" where
  "spec_CancelOrder client coid ticker B =
     (case spec_find client coid B of
        None \<Rightarrow> (B, [SendClientResponse \<lparr>resp_type = CANCEL_REJECTED, resp_clientId = client, resp_tickerId = ticker,
            resp_clientOrderId = coid, resp_marketOrderId = OrderId_INVALID, resp_side = Side_INVALID,
            resp_price = Price_INVALID, resp_execQty = Qty_INVALID, resp_leavesQty = Qty_INVALID\<rparr>])
      | Some r \<Rightarrow> (B(ord_side r := remove1 r (B (ord_side r))),
          [SendMarketUpdate \<lparr>upd_type = CANCEL, upd_orderId = ord_orderId r, upd_tickerId = ticker, upd_side = ord_side r,
             upd_price = ord_price r, upd_qty = 0, upd_priority = ord_priority r\<rparr>,
           SendClientResponse \<lparr>resp_type = CANCELED, resp_clientId = client, resp_tickerId = ticker,
             resp_clientOrderId = coid, resp_marketOrderId = ord_orderId r, resp_side = ord_side r,
             resp_price = ord_price r, resp_execQty = Qty_INVALID, resp_leavesQty = ord_qty r\<rparr>]))"

section \<open>Trading on lists\<close>

lemma price_misses_worse: "side \<in> sides \<Longrightarrow> price_misses side price q \<longleftrightarrow> worse side price q"
  by (auto simp: price_misses_def worse_def sides_def)

lemma worse_opp: "sd \<in> sides \<Longrightarrow> worse (opp sd) a b \<longleftrightarrow> worse sd b a"
  by (auto simp: worse_def opp_def sides_def)

text \<open>The aggressor's quantity is traded or left, never lost; each trade is within both orders.\<close>

lemma spec_fill_conserves:
  "spec_fill side price leaves rs = (fills, l, rest) \<Longrightarrow>
    unat leaves = sum_list (map (\<lambda>(r, f). unat f) fills) + unat l"
proof (induction side price leaves rs arbitrary: fills l rest rule: spec_fill.induct)
  case (2 side price leaves r rs)
  show ?case
  proof (cases "\<not> (leaves = 0 \<or> \<not> crosses side price (ord_price r)) \<and> ord_qty r \<le> leaves")
    case True
    obtain fs where "fills = (r, ord_qty r) # fs" "spec_fill side price (leaves - ord_qty r) rs = (fs, l, rest)"
      using 2(2) True by (auto split: prod.splits if_splits)
    moreover have "unat leaves = unat (ord_qty r) + unat (leaves - ord_qty r)"
      using True by (simp add: unat_sub word_le_nat_alt)
    ultimately show ?thesis using 2(1) True by auto
  next
    case False
    then show ?thesis using 2(2) by (auto split: if_splits)
  qed
qed simp

text \<open>What is left of the opposite side: a suffix, its first order possibly reduced, never to 0.\<close>

lemma spec_fill_rest:
  "spec_fill side price leaves rs = (fills, l, rest) \<Longrightarrow>
    \<exists>k. rest = drop k rs \<or> (k < length rs \<and> (\<exists>q. q \<noteq> 0 \<and> rest = (rs ! k)\<lparr>ord_qty := q\<rparr> # drop (Suc k) rs))"
proof (induction side price leaves rs arbitrary: fills l rest rule: spec_fill.induct)
  case (1 side price leaves)
  then show ?case by auto
next
  case (2 side price leaves r rs)
  show ?case
  proof (cases "leaves = 0 \<or> \<not> crosses side price (ord_price r)")
    case True
    then show ?thesis using 2(2) by (intro exI [of _ 0]) auto
  next
    case False
    show ?thesis
    proof (cases "ord_qty r \<le> leaves")
      case True
      obtain fs where "spec_fill side price (leaves - ord_qty r) rs = (fs, l, rest)"
        using 2(2) False True by (auto split: prod.splits)
      from 2(1) [OF False True this] obtain k where
        "rest = drop k rs \<or> (k < length rs \<and> (\<exists>q. q \<noteq> 0 \<and> rest = (rs ! k)\<lparr>ord_qty := q\<rparr> # drop (Suc k) rs))" by blast
      then show ?thesis by (intro exI [of _ "Suc k"]) auto
    next
      case part: False
      then have "ord_qty r - leaves \<noteq> 0" by auto
      moreover have "rest = r\<lparr>ord_qty := ord_qty r - leaves\<rparr> # rs" using 2(2) False part by auto
      ultimately show ?thesis by (intro exI [of _ 0] disjI2 conjI exI [of _ "ord_qty r - leaves"]) simp_all
    qed
  qed
qed

text \<open>Each trade is at a crossing price and no larger than the resting order.\<close>

lemma spec_fill_trades:
  "spec_fill side price leaves rs = (fills, l, rest) \<Longrightarrow> (r, f) \<in> set fills \<Longrightarrow>
    r \<in> set rs \<and> crosses side price (ord_price r) \<and> f \<le> ord_qty r"
proof (induction side price leaves rs arbitrary: fills l rest rule: spec_fill.induct)
  case (2 side price leaves r' rs)
  show ?case
  proof (cases "leaves = 0 \<or> \<not> crosses side price (ord_price r')")
    case True
    then show ?thesis using 2(2,3) by auto
  next
    case False
    show ?thesis
    proof (cases "ord_qty r' \<le> leaves")
      case True
      obtain fs where fs: "fills = (r', ord_qty r') # fs" "spec_fill side price (leaves - ord_qty r') rs = (fs, l, rest)"
        using 2(2) False True by (auto split: prod.splits)
      then show ?thesis using 2(1) [OF False True fs(2)] 2(3) False by auto
    next
      case part: False
      then have "leaves \<le> ord_qty r'" using linorder_linear by blast
      then show ?thesis using 2(2,3) False part by auto
    qed
  qed
qed simp

end
