(* ===== verification/MERefine.thy ===== *)
theory MERefine
  imports MESpec
begin

text \<open>
  The order book of theory \<open>MEOrderBook\<close> implements the contract of theory \<open>MESpec\<close>: the relation
  \<open>me_rep\<close> between the linked state and the level lists, and the effect of every operation on it.
\<close>

section \<open>The representation of the whole order book\<close>

definition oid_of :: "CMEOrderBook \<Rightarrow> nat \<Rightarrow> ClientId \<times> OrderId" where
  "oid_of bk n = (ord_clientId (pobj (m_orderPool (core bk)) n), ord_clientOrderId (pobj (m_orderPool (core bk)) n))"

definition id_in_range :: "ClientId \<Rightarrow> OrderId \<Rightarrow> bool" where
  "id_in_range c i \<longleftrightarrow> unat c < ME_MAX_NUM_CLIENTS \<and> unat i < ME_MAX_ORDER_IDS"

definition id_ok :: "CMEOrderBook \<Rightarrow> nat set \<Rightarrow> bool" where
  "id_ok bk S \<longleftrightarrow> (\<forall>n\<in>S. case_prod id_in_range (oid_of bk n))
     \<and> (\<forall>c i n. id_in_range c i \<longrightarrow> (m_cidOidToOrder bk c i = Some n \<longleftrightarrow> n \<in> S \<and> oid_of bk n = (c, i)))"

definition me_rep :: "CMEOrderBook \<Rightarrow> (ESide \<Rightarrow> level_nodes list) \<Rightarrow> bool" where
  "me_rep bk ss \<longleftrightarrow> book_rep (core bk) ss {} \<and> id_ok bk (order_set ss)
     \<and> m_size (m_orderPool (core bk)) = ME_MAX_ORDER_IDS
     \<and> m_size (m_ordersAtPricePool (core bk)) = ME_MAX_PRICE_LEVELS"

definition orders_of :: "CMEOrderBook \<Rightarrow> (ESide \<Rightarrow> level_nodes list) \<Rightarrow> abook" where
  "orders_of bk ss sd = map (\<lambda>n. strip (pobj (m_orderPool (core bk)) n)) (onodes (ss sd))"

definition me_repr :: "CMEOrderBook \<Rightarrow> abook \<Rightarrow> bool" where
  "me_repr bk B \<longleftrightarrow> (\<exists>ss. me_rep bk ss \<and> (\<forall>sd\<in>sides. orders_of bk ss sd = B sd))"

text \<open>Members no operation on orders touches.\<close>

definition me_frame :: "CMEOrderBook \<Rightarrow> CMEOrderBook \<Rightarrow> bool" where
  "me_frame bk bk' \<longleftrightarrow> m_tickerId bk' = m_tickerId bk \<and> m_nextMarketOrderId bk' = m_nextMarketOrderId bk"

lemma strip_me_eqD:
  fixes a c :: SMEOrder
  assumes "strip a = strip c"
  shows "ord_clientId a = ord_clientId c" and "ord_clientOrderId a = ord_clientOrderId c" and "ord_tickerId a = ord_tickerId c"
proof -
  have "ord_clientId (strip x) = ord_clientId x" "ord_clientOrderId (strip x) = ord_clientOrderId x"
    "ord_tickerId (strip x) = ord_tickerId x" for x :: SMEOrder by (simp_all add: strip_def)
  then show "ord_clientId a = ord_clientId c" and "ord_clientOrderId a = ord_clientOrderId c" and "ord_tickerId a = ord_tickerId c"
    using assms by metis+
qed

lemma oid_of_strip:
  "strip (pobj (m_orderPool (core bk')) n) = strip (pobj (m_orderPool (core bk)) n) \<Longrightarrow> oid_of bk' n = oid_of bk n"
  unfolding oid_of_def by (frule strip_me_eqD(1), drule strip_me_eqD(2)) (simp only:)

lemma SendCall_sel [simp]:
  "core (SendCall c bk) = core bk" "m_cidOidToOrder (SendCall c bk) = m_cidOidToOrder bk"
  "m_nextMarketOrderId (SendCall c bk) = m_nextMarketOrderId bk" "sent (SendCall c bk) = sent bk @ [c]"
  "m_tickerId (SendCall c bk) = m_tickerId bk"
  by (simp_all add: SendCall_def)

lemma me_rep_cong:
  "core bk' = core bk \<Longrightarrow> m_cidOidToOrder bk' = m_cidOidToOrder bk \<Longrightarrow> me_rep bk' ss = me_rep bk ss"
  by (simp add: me_rep_def id_ok_def oid_of_def)

lemma me_rep_SendCall [simp]: "me_rep (SendCall c bk) ss = me_rep bk ss"
  by (rule me_rep_cong) simp_all

lemma id_set_ok:
  "id_in_range c i \<Longrightarrow> id_set c i x bk = Inr (bk\<lparr>m_cidOidToOrder := (m_cidOidToOrder bk)(c := (m_cidOidToOrder bk c)(i := x))\<rparr>)"
  by (simp add: id_set_def id_in_range_def)

lemma id_at_ok: "id_in_range c i \<Longrightarrow> id_at m c i = Inr (m c i)"
  by (simp add: id_at_def id_in_range_def)

lemma id_ok_remove:
  assumes "id_ok bk S" and "n \<in> S" and "oid_of bk n = (c, i)"
    and "\<And>k. oid_of bk' k = oid_of bk k"
    and "m_cidOidToOrder bk' = (m_cidOidToOrder bk)(c := (m_cidOidToOrder bk c)(i := None))"
  shows "id_ok bk' (S - {n})"
proof -
  have "id_in_range c i" using assms(1-3) unfolding id_ok_def by fastforce
  then have u: "k = n" if "k \<in> S" "oid_of bk k = (c, i)" for k
    using assms(1-3) that unfolding id_ok_def by (metis option.inject)
  have "m_cidOidToOrder bk' c' i' = Some k \<longleftrightarrow> k \<in> S - {n} \<and> oid_of bk' k = (c', i')" if r: "id_in_range c' i'" for c' i' k
  proof (cases "(c', i') = (c, i)")
    case True
    then show ?thesis using assms(4,5) u by auto
  next
    case False
    then have "m_cidOidToOrder bk' c' i' = m_cidOidToOrder bk c' i'" using assms(5) by auto
    then have "m_cidOidToOrder bk' c' i' = Some k \<longleftrightarrow> k \<in> S \<and> oid_of bk k = (c', i')"
      using assms(1) r by (simp add: id_ok_def)
    then show ?thesis using assms(3,4) False by auto
  qed
  moreover have "\<forall>k\<in>S - {n}. case_prod id_in_range (oid_of bk' k)" using assms(1,4) by (simp add: id_ok_def)
  ultimately show ?thesis unfolding id_ok_def by blast
qed

lemma id_ok_insert:
  assumes "id_ok bk S" and "n \<notin> S" and "oid_of bk' n = (c, i)" and "id_in_range c i"
    and fresh: "\<forall>k\<in>S. oid_of bk k \<noteq> (c, i)"
    and "\<And>k. k \<in> S \<Longrightarrow> oid_of bk' k = oid_of bk k"
    and "m_cidOidToOrder bk' = (m_cidOidToOrder bk)(c := (m_cidOidToOrder bk c)(i := Some n))"
  shows "id_ok bk' (insert n S)"
proof -
  have "m_cidOidToOrder bk' c' i' = Some k \<longleftrightarrow> k \<in> insert n S \<and> oid_of bk' k = (c', i')" if r: "id_in_range c' i'" for c' i' k
  proof (cases "(c', i') = (c, i)")
    case True
    then show ?thesis using assms(3,6,7) fresh by auto
  next
    case False
    then have "m_cidOidToOrder bk' c' i' = m_cidOidToOrder bk c' i'" using assms(7) by auto
    then have "m_cidOidToOrder bk' c' i' = Some k \<longleftrightarrow> k \<in> S \<and> oid_of bk k = (c', i')"
      using assms(1) r by (simp add: id_ok_def)
    then show ?thesis using assms(2,3,6) False by auto
  qed
  moreover have "\<forall>k\<in>insert n S. case_prod id_in_range (oid_of bk' k)" using assms(1,3,4,6) by (simp add: id_ok_def)
  ultimately show ?thesis unfolding id_ok_def by blast
qed

section \<open>Removing an order\<close>

lemma me_RemoveOrder_spec:
  assumes rep: "me_rep bk ss" and sd: "sd \<in> sides" and n: "n \<in> set (onodes (ss sd))"
  shows "\<exists>bk' ss'. me_RemoveOrder (Some n) bk = Inr bk' \<and> me_rep bk' ss' \<and> me_frame bk bk' \<and> sent bk' = sent bk
    \<and> remove_post (core bk) ss sd n (core bk') ss'"
proof -
  have brep: "book_rep (core bk) ss {}" and iok: "id_ok bk (order_set ss)" using rep by (simp_all add: me_rep_def)
  obtain c1 ss' where c1: "RemoveOrder_links (Some n) (core bk) = Inr c1" "book_rep c1 ss' {n}"
    "remove_post (core bk) ss sd n c1 ss'"
    using RemoveOrder_links_spec [OF brep sd n] by auto
  obtain Q where Q: "Deallocate (Some n) (m_orderPool c1) = Inr Q" "book_rep (c1\<lparr>m_orderPool := Q\<rparr>) ss' {}"
    "pobj Q = pobj (m_orderPool c1)" "m_size Q = m_size (m_orderPool c1)"
    using book_rep_deallocate [OF c1(2), of n] by auto
  have st: "strip (pobj (m_orderPool c1) i) = strip (pobj (m_orderPool (core bk)) i)" for i
    using c1(3) by (simp add: remove_post_def)
  have nS: "n \<in> order_set ss" using n sd by (auto simp: order_set_def)
  obtain c i where ci: "oid_of bk n = (c, i)" by fastforce
  then have rng: "id_in_range c i" using iok nS unfolding id_ok_def by fastforce
  have ci': "ord_clientId (pobj (m_orderPool c1) n) = c" "ord_clientOrderId (pobj (m_orderPool c1) n) = i"
    using strip_me_eqD [OF st [of n]] ci by (simp_all add: oid_of_def)
  define bk' where "bk' = bk\<lparr>core := c1\<lparr>m_orderPool := Q\<rparr>, m_cidOidToOrder := (m_cidOidToOrder bk)(c := (m_cidOidToOrder bk c)(i := None))\<rparr>"
  have "me_RemoveOrder (Some n) bk = Inr bk'"
    using c1(1) Q(1) ci' rng by (simp add: me_RemoveOrder_def with_core_def id_set_ok bk'_def)
  moreover have os: "order_set ss' = order_set ss - {n}"
  proof -
    have "\<forall>sd'. sd' \<noteq> sd \<longrightarrow> ss' sd' = ss sd'" "onodes (ss' sd) = remove1 n (onodes (ss sd))"
      using c1(3) by (simp_all add: remove_post_def)
    then show ?thesis
      using order_set_update [of sd ss' ss] rep_sides_disjoint [OF brep sd] rep_distinct_onodes [OF brep sd] n sd
      by auto
  qed
  have oid: "oid_of bk' k = oid_of bk k" for k using st Q(3) by (intro oid_of_strip) (simp add: bk'_def)
  have "id_ok bk' (order_set ss')"
    unfolding os by (rule id_ok_remove [OF iok nS ci oid]) (simp add: bk'_def)
  then have "me_rep bk' ss'" using rep Q(2,4) c1(3) by (simp add: me_rep_def bk'_def remove_post_def)
  moreover have "remove_post (core bk) ss sd n (core bk') ss'" using c1(3) Q(3,4) by (simp add: remove_post_def bk'_def)
  ultimately show ?thesis by (intro exI [of _ bk'] exI [of _ ss']) (simp add: me_frame_def bk'_def)
qed

lemma orders_of_remove:
  assumes "remove_post (core bk) ss sd n (core bk') ss'" and "onodes (ss sd) = n # ns"
  shows "orders_of bk' ss' sd = tl (orders_of bk ss sd)"
    and "sd' \<noteq> sd \<Longrightarrow> orders_of bk' ss' sd' = orders_of bk ss sd'"
  using assms by (simp_all add: remove_post_def orders_of_def)


section \<open>One trade\<close>

lemma me_rep_poke:
  assumes rep: "me_rep bk ss"
  shows "me_rep (bk\<lparr>core := (core bk)\<lparr>m_orderPool := poke n (\<lambda>x. x\<lparr>ord_qty := f x\<rparr>) (m_orderPool (core bk))\<rparr>\<rparr>) ss"
    (is "me_rep ?bk ss")
proof -
  have "book_rep (core ?bk) ss {}"
    using rep book_rep_poke_order [of "core bk" ss "{}" "\<lambda>x. x\<lparr>ord_qty := f x\<rparr>" n] by (simp add: me_rep_def)
  moreover have "oid_of ?bk k = oid_of bk k" for k by (simp add: oid_of_def pobj_poke)
  ultimately show ?thesis using rep by (simp add: me_rep_def id_ok_def)
qed

definition trade_post :: "CMEOrderBook \<Rightarrow> (ESide \<Rightarrow> level_nodes list) \<Rightarrow> ESide \<Rightarrow> CMEOrderBook \<Rightarrow> (ESide \<Rightarrow> level_nodes list) \<Rightarrow> bool" where
  "trade_post bk ss sd bk' ss' \<longleftrightarrow> me_rep bk' ss' \<and> me_frame bk bk'
     \<and> (\<forall>sd'\<in>sides. sd' \<noteq> sd \<longrightarrow> orders_of bk' ss' sd' = orders_of bk ss sd')
     \<and> order_set ss' \<subseteq> order_set ss \<and> fst ` level_set ss' \<subseteq> fst ` level_set ss
     \<and> (\<forall>i. oid_of bk' i = oid_of bk i) \<and> (\<forall>i. opx (core bk') i = opx (core bk) i)"

lemma trade_post_trans:
  assumes "trade_post bk ss sd bk1 ss1" and "trade_post bk1 ss1 sd bk2 ss2"
  shows "trade_post bk ss sd bk2 ss2"
proof -
  have "order_set ss2 \<subseteq> order_set ss"
    by (rule order_trans [of _ "order_set ss1"]) (use assms in \<open>simp_all add: trade_post_def\<close>)
  moreover have "fst ` level_set ss2 \<subseteq> fst ` level_set ss"
    by (rule order_trans [of _ "fst ` level_set ss1"]) (use assms in \<open>simp_all add: trade_post_def\<close>)
  ultimately show ?thesis using assms by (simp add: trade_post_def me_frame_def)
qed

lemma Match_spec:
  assumes rep: "me_rep bk ss" and sd: "sd \<in> sides" and n: "onodes (ss sd) = n # ns"
    and r: "r = strip (pobj (m_orderPool (core bk)) n)" and f: "f = min leaves (ord_qty r)"
  shows "\<exists>bk' ss'. Match t c side coid moid (Some n) leaves bk = Inr (leaves - f, bk')
    \<and> trade_post bk ss sd bk' ss' \<and> sent bk' = sent bk @ trade_calls t c side coid moid leaves r f
    \<and> orders_of bk' ss' sd = (if ord_qty r = f then [] else [r\<lparr>ord_qty := ord_qty r - f\<rparr>]) @ tl (orders_of bk ss sd)"
proof -
  let ?Q = "m_orderPool (core bk)"
  let ?o = "pobj ?Q n"
  define bk1 where "bk1 = bk\<lparr>core := (core bk)\<lparr>m_orderPool := poke n (\<lambda>x. x\<lparr>ord_qty := ord_qty x - f\<rparr>) ?Q\<rparr>\<rparr>"
  have rep1: "me_rep bk1 ss" unfolding bk1_def by (rule me_rep_poke [OF rep])
  have brep: "book_rep (core bk) ss {}" using rep by (simp add: me_rep_def)
  have P1: "pobj (m_orderPool (core bk1)) = (pobj ?Q)(n := ?o\<lparr>ord_qty := ord_qty ?o - f\<rparr>)"
    by (simp add: bk1_def pobj_poke)
  have dn: "n \<notin> set ns" using rep_distinct_onodes [OF brep sd] n by simp
  have nS: "n \<in> set (onodes (ss sd))" using n by simp
  have other: "orders_of bk1 ss sd' = orders_of bk ss sd'" if "sd' \<noteq> sd" "sd' \<in> sides" for sd'
  proof -
    have "sd' = opp sd" using that sd by (auto simp: sides_def)
    then have "n \<notin> set (onodes (ss sd'))" using rep_sides_disjoint [OF brep sd] nS by auto
    then show ?thesis using P1 by (auto simp: orders_of_def)
  qed
  have q: "ord_qty r = ord_qty ?o" "ord_price r = ord_price ?o" "ord_side r = ord_side ?o" "ord_orderId r = ord_orderId ?o"
    "ord_priority r = ord_priority ?o" "ord_clientId r = ord_clientId ?o" "ord_clientOrderId r = ord_clientOrderId ?o"
    using r by (simp_all add: strip_def)
  have poke_post: "trade_post bk ss sd bk1 ss"
    using rep1 other P1 by (auto simp: trade_post_def me_frame_def bk1_def oid_of_def)
  let ?calls = "take 3 (trade_calls t c side coid moid leaves r f)"
  let ?last = "last (trade_calls t c side coid moid leaves r f)"
  have calls: "trade_calls t c side coid moid leaves r f = ?calls @ [?last]" by (simp add: trade_calls_def)
  define bk2 where "bk2 = bk1\<lparr>sent := sent bk @ ?calls @ [?last]\<rparr>"
  have rep2: "me_rep bk2 ss" unfolding bk2_def by (subst me_rep_cong [of _ bk1]) (simp_all add: rep1)
  have core2: "core bk2 = core bk1" by (simp add: bk2_def)
  have o1: "onodes (ss sd) = n # ns" by (rule n)
  have post2: "trade_post bk ss sd bk2 ss"
    using poke_post rep2 by (simp add: trade_post_def me_frame_def bk2_def oid_of_def orders_of_def)
  show ?thesis
  proof (cases "ord_qty r = f")
    case True
    obtain bk3 ss3 where bk3: "me_RemoveOrder (Some n) bk2 = Inr bk3" "me_rep bk3 ss3" "me_frame bk2 bk3" "sent bk3 = sent bk2"
      "remove_post (core bk2) ss sd n (core bk3) ss3"
      using me_RemoveOrder_spec [OF rep2 sd nS] by blast
    have run: "Match t c side coid moid (Some n) leaves bk = Inr (leaves - f, bk3)"
      using bk3(1) True q f [symmetric]
      by (simp add: Match_def with_core_def Let_def pobj_poke bk2_def bk1_def trade_calls_def SendCall_def numeral_3_eq_3)
    have st: "strip (pobj (m_orderPool (core bk3)) i) = strip (pobj (m_orderPool (core bk2)) i)" for i
      using bk3(5) by (simp add: remove_post_def)
    have rem: "onodes (ss3 sd) = ns" "\<And>sd'. sd' \<noteq> sd \<Longrightarrow> ss3 sd' = ss sd'" using bk3(5) n by (simp_all add: remove_post_def)
    have "trade_post bk2 ss sd bk3 ss3"
      unfolding trade_post_def
    proof (intro conjI ballI impI allI)
      show "me_rep bk3 ss3" "me_frame bk2 bk3" by fact+
      show "orders_of bk3 ss3 sd' = orders_of bk2 ss sd'" if "sd' \<noteq> sd" for sd'
        using st rem(2) [OF that] by (simp add: orders_of_def)
      show "order_set ss3 \<subseteq> order_set ss" using rem n sd order_set_update [OF sd, of ss3 ss] by auto
      show "fst ` level_set ss3 \<subseteq> fst ` level_set ss" using bk3(5) by (simp add: remove_post_def)
      show "oid_of bk3 i = oid_of bk2 i" for i by (rule oid_of_strip [OF st])
      show "opx (core bk3) i = opx (core bk2) i" for i by (rule strip_eqD(3) [OF st])
    qed
    then have "trade_post bk ss sd bk3 ss3" using post2 trade_post_trans by blast
    moreover have "orders_of bk3 ss3 sd = tl (orders_of bk ss sd)"
      using rem(1) st core2 P1 dn n by (simp add: orders_of_def)
    ultimately show ?thesis using run bk3(4) True calls by (intro exI [of _ bk3] exI [of _ ss3]) (simp add: bk2_def)
  next
    case False
    have run: "Match t c side coid moid (Some n) leaves bk = Inr (leaves - f, bk2)"
      using False q f [symmetric]
      by (simp add: Match_def with_core_def Let_def pobj_poke bk2_def bk1_def trade_calls_def SendCall_def numeral_3_eq_3)
    have "orders_of bk2 ss sd = r\<lparr>ord_qty := ord_qty r - f\<rparr> # tl (orders_of bk ss sd)"
      using P1 dn n core2 by (simp add: orders_of_def r) (simp add: strip_def)
    then show ?thesis using run post2 False calls by (intro exI [of _ bk2] exI [of _ ss]) (simp add: bk2_def)
  qed
qed


section \<open>The matching loop\<close>

lemma opposite_top_best: "side \<in> sides \<Longrightarrow> opposite_top side bk = best_of (opp side) (core bk)"
  by (auto simp: opposite_top_def best_of_def opp_def sides_def)

lemma match_loop_stop: "leaves = 0 \<or> opposite_top side bk = None \<Longrightarrow> match_loop fuel c coid t side price moid leaves bk = Inr (leaves, bk)"
  by (auto simp: match_loop.simps)

lemma trade_post_refl: "me_rep bk ss \<Longrightarrow> trade_post bk ss sd bk ss"
  by (simp add: trade_post_def me_frame_def)

lemma orders_of_Cons:
  "onodes (ss sd) = n # ns \<Longrightarrow> orders_of bk ss sd = strip (pobj (m_orderPool (core bk)) n) # map (\<lambda>n. strip (pobj (m_orderPool (core bk)) n)) ns"
  by (simp add: orders_of_def)

lemma match_loop_spec:
  assumes "me_rep bk ss" and sd: "side \<in> sides" and "length (onodes (ss (opp side))) \<le> fuel"
    and "spec_fill side price leaves (orders_of bk ss (opp side)) = (fills, l, rest)"
  shows "\<exists>bk' ss'. match_loop fuel c coid t side price moid leaves bk = Inr (l, bk')
    \<and> trade_post bk ss (opp side) bk' ss' \<and> sent bk' = sent bk @ fill_calls t c side coid moid leaves fills
    \<and> orders_of bk' ss' (opp side) = rest"
  using assms(1,3,4)
proof (induction fuel arbitrary: bk ss leaves fills)
  case 0
  then have e: "onodes (ss (opp side)) = []" by simp
  have brep: "book_rep (core bk) ss {}" using 0(1) by (simp add: me_rep_def)
  then have "opposite_top side bk = None" using top_of_side(1) [OF brep _ e] sd by (simp add: opposite_top_best)
  then show ?case using 0 e match_loop_stop trade_post_refl [OF 0(1)]
    by (intro exI [of _ bk] exI [of _ ss]) (auto simp: orders_of_def)
next
  case (Suc fuel)
  note rep = Suc.prems(1)
  have brep: "book_rep (core bk) ss {}" using rep by (simp add: me_rep_def)
  show ?case
  proof (cases "onodes (ss (opp side))")
    case Nil
    then have "opposite_top side bk = None" using top_of_side(1) [OF brep _ Nil] sd by (simp add: opposite_top_best)
    then show ?thesis using Suc.prems Nil match_loop_stop trade_post_refl [OF rep]
      by (intro exI [of _ bk] exI [of _ ss]) (auto simp: orders_of_def)
  next
    case (Cons n ns)
    define r where "r = strip (pobj (m_orderPool (core bk)) n)"
    define f where "f = min leaves (ord_qty r)"
    obtain T where os: "orders_of bk ss (opp side) = r # T"
      using orders_of_Cons [of ss "opp side" n ns bk, OF Cons] by (simp add: r_def)
    note sp0 = Suc.prems(3) [unfolded os]
    obtain k where k: "best_of (opp side) (core bk) = Some k" "pFirstOrder (pobj (m_ordersAtPricePool (core bk)) k) = Some n"
      using top_of_side(2) [OF brep _ Cons] by auto
    have pr: "ord_price r = ord_price (pobj (m_orderPool (core bk)) n)" by (simp add: r_def)
    have unf: "match_loop (Suc fuel) c coid t side price moid leaves bk =
      (if leaves = 0 \<or> \<not> crosses side price (ord_price r) then Inr (leaves, bk)
       else bindE (Match t c side coid moid (Some n) leaves bk) (\<lambda>(leaves', b1). match_loop fuel c coid t side price moid leaves' b1))"
      using k sd by (simp add: match_loop.simps [of "Suc fuel"] opposite_top_best crosses_def pr)
    show ?thesis
    proof (cases "leaves = 0 \<or> \<not> crosses side price (ord_price r)")
      case True
      then have "fills = []" "l = leaves" "rest = orders_of bk ss (opp side)" using sp0 os by auto
      then show ?thesis using True unf trade_post_refl [OF rep] by (intro exI [of _ bk] exI [of _ ss]) simp
    next
      case False
      obtain bk1 ss1 where bk1: "Match t c side coid moid (Some n) leaves bk = Inr (leaves - f, bk1)"
        "trade_post bk ss (opp side) bk1 ss1" "sent bk1 = sent bk @ trade_calls t c side coid moid leaves r f"
        "orders_of bk1 ss1 (opp side) = (if ord_qty r = f then [] else [r\<lparr>ord_qty := ord_qty r - f\<rparr>]) @ T"
        using Match_spec [OF rep opp_simps(3) Cons r_def f_def] unfolding os list.sel by blast
      have rep1: "me_rep bk1 ss1" using bk1(2) by (simp add: trade_post_def)
      show ?thesis
      proof (cases "ord_qty r \<le> leaves")
        case True
        then have fq: "f = ord_qty r" by (simp add: f_def min_def)
        obtain fs where fs: "fills = (r, ord_qty r) # fs"
          "spec_fill side price (leaves - f) T = (fs, l, rest)"
          using sp0 False True fq by (auto split: prod.splits)
        have "orders_of bk1 ss1 (opp side) = T" using bk1(4) fq by simp
        moreover have "length (onodes (ss1 (opp side))) = length (orders_of bk1 ss1 (opp side))" by (simp add: orders_of_def)
        moreover have "length (orders_of bk ss (opp side)) = length (onodes (ss (opp side)))" by (simp add: orders_of_def)
        ultimately have len: "length (onodes (ss1 (opp side))) \<le> fuel"
          and sp: "spec_fill side price (leaves - f) (orders_of bk1 ss1 (opp side)) = (fs, l, rest)"
          using Suc.prems(2) fs(2) os by simp_all
        obtain bk2 ss2 where "match_loop fuel c coid t side price moid (leaves - f) bk1 = Inr (l, bk2)"
          "trade_post bk1 ss1 (opp side) bk2 ss2" "sent bk2 = sent bk1 @ fill_calls t c side coid moid (leaves - f) fs"
          "orders_of bk2 ss2 (opp side) = rest"
          using Suc.IH [OF rep1 len sp] by blast
        then show ?thesis using unf False bk1(1,3) fs(1) fq trade_post_trans [OF bk1(2)]
          by (intro exI [of _ bk2] exI [of _ ss2]) simp
      next
        case part: False
        then have "leaves \<le> ord_qty r" using linorder_linear by blast
        then have fl: "f = leaves" by (simp add: f_def min_def)
        then have neq: "ord_qty r \<noteq> f" using part by auto
        have res: "fills = [(r, leaves)]" "l = 0" "rest = r\<lparr>ord_qty := ord_qty r - leaves\<rparr> # T"
          using sp0 False part by auto
        have "match_loop fuel c coid t side price moid 0 bk1 = Inr (0, bk1)" by (simp add: match_loop_stop)
        then show ?thesis using unf False bk1 res fl neq by (intro exI [of _ bk1] exI [of _ ss1]) simp
      qed
    qed
  qed
qed

end
