(* ===== verification/MEOps.thy ===== *)
theory MEOps
  imports MERefine
begin

text \<open>
  The public operations of the exchange's order book, \<open>AddOrder\<close> and \<open>CancelOrder\<close>, implement
  \<open>spec_AddOrder\<close> and \<open>spec_CancelOrder\<close>: the book they leave, and the messages they send, in
  order.
\<close>

section \<open>Prices on a side\<close>

definition price_sorted :: "ESide \<Rightarrow> SMEOrder list \<Rightarrow> bool" where
  "price_sorted sd rs \<longleftrightarrow> sorted_wrt (\<lambda>x y. \<not> worse sd (ord_price x) (ord_price y)) rs"

lemma levels_ok_sorted: "levels_ok b sd s \<Longrightarrow> sorted_wrt (\<lambda>i j. \<not> worse sd (opx b i) (opx b j)) (onodes s)"
proof (induction s)
  case Nil
  then show ?case by simp
next
  case (Cons x s)
  have p: "opx b i = px b y" if "y \<in> set (x # s)" "i \<in> set (snd y)" for y i
    using Cons.prems that by (auto simp: levels_ok_def lvl_rep_def)
  have "sorted_wrt (\<lambda>i j. \<not> worse sd (opx b i) (opx b j)) (snd x)"
    unfolding sorted_wrt_iff_nth_less using p [of x] by auto
  moreover have "\<not> worse sd (opx b i) (opx b j)" if ij: "i \<in> set (snd x)" "j \<in> set (onodes s)" for i j
  proof -
    obtain y where y: "y \<in> set s" "j \<in> set (snd y)" using ij(2) unfolding in_onodes by blast
    have "worse sd (px b y) (px b x)" using Cons.prems y(1) by (simp add: levels_ok_def)
    then show ?thesis using p [of x i] p [of y j] ij(1) y worse_asym by simp
  qed
  moreover have "levels_ok b sd s" using Cons.prems by (simp add: levels_ok_def)
  ultimately show ?case using Cons.IH by (simp add: sorted_wrt_append)
qed

lemma me_rep_sorted:
  assumes "me_rep bk ss" and "sd \<in> sides"
  shows "price_sorted sd (orders_of bk ss sd)"
proof -
  have "levels_ok (core bk) sd (ss sd)" using assms by (simp add: me_rep_def book_rep_def)
  from levels_ok_sorted [OF this] show ?thesis by (simp add: price_sorted_def orders_of_def sorted_wrt_map)
qed

lemma crosses_refl [simp]: "crosses side price price"
  by (simp add: crosses_def price_misses_def)

lemma spec_fill_uncrossed:
  "price_sorted (opp side) rs \<Longrightarrow> side \<in> sides \<Longrightarrow> spec_fill side price leaves rs = (fills, l, rest) \<Longrightarrow> l \<noteq> 0
    \<Longrightarrow> \<forall>r\<in>set rest. \<not> crosses side price (ord_price r)"
proof (induction side price leaves rs arbitrary: fills l rest rule: spec_fill.induct)
  case (2 side price leaves r rs)
  show ?case
  proof (cases "leaves = 0 \<or> \<not> crosses side price (ord_price r)")
    case True
    then have "l = leaves" "rest = r # rs" using 2(4) by auto
    moreover have "\<not> crosses side price (ord_price y)" if "y \<in> set rs" "\<not> crosses side price (ord_price r)" for y
      using 2(2,3) that by (auto simp: price_sorted_def crosses_def price_misses_worse worse_opp worse_def sides_def)
    ultimately show ?thesis using True 2(5) by auto
  next
    case False
    have s: "price_sorted (opp side) rs" using 2(2) by (simp add: price_sorted_def)
    show ?thesis
    proof (cases "ord_qty r \<le> leaves")
      case True
      then obtain fs where "spec_fill side price (leaves - ord_qty r) rs = (fs, l, rest)"
        using 2(4) False by (auto split: prod.splits)
      then show ?thesis using 2(1) [OF False True s 2(3)] 2(5) by blast
    next
      case part: False
      then show ?thesis using 2(4,5) False by simp
    qed
  qed
qed simp

section \<open>The next priority\<close>

lemma GetNextPriority_spec:
  assumes rep: "book_rep (core bk) ss X" and sd: "sd \<in> sides" and nc: "no_collision (core bk) ss sd price"
  shows "GetNextPriority price (core bk) = Inr (spec_priority price (orders_of bk ss sd))"
proof -
  let ?b = "core bk"
  have same: "filter (\<lambda>r. ord_price r = price) (orders_of bk ss sd)
      = map (\<lambda>n. strip (pobj (m_orderPool ?b) n)) (filter (\<lambda>i. opx ?b i = price) (onodes (ss sd)))"
    by (simp add: orders_of_def filter_map comp_def)
  show ?thesis
  proof (cases "m_priceOrdersAtPrice ?b (PriceToIndex price)")
    case None
    have "filter (\<lambda>i. opx ?b i = price) (onodes (ss sd)) = []"
    proof -
      have "opx ?b i \<noteq> price" if i: "i \<in> set (onodes (ss sd))" for i
      proof -
        obtain x where x: "x \<in> set (ss sd)" "i \<in> set (snd x)" using i unfolding in_onodes by blast
        then have "opx ?b i = px ?b x" using repD [OF rep sd x(1)] by (simp add: lvl_rep_def)
        then show ?thesis using table_None [OF rep None level_setI [of sd x ss, OF sd x(1)]] by auto
      qed
      then show ?thesis by (simp add: filter_empty_conv)
    qed
    then show ?thesis using None same by (simp add: GetNextPriority_def spec_priority_def)
  next
    case (Some l)
    obtain x where x: "x \<in> level_set ss" "fst x = l" "PriceToIndex (px ?b x) = PriceToIndex price"
      using rep Some unfolding book_rep_def table_ok_def by blast
    obtain sd' where sd': "sd' \<in> sides" "x \<in> set (ss sd')" using x(1) by (auto simp: in_level_set)
    then have eq: "sd' = sd \<and> px ?b x = price" using nc x(3) by (simp add: no_collision_def)
    then have xs: "x \<in> set (ss sd)" using sd'(2) by simp
    obtain s1 s2 where s: "ss sd = s1 @ x # s2" using xs by (auto simp: in_set_conv_decomp)
    have "levels_ok ?b sd (ss sd)" using rep sd by (simp add: book_rep_def)
    then have "filter (\<lambda>i. opx ?b i = price) (onodes (ss sd)) = snd x"
      using filter_level [of ?b sd s1 x s2] eq unfolding s by simp
    moreover have "pFirstOrder (pobj (m_ordersAtPricePool ?b) l) = Some (hd (snd x))" "snd x \<noteq> []"
      using repD [OF rep sd xs] x(2) by (auto simp: lvl_rep_def)
    moreover have "pPrevOrder (pobj (m_orderPool ?b) (hd (snd x))) = Some (last (snd x))"
      by (rule last_by_pPrev [OF rep sd xs])
    ultimately show ?thesis using Some same by (simp add: GetNextPriority_def spec_priority_def last_map)
  qed
qed

section \<open>Capacity\<close>

definition live_orders :: "abook \<Rightarrow> SMEOrder set" where
  "live_orders B = set (B BUY) \<union> set (B SELL)"

definition has_room :: "abook \<Rightarrow> bool" where
  "has_room B \<longleftrightarrow> length (B BUY) + length (B SELL) + 1 < ME_MAX_ORDER_IDS
     \<and> card (ord_price ` live_orders B) + 1 < ME_MAX_PRICE_LEVELS"

lemma orders_of_in:
  assumes "sd \<in> sides" and "n \<in> set (onodes (ss sd))"
  shows "strip (pobj (m_orderPool (core bk)) n) \<in> live_orders (orders_of bk ss)"
  using assms by (auto simp: live_orders_def orders_of_def sides_def)

lemma card_order_set: "card (order_set ss) \<le> length (orders_of bk ss BUY) + length (orders_of bk ss SELL)"
  using card_order_nodes [of ss] by (simp add: orders_of_def)

lemma card_level_set:
  assumes rep: "book_rep (core bk) ss X"
  shows "card (fst ` level_set ss) \<le> card (ord_price ` live_orders (orders_of bk ss))"
proof -
  have "ord_price ` live_orders (orders_of bk ss) = opx (core bk) ` order_set ss"
    by (simp add: live_orders_def orders_of_def order_set_sides image_Un image_image)
  then show ?thesis using card_levels [OF rep] by simp
qed

section \<open>Adding an order\<close>

lemma me_AddOrder_node_spec:
  assumes rep: "book_rep (core bk) ss {n}" and iok: "id_ok bk (order_set ss)"
    and sz: "m_size (m_orderPool (core bk)) = ME_MAX_ORDER_IDS" "m_size (m_ordersAtPricePool (core bk)) = ME_MAX_PRICE_LEVELS"
    and new: "new = strip (pobj (m_orderPool (core bk)) n)" and sd: "sd = ord_side new" "sd \<in> sides"
    and nc: "no_collision (core bk) ss sd (ord_price new)"
    and room: "card (fst ` level_set ss) + 1 < ME_MAX_PRICE_LEVELS"
    and id: "oid_of bk n = (c, i)" "id_in_range c i" "\<forall>k\<in>order_set ss. oid_of bk k \<noteq> (c, i)"
  shows "\<exists>bk' ss'. me_AddOrder_node (Some n) bk = Inr bk' \<and> me_rep bk' ss' \<and> me_frame bk bk' \<and> sent bk' = sent bk
    \<and> orders_of bk' ss' sd = spec_insert ord_price sd new (orders_of bk ss sd)
    \<and> (\<forall>sd'. sd' \<noteq> sd \<longrightarrow> orders_of bk' ss' sd' = orders_of bk ss sd')"
proof -
  have nS: "n \<notin> order_set ss" using rep by (simp add: book_rep_def)
  have sdn: "sd = ord_side (pobj (m_orderPool (core bk)) n)" and np: "ord_price new = opx (core bk) n"
    using sd(1) new by simp_all
  obtain b1 ss1 where b1: "AddOrder_links (Some n) (core bk) = Inr b1" "book_rep b1 ss1 ({n} - {n})"
    "add_post (core bk) ss sd n b1 ss1"
    using AddOrder_links_spec [OF rep _ sdn sd(2)] nc room sz(2) np by auto
  have st: "strip (pobj (m_orderPool b1) k) = strip (pobj (m_orderPool (core bk)) k)" for k
    using b1(3) by (simp add: add_post_def)
  have ids: "ord_clientId (pobj (m_orderPool b1) n) = c" "ord_clientOrderId (pobj (m_orderPool b1) n) = i"
    using strip_me_eqD [OF st [of n]] id(1) by (simp_all add: oid_of_def)
  define bk' where "bk' = bk\<lparr>core := b1, m_cidOidToOrder := (m_cidOidToOrder bk)(c := (m_cidOidToOrder bk c)(i := Some n))\<rparr>"
  have "me_AddOrder_node (Some n) bk = Inr bk'"
    using b1(1) ids id(2) by (simp add: me_AddOrder_node_def with_core_def id_set_ok bk'_def)
  moreover have post: "\<forall>sd'. sd' \<noteq> sd \<longrightarrow> ss1 sd' = ss sd'" "onodes (ss1 sd) = spec_insert (opx (core bk)) sd n (onodes (ss sd))"
    using b1(3) by (simp_all add: add_post_def)
  have os: "order_set ss1 = insert n (order_set ss)"
    using order_set_update [OF sd(2) post(1)] post(2) by auto
  have oid: "oid_of bk' k = oid_of bk k" for k using st by (intro oid_of_strip) (simp add: bk'_def)
  have "id_ok bk' (order_set ss1)"
    unfolding os
  proof (rule id_ok_insert [OF iok nS _ id(2,3)])
    show "oid_of bk' n = (c, i)" using id(1) oid by simp
    show "oid_of bk' k = oid_of bk k" for k by (rule oid)
    show "m_cidOidToOrder bk' = (m_cidOidToOrder bk)(c := (m_cidOidToOrder bk c)(i := Some n))" by (simp add: bk'_def)
  qed
  then have "me_rep bk' ss1" using b1(2,3) sz by (simp add: me_rep_def bk'_def add_post_def)
  moreover have "orders_of bk' ss1 sd = spec_insert ord_price sd new (orders_of bk ss sd)"
    unfolding orders_of_def post(2) new using st by (simp add: bk'_def spec_insert_map [of ord_price])
  moreover have "\<forall>sd'. sd' \<noteq> sd \<longrightarrow> orders_of bk' ss1 sd' = orders_of bk ss sd'"
    using post(1) st by (simp add: orders_of_def bk'_def)
  ultimately show ?thesis by (intro exI [of _ bk'] exI [of _ ss1]) (simp add: me_frame_def bk'_def)
qed

text \<open>The price table can tell the new price from the prices of the book.\<close>

definition table_distinguishes :: "Price \<Rightarrow> abook \<Rightarrow> bool" where
  "table_distinguishes price B \<longleftrightarrow>
     (\<forall>r\<in>live_orders B. PriceToIndex (ord_price r) = PriceToIndex price \<longrightarrow> ord_price r = price)"

lemma no_collision_uncrossed:
  assumes rep: "book_rep (core bk) ss X" and sd: "side \<in> sides"
    and td: "\<forall>n\<in>order_set ss. PriceToIndex (opx (core bk) n) = PriceToIndex price \<longrightarrow> opx (core bk) n = price"
    and un: "\<forall>r\<in>set (orders_of bk ss (opp side)). \<not> crosses side price (ord_price r)"
  shows "no_collision (core bk) ss side price"
  unfolding no_collision_def
proof (intro ballI impI)
  fix sd' x assume x: "sd' \<in> sides" "x \<in> set (ss sd')" and pi: "PriceToIndex (px (core bk) x) = PriceToIndex price"
  have lx: "snd x \<noteq> []" "opx (core bk) (hd (snd x)) = px (core bk) x" using repD [OF rep x] by (auto simp: lvl_rep_def)
  have on: "hd (snd x) \<in> set (onodes (ss sd'))" using lx(1) x(2) unfolding in_onodes by (metis hd_in_set)
  then have "hd (snd x) \<in> order_set ss" using x(1) by (auto simp: order_set_def)
  from bspec [OF td this] have pp: "px (core bk) x = price" using lx(2) pi by simp
  have "sd' \<noteq> opp side"
  proof
    assume "sd' = opp side"
    then have "strip (pobj (m_orderPool (core bk)) (hd (snd x))) \<in> set (orders_of bk ss (opp side))"
      using on by (simp add: orders_of_def)
    then show False using un lx(2) pp by fastforce
  qed
  then show "sd' = side \<and> px (core bk) x = price" using pp x(1) sd by (auto simp: sides_def opp_def)
qed

lemma spec_AddOrder_cases:
  assumes "spec_fill side price qty (B (opp side)) = (fills, l, rest)"
    and "accepted = SendClientResponse \<lparr>resp_type = ACCEPTED, resp_clientId = client, resp_tickerId = ticker,
                 resp_clientOrderId = coid, resp_marketOrderId = moid, resp_side = side, resp_price = price,
                 resp_execQty = 0, resp_leavesQty = qty\<rparr>"
    and "calls = accepted # fill_calls ticker client side coid (ucast (ucast moid :: Qty)) qty fills"
    and "prio = spec_priority price ((B(opp side := rest)) side)"
    and "new = \<lparr>ord_orderId = moid, ord_side = side, ord_price = price, ord_qty = l, ord_priority = prio,
                 pPrevOrder = None, pNextOrder = None, ord_tickerId = ticker, ord_clientId = client, ord_clientOrderId = coid\<rparr>"
  shows "spec_AddOrder client coid ticker side price qty moid B =
    (if l = 0 then (B(opp side := rest), calls)
     else (B(opp side := rest, side := spec_insert ord_price side new ((B(opp side := rest)) side)),
        calls @ [SendMarketUpdate \<lparr>upd_type = ADD, upd_orderId = moid, upd_tickerId = ticker, upd_side = side,
                 upd_price = price, upd_qty = l, upd_priority = prio\<rparr>]))"
  using assms by (simp add: spec_AddOrder_def Let_def)

lemma me_AddOrder_spec:
  assumes rep: "me_rep bk ss" and sd: "side \<in> sides" and rng: "id_in_range client coid"
    and fresh: "\<forall>k\<in>order_set ss. oid_of bk k \<noteq> (client, coid)"
    and td: "\<forall>n\<in>order_set ss. PriceToIndex (opx (core bk) n) = PriceToIndex price \<longrightarrow> opx (core bk) n = price"
    and room: "Suc (card (order_set ss)) < ME_MAX_ORDER_IDS" "card (fst ` level_set ss) + 1 < ME_MAX_PRICE_LEVELS"
    and spec: "spec_AddOrder client coid t side price qty (m_nextMarketOrderId bk) B = (B', calls)"
    and B: "\<forall>sd'\<in>sides. orders_of bk ss sd' = B sd'"
  shows "\<exists>bk' ss'. me_AddOrder client coid t side price qty bk = Inr bk' \<and> me_rep bk' ss'
    \<and> (\<forall>sd'\<in>sides. orders_of bk' ss' sd' = B' sd') \<and> sent bk' = sent bk @ calls
    \<and> m_nextMarketOrderId bk' = m_nextMarketOrderId bk + 1 \<and> m_tickerId bk' = m_tickerId bk"
proof -
  define moid where "moid = m_nextMarketOrderId bk"
  define accepted where "accepted = SendClientResponse \<lparr>resp_type = ACCEPTED, resp_clientId = client, resp_tickerId = t,
       resp_clientOrderId = coid, resp_marketOrderId = moid, resp_side = side, resp_price = price, resp_execQty = 0, resp_leavesQty = qty\<rparr>"
  define bk2 where "bk2 = SendCall accepted (bk\<lparr>m_nextMarketOrderId := moid + 1\<rparr>)"
  have c2: "core bk2 = core bk" "m_cidOidToOrder bk2 = m_cidOidToOrder bk" by (simp_all add: bk2_def)
  have rep2: "me_rep bk2 ss" using rep me_rep_cong [OF c2] by simp
  have or2: "orders_of bk2 ss = orders_of bk ss" by (simp add: orders_of_def c2 fun_eq_iff)
  obtain fills l rest where f: "spec_fill side price qty (orders_of bk2 ss (opp side)) = (fills, l, rest)" by (metis prod_cases3)
  have len: "length (onodes (ss (opp side))) \<le> m_size (m_orderPool (core bk2))"
  proof -
    have "length (onodes (ss (opp side))) = card (set (onodes (ss (opp side))))"
      using rep_distinct_onodes [of "core bk" ss "{}" "opp side"] rep by (simp add: me_rep_def distinct_card)
    also have "\<dots> \<le> card (order_set ss)" 
    proof (rule card_mono)
      show "finite (order_set ss)" by (simp add: order_set_def sides_def)
      show "set (onodes (ss (opp side))) \<subseteq> order_set ss" unfolding order_set_def using opp_simps(3) by blast
    qed
    finally show ?thesis using room(1) rep2 by (simp add: me_rep_def)
  qed
  obtain bk3 ss3 where bk3: "match_loop (m_size (m_orderPool (core bk2))) client coid t side price (ucast (ucast moid :: Qty)) qty bk2 = Inr (l, bk3)"
    "trade_post bk2 ss (opp side) bk3 ss3" "sent bk3 = sent bk2 @ fill_calls t client side coid (ucast (ucast moid :: Qty)) qty fills"
    "orders_of bk3 ss3 (opp side) = rest"
    using match_loop_spec [OF rep2 sd len f] by blast
  have check: "CheckForMatch client coid t side price qty (ucast moid) bk2 = Inr (l, bk3)"
    using bk3(1) sd by (auto simp: CheckForMatch_def sides_def)
  have unf: "me_AddOrder client coid t side price qty bk = (\<lambda>(leaves_qty, b3).
      if leaves_qty \<noteq> 0
      then bindE (GetNextPriority price (core b3)) (\<lambda>priority.
           bindE (Allocate \<lparr>ord_orderId = moid, ord_side = side, ord_price = price, ord_qty = leaves_qty,
                    ord_priority = priority, pPrevOrder = None, pNextOrder = None, ord_tickerId = t,
                    ord_clientId = client, ord_clientOrderId = coid\<rparr> (m_orderPool (core b3))) (\<lambda>(n, p).
           bindE (me_AddOrder_node (Some n) (b3\<lparr>core := (core b3)\<lparr>m_orderPool := p\<rparr>\<rparr>)) (\<lambda>b4.
           Inr (SendCall (SendMarketUpdate \<lparr>upd_type = ADD, upd_orderId = moid, upd_tickerId = t,
                  upd_side = side, upd_price = price, upd_qty = leaves_qty, upd_priority = priority\<rparr>) b4))))
      else Inr b3) (l, bk3)"
    using check by (simp add: me_AddOrder_def GenerateNewMarketOrderId_def moid_def [symmetric] accepted_def [symmetric] bk2_def [symmetric])
  have rep3: "me_rep bk3 ss3" and fr3: "me_frame bk2 bk3" and oth3: "orders_of bk3 ss3 side = orders_of bk ss side"
    using bk3(2) sd or2 by (simp_all add: trade_post_def)
  have B3: "orders_of bk3 ss3 sd' = (B(opp side := rest)) sd'" if "sd' \<in> sides" for sd'
    using that bk3(4) oth3 B sd by (auto simp: sides_def opp_def)
  have fr: "m_nextMarketOrderId bk3 = moid + 1" "m_tickerId bk3 = m_tickerId bk"
    using fr3 by (simp_all add: me_frame_def bk2_def)
  have sent3: "sent bk3 = sent bk @ accepted # fill_calls t client side coid (ucast (ucast moid :: Qty)) qty fills"
    using bk3(3) by (simp add: bk2_def)
  have fB: "spec_fill side price qty (B (opp side)) = (fills, l, rest)" using f or2 B by simp
  define prio where "prio = spec_priority price ((B(opp side := rest)) side)"
  define new where "new = \<lparr>ord_orderId = moid, ord_side = side, ord_price = price, ord_qty = l, ord_priority = prio,
                 pPrevOrder = None, pNextOrder = None, ord_tickerId = t, ord_clientId = client, ord_clientOrderId = coid\<rparr>"
  note sp = spec [folded moid_def, unfolded spec_AddOrder_cases [where B = B, OF fB accepted_def refl prio_def new_def]]
  show ?thesis
  proof (cases "l = 0")
    case True
    then show ?thesis using unf rep3 B3 sent3 fr sp moid_def by (intro exI [of _ bk3] exI [of _ ss3]) auto
  next
    case False
    have b3: "book_rep (core bk3) ss3 {}" using rep3 by (simp add: me_rep_def)
    have sub: "order_set ss3 \<subseteq> order_set ss" "fst ` level_set ss3 \<subseteq> fst ` level_set ss" "\<And>i. oid_of bk3 i = oid_of bk i"
      "\<And>i. opx (core bk3) i = opx (core bk) i"
      using bk3(2) by (simp_all add: trade_post_def oid_of_def c2)
    have fin: "finite (order_set ss)" "finite (fst ` level_set ss)" by (simp_all add: order_set_def level_set_def sides_def)
    have nc: "no_collision (core bk3) ss3 side price"
    proof (rule no_collision_uncrossed [OF b3 sd])
      show "\<forall>n\<in>order_set ss3. PriceToIndex (opx (core bk3) n) = PriceToIndex price \<longrightarrow> opx (core bk3) n = price"
        using td sub(1,4) by auto
      show "\<forall>r\<in>set (orders_of bk3 ss3 (opp side)). \<not> crosses side price (ord_price r)"
        using spec_fill_uncrossed [OF me_rep_sorted [OF rep2 opp_simps(3)] sd f False] bk3(4) by simp
    qed
    have pr: "GetNextPriority price (core bk3) = Inr prio"
      using GetNextPriority_spec [OF b3 sd nc] B3 [OF sd] by (simp add: prio_def)
    have "card (order_set ss3) \<le> card (order_set ss)" "card (fst ` level_set ss3) \<le> card (fst ` level_set ss)"
      using card_mono sub(1,2) fin by metis+
    then have r1: "Suc (card (order_set ss3 \<union> {})) < m_size (m_orderPool (core bk3))"
      and r2: "card (fst ` level_set ss3) + 1 < ME_MAX_PRICE_LEVELS"
      using room rep3 by (simp_all add: me_rep_def)
    obtain n Q where Q: "Allocate new (m_orderPool (core bk3)) = Inr (n, Q)" "n \<notin> order_set ss3 \<union> {}"
      "book_rep ((core bk3)\<lparr>m_orderPool := Q\<rparr>) ss3 (insert n {})" "pobj Q = (pobj (m_orderPool (core bk3)))(n := new)"
      "m_size Q = m_size (m_orderPool (core bk3))"
      using book_rep_allocate [OF b3 r1, of new] by blast
    define bk4 where "bk4 = bk3\<lparr>core := (core bk3)\<lparr>m_orderPool := Q\<rparr>\<rparr>"
    have c4: "core bk4 = (core bk3)\<lparr>m_orderPool := Q\<rparr>" by (simp add: bk4_def)
    have oid4: "oid_of bk4 k = oid_of bk3 k" if "k \<in> order_set ss3" for k
      using that Q(2,4) by (auto simp: oid_of_def c4)
    have or4: "orders_of bk4 ss3 sd' = orders_of bk3 ss3 sd'" if "sd' \<in> sides" for sd'
      using that Q(2,4) by (auto simp: orders_of_def c4 order_set_def)
    have iok: "id_ok bk4 (order_set ss3)"
      using rep3 oid4 by (auto simp: me_rep_def id_ok_def bk4_def)
    have nnew: "new = strip (pobj (m_orderPool (core bk4)) n)" by (simp add: c4 Q(4) new_def strip_def)
    have nc4: "no_collision (core bk4) ss3 side (ord_price new)"
      using nc by (simp add: c4 no_collision_def px_def new_def)
    have oidn: "oid_of bk4 n = (client, coid)" by (simp add: oid_of_def c4 Q(4) new_def)
    have fresh4: "\<forall>k\<in>order_set ss3. oid_of bk4 k \<noteq> (client, coid)" using fresh sub(1,3) oid4 by auto
    have sdn: "side = ord_side new" by (simp add: new_def)
    have sz: "m_size (m_orderPool (core bk4)) = ME_MAX_ORDER_IDS" "m_size (m_ordersAtPricePool (core bk4)) = ME_MAX_PRICE_LEVELS"
      using rep3 Q(5) by (simp_all add: me_rep_def c4)
    obtain bk5 ss5 where bk5: "me_AddOrder_node (Some n) bk4 = Inr bk5" "me_rep bk5 ss5" "me_frame bk4 bk5" "sent bk5 = sent bk4"
      "orders_of bk5 ss5 side = spec_insert ord_price side new (orders_of bk4 ss3 side)"
      "\<forall>sd'. sd' \<noteq> side \<longrightarrow> orders_of bk5 ss5 sd' = orders_of bk4 ss3 sd'"
      using me_AddOrder_node_spec [OF Q(3) [folded c4] iok sz nnew sdn sd nc4 r2 oidn rng fresh4] by blast
    define bk6 where "bk6 = SendCall (SendMarketUpdate \<lparr>upd_type = ADD, upd_orderId = moid, upd_tickerId = t,
                  upd_side = side, upd_price = price, upd_qty = l, upd_priority = prio\<rparr>) bk5"
    have "me_AddOrder client coid t side price qty bk = Inr bk6"
      using unf False pr Q(1) bk5(1) by (simp add: new_def bk4_def bk6_def)
    moreover have "me_rep bk6 ss5" using bk5(2) by (simp add: bk6_def)
    moreover have "orders_of bk6 ss5 = orders_of bk5 ss5" by (simp add: orders_of_def bk6_def fun_eq_iff)
    then have "\<forall>sd'\<in>sides. orders_of bk6 ss5 sd' = B' sd'"
      using bk5(5,6) or4 B3 sd sp False by auto
    moreover have "sent bk6 = sent bk @ calls" using sent3 bk5(4) sp False by (auto simp: bk6_def bk4_def)
    ultimately show ?thesis using fr bk5(3) moid_def
      by (intro exI [of _ bk6] exI [of _ ss5]) (simp add: bk6_def me_frame_def bk4_def)
  qed
qed


section \<open>Cancelling an order\<close>

lemma find_map: "find P (map f xs) = map_option f (find (P \<circ> f) xs)"
  by (induction xs) auto

lemma find_unique:
  assumes "n \<in> set xs" and "P n" and "\<And>k. k \<in> set xs \<Longrightarrow> P k \<Longrightarrow> k = n"
  shows "find P xs = Some n"
  using assms
proof (induction xs)
  case (Cons x xs)
  show ?case
  proof (cases "P x")
    case True
    then have "x = n" using Cons.prems(3) [of x] by simp
    then show ?thesis using True by simp
  next
    case False
    then have "n \<in> set xs" using Cons.prems(1,2) by auto
    then have "find P xs = Some n" using Cons.prems(2,3) by (intro Cons.IH) simp_all
    then show ?thesis using False by simp
  qed
qed simp

lemma map_remove1_inj: "inj_on f (insert n (set xs)) \<Longrightarrow> map f (remove1 n xs) = remove1 (f n) (map f xs)"
proof (induction xs)
  case (Cons x xs)
  have "f x = f n \<longleftrightarrow> x = n" by (rule inj_on_eq_iff [OF Cons.prems]) simp_all
  moreover have "inj_on f (insert n (set xs))" by (rule inj_on_subset [OF Cons.prems]) auto
  ultimately show ?case using Cons.IH by auto
qed simp

lemma strip_inj_on:
  assumes "id_ok bk S"
  shows "inj_on (\<lambda>n. strip (pobj (m_orderPool (core bk)) n)) S"
proof (rule inj_onI)
  fix m n assume m: "m \<in> S" and n: "n \<in> S" and e: "strip (pobj (m_orderPool (core bk)) m) = strip (pobj (m_orderPool (core bk)) n)"
  obtain c i where ci: "oid_of bk m = (c, i)" by fastforce
  then have "oid_of bk n = (c, i)" using strip_me_eqD [OF e] by (simp add: oid_of_def)
  moreover have "id_in_range c i" using assms m ci unfolding id_ok_def by fastforce
  ultimately show "m = n" using assms m n ci unfolding id_ok_def by (metis option.inject)
qed

lemma spec_find_spec:
  assumes rep: "me_rep bk ss"
  shows "spec_find c i (orders_of bk ss)
    = (if id_in_range c i then map_option (\<lambda>n. strip (pobj (m_orderPool (core bk)) n)) (m_cidOidToOrder bk c i) else None)"
proof -
  let ?st = "\<lambda>n. strip (pobj (m_orderPool (core bk)) n)"
  let ?N = "onodes (ss BUY) @ onodes (ss SELL)"
  have iok: "id_ok bk (set ?N)" using rep by (simp add: me_rep_def order_set_sides)
  have P: "((\<lambda>r. ord_clientId r = c \<and> ord_clientOrderId r = i) \<circ> ?st) n \<longleftrightarrow> oid_of bk n = (c, i)" for n
    using strip_me_eqD [of "strip (pobj (m_orderPool (core bk)) n)" "pobj (m_orderPool (core bk)) n"]
    by (simp add: oid_of_def strip_def)
  have f: "spec_find c i (orders_of bk ss) = map_option ?st (find (\<lambda>n. oid_of bk n = (c, i)) ?N)"
    unfolding spec_find_def orders_of_def map_append [symmetric] find_map by (simp only: P [abs_def] comp_def)
  show ?thesis
  proof (cases "id_in_range c i")
    case False
    then have "find (\<lambda>n. oid_of bk n = (c, i)) ?N = None"
      using iok unfolding find_None_iff id_ok_def by fastforce
    then show ?thesis using f False by simp
  next
    case True
    note m = iok [unfolded id_ok_def, THEN conjunct2, rule_format, OF True]
    show ?thesis
    proof (cases "m_cidOidToOrder bk c i")
      case None
      then have "find (\<lambda>n. oid_of bk n = (c, i)) ?N = None" using m unfolding find_None_iff by auto
      then show ?thesis using f True None by simp
    next
      case (Some n)
      then have "n \<in> set ?N" "oid_of bk n = (c, i)" using m by blast+
      moreover have "k = n" if "k \<in> set ?N" "oid_of bk k = (c, i)" for k using m [of k] that Some by simp
      ultimately have "find (\<lambda>n. oid_of bk n = (c, i)) ?N = Some n" by (intro find_unique)
      then show ?thesis using f True Some by simp
    qed
  qed
qed

lemma orders_of_remove_node:
  assumes rep: "me_rep bk ss" and sd: "sd \<in> sides" and n: "n \<in> set (onodes (ss sd))"
    and post: "remove_post (core bk) ss sd n (core bk') ss'"
  shows "orders_of bk' ss' sd = remove1 (strip (pobj (m_orderPool (core bk)) n)) (orders_of bk ss sd)"
proof -
  have "insert n (set (onodes (ss sd))) \<subseteq> order_set ss" using n sd by (auto simp: order_set_def)
  moreover have "id_ok bk (order_set ss)" using rep by (simp add: me_rep_def)
  ultimately have "inj_on (\<lambda>n. strip (pobj (m_orderPool (core bk)) n)) (insert n (set (onodes (ss sd))))"
    by (intro inj_on_subset [OF strip_inj_on])
  then show ?thesis using post by (simp add: orders_of_def remove_post_def map_remove1_inj)
qed

lemma me_CancelOrder_spec:
  assumes rep: "me_rep bk ss" and rng: "unat client < ME_MAX_NUM_CLIENTS \<longrightarrow> unat coid < ME_MAX_ORDER_IDS"
    and spec: "spec_CancelOrder client coid t B = (B', calls)" and B: "\<forall>sd\<in>sides. orders_of bk ss sd = B sd"
  shows "\<exists>bk' ss'. me_CancelOrder client coid t bk = Inr bk' \<and> me_rep bk' ss' \<and> (\<forall>sd\<in>sides. orders_of bk' ss' sd = B' sd)
    \<and> sent bk' = sent bk @ calls \<and> me_frame bk bk'"
proof -
  have fB: "spec_find client coid B = spec_find client coid (orders_of bk ss)" using B by (simp add: spec_find_def sides_def)
  have lk: "(if unat client < ME_MAX_NUM_CLIENTS then id_at (m_cidOidToOrder bk) client coid else Inr None)
    = Inr (if id_in_range client coid then m_cidOidToOrder bk client coid else None)"
    using rng by (auto simp: id_in_range_def id_at_ok)
  show ?thesis
  proof (cases "if id_in_range client coid then m_cidOidToOrder bk client coid else None")
    case None
    then have "spec_find client coid B = None" using fB spec_find_spec [OF rep] by (simp split: if_splits)
    then show ?thesis using None lk rep spec B
      by (intro exI [of _ "SendCall (hd calls) bk"] exI [of _ ss])
        (auto simp: me_CancelOrder_def spec_CancelOrder_def me_frame_def orders_of_def)
  next
    case (Some n)
    then have rg: "id_in_range client coid" and mn: "m_cidOidToOrder bk client coid = Some n" by (simp_all split: if_splits)
    define r where "r = strip (pobj (m_orderPool (core bk)) n)"
    have fr: "spec_find client coid B = Some r" using fB spec_find_spec [OF rep, of client coid] rg mn by (simp add: r_def)
    have "n \<in> order_set ss" using rep rg mn by (simp add: me_rep_def id_ok_def)
    then obtain sd where sd: "sd \<in> sides" "n \<in> set (onodes (ss sd))" by (auto simp: order_set_def)
    obtain x where x: "x \<in> set (ss sd)" "n \<in> set (snd x)" using sd(2) unfolding in_onodes by blast
    have brep: "book_rep (core bk) ss {}" using rep by (simp add: me_rep_def)
    have sr: "ord_side r = sd" using repD [OF brep sd(1) x(1)] x(2) by (simp add: lvl_rep_def r_def)
    obtain bk1 ss1 where bk1: "me_RemoveOrder (Some n) bk = Inr bk1" "me_rep bk1 ss1" "me_frame bk bk1" "sent bk1 = sent bk"
      "remove_post (core bk) ss sd n (core bk1) ss1"
      using me_RemoveOrder_spec [OF rep sd] by blast
    have B': "B' = B(sd := remove1 r (B sd))" and calls: "calls = snd (spec_CancelOrder client coid t B)"
      using spec fr sr by (simp_all add: spec_CancelOrder_def)
    have or1: "orders_of bk1 ss1 sd' = B' sd'" if "sd' \<in> sides" for sd'
    proof (cases "sd' = sd")
      case True
      then show ?thesis using orders_of_remove_node [OF rep sd bk1(5)] B sd(1) by (simp add: B' r_def)
    next
      case False
      then have "orders_of bk1 ss1 sd' = orders_of bk ss sd'"
        using bk1(5) by (simp add: orders_of_def remove_post_def)
      then show ?thesis using False B that by (simp add: B')
    qed
    define bk2 where "bk2 = SendCall (calls ! 1) (SendCall (calls ! 0) bk1)"
    have q: "ord_qty r = ord_qty (pobj (m_orderPool (core bk)) n)" "ord_price r = ord_price (pobj (m_orderPool (core bk)) n)"
      "ord_side r = ord_side (pobj (m_orderPool (core bk)) n)" "ord_orderId r = ord_orderId (pobj (m_orderPool (core bk)) n)"
      "ord_priority r = ord_priority (pobj (m_orderPool (core bk)) n)" by (simp_all add: r_def)
    have "me_CancelOrder client coid t bk = Inr bk2"
      using lk Some bk1(1) fr q by (simp add: me_CancelOrder_def bk2_def calls spec_CancelOrder_def)
    moreover have "sent bk2 = sent bk @ calls" using bk1(4) fr by (simp add: bk2_def calls spec_CancelOrder_def)
    moreover have "orders_of bk2 ss1 = orders_of bk1 ss1" by (simp add: bk2_def orders_of_def fun_eq_iff)
    ultimately show ?thesis using bk1(2,3) or1
      by (intro exI [of _ bk2] exI [of _ ss1]) (simp add: bk2_def me_frame_def)
  qed
qed

end
