(* ===== verification/MEInv.thy ===== *)
theory MEInv
  imports MEOps "HOL-Library.Multiset"
begin

text \<open>
  What every book reached by the exchange's operations satisfies: price-time priority on both
  sides, no crossed prices, no empty orders, unique ids; and the properties of the order book as
  statements about the code's operations.
\<close>

section \<open>The invariant of the abstract book\<close>

definition client_key :: "SMEOrder \<Rightarrow> ClientId \<times> OrderId" where
  "client_key r = (ord_clientId r, ord_clientOrderId r)"

definition side_inv :: "OrderId \<Rightarrow> ESide \<Rightarrow> SMEOrder list \<Rightarrow> bool" where
  "side_inv next_id sd rs \<longleftrightarrow> sorted_wrt (precedes sd) rs
     \<and> (\<forall>r\<in>set rs. ord_side r = sd \<and> ord_qty r \<noteq> 0 \<and> ord_orderId r < next_id)"

definition uncrossed :: "abook \<Rightarrow> bool" where
  "uncrossed B \<longleftrightarrow> (\<forall>b\<in>set (B BUY). \<forall>a\<in>set (B SELL). sint (ord_price b) < sint (ord_price a))"

definition spec_inv :: "OrderId \<Rightarrow> abook \<Rightarrow> bool" where
  "spec_inv next_id B \<longleftrightarrow> side_inv next_id BUY (B BUY) \<and> side_inv next_id SELL (B SELL) \<and> uncrossed B
     \<and> distinct (map client_key (B BUY @ B SELL))"

lemma precedes_sorted: "sorted_wrt (precedes sd) rs \<Longrightarrow> price_sorted sd rs"
  unfolding price_sorted_def by (erule sorted_wrt_mono_rel [rotated]) (auto simp: precedes_def dest: worse_asym)

lemma side_inv_rest:
  assumes "side_inv next_id sd rs" and "spec_fill side price leaves rs = (fills, l, rest)"
  shows "side_inv next_id sd rest" and "set (map client_key rest) \<subseteq> set (map client_key rs)"
    and "distinct (map client_key rs) \<Longrightarrow> distinct (map client_key rest)"
    and "ord_price ` set rest \<subseteq> ord_price ` set rs"
proof -
  obtain k where k: "rest = drop k rs \<or> (k < length rs \<and> (\<exists>q. q \<noteq> 0 \<and> rest = (rs ! k)\<lparr>ord_qty := q\<rparr> # drop (Suc k) rs))"
    using spec_fill_rest [OF assms(2)] by blast
  have s: "sorted_wrt (precedes sd) (drop k rs)" "\<forall>r\<in>set (drop k rs). ord_side r = sd \<and> ord_qty r \<noteq> 0 \<and> ord_orderId r < next_id"
    using assms(1) by (auto simp: side_inv_def sorted_wrt_drop dest: in_set_dropD)
  have c: "(rs ! k) # drop (Suc k) rs = drop k rs" if "k < length rs" using that by (rule Cons_nth_drop_Suc)
  have key: "map client_key rest = drop k (map client_key rs)" "map ord_price rest = drop k (map ord_price rs)"
    using k
  proof (atomize (full), elim disjE conjE exE)
    assume "rest = drop k rs"
    then show "map client_key rest = drop k (map client_key rs) \<and> map ord_price rest = drop k (map ord_price rs)"
      by (simp add: drop_map)
  next
    fix q assume "k < length rs" and r: "rest = (rs ! k)\<lparr>ord_qty := q\<rparr> # drop (Suc k) rs"
    then show "map client_key rest = drop k (map client_key rs) \<and> map ord_price rest = drop k (map ord_price rs)"
      unfolding drop_map c [symmetric, OF \<open>k < length rs\<close>] by (simp add: client_key_def)
  qed
  show "side_inv next_id sd rest"
    using k
  proof
    assume "rest = drop k rs"
    then show ?thesis using s by (simp add: side_inv_def)
  next
    assume "k < length rs \<and> (\<exists>q. q \<noteq> 0 \<and> rest = (rs ! k)\<lparr>ord_qty := q\<rparr> # drop (Suc k) rs)"
    then obtain q where q: "k < length rs" "q \<noteq> 0" "rest = (rs ! k)\<lparr>ord_qty := q\<rparr> # drop (Suc k) rs" by blast
    then show ?thesis using s [folded c [OF q(1)]] by (simp add: side_inv_def precedes_def)
  qed
  show "set (map client_key rest) \<subseteq> set (map client_key rs)" unfolding key by (rule set_drop_subset)
  show "distinct (map client_key rest)" if "distinct (map client_key rs)" unfolding key using that by (rule distinct_drop)
  have "set (map ord_price rest) \<subseteq> set (map ord_price rs)" unfolding key by (rule set_drop_subset)
  then show "ord_price ` set rest \<subseteq> ord_price ` set rs" by simp
qed

lemma spec_invI:
  assumes "sd \<in> sides" and "side_inv m sd (B sd)" "side_inv m (opp sd) (B (opp sd))" and "uncrossed B"
    and "distinct (map client_key (B sd))" "distinct (map client_key (B (opp sd)))"
    and "client_key ` set (B sd) \<inter> client_key ` set (B (opp sd)) = {}"
  shows "spec_inv m B"
  using assms by (cases "sd = BUY") (auto simp: spec_inv_def sides_def opp_def Int_commute simp del: disjoint_iff)

lemma spec_invD:
  assumes "spec_inv m B" and "sd \<in> sides"
  shows "side_inv m sd (B sd)" and "side_inv m (opp sd) (B (opp sd))" and "uncrossed B"
    and "distinct (map client_key (B sd))" and "distinct (map client_key (B (opp sd)))"
    and "client_key ` set (B sd) \<inter> client_key ` set (B (opp sd)) = {}"
  using assms by (cases "sd = BUY"; simp add: spec_inv_def sides_def opp_def Int_commute)+

lemma uncrossed_sides:
  assumes "sd \<in> sides"
  shows "uncrossed B \<longleftrightarrow> (\<forall>r\<in>set (B sd). \<forall>q\<in>set (B (opp sd)). \<not> crosses sd (ord_price r) (ord_price q))"
  using assms by (auto simp: uncrossed_def crosses_def price_misses_def sides_def opp_def)

lemma spec_insert_mset: "mset (spec_insert pr sd n rs) = mset (n # rs)"
proof -
  have "mset rs = mset (takeWhile P rs) + mset (dropWhile P rs)" for P by (metis mset_append takeWhile_dropWhile_id)
  then show ?thesis by (simp add: spec_insert_def)
qed

lemma spec_insert_distinct: "distinct (map f (spec_insert pr sd n rs)) \<longleftrightarrow> distinct (map f (n # rs))"
proof -
  have "mset (map f (spec_insert pr sd n rs)) = mset (map f (n # rs))" by (simp add: spec_insert_mset)
  then show ?thesis by (rule mset_eq_imp_distinct_iff)
qed

lemma side_inv_mono: "side_inv m sd rs \<Longrightarrow> m \<le> m' \<Longrightarrow> side_inv m' sd rs"
  by (auto simp: side_inv_def)


section \<open>The operations keep the invariant\<close>

lemma spec_AddOrder_inv:
  assumes inv: "spec_inv m B" and sd: "side \<in> sides" and fresh: "(client, coid) \<notin> client_key ` live_orders B"
    and nowrap: "m + 1 \<noteq> 0"
  shows "spec_inv (m + 1) (fst (spec_AddOrder client coid t side price qty m B))"
proof -
  obtain fills l rest where f: "spec_fill side price qty (B (opp side)) = (fills, l, rest)" by (metis prod_cases3)
  note D = spec_invD [OF inv sd]
  note R = side_inv_rest [OF D(2) f]
  have lt: "m < m + 1" using nowrap by (rule less_succ)
  have le: "m \<le> m + 1" using lt by simp
  let ?B1 = "B(opp side := rest)"
  have ne: "opp side \<noteq> side" using sd by simp
  have unx: "\<forall>r\<in>set (B side). \<forall>q\<in>set rest. \<not> crosses side (ord_price r) (ord_price q)"
    using D(3) R(4) uncrossed_sides [OF sd, of B] by (auto dest!: subsetD)
  have dis: "client_key ` set (B side) \<inter> client_key ` set rest = {}" using D(6) R(2) unfolding set_map by blast
  show ?thesis
  proof (cases "l = 0")
    case True
    have "spec_inv (m + 1) ?B1"
    proof (rule spec_invI [OF sd])
      show "side_inv (m + 1) side (?B1 side)" using side_inv_mono [OF D(1) le] ne by simp
      show "side_inv (m + 1) (opp side) (?B1 (opp side))" using side_inv_mono [OF R(1) le] by simp
      show "uncrossed ?B1" unfolding uncrossed_sides [OF sd] using unx ne by simp
      show "distinct (map client_key (?B1 side))" "distinct (map client_key (?B1 (opp side)))" using D(4,5) R(3) ne by simp_all
      show "client_key ` set (?B1 side) \<inter> client_key ` set (?B1 (opp side)) = {}" using dis ne by simp
    qed
    then show ?thesis using spec_AddOrder_cases [where B = B, OF f refl refl refl refl] True by simp
  next
    case False
    define new where "new = \<lparr>ord_orderId = m, ord_side = side, ord_price = price, ord_qty = l, ord_priority = spec_priority price (?B1 side),
                 pPrevOrder = None, pNextOrder = None, ord_tickerId = t, ord_clientId = client, ord_clientOrderId = coid\<rparr>"
    let ?B2 = "?B1(side := spec_insert ord_price side new (?B1 side))"
    have key: "client_key new = (client, coid)" by (simp add: new_def client_key_def)
    have nk: "client_key new \<notin> client_key ` set (B side)" "client_key new \<notin> client_key ` set (B (opp side))"
      using fresh sd unfolding key live_orders_def by (auto simp: sides_def opp_def)
    then have nr: "client_key new \<notin> client_key ` set rest" using R(2) by auto
    have B2: "?B2 side = spec_insert ord_price side new (B side)" "?B2 (opp side) = rest" using ne by simp_all
    have s: "side_inv (m + 1) side (?B2 side)"
      unfolding B2(1) side_inv_def
    proof
      show "sorted_wrt (precedes side) (spec_insert ord_price side new (B side))"
        using D(1) sd by (intro spec_insert_sorted) (auto simp: side_inv_def new_def)
      show "\<forall>r\<in>set (spec_insert ord_price side new (B side)). ord_side r = side \<and> ord_qty r \<noteq> 0 \<and> ord_orderId r < m + 1"
        using D(1) False lt by (auto simp: side_inv_def new_def intro: less_trans)
    qed
    have un: "\<forall>q\<in>set rest. \<not> crosses side price (ord_price q)"
      using spec_fill_uncrossed [OF _ sd f False] D(2) precedes_sorted by (simp add: side_inv_def)
    have "spec_inv (m + 1) ?B2"
    proof (rule spec_invI [OF sd])
      show "side_inv (m + 1) side (?B2 side)" by (rule s)
      show "side_inv (m + 1) (opp side) (?B2 (opp side))" unfolding B2 using R(1) le by (rule side_inv_mono)
      show "uncrossed ?B2" unfolding uncrossed_sides [OF sd] B2 using unx un by (auto simp: new_def)
      show "distinct (map client_key (?B2 side))" unfolding B2 spec_insert_distinct using nk D(4) by simp
      show "distinct (map client_key (?B2 (opp side)))" unfolding B2 using R(3) D(5) by simp
      show "client_key ` set (?B2 side) \<inter> client_key ` set (?B2 (opp side)) = {}" unfolding B2 using dis nr by simp
    qed
    then show ?thesis using spec_AddOrder_cases [where B = B, OF f refl refl refl refl] False by (simp add: new_def)
  qed
qed

lemma spec_CancelOrder_inv:
  assumes inv: "spec_inv m B"
  shows "spec_inv m (fst (spec_CancelOrder client coid t B))"
proof (cases "spec_find client coid B")
  case None
  then show ?thesis using inv by (simp add: spec_CancelOrder_def)
next
  case (Some r)
  then have "r \<in> set (B BUY @ B SELL)" unfolding spec_find_def find_Some_iff by (auto simp: nth_append)
  then obtain sd where sd: "sd \<in> sides" "r \<in> set (B sd)" by (auto simp: sides_def)
  note D = spec_invD [OF inv sd(1)]
  have os: "ord_side r = sd" using D(1) sd(2) by (simp add: side_inv_def)
  have sub: "set (remove1 r (B sd)) \<subseteq> set (B sd)" by (rule set_remove1_subset)
  have ne: "opp sd \<noteq> sd" using sd by simp
  have srt: "sorted_wrt P (remove1 x xs)" if "sorted_wrt P xs" for P x and xs :: "SMEOrder list"
    using that by (induction xs) (auto dest: notin_set_remove1)
  have dst: "distinct (map client_key (remove1 x xs))" if "distinct (map client_key xs)" for x xs
    using that
  proof (induction xs)
    case (Cons a xs)
    have "client_key ` set (remove1 x xs) \<subseteq> client_key ` set xs" by (intro image_mono set_remove1_subset)
    then show ?case using Cons by auto
  qed simp
  have "spec_inv m (B(sd := remove1 r (B sd)))"
  proof (rule spec_invI [OF sd(1)])
    show "side_inv m sd ((B(sd := remove1 r (B sd))) sd)" using D(1) srt sub by (auto simp: side_inv_def)
    show "side_inv m (opp sd) ((B(sd := remove1 r (B sd))) (opp sd))" using D(2) ne by simp
    show "uncrossed (B(sd := remove1 r (B sd)))" using D(3) sub ne unfolding uncrossed_sides [OF sd(1)] by auto
    show "distinct (map client_key ((B(sd := remove1 r (B sd))) sd))" using D(4) dst by simp
    show "distinct (map client_key ((B(sd := remove1 r (B sd))) (opp sd)))" using D(5) ne by simp
    show "client_key ` set ((B(sd := remove1 r (B sd))) sd) \<inter> client_key ` set ((B(sd := remove1 r (B sd))) (opp sd)) = {}"
      using D(6) sub ne by auto
  qed
  then show ?thesis using Some os by (simp add: spec_CancelOrder_def)
qed

lemma me_repr_new: "me_repr (CMEOrderBook_new t) (\<lambda>_. [])"
proof -
  have "me_rep (CMEOrderBook_new t) (\<lambda>_. [])"
    using book_rep_new [of ME_MAX_PRICE_LEVELS ME_MAX_ORDER_IDS SMEOrder_default]
    by (simp add: me_rep_def CMEOrderBook_new_def id_ok_def order_set_def bounds_defs book_core_new_def CMemoryPool_new_def)
  then show ?thesis unfolding me_repr_def by (intro exI [of _ "\<lambda>_. []"]) (simp add: orders_of_def)
qed

lemma spec_inv_empty: "spec_inv 1 (\<lambda>_. [])"
  by (simp add: spec_inv_def side_inv_def uncrossed_def)

end
