(* ===== verification/MatchingEngine.thy ===== *)
theory MatchingEngine
  imports MEInv LockFreeQueue
begin

text \<open>
  \<open>exchange/matcher/MatchingEngine.h\<close> and \<open>.cpp\<close>: the thread that reads client requests from one
  lock-free queue, applies each to the order book of its ticker, and writes the client responses
  and the market updates to two other queues.

  \<open>engine_rel\<close> relates the engine to its contract \<open>spec_engine\<close>: abstract books, and the two output
  streams as lists.
\<close>

section \<open>The engine\<close>

record CMatchingEngine =
  m_tickerOrderBook :: "TickerId \<Rightarrow> CMEOrderBook"
  m_pIncomingRequests :: "SMEClientRequest CLockFreeQueue"
  m_pOutgoingOgwResponses :: "SMEClientResponse CLockFreeQueue"
  m_pOutgoingMdUpdates :: "SMEMarketUpdate CLockFreeQueue"
  me_isRunning :: bool

definition CMatchingEngine_new :: "SMEClientRequest CLockFreeQueue \<Rightarrow> SMEClientResponse CLockFreeQueue \<Rightarrow> SMEMarketUpdate CLockFreeQueue \<Rightarrow> CMatchingEngine" where
  "CMatchingEngine_new client_requests client_responses market_updates =
     \<lparr>m_tickerOrderBook = CMEOrderBook_new, m_pIncomingRequests = client_requests,
      m_pOutgoingOgwResponses = client_responses, m_pOutgoingMdUpdates = market_updates, me_isRunning = False\<rparr>"

definition me_SendClientResponse :: "SMEClientResponse \<Rightarrow> CMatchingEngine \<Rightarrow> CMatchingEngine" where
  "me_SendClientResponse client_response me =
     me\<lparr>m_pOutgoingOgwResponses := enqueue client_response (m_pOutgoingOgwResponses me)\<rparr>"

definition me_SendMarketUpdate :: "SMEMarketUpdate \<Rightarrow> CMatchingEngine \<Rightarrow> CMatchingEngine" where
  "me_SendMarketUpdate market_update me =
     me\<lparr>m_pOutgoingMdUpdates := enqueue market_update (m_pOutgoingMdUpdates me)\<rparr>"

text \<open>The calls an operation of an order book made on the engine, performed in order.\<close>

fun perform :: "engine_call list \<Rightarrow> CMatchingEngine \<Rightarrow> CMatchingEngine" where
  "perform [] me = me"
| "perform (SendClientResponse r # cs) me = perform cs (me_SendClientResponse r me)"
| "perform (SendMarketUpdate u # cs) me = perform cs (me_SendMarketUpdate u me)"

definition on_book :: "TickerId \<Rightarrow> (CMEOrderBook \<Rightarrow> CMEOrderBook outcome) \<Rightarrow> CMatchingEngine \<Rightarrow> CMatchingEngine outcome" where
  "on_book t f me =
     bindE (f (m_tickerOrderBook me t)) (\<lambda>bk.
     Inr (perform (sent bk) (me\<lparr>m_tickerOrderBook := (m_tickerOrderBook me)(t := bk\<lparr>sent := []\<rparr>)\<rparr>)))"

text \<open>\<open>m_tickerOrderBook[client_request->tickerId]\<close> is an unchecked access.\<close>

definition ProcessClientRequest :: "SMEClientRequest \<Rightarrow> CMatchingEngine \<Rightarrow> CMatchingEngine outcome" where
  "ProcessClientRequest r me =
     (if \<not> unat (req_tickerId r) < ME_MAX_TICKERS then Inl OutOfBounds
      else case req_type r of
        Req_NEW \<Rightarrow> on_book (req_tickerId r)
          (me_AddOrder (req_clientId r) (req_orderId r) (req_tickerId r) (req_side r) (req_price r) (req_qty r)) me
      | Req_CANCEL \<Rightarrow> on_book (req_tickerId r) (me_CancelOrder (req_clientId r) (req_orderId r) (req_tickerId r)) me
      | _ \<Rightarrow> FATAL (''Received invalid client-request-type:'' @ ClientRequestTypeToString (req_type r)))"

text \<open>The main loop while requests are there; with an empty queue it only spins.\<close>

definition me_Run :: "CMatchingEngine \<Rightarrow> CMatchingEngine outcome" where
  "me_Run me =
     bindE (drain (Suc (m_numElements (m_pIncomingRequests me))) front UpdateReadIndex ProcessClientRequest (m_pIncomingRequests me) me)
       (\<lambda>(q, me'). Inr (me'\<lparr>m_pIncomingRequests := q\<rparr>))"

section \<open>The contract\<close>

record spec_engine =
  sp_books :: "TickerId \<Rightarrow> abook"
  sp_next :: "TickerId \<Rightarrow> OrderId"
  sp_responses :: "SMEClientResponse list"
  sp_updates :: "SMEMarketUpdate list"

fun responses_of :: "engine_call list \<Rightarrow> SMEClientResponse list" where
  "responses_of [] = []"
| "responses_of (SendClientResponse r # cs) = r # responses_of cs"
| "responses_of (SendMarketUpdate u # cs) = responses_of cs"

fun updates_of :: "engine_call list \<Rightarrow> SMEMarketUpdate list" where
  "updates_of [] = []"
| "updates_of (SendClientResponse r # cs) = updates_of cs"
| "updates_of (SendMarketUpdate u # cs) = u # updates_of cs"

lemma calls_append [simp]:
  "responses_of (cs @ ds) = responses_of cs @ responses_of ds" "updates_of (cs @ ds) = updates_of cs @ updates_of ds"
  by (induction cs rule: responses_of.induct) simp_all

definition spec_result :: "SMEClientRequest \<Rightarrow> spec_engine \<Rightarrow> abook \<times> engine_call list" where
  "spec_result r sp = (let t = req_tickerId r in
     if req_type r = Req_NEW
     then spec_AddOrder (req_clientId r) (req_orderId r) t (req_side r) (req_price r) (req_qty r) (sp_next sp t) (sp_books sp t)
     else spec_CancelOrder (req_clientId r) (req_orderId r) t (sp_books sp t))"

definition spec_request :: "SMEClientRequest \<Rightarrow> spec_engine \<Rightarrow> spec_engine" where
  "spec_request r sp = (let t = req_tickerId r; (B, calls) = spec_result r sp in
     sp\<lparr>sp_books := (sp_books sp)(t := B),
        sp_next := (if req_type r = Req_NEW then (sp_next sp)(t := sp_next sp t + 1) else sp_next sp),
        sp_responses := sp_responses sp @ responses_of calls,
        sp_updates := sp_updates sp @ updates_of calls\<rparr>)"

definition spec_start :: spec_engine where
  "spec_start = \<lparr>sp_books = (\<lambda>_ _. []), sp_next = (\<lambda>_. 1), sp_responses = [], sp_updates = []\<rparr>"

text \<open>The requests the engine copes with: the bounds of its tables, and room for what it produces.\<close>

definition request_ok :: "SMEClientRequest \<Rightarrow> spec_engine \<Rightarrow> bool" where
  "request_ok r sp \<longleftrightarrow> (let t = req_tickerId r; B = sp_books sp t in
     unat t < ME_MAX_TICKERS
     \<and> (req_type r = Req_NEW \<and> req_side r \<in> sides \<and> id_in_range (req_clientId r) (req_orderId r)
          \<and> (req_clientId r, req_orderId r) \<notin> client_key ` live_orders B \<and> table_distinguishes (req_price r) B
          \<and> has_room B \<and> sp_next sp t + 1 \<noteq> 0
        \<or> req_type r = Req_CANCEL \<and> (unat (req_clientId r) < ME_MAX_NUM_CLIENTS \<longrightarrow> unat (req_orderId r) < ME_MAX_ORDER_IDS))
     \<and> length (sp_responses (spec_request r sp)) \<le> ME_MAX_CLIENT_UPDATES
     \<and> length (sp_updates (spec_request r sp)) \<le> ME_MAX_MARKET_UPDATES)"

text \<open>The part of it that is about the tables of the books.\<close>

definition request_fits :: "SMEClientRequest \<Rightarrow> spec_engine \<Rightarrow> bool" where
  "request_fits r sp \<longleftrightarrow> (let t = req_tickerId r; B = sp_books sp t in
     unat t < ME_MAX_TICKERS
     \<and> (req_type r = Req_NEW \<and> req_side r \<in> sides \<and> id_in_range (req_clientId r) (req_orderId r)
          \<and> (req_clientId r, req_orderId r) \<notin> client_key ` live_orders B \<and> table_distinguishes (req_price r) B
          \<and> has_room B \<and> sp_next sp t + 1 \<noteq> 0
        \<or> req_type r = Req_CANCEL \<and> (unat (req_clientId r) < ME_MAX_NUM_CLIENTS \<longrightarrow> unat (req_orderId r) < ME_MAX_ORDER_IDS)))"

lemma request_ok_fits: "request_ok r sp \<longleftrightarrow> request_fits r sp
    \<and> length (sp_responses (spec_request r sp)) \<le> ME_MAX_CLIENT_UPDATES \<and> length (sp_updates (spec_request r sp)) \<le> ME_MAX_MARKET_UPDATES"
  by (simp add: request_ok_def request_fits_def Let_def conj_ac)

fun requests_ok :: "SMEClientRequest list \<Rightarrow> spec_engine \<Rightarrow> bool" where
  "requests_ok [] sp = True"
| "requests_ok (r # rs) sp = (request_ok r sp \<and> requests_ok rs (spec_request r sp))"

definition engine_rel :: "CMatchingEngine \<Rightarrow> spec_engine \<Rightarrow> bool" where
  "engine_rel me sp \<longleftrightarrow>
     (\<forall>t. unat t < ME_MAX_TICKERS \<longrightarrow> me_repr (m_tickerOrderBook me t) (sp_books sp t)
        \<and> m_nextMarketOrderId (m_tickerOrderBook me t) = sp_next sp t \<and> sent (m_tickerOrderBook me t) = [])
     \<and> queue_ok (m_pOutgoingOgwResponses me) \<and> contents (m_pOutgoingOgwResponses me) = sp_responses sp
     \<and> q_size (m_pOutgoingOgwResponses me) = ME_MAX_CLIENT_UPDATES
     \<and> queue_ok (m_pOutgoingMdUpdates me) \<and> contents (m_pOutgoingMdUpdates me) = sp_updates sp
     \<and> q_size (m_pOutgoingMdUpdates me) = ME_MAX_MARKET_UPDATES"

section \<open>The engine keeps its contract\<close>

lemma perform_eq:
  "perform cs me = me\<lparr>m_pOutgoingOgwResponses := fold enqueue (responses_of cs) (m_pOutgoingOgwResponses me),
     m_pOutgoingMdUpdates := fold enqueue (updates_of cs) (m_pOutgoingMdUpdates me)\<rparr>"
  by (induction cs me rule: perform.induct) (simp_all add: me_SendClientResponse_def me_SendMarketUpdate_def)

lemma me_repr_AddOrder:
  assumes "me_repr bk B" and "side \<in> sides" and "id_in_range client coid" and "(client, coid) \<notin> client_key ` live_orders B"
    and "table_distinguishes price B" and "has_room B"
    and "spec_AddOrder client coid t side price qty (m_nextMarketOrderId bk) B = (B', calls)"
  shows "\<exists>bk'. me_AddOrder client coid t side price qty bk = Inr bk' \<and> me_repr bk' B' \<and> sent bk' = sent bk @ calls
    \<and> m_nextMarketOrderId bk' = m_nextMarketOrderId bk + 1"
proof -
  obtain ss where rep: "me_rep bk ss" and B: "\<forall>sd\<in>sides. orders_of bk ss sd = B sd" using assms(1) unfolding me_repr_def by blast
  have live: "live_orders B = live_orders (orders_of bk ss)" using B by (simp add: live_orders_def sides_def)
  have inl: "strip (pobj (m_orderPool (core bk)) n) \<in> live_orders B" if "n \<in> order_set ss" for n
  proof -
    obtain sd where "sd \<in> sides" "n \<in> set (onodes (ss sd))" using \<open>n \<in> order_set ss\<close> unfolding order_set_def by blast
    then show ?thesis unfolding live by (rule orders_of_in)
  qed
  have key: "client_key (strip (pobj (m_orderPool (core bk)) n)) = oid_of bk n" for n
    by (simp add: client_key_def oid_of_def strip_def)
  have "\<forall>n\<in>order_set ss. oid_of bk n \<noteq> (client, coid)" using assms(4) inl key by (metis image_eqI)
  moreover have "\<forall>n\<in>order_set ss. PriceToIndex (opx (core bk) n) = PriceToIndex price \<longrightarrow> opx (core bk) n = price"
    using assms(5) inl unfolding table_distinguishes_def by (metis strip_sel(3))
  moreover have "Suc (card (order_set ss)) < ME_MAX_ORDER_IDS"
    using card_order_set [of ss bk] assms(6) B by (simp add: has_room_def sides_def)
  moreover have "card (fst ` level_set ss) + 1 < ME_MAX_PRICE_LEVELS"
    using card_level_set [of bk ss "{}"] assms(6) rep unfolding has_room_def live by (simp add: me_rep_def)
  ultimately show ?thesis using me_AddOrder_spec [OF rep assms(2,3) _ _ _ _ assms(7) B] unfolding me_repr_def by blast
qed

lemma me_repr_CancelOrder:
  assumes "me_repr bk B" and "unat client < ME_MAX_NUM_CLIENTS \<longrightarrow> unat coid < ME_MAX_ORDER_IDS"
    and "spec_CancelOrder client coid t B = (B', calls)"
  shows "\<exists>bk'. me_CancelOrder client coid t bk = Inr bk' \<and> me_repr bk' B' \<and> sent bk' = sent bk @ calls
    \<and> m_nextMarketOrderId bk' = m_nextMarketOrderId bk"
proof -
  obtain ss where rep: "me_rep bk ss" and B: "\<forall>sd\<in>sides. orders_of bk ss sd = B sd" using assms(1) unfolding me_repr_def by blast
  show ?thesis using me_CancelOrder_spec [OF rep assms(2,3) B] unfolding me_repr_def me_frame_def by metis
qed

lemma me_repr_sent [simp]: "me_repr (bk\<lparr>sent := cs\<rparr>) B = me_repr bk B"
proof -
  have "me_rep (bk\<lparr>sent := cs\<rparr>) ss = me_rep bk ss" for ss by (rule me_rep_cong) simp_all
  moreover have "orders_of (bk\<lparr>sent := cs\<rparr>) = orders_of bk" by (simp add: orders_of_def fun_eq_iff)
  ultimately show ?thesis by (simp add: me_repr_def)
qed

lemma on_book_spec:
  assumes rel: "engine_rel me sp" and t: "unat t < ME_MAX_TICKERS"
    and f: "f (m_tickerOrderBook me t) = Inr bk" "me_repr bk B" "sent bk = calls" "m_nextMarketOrderId bk = m"
    and room: "length (sp_responses sp @ responses_of calls) \<le> ME_MAX_CLIENT_UPDATES"
      "length (sp_updates sp @ updates_of calls) \<le> ME_MAX_MARKET_UPDATES"
  shows "\<exists>me'. on_book t f me = Inr me' \<and> m_pIncomingRequests me' = m_pIncomingRequests me \<and>
    engine_rel me' (sp\<lparr>sp_books := (sp_books sp)(t := B), sp_next := (sp_next sp)(t := m),
        sp_responses := sp_responses sp @ responses_of calls, sp_updates := sp_updates sp @ updates_of calls\<rparr>)"
proof -
  let ?r = "m_pOutgoingOgwResponses me" and ?u = "m_pOutgoingMdUpdates me"
  have r: "queue_ok (fold enqueue (responses_of calls) ?r) \<and> contents (fold enqueue (responses_of calls) ?r) = contents ?r @ responses_of calls
      \<and> q_size (fold enqueue (responses_of calls) ?r) = q_size ?r"
    using rel room(1) by (intro lfq.enq_all) (auto simp: engine_rel_def)
  have u: "queue_ok (fold enqueue (updates_of calls) ?u) \<and> contents (fold enqueue (updates_of calls) ?u) = contents ?u @ updates_of calls
      \<and> q_size (fold enqueue (updates_of calls) ?u) = q_size ?u"
    using rel room(2) by (intro lfq.enq_all) (auto simp: engine_rel_def)
  define me' where "me' = perform (sent bk) (me\<lparr>m_tickerOrderBook := (m_tickerOrderBook me)(t := bk\<lparr>sent := []\<rparr>)\<rparr>)"
  have "on_book t f me = Inr me'" using f(1) by (simp add: on_book_def me'_def)
  moreover have "engine_rel me' (sp\<lparr>sp_books := (sp_books sp)(t := B), sp_next := (sp_next sp)(t := m),
        sp_responses := sp_responses sp @ responses_of calls, sp_updates := sp_updates sp @ updates_of calls\<rparr>)"
    using rel f r u by (auto simp: engine_rel_def me'_def perform_eq)
  ultimately show ?thesis by (simp add: me'_def perform_eq)
qed

lemma ProcessClientRequest_spec:
  assumes rel: "engine_rel me sp" and ok: "request_ok r sp"
  shows "\<exists>me'. ProcessClientRequest r me = Inr me' \<and> m_pIncomingRequests me' = m_pIncomingRequests me
    \<and> engine_rel me' (spec_request r sp)"
proof -
  define t where "t = req_tickerId r"
  let ?bk = "m_tickerOrderBook me t" and ?B = "sp_books sp t"
  have t: "unat t < ME_MAX_TICKERS" using ok by (simp add: request_ok_def t_def Let_def)
  have bk: "me_repr ?bk ?B" "m_nextMarketOrderId ?bk = sp_next sp t" "sent ?bk = []"
    using rel t by (simp_all add: engine_rel_def)
  obtain B' calls where res: "spec_result r sp = (B', calls)" by fastforce
  have room: "length (sp_responses sp @ responses_of calls) \<le> ME_MAX_CLIENT_UPDATES"
      "length (sp_updates sp @ updates_of calls) \<le> ME_MAX_MARKET_UPDATES"
    using ok res by (simp_all add: request_ok_def Let_def spec_request_def)
  consider (new) "req_type r = Req_NEW" | (cancel) "req_type r = Req_CANCEL"
    using ok by (auto simp: request_ok_def Let_def)
  then show ?thesis
  proof cases
    case new
    have c: "req_side r \<in> sides" "id_in_range (req_clientId r) (req_orderId r)"
      "(req_clientId r, req_orderId r) \<notin> client_key ` live_orders ?B" "table_distinguishes (req_price r) ?B" "has_room ?B"
      using ok new by (simp_all add: request_ok_def Let_def t_def)
    have sp: "spec_AddOrder (req_clientId r) (req_orderId r) t (req_side r) (req_price r) (req_qty r) (m_nextMarketOrderId ?bk) ?B = (B', calls)"
      using res new bk(2) by (simp add: spec_result_def t_def Let_def)
    obtain bk' where bk': "me_AddOrder (req_clientId r) (req_orderId r) t (req_side r) (req_price r) (req_qty r) ?bk = Inr bk'"
      "me_repr bk' B'" "sent bk' = calls" "m_nextMarketOrderId bk' = sp_next sp t + 1"
      using me_repr_AddOrder [OF bk(1) c sp] bk(2,3) by auto
    show ?thesis
      using on_book_spec [of me sp t "me_AddOrder (req_clientId r) (req_orderId r) t (req_side r) (req_price r) (req_qty r)" bk' B' calls,
          OF rel t bk' room] t new res
      by (simp add: ProcessClientRequest_def t_def spec_request_def Let_def)
  next
    case cancel
    have c: "unat (req_clientId r) < ME_MAX_NUM_CLIENTS \<longrightarrow> unat (req_orderId r) < ME_MAX_ORDER_IDS"
      using ok cancel by (simp add: request_ok_def Let_def)
    have sp: "spec_CancelOrder (req_clientId r) (req_orderId r) t ?B = (B', calls)"
      using res cancel by (simp add: spec_result_def t_def Let_def)
    obtain bk' where bk': "me_CancelOrder (req_clientId r) (req_orderId r) t ?bk = Inr bk'"
      "me_repr bk' B'" "sent bk' = calls" "m_nextMarketOrderId bk' = sp_next sp t"
      using me_repr_CancelOrder [OF bk(1) c sp] bk(2,3) by auto
    show ?thesis
      using on_book_spec [of me sp t "me_CancelOrder (req_clientId r) (req_orderId r) t" bk' B' calls,
          OF rel t bk' room] t cancel res
      by (simp add: ProcessClientRequest_def t_def spec_request_def Let_def)
  qed
qed

lemma process_all:
  "engine_rel me sp \<Longrightarrow> requests_ok rs sp \<Longrightarrow>
    \<exists>me'. foldE ProcessClientRequest rs me = Inr me' \<and> m_pIncomingRequests me' = m_pIncomingRequests me
      \<and> engine_rel me' (fold spec_request rs sp)"
proof (induction rs arbitrary: me sp)
  case (Cons r rs)
  obtain me1 where me1: "ProcessClientRequest r me = Inr me1" "m_pIncomingRequests me1 = m_pIncomingRequests me"
    "engine_rel me1 (spec_request r sp)"
    using ProcessClientRequest_spec [OF Cons.prems(1), of r] Cons.prems(2) by auto
  then show ?case using Cons.IH [OF me1(3)] Cons.prems by auto
qed simp

lemma me_Run_spec:
  assumes rel: "engine_rel me sp" and q: "queue_ok (m_pIncomingRequests me)"
    and ok: "requests_ok (contents (m_pIncomingRequests me)) sp"
  shows "\<exists>me'. me_Run me = Inr me' \<and> contents (m_pIncomingRequests me') = []
    \<and> engine_rel me' (fold spec_request (contents (m_pIncomingRequests me)) sp)"
proof -
  let ?q = "m_pIncomingRequests me"
  obtain me1 where me1: "foldE ProcessClientRequest (contents ?q) me = Inr me1"
    "engine_rel me1 (fold spec_request (contents ?q) sp)"
    using process_all [OF rel ok] by blast
  have "length (contents ?q) < Suc (m_numElements ?q)" by simp
  from lfq.drain_law [OF q this, of ProcessClientRequest me] me1(1)
  obtain q' where "drain (Suc (m_numElements ?q)) front UpdateReadIndex ProcessClientRequest ?q me = Inr (q', me1)"
    "contents q' = []" by auto
  then show ?thesis using me1(2) by (simp add: me_Run_def engine_rel_def)
qed

section \<open>What every reachable engine satisfies\<close>

definition spec_engine_inv :: "spec_engine \<Rightarrow> bool" where
  "spec_engine_inv sp \<longleftrightarrow> (\<forall>t. spec_inv (sp_next sp t) (sp_books sp t))"

lemma spec_fits_inv: "spec_engine_inv sp \<Longrightarrow> request_fits r sp \<Longrightarrow> spec_engine_inv (spec_request r sp)"
proof -
  assume inv: "spec_engine_inv sp" and ok: "request_fits r sp"
  let ?t = "req_tickerId r"
  obtain B calls where res: "spec_result r sp = (B, calls)" by fastforce
  have i: "spec_inv (sp_next sp ?t) (sp_books sp ?t)" using inv by (simp add: spec_engine_inv_def)
  have "spec_inv (if req_type r = Req_NEW then sp_next sp ?t + 1 else sp_next sp ?t) B"
  proof (cases "req_type r = Req_NEW")
    case True
    then have "B = fst (spec_AddOrder (req_clientId r) (req_orderId r) ?t (req_side r) (req_price r) (req_qty r) (sp_next sp ?t) (sp_books sp ?t))"
      using res by (simp add: spec_result_def Let_def)
    then show ?thesis using spec_AddOrder_inv [OF i, of "req_side r" "req_clientId r" "req_orderId r"] ok True
      by (simp add: request_fits_def Let_def)
  next
    case False
    then have "B = fst (spec_CancelOrder (req_clientId r) (req_orderId r) ?t (sp_books sp ?t))"
      using res by (simp add: spec_result_def Let_def)
    then show ?thesis using spec_CancelOrder_inv [OF i] False by simp
  qed
  then show "spec_engine_inv (spec_request r sp)"
    using inv res by (cases "req_type r = Req_NEW") (simp_all add: spec_engine_inv_def spec_request_def Let_def)
qed

lemma spec_request_inv: "spec_engine_inv sp \<Longrightarrow> request_ok r sp \<Longrightarrow> spec_engine_inv (spec_request r sp)"
  by (simp add: spec_fits_inv request_ok_fits)

lemma spec_requests_inv: "spec_engine_inv sp \<Longrightarrow> requests_ok rs sp \<Longrightarrow> spec_engine_inv (fold spec_request rs sp)"
  by (induction rs arbitrary: sp) (auto intro: spec_request_inv)

lemma spec_start_inv: "spec_engine_inv spec_start"
  by (simp add: spec_engine_inv_def spec_start_def spec_inv_empty)

lemma engine_rel_new:
  assumes "queue_ok r" "contents r = []" "q_size r = ME_MAX_CLIENT_UPDATES"
    and "queue_ok u" "contents u = []" "q_size u = ME_MAX_MARKET_UPDATES"
  shows "engine_rel (CMatchingEngine_new q r u) spec_start"
  using assms me_repr_new by (simp add: engine_rel_def CMatchingEngine_new_def spec_start_def CMEOrderBook_new_def)

end
