(* ===== verification/ExchangeProperties.thy ===== *)
theory ExchangeProperties
  imports MatchingEngine
begin

text \<open>
  The properties of the matching engine and its order books.  They rest on the refinement of the
  linked order book to the abstract one (theories \<open>BookOps\<close>, \<open>BookRemove\<close>, \<open>MERefine\<close>, \<open>MEOps\<close>)
  and on the queue contract.
\<close>

section \<open>A concrete request stream\<close>

definition ex_request :: "EClientRequestType \<Rightarrow> OrderId \<Rightarrow> ESide \<Rightarrow> Price \<Rightarrow> Qty \<Rightarrow> SMEClientRequest" where
  "ex_request ty i sd p q = \<lparr>req_type = ty, req_clientId = 3, req_tickerId = 1, req_orderId = i, req_side = sd, req_price = p, req_qty = q\<rparr>"

definition ex_stream :: "SMEClientRequest list" where
  "ex_stream = [ex_request Req_NEW 0 BUY 100 10, ex_request Req_NEW 1 SELL 99 4, ex_request Req_CANCEL 0 BUY 0 0]"

lemmas ex_defs = ex_request_def ex_stream_def spec_start_def spec_request_def spec_result_def spec_AddOrder_def
  spec_CancelOrder_def spec_find_def Let_def crosses_def price_misses_def spec_insert_def spec_priority_def
  trade_calls_def SMEClientRequest.simps

lemma ex_stream_ok: "requests_ok ex_stream spec_start"
  by (simp add: ex_defs request_ok_def sides_def id_in_range_def bounds_defs live_orders_def has_room_def
      table_distinguishes_def client_key_def opp_def PriceToIndex_def)

definition ex_engine :: CMatchingEngine where
  "ex_engine = CMatchingEngine_new (fold enqueue ex_stream (CLockFreeQueue_new 4 SMEClientRequest_default))
     (CLockFreeQueue_new ME_MAX_CLIENT_UPDATES SMEClientResponse_default)
     (CLockFreeQueue_new ME_MAX_MARKET_UPDATES SMEMarketUpdate_default)"

lemma ex_engine_rel: "engine_rel ex_engine spec_start"
  unfolding ex_engine_def by (rule engine_rel_new) (simp_all add: queue_ok_new bounds_defs)

lemma ex_engine_incoming:
  "queue_ok (m_pIncomingRequests ex_engine)" "contents (m_pIncomingRequests ex_engine) = ex_stream"
proof -
  have "queue_ok (CLockFreeQueue_new 4 SMEClientRequest_default)" by (rule queue_ok_new) simp
  from lfq.enq_all [OF this, of ex_stream]
  show "queue_ok (m_pIncomingRequests ex_engine)" "contents (m_pIncomingRequests ex_engine) = ex_stream"
    by (simp_all add: ex_engine_def CMatchingEngine_new_def ex_stream_def)
qed

section \<open>The engine\<close>

text \<open>C1: the matching engine's loop implements its contract: from a state related to the contract, it processes
  the queued requests one by one without failing, leaves the incoming queue empty, and its books, its
  response stream and its market-update stream are those that the contract computes.\<close>

theorem engine_Run_refines:
  assumes "engine_rel me sp" and "queue_ok (m_pIncomingRequests me)"
    and "requests_ok (contents (m_pIncomingRequests me)) sp"
  shows "\<exists>me'. me_Run me = Inr me' \<and> contents (m_pIncomingRequests me') = []
    \<and> engine_rel me' (fold spec_request (contents (m_pIncomingRequests me)) sp)"
  by (rule me_Run_spec [OF assms])

theorem engine_Run_refines_witness:
  "\<exists>me'. me_Run ex_engine = Inr me' \<and> contents (m_pIncomingRequests me') = []
    \<and> engine_rel me' (fold spec_request ex_stream spec_start)"
  using engine_Run_refines [OF ex_engine_rel ex_engine_incoming(1)] ex_stream_ok by (simp add: ex_engine_incoming(2))



section \<open>The order book\<close>

text \<open>C9: \<open>CMEOrderBook::AddOrder\<close> returns (the matching loop ends, no assertion fails) and does what the contract
  says: it trades with the front of the other side, inserts what is left behind all orders of its side at
  the same or a better price, with the next priority of its price, and sends exactly the contract's
  messages in order.\<close>

theorem AddOrder_refines:
  assumes "me_repr bk B" and "side \<in> sides" and "id_in_range client coid"
    and "(client, coid) \<notin> client_key ` live_orders B" and "table_distinguishes price B" and "has_room B"
  shows "\<exists>bk'. me_AddOrder client coid t side price qty bk = Inr bk'
    \<and> me_repr bk' (fst (spec_AddOrder client coid t side price qty (m_nextMarketOrderId bk) B))
    \<and> sent bk' = sent bk @ snd (spec_AddOrder client coid t side price qty (m_nextMarketOrderId bk) B)
    \<and> m_nextMarketOrderId bk' = m_nextMarketOrderId bk + 1"
  using me_repr_AddOrder [OF assms] by simp

lemma has_room_empty: "has_room (\<lambda>_. [])"
  by (simp add: has_room_def live_orders_def bounds_defs)

theorem AddOrder_refines_witness:
  "\<exists>bk'. me_AddOrder 3 7 1 BUY 100 10 (CMEOrderBook_new 1) = Inr bk' \<and> m_nextMarketOrderId bk' = 2
    \<and> me_repr bk' (fst (spec_AddOrder 3 7 1 BUY 100 10 1 (\<lambda>_. [])))"
  using AddOrder_refines [OF me_repr_new [of 1], of BUY 3 7 100 1 10] has_room_empty
  by (auto simp: sides_def id_in_range_def bounds_defs live_orders_def table_distinguishes_def CMEOrderBook_new_def)

text \<open>C10: \<open>CMEOrderBook::CancelOrder\<close> removes exactly the order of that client and id, sends the cancellation to
  the market and to the client, and rejects a cancel for an order that is not live, changing nothing.\<close>

theorem CancelOrder_refines:
  assumes "me_repr bk B" and "unat client < ME_MAX_NUM_CLIENTS \<longrightarrow> unat coid < ME_MAX_ORDER_IDS"
  shows "\<exists>bk'. me_CancelOrder client coid t bk = Inr bk'
    \<and> me_repr bk' (fst (spec_CancelOrder client coid t B))
    \<and> sent bk' = sent bk @ snd (spec_CancelOrder client coid t B)
    \<and> m_nextMarketOrderId bk' = m_nextMarketOrderId bk"
  using me_repr_CancelOrder [OF assms, of t] by simp

theorem CancelOrder_refines_witness:
  "\<exists>bk'. me_CancelOrder 300 7 1 (CMEOrderBook_new 1) = Inr bk' \<and> me_repr bk' (\<lambda>_. [])
    \<and> length (sent bk') = 1"
  using CancelOrder_refines [OF me_repr_new [of 1], of 300 7 1]
  by (auto simp: bounds_defs spec_CancelOrder_def spec_find_def CMEOrderBook_new_def)

text \<open>C20: an order's quantity is conserved: what \<open>CheckForMatch\<close> leaves plus the quantities it traded is the
  quantity of the order, every trade is with a resting order of the other side at a crossing price and no
  larger than it, and afterwards nothing on the other side crosses unless the order is filled.\<close>

theorem CheckForMatch_conserves:
  assumes "me_repr bk B" and "side \<in> sides"
  shows "\<exists>bk' fills l. CheckForMatch client coid t side price qty moid bk = Inr (l, bk')
    \<and> unat qty = sum_list (map (\<lambda>(r, f). unat f) fills) + unat l
    \<and> (\<forall>(r, f)\<in>set fills. r \<in> set (B (opp side)) \<and> crosses side price (ord_price r) \<and> f \<le> ord_qty r)
    \<and> (\<exists>B'. me_repr bk' B' \<and> B' side = B side \<and> (l \<noteq> 0 \<longrightarrow> (\<forall>r\<in>set (B' (opp side)). \<not> crosses side price (ord_price r))))
    \<and> sent bk' = sent bk @ fill_calls t client side coid (ucast moid) qty fills"
proof -
  obtain ss where rep: "me_rep bk ss" and B: "\<forall>sd\<in>sides. orders_of bk ss sd = B sd" using assms(1) unfolding me_repr_def by blast
  obtain fills l rest where f: "spec_fill side price qty (orders_of bk ss (opp side)) = (fills, l, rest)" by (metis prod_cases3)
  have brep: "book_rep (core bk) ss {}" using rep by (simp add: me_rep_def)
  note len = rep_onodes_le [OF brep opp_simps(3), of side]
  obtain bk' ss' where run: "match_loop (m_size (m_orderPool (core bk))) client coid t side price (ucast moid) qty bk = Inr (l, bk')"
    and post: "trade_post bk ss (opp side) bk' ss'" and st: "sent bk' = sent bk @ fill_calls t client side coid (ucast moid) qty fills"
    and rest: "orders_of bk' ss' (opp side) = rest"
    using match_loop_spec [OF rep assms(2) len f] by blast
  have chk: "CheckForMatch client coid t side price qty moid bk = Inr (l, bk')"
    using run assms(2) by (auto simp: CheckForMatch_def sides_def)
  have "me_repr bk' (orders_of bk' ss')" using post unfolding me_repr_def trade_post_def by blast
  moreover have "orders_of bk' ss' side = B side" using post B assms(2) by (simp add: trade_post_def)
  moreover have "\<forall>r\<in>set rest. \<not> crosses side price (ord_price r)" if "l \<noteq> 0"
    using spec_fill_uncrossed [OF me_rep_sorted [OF rep opp_simps(3)] assms(2) f that] .
  ultimately have "\<exists>B'. me_repr bk' B' \<and> B' side = B side \<and> (l \<noteq> 0 \<longrightarrow> (\<forall>r\<in>set (B' (opp side)). \<not> crosses side price (ord_price r)))"
    using rest by blast
  moreover have "\<forall>(r, f)\<in>set fills. r \<in> set (B (opp side)) \<and> crosses side price (ord_price r) \<and> f \<le> ord_qty r"
    using spec_fill_trades [OF f] B by auto
  ultimately show ?thesis using chk spec_fill_conserves [OF f] st by blast
qed

theorem CheckForMatch_conserves_witness:
  "\<exists>bk' fills l. CheckForMatch 3 7 1 BUY 100 10 1 (CMEOrderBook_new 1) = Inr (l, bk')
    \<and> unat (10 :: Qty) = sum_list (map (\<lambda>(r, f). unat f) (fills :: (SMEOrder \<times> Qty) list)) + unat l"
  using CheckForMatch_conserves [OF me_repr_new [of 1], of BUY 3 7 1 100 10 1]
  by (auto simp: sides_def)

end
