(* ===== verification/UnorderedBook.thy ===== *)
theory UnorderedBook
  imports MEOrderBook
begin

text \<open>
  \<open>exchange/matcher/UnorderedMapMatchingEngineOrderBook.h\<close> and \<open>.cpp\<close>: the exchange's book with
  \<open>std::unordered_map\<close> in place of the arrays.  The table of price levels has at most
  \<open>ME_MAX_PRICE_LEVELS\<close> keys and a missing key reads like a null pointer, so the linked part is again a
  \<open>book_core\<close>.  The table of orders is a list of rows, one per client that was ever looked up, because
  \<open>CancelOrder\<close> asks for the number of rows.
\<close>

section \<open>State\<close>

type_synonym client_rows = "(ClientId \<times> (OrderId \<Rightarrow> ptr)) list"

record CUnorderedMapMEOrderBook =
  um_tickerId :: TickerId
  um_cidOidToOrder :: client_rows
  um_core :: me_core
  um_nextMarketOrderId :: OrderId
  um_sent :: "engine_call list"

definition CUnorderedMapMEOrderBook_new :: "TickerId \<Rightarrow> CUnorderedMapMEOrderBook" where
  "CUnorderedMapMEOrderBook_new ticker_id = \<lparr>um_tickerId = ticker_id, um_cidOidToOrder = [],
     um_core = book_core_new ME_MAX_PRICE_LEVELS ME_MAX_ORDER_IDS SMEOrder_default, um_nextMarketOrderId = 1, um_sent = []\<rparr>"

definition row_of :: "client_rows \<Rightarrow> ClientId \<Rightarrow> OrderId \<Rightarrow> ptr" where
  "row_of rows cid = (case map_of rows cid of None \<Rightarrow> (\<lambda>_. None) | Some row \<Rightarrow> row)"

text \<open>\<open>operator[]\<close> of the outer map adds an empty row for a new client.\<close>

definition touch_row :: "ClientId \<Rightarrow> client_rows \<Rightarrow> client_rows" where
  "touch_row cid rows = (if map_of rows cid = None then rows @ [(cid, \<lambda>_. None)] else rows)"

definition um_set :: "ClientId \<Rightarrow> OrderId \<Rightarrow> ptr \<Rightarrow> CUnorderedMapMEOrderBook \<Rightarrow> CUnorderedMapMEOrderBook" where
  "um_set cid oid x u = u\<lparr>um_cidOidToOrder :=
     map (\<lambda>(c, row). if c = cid then (c, row(oid := x)) else (c, row)) (touch_row cid (um_cidOidToOrder u))\<rparr>"

definition um_SendCall :: "engine_call \<Rightarrow> CUnorderedMapMEOrderBook \<Rightarrow> CUnorderedMapMEOrderBook" where
  "um_SendCall c u = u\<lparr>um_sent := um_sent u @ [c]\<rparr>"

definition um_with_core :: "(me_core \<Rightarrow> me_core outcome) \<Rightarrow> CUnorderedMapMEOrderBook \<Rightarrow> CUnorderedMapMEOrderBook outcome" where
  "um_with_core f u = bindE (f (um_core u)) (\<lambda>c. Inr (u\<lparr>um_core := c\<rparr>))"

definition um_GenerateNewMarketOrderId :: "CUnorderedMapMEOrderBook \<Rightarrow> OrderId \<times> CUnorderedMapMEOrderBook" where
  "um_GenerateNewMarketOrderId u = (um_nextMarketOrderId u, u\<lparr>um_nextMarketOrderId := um_nextMarketOrderId u + 1\<rparr>)"

section \<open>Adding and removing a single order\<close>

text \<open>The levels and their rings are changed by the same statements as in the other book.\<close>

definition um_GetOrdersAtPrice :: "Price \<Rightarrow> me_core \<Rightarrow> ptr outcome" where
  "um_GetOrdersAtPrice = GetOrdersAtPrice"

definition um_AddOrdersAtPrice :: "ptr \<Rightarrow> me_core \<Rightarrow> me_core outcome" where
  "um_AddOrdersAtPrice = AddOrdersAtPrice"

definition um_RemoveOrdersAtPrice :: "ESide \<Rightarrow> Price \<Rightarrow> me_core \<Rightarrow> me_core outcome" where
  "um_RemoveOrdersAtPrice = RemoveOrdersAtPrice"

definition um_GetNextPriority :: "Price \<Rightarrow> me_core \<Rightarrow> Priority outcome" where
  "um_GetNextPriority = GetNextPriority"

definition um_RemoveOrder :: "ptr \<Rightarrow> CUnorderedMapMEOrderBook \<Rightarrow> CUnorderedMapMEOrderBook outcome" where
  "um_RemoveOrder order u0 =
     bindE (um_with_core (RemoveOrder_links order) u0) (\<lambda>u1.
     bindE (get_ord (um_core u1) order) (\<lambda>o1.
     um_with_core (\<lambda>c. bindE (Deallocate order (m_orderPool c)) (\<lambda>p. Inr (c\<lparr>m_orderPool := p\<rparr>)))
       (um_set (ord_clientId o1) (ord_clientOrderId o1) None u1)))"

definition um_AddOrder_node :: "ptr \<Rightarrow> CUnorderedMapMEOrderBook \<Rightarrow> CUnorderedMapMEOrderBook outcome" where
  "um_AddOrder_node order u0 =
     bindE (um_with_core (AddOrder_links order) u0) (\<lambda>u1.
     bindE (get_ord (um_core u1) order) (\<lambda>o1. Inr (um_set (ord_clientId o1) (ord_clientOrderId o1) order u1)))"

section \<open>Matching\<close>

definition um_Match :: "TickerId \<Rightarrow> ClientId \<Rightarrow> ESide \<Rightarrow> OrderId \<Rightarrow> OrderId \<Rightarrow> ptr \<Rightarrow> Qty \<Rightarrow> CUnorderedMapMEOrderBook
    \<Rightarrow> (Qty \<times> CUnorderedMapMEOrderBook) outcome" where
  "um_Match ticker_id client_id side client_order_id new_market_order_id itr leaves_qty0 u0 =
     bindE (get_ord (um_core u0) itr) (\<lambda>o0.
     let order_qty = ord_qty o0;
         fill_qty = min leaves_qty0 order_qty;
         leaves_qty = leaves_qty0 - fill_qty
     in
     bindE (um_with_core (set_ord itr (\<lambda>x. x\<lparr>ord_qty := ord_qty x - fill_qty\<rparr>)) u0) (\<lambda>u1.
     bindE (get_ord (um_core u1) itr) (\<lambda>o1.
     let u2 = um_SendCall (SendClientResponse \<lparr>resp_type = FILLED, resp_clientId = client_id, resp_tickerId = ticker_id,
                resp_clientOrderId = client_order_id, resp_marketOrderId = new_market_order_id, resp_side = side,
                resp_price = ord_price o1, resp_execQty = fill_qty, resp_leavesQty = leaves_qty\<rparr>) u1;
         u3 = um_SendCall (SendClientResponse \<lparr>resp_type = FILLED, resp_clientId = ord_clientId o1, resp_tickerId = ticker_id,
                resp_clientOrderId = ord_clientOrderId o1, resp_marketOrderId = ord_orderId o1, resp_side = ord_side o1,
                resp_price = ord_price o1, resp_execQty = fill_qty, resp_leavesQty = ord_qty o1\<rparr>) u2;
         u4 = um_SendCall (SendMarketUpdate \<lparr>upd_type = TRADE, upd_orderId = OrderId_INVALID, upd_tickerId = ticker_id,
                upd_side = side, upd_price = ord_price o1, upd_qty = fill_qty, upd_priority = Priority_INVALID\<rparr>) u3
     in
     if ord_qty o1 = 0
     then bindE (um_RemoveOrder itr
            (um_SendCall (SendMarketUpdate \<lparr>upd_type = CANCEL, upd_orderId = ord_orderId o1, upd_tickerId = ticker_id,
               upd_side = ord_side o1, upd_price = ord_price o1, upd_qty = order_qty, upd_priority = Priority_INVALID\<rparr>) u4))
            (\<lambda>u5. Inr (leaves_qty, u5))
     else Inr (leaves_qty,
            um_SendCall (SendMarketUpdate \<lparr>upd_type = MODIFY, upd_orderId = ord_orderId o1, upd_tickerId = ticker_id,
              upd_side = ord_side o1, upd_price = ord_price o1, upd_qty = ord_qty o1, upd_priority = ord_priority o1\<rparr>) u4))))"

definition um_opposite_top :: "ESide \<Rightarrow> CUnorderedMapMEOrderBook \<Rightarrow> ptr" where
  "um_opposite_top side u = (if side = BUY then m_pAsksByPrice (um_core u) else m_pBidsByPrice (um_core u))"

fun um_match_loop :: "nat \<Rightarrow> ClientId \<Rightarrow> OrderId \<Rightarrow> TickerId \<Rightarrow> ESide \<Rightarrow> Price \<Rightarrow> OrderId \<Rightarrow> Qty \<Rightarrow> CUnorderedMapMEOrderBook
    \<Rightarrow> (Qty \<times> CUnorderedMapMEOrderBook) outcome" where
  "um_match_loop fuel client_id client_order_id ticker_id side price new_market_order_id leaves_qty u0 =
     (if \<not> (leaves_qty \<noteq> 0 \<and> um_opposite_top side u0 \<noteq> None) then Inr (leaves_qty, u0)
      else bindE (get_lvl (um_core u0) (um_opposite_top side u0)) (\<lambda>top.
           bindE (get_ord (um_core u0) (pFirstOrder top)) (\<lambda>itr.
           if price_misses side price (ord_price itr) then Inr (leaves_qty, u0)
           else if fuel = 0 then Inl Diverges
           else bindE (um_Match ticker_id client_id side client_order_id new_market_order_id (pFirstOrder top) leaves_qty u0)
                  (\<lambda>(leaves_qty', u1).
                     um_match_loop (fuel - 1) client_id client_order_id ticker_id side price new_market_order_id leaves_qty' u1))))"

declare um_match_loop.simps [simp del]

definition um_CheckForMatch :: "ClientId \<Rightarrow> OrderId \<Rightarrow> TickerId \<Rightarrow> ESide \<Rightarrow> Price \<Rightarrow> Qty \<Rightarrow> Qty \<Rightarrow> CUnorderedMapMEOrderBook
    \<Rightarrow> (Qty \<times> CUnorderedMapMEOrderBook) outcome" where
  "um_CheckForMatch client_id client_order_id ticker_id side price qty new_market_order_id u0 =
     (if side = BUY \<or> side = SELL
      then um_match_loop (m_size (m_orderPool (um_core u0))) client_id client_order_id ticker_id side price (ucast new_market_order_id) qty u0
      else Inr (qty, u0))"

section \<open>The public operations\<close>

definition um_AddOrder :: "ClientId \<Rightarrow> OrderId \<Rightarrow> TickerId \<Rightarrow> ESide \<Rightarrow> Price \<Rightarrow> Qty \<Rightarrow> CUnorderedMapMEOrderBook \<Rightarrow> CUnorderedMapMEOrderBook outcome" where
  "um_AddOrder client_id client_order_id ticker_id side price qty u0 =
     (let (new_market_order_id, u1) = um_GenerateNewMarketOrderId u0;
          u2 = um_SendCall (SendClientResponse \<lparr>resp_type = ACCEPTED, resp_clientId = client_id, resp_tickerId = ticker_id,
                 resp_clientOrderId = client_order_id, resp_marketOrderId = new_market_order_id, resp_side = side,
                 resp_price = price, resp_execQty = 0, resp_leavesQty = qty\<rparr>) u1
      in
      bindE (um_CheckForMatch client_id client_order_id ticker_id side price qty (ucast new_market_order_id) u2) (\<lambda>(leaves_qty, u3).
      if leaves_qty \<noteq> 0
      then bindE (um_GetNextPriority price (um_core u3)) (\<lambda>priority.
           bindE (Allocate \<lparr>ord_orderId = new_market_order_id, ord_side = side, ord_price = price, ord_qty = leaves_qty,
                    ord_priority = priority, pPrevOrder = None, pNextOrder = None, ord_tickerId = ticker_id,
                    ord_clientId = client_id, ord_clientOrderId = client_order_id\<rparr> (m_orderPool (um_core u3))) (\<lambda>(n, p).
           bindE (um_AddOrder_node (Some n) (u3\<lparr>um_core := (um_core u3)\<lparr>m_orderPool := p\<rparr>\<rparr>)) (\<lambda>u4.
           Inr (um_SendCall (SendMarketUpdate \<lparr>upd_type = ADD, upd_orderId = new_market_order_id, upd_tickerId = ticker_id,
                  upd_side = side, upd_price = price, upd_qty = leaves_qty, upd_priority = priority\<rparr>) u4))))
      else Inr u3))"

text \<open>\<open>client_id\<close> is compared with the number of rows; looking the order up adds a row for the client.\<close>

definition um_CancelOrder :: "ClientId \<Rightarrow> OrderId \<Rightarrow> TickerId \<Rightarrow> CUnorderedMapMEOrderBook \<Rightarrow> CUnorderedMapMEOrderBook outcome" where
  "um_CancelOrder client_id order_id ticker_id u0 =
     (let (exchange_order, u) =
            (if unat client_id < length (um_cidOidToOrder u0)
             then let u1 = u0\<lparr>um_cidOidToOrder := touch_row client_id (um_cidOidToOrder u0)\<rparr>
                  in (row_of (um_cidOidToOrder u1) client_id order_id, u1)
             else (None, u0))
      in if exchange_order = None
     then Inr (um_SendCall (SendClientResponse \<lparr>resp_type = CANCEL_REJECTED, resp_clientId = client_id, resp_tickerId = ticker_id,
            resp_clientOrderId = order_id, resp_marketOrderId = OrderId_INVALID, resp_side = Side_INVALID,
            resp_price = Price_INVALID, resp_execQty = Qty_INVALID, resp_leavesQty = Qty_INVALID\<rparr>) u)
     else bindE (get_ord (um_core u) exchange_order) (\<lambda>o0.
          let m_clientResponse = \<lparr>resp_type = CANCELED, resp_clientId = client_id, resp_tickerId = ticker_id,
                resp_clientOrderId = order_id, resp_marketOrderId = ord_orderId o0, resp_side = ord_side o0,
                resp_price = ord_price o0, resp_execQty = Qty_INVALID, resp_leavesQty = ord_qty o0\<rparr>;
              m_marketUpdate = \<lparr>upd_type = CANCEL, upd_orderId = ord_orderId o0, upd_tickerId = ticker_id,
                upd_side = ord_side o0, upd_price = ord_price o0, upd_qty = 0, upd_priority = ord_priority o0\<rparr>
          in bindE (um_RemoveOrder exchange_order u) (\<lambda>u1.
             Inr (um_SendCall (SendClientResponse m_clientResponse) (um_SendCall (SendMarketUpdate m_marketUpdate) u1)))))"

section \<open>The same book\<close>

text \<open>The array book with the same contents.\<close>

definition as_array :: "CUnorderedMapMEOrderBook \<Rightarrow> CMEOrderBook" where
  "as_array u = \<lparr>m_tickerId = um_tickerId u, m_cidOidToOrder = row_of (um_cidOidToOrder u), core = um_core u,
     m_nextMarketOrderId = um_nextMarketOrderId u, sent = um_sent u\<rparr>"

lemma as_array_sel [simp]:
  "core (as_array u) = um_core u" "m_cidOidToOrder (as_array u) = row_of (um_cidOidToOrder u)" "m_nextMarketOrderId (as_array u) = um_nextMarketOrderId u"
  by (simp_all add: as_array_def)

lemma as_array_upd [simp]:
  "as_array (u\<lparr>um_core := c\<rparr>) = (as_array u)\<lparr>core := c\<rparr>" "as_array (um_SendCall x u) = SendCall x (as_array u)"
  "as_array (u\<lparr>um_nextMarketOrderId := k\<rparr>) = (as_array u)\<lparr>m_nextMarketOrderId := k\<rparr>"
  by (simp_all add: as_array_def um_SendCall_def SendCall_def)

lemma row_of_touch [simp]: "row_of (touch_row cid rows) = row_of rows"
  by (rule ext) (auto simp: row_of_def touch_row_def map_add_def split: option.splits)

lemma map_of_map_row: "map_of (map (\<lambda>(c, row). if c = cid then (c, f row) else (c, row)) rows) c
    = (if c = cid then map_option f (map_of rows c) else map_of rows c)"
  by (induction rows) auto

lemma row_of_map_row: "map_of rows cid \<noteq> None \<Longrightarrow> row_of (map (\<lambda>(c, row). if c = cid then (c, row(oid := x)) else (c, row)) rows) c
    = (if c = cid then (row_of rows cid)(oid := x) else row_of rows c)"
  by (auto simp: row_of_def map_of_map_row)

lemma as_array_um_set: "as_array (um_set cid oid x u) = (as_array u)\<lparr>m_cidOidToOrder := (row_of (um_cidOidToOrder u))(cid := (row_of (um_cidOidToOrder u) cid)(oid := x))\<rparr>"
proof -
  let ?rows = "touch_row cid (um_cidOidToOrder u)"
  have "map_of ?rows cid \<noteq> None" by (auto simp: touch_row_def map_add_def split: option.splits)
  then have "row_of (map (\<lambda>(c, row). if c = cid then (c, row(oid := x)) else (c, row)) ?rows) c
      = (if c = cid then (row_of ?rows cid)(oid := x) else row_of ?rows c)" for c
    by (rule row_of_map_row)
  then have "row_of (map (\<lambda>(c, row). if c = cid then (c, row(oid := x)) else (c, row)) ?rows)
      = (row_of (um_cidOidToOrder u))(cid := (row_of (um_cidOidToOrder u) cid)(oid := x))"
    unfolding row_of_touch by (intro ext) simp
  then show ?thesis by (simp add: as_array_def um_set_def)
qed

text \<open>\<open>simulates\<close>: whenever the array book succeeds, so does the other one, with the same result.\<close>

definition simulates :: "CMEOrderBook outcome \<Rightarrow> CUnorderedMapMEOrderBook outcome \<Rightarrow> bool" where
  "simulates m m' \<longleftrightarrow> (\<forall>b. m = Inr b \<longrightarrow> (\<exists>u. m' = Inr u \<and> as_array u = b))"

definition simulates2 :: "('x \<times> CMEOrderBook) outcome \<Rightarrow> ('x \<times> CUnorderedMapMEOrderBook) outcome \<Rightarrow> bool" where
  "simulates2 m m' \<longleftrightarrow> (\<forall>x b. m = Inr (x, b) \<longrightarrow> (\<exists>u. m' = Inr (x, u) \<and> as_array u = b))"

lemma simulates_Inr [intro]: "as_array u = b \<Longrightarrow> simulates (Inr b) (Inr u)"
  by (simp add: simulates_def)

lemma simulates2_Inr [intro]: "as_array u = b \<Longrightarrow> simulates2 (Inr (x, b)) (Inr (x, u))"
  by (simp add: simulates2_def)

lemma simulates_bind: "simulates m m' \<Longrightarrow> (\<And>u. simulates (f (as_array u)) (f' u)) \<Longrightarrow> simulates (bindE m f) (bindE m' f')"
  by (fastforce simp: simulates_def bindE_eq_Inr)

lemma simulates_bind2: "simulates m m' \<Longrightarrow> (\<And>u. simulates2 (f (as_array u)) (f' u)) \<Longrightarrow> simulates2 (bindE m f) (bindE m' f')"
  by (fastforce simp: simulates_def simulates2_def bindE_eq_Inr)

lemma simulates2_bind: "simulates2 m m' \<Longrightarrow> (\<And>x u. simulates (f (x, as_array u)) (f' (x, u))) \<Longrightarrow> simulates (bindE m f) (bindE m' f')"
  by (fastforce simp: simulates_def simulates2_def bindE_eq_Inr)

lemma simulates2_bind2: "simulates2 m m' \<Longrightarrow> (\<And>x u. simulates2 (f (x, as_array u)) (f' (x, u))) \<Longrightarrow> simulates2 (bindE m f) (bindE m' f')"
  by (fastforce simp: simulates2_def bindE_eq_Inr)

lemma simulates_read: "(\<And>x. simulates (f x) (f' x)) \<Longrightarrow> simulates (bindE m f) (bindE m f')"
  by (fastforce simp: simulates_def bindE_eq_Inr)

lemma simulates_read2: "(\<And>x. simulates2 (f x) (f' x)) \<Longrightarrow> simulates2 (bindE m f) (bindE m f')"
  by (fastforce simp: simulates2_def bindE_eq_Inr)

lemma with_core_sim: "simulates (with_core f (as_array u)) (um_with_core f u)"
  by (auto simp: simulates_def with_core_def um_with_core_def bindE_eq_Inr)

lemma id_set_sim: "simulates (id_set cid oid x (as_array u)) (Inr (um_set cid oid x u))"
  by (auto simp: simulates_def id_set_def arr_at_def arr_set_def bindE_eq_Inr as_array_um_set split: if_splits)

lemma RemoveOrder_sim: "simulates (me_RemoveOrder p (as_array u)) (um_RemoveOrder p u)"
proof -
  have "simulates (bindE (id_set c oid None (as_array v)) (with_core g)) (um_with_core g (um_set c oid None v))" for c oid v g
  proof -
    have "simulates (bindE (id_set c oid None (as_array v)) (with_core g)) (bindE (Inr (um_set c oid None v)) (um_with_core g))"
      by (rule simulates_bind) (rule id_set_sim, rule with_core_sim)
    then show ?thesis by simp
  qed
  then show ?thesis unfolding me_RemoveOrder_def um_RemoveOrder_def
    by (intro simulates_bind [OF with_core_sim]) (simp add: simulates_read)
qed

lemma AddOrder_node_sim: "simulates (me_AddOrder_node p (as_array u)) (um_AddOrder_node p u)"
  unfolding me_AddOrder_node_def um_AddOrder_node_def
  by (intro simulates_bind [OF with_core_sim]) (simp add: simulates_read id_set_sim)

lemma Match_sim: "simulates2 (Match t c side coid moid p q (as_array u)) (um_Match t c side coid moid p q u)"
proof -
  have rm: "simulates2 (bindE (me_RemoveOrder p b) (\<lambda>b. Inr (x, b))) (bindE (um_RemoveOrder p v) (\<lambda>v. Inr (x, v)))" if "b = as_array v" for b v x
    unfolding that by (rule simulates_bind2 [OF RemoveOrder_sim]) auto
  show ?thesis unfolding Match_def um_Match_def Let_def as_array_sel
    by (intro simulates_read2 simulates_bind2 [OF with_core_sim]) (auto intro!: simulates_read2 simulates2_Inr rm)
qed

lemma match_loop_sim: "simulates2 (match_loop n c coid t side price moid q (as_array u)) (um_match_loop n c coid t side price moid q u)"
proof (induction n arbitrary: q u)
  case 0
  show ?case unfolding match_loop.simps [of 0] um_match_loop.simps [of 0] opposite_top_def um_opposite_top_def as_array_sel
    by (auto intro!: simulates_read2) (auto simp: simulates2_def)
next
  case (Suc n)
  have "simulates2 (bindE (Match t c side coid moid p q (as_array u)) (\<lambda>(q', b). match_loop n c coid t side price moid q' b))
      (bindE (um_Match t c side coid moid p q u) (\<lambda>(q', v). um_match_loop n c coid t side price moid q' v))" for p q u
    by (rule simulates2_bind2 [OF Match_sim]) (simp add: Suc.IH)
  then show ?case unfolding match_loop.simps [of "Suc n"] um_match_loop.simps [of "Suc n"] opposite_top_def um_opposite_top_def as_array_sel
    by (auto intro!: simulates_read2)
qed

lemma CheckForMatch_sim: "simulates2 (CheckForMatch c coid t side price q moid (as_array u)) (um_CheckForMatch c coid t side price q moid u)"
  by (auto simp: CheckForMatch_def um_CheckForMatch_def match_loop_sim)

lemma um_AddOrder_sim: "simulates (me_AddOrder c coid t side price q (as_array u)) (um_AddOrder c coid t side price q u)"
proof -
  define k where "k = um_nextMarketOrderId u"
  define u2 where "u2 = um_SendCall (SendClientResponse \<lparr>resp_type = ACCEPTED, resp_clientId = c, resp_tickerId = t,
      resp_clientOrderId = coid, resp_marketOrderId = k, resp_side = side, resp_price = price, resp_execQty = 0, resp_leavesQty = q\<rparr>)
      (u\<lparr>um_nextMarketOrderId := k + 1\<rparr>)"
  have add: "simulates (bindE (me_AddOrder_node p (as_array v)) (\<lambda>b. Inr (SendCall e b))) (bindE (um_AddOrder_node p v) (\<lambda>v. Inr (um_SendCall e v)))" for p v e
    by (rule simulates_bind [OF AddOrder_node_sim]) auto
  have add': "simulates (bindE (me_AddOrder_node p ((as_array v)\<lparr>core := cc\<rparr>)) (\<lambda>b. Inr (SendCall e b)))
      (bindE (um_AddOrder_node p (v\<lparr>um_core := cc\<rparr>)) (\<lambda>v. Inr (um_SendCall e v)))" for p v cc e
    using add [of p "v\<lparr>um_core := cc\<rparr>" e] by simp
  show ?thesis
    unfolding me_AddOrder_def um_AddOrder_def GenerateNewMarketOrderId_def um_GenerateNewMarketOrderId_def Let_def prod.case as_array_sel
      as_array_upd [symmetric] um_GetNextPriority_def k_def [symmetric] u2_def [symmetric]
    by (rule simulates2_bind [OF CheckForMatch_sim]) (auto intro!: simulates_read add' simp del: as_array_upd(1) simp: as_array_upd(1) split: prod.splits)
qed

text \<open>A cancel does the same when the client's id is below the number of rows.\<close>

lemma um_CancelOrder_sim:
  assumes "unat c < length (um_cidOidToOrder u)" and "unat c < ME_MAX_NUM_CLIENTS"
  shows "simulates (me_CancelOrder c oid t (as_array u)) (um_CancelOrder c oid t u)"
proof -
  let ?v = "u\<lparr>um_cidOidToOrder := touch_row c (um_cidOidToOrder u)\<rparr>"
  have v: "as_array ?v = as_array u" by (simp add: as_array_def)
  have rm: "simulates (bindE (me_RemoveOrder p (as_array u)) (\<lambda>b. Inr (SendCall e (SendCall d b))))
      (bindE (um_RemoveOrder p ?v) (\<lambda>v. Inr (um_SendCall e (um_SendCall d v))))" for p e d
    unfolding v [symmetric] by (rule simulates_bind [OF RemoveOrder_sim]) auto
  have id: "id_at (row_of (um_cidOidToOrder u)) c oid = arr_at ME_MAX_ORDER_IDS (row_of (um_cidOidToOrder u) c) oid"
    using assms(2) by (simp add: id_at_def)
  show ?thesis
  proof (cases "unat oid < ME_MAX_ORDER_IDS")
    case False
    then show ?thesis using assms(2) by (simp add: me_CancelOrder_def id arr_at_def simulates_def)
  next
    case True
    show ?thesis using assms True v
      by (auto simp: me_CancelOrder_def um_CancelOrder_def id arr_at_def Let_def intro!: simulates_read rm)
  qed
qed

end
