(* ===== verification/UnorderedProperties.thy ===== *)
theory UnorderedProperties
  imports UnorderedBook ExchangeProperties
begin

text \<open>
  Properties of the book with unordered maps: it does what the book with arrays does, except that it
  rejects the cancels of clients whose id is not below the number of clients seen.
\<close>

text \<open>C25: the book with unordered maps adds orders exactly as the contract of the other book says, and cancels them so
  when the client's id is below the number of clients that it has rows for.\<close>

theorem unordered_book_agrees:
  assumes "me_repr (as_array u) B" and "side \<in> sides" and "id_in_range client coid"
    and "(client, coid) \<notin> client_key ` live_orders B" and "table_distinguishes price B" and "has_room B"
    and "unat oid < ME_MAX_ORDER_IDS"
  shows "(\<exists>u'. um_AddOrder client coid t side price qty u = Inr u'
      \<and> me_repr (as_array u') (fst (spec_AddOrder client coid t side price qty (um_nextMarketOrderId u) B))
      \<and> um_sent u' = um_sent u @ snd (spec_AddOrder client coid t side price qty (um_nextMarketOrderId u) B))
    \<and> (unat client < length (um_cidOidToOrder u) \<longrightarrow>
      (\<exists>u'. um_CancelOrder client oid t u = Inr u' \<and> me_repr (as_array u') (fst (spec_CancelOrder client oid t B))
        \<and> um_sent u' = um_sent u @ snd (spec_CancelOrder client oid t B)))"
proof (intro conjI impI)
  have s: "sent (as_array v) = um_sent v" for v by (simp add: as_array_def)
  obtain B' calls where add: "spec_AddOrder client coid t side price qty (m_nextMarketOrderId (as_array u)) B = (B', calls)"
    by (rule prod.exhaust)
  obtain b where b: "me_AddOrder client coid t side price qty (as_array u) = Inr b"
    "me_repr b (fst (spec_AddOrder client coid t side price qty (um_nextMarketOrderId u) B))"
    "sent b = um_sent u @ snd (spec_AddOrder client coid t side price qty (um_nextMarketOrderId u) B)"
    using me_repr_AddOrder [OF assms(1-6) add] add s by auto
  then show "\<exists>u'. um_AddOrder client coid t side price qty u = Inr u'
      \<and> me_repr (as_array u') (fst (spec_AddOrder client coid t side price qty (um_nextMarketOrderId u) B))
      \<and> um_sent u' = um_sent u @ snd (spec_AddOrder client coid t side price qty (um_nextMarketOrderId u) B)"
    using um_AddOrder_sim [of client coid t side price qty u] s unfolding simulates_def by metis
  assume len: "unat client < length (um_cidOidToOrder u)"
  obtain B2 calls2 where cancel: "spec_CancelOrder client oid t B = (B2, calls2)"
    by (rule prod.exhaust)
  obtain d where d: "me_CancelOrder client oid t (as_array u) = Inr d" "me_repr d (fst (spec_CancelOrder client oid t B))"
    "sent d = um_sent u @ snd (spec_CancelOrder client oid t B)"
    using me_repr_CancelOrder [OF assms(1) _ cancel] assms(7) cancel s by auto
  then show "\<exists>u'. um_CancelOrder client oid t u = Inr u' \<and> me_repr (as_array u') (fst (spec_CancelOrder client oid t B))
      \<and> um_sent u' = um_sent u @ snd (spec_CancelOrder client oid t B)"
    using um_CancelOrder_sim [OF len, of oid t] assms(3) s unfolding simulates_def id_in_range_def by metis
qed

lemma as_array_new: "as_array (CUnorderedMapMEOrderBook_new t) = CMEOrderBook_new t"
  by (simp add: as_array_def CUnorderedMapMEOrderBook_new_def CMEOrderBook_new_def row_of_def fun_eq_iff)

lemma fresh_book:
  "me_repr (as_array (CUnorderedMapMEOrderBook_new t)) (\<lambda>_. [])" "um_nextMarketOrderId (CUnorderedMapMEOrderBook_new t) = 1"
  "um_cidOidToOrder (CUnorderedMapMEOrderBook_new t) = []"
  using me_repr_new [of t] by (simp_all add: as_array_new) (simp_all add: CUnorderedMapMEOrderBook_new_def)

lemma empty_side: "(client, coid) \<notin> client_key ` live_orders (\<lambda>_. [])" "table_distinguishes price (\<lambda>_. [])"
  by (simp_all add: live_orders_def table_distinguishes_def)

theorem unordered_book_agrees_witness:
  "\<exists>u'. um_AddOrder 0 7 1 BUY 100 10 (CUnorderedMapMEOrderBook_new 1) = Inr u'
    \<and> me_repr (as_array u') (fst (spec_AddOrder 0 7 1 BUY 100 10 1 (\<lambda>_. [])))"
proof -
  have "BUY \<in> sides" and "id_in_range 0 7" and "unat (7 :: OrderId) < ME_MAX_ORDER_IDS"
    by (simp_all add: sides_def id_in_range_def bounds_defs)
  from unordered_book_agrees [OF fresh_book(1) this(1,2) empty_side has_room_empty this(3), of 1 100 10 1]
  show ?thesis unfolding fresh_book by blast
qed

text \<open>The table of orders gets at most one more row with an order.\<close>

lemma um_with_core_rows: "um_with_core f u = Inr u' \<Longrightarrow> um_cidOidToOrder u' = um_cidOidToOrder u"
  by (auto simp: um_with_core_def bindE_eq_Inr)

lemma um_AddOrder_node_rows:
  assumes "um_AddOrder_node p u = Inr u'"
  shows "length (um_cidOidToOrder u') \<le> Suc (length (um_cidOidToOrder u))"
proof -
  obtain u1 and o1 :: SMEOrder where 1: "um_with_core (AddOrder_links p) u = Inr u1" and "u' = um_set (ord_clientId o1) (ord_clientOrderId o1) p u1"
    using assms unfolding um_AddOrder_node_def bindE_eq_Inr sum.inject by metis
  then show ?thesis using um_with_core_rows [OF 1] by (simp add: um_set_def touch_row_def)
qed

lemma um_AddOrder_rows:
  assumes "m_pAsksByPrice (um_core u) = None" "m_pBidsByPrice (um_core u) = None" "um_AddOrder c coid t side price q u = Inr u'"
  shows "length (um_cidOidToOrder u') \<le> Suc (length (um_cidOidToOrder u))"
proof -
  have "um_CheckForMatch c coid t side price q moid v = Inr (q, v)" if "um_core v = um_core u" for moid v
    using assms(1,2) that by (simp add: um_CheckForMatch_def um_match_loop.simps um_opposite_top_def)
  then show ?thesis using assms(3)
    by (fastforce simp: um_AddOrder_def um_GenerateNewMarketOrderId_def um_SendCall_def bindE_eq_Inr Let_def split: if_splits prod.splits
        dest: um_AddOrder_node_rows)
qed

text \<open>C39: on a fresh book, every client but client 0 places an order that it cannot cancel: the order rests in the book, and
  the cancel is rejected, because the client's id is compared with the number of clients seen.\<close>

theorem unordered_cancel_lost:
  assumes "side \<in> sides" and "id_in_range client coid" and "0 < unat client" and "qty \<noteq> 0"
  shows "\<exists>u' B. um_AddOrder client coid t side price qty (CUnorderedMapMEOrderBook_new t) = Inr u'
    \<and> me_repr (as_array u') B \<and> (client, coid) \<in> client_key ` live_orders B
    \<and> um_CancelOrder client coid t u' = Inr (um_SendCall (SendClientResponse \<lparr>resp_type = CANCEL_REJECTED, resp_clientId = client,
        resp_tickerId = t, resp_clientOrderId = coid, resp_marketOrderId = OrderId_INVALID, resp_side = Side_INVALID,
        resp_price = Price_INVALID, resp_execQty = Qty_INVALID, resp_leavesQty = Qty_INVALID\<rparr>) u')"
proof -
  let ?u = "CUnorderedMapMEOrderBook_new t" and ?B = "fst (spec_AddOrder client coid t side price qty 1 (\<lambda>_. []))"
  obtain B' calls where add: "spec_AddOrder client coid t side price qty (m_nextMarketOrderId (as_array ?u)) (\<lambda>_. []) = (B', calls)"
    by (rule prod.exhaust)
  obtain b where b: "me_AddOrder client coid t side price qty (as_array ?u) = Inr b" "me_repr b ?B"
    using me_repr_AddOrder [OF fresh_book(1) assms(1,2) empty_side has_room_empty add] add by (auto simp: fresh_book)
  then obtain u' where u: "um_AddOrder client coid t side price qty ?u = Inr u'" "as_array u' = b"
    using um_AddOrder_sim [of client coid t side price qty ?u] unfolding simulates_def by blast
  have live: "(client, coid) \<in> client_key ` live_orders ?B"
    using assms(1,4) by (auto simp: spec_AddOrder_def live_orders_def client_key_def sides_def Let_def spec_insert_def)
  have "length (um_cidOidToOrder u') \<le> 1"
    using um_AddOrder_rows [OF _ _ u(1)] by (simp add: CUnorderedMapMEOrderBook_new_def book_core_new_def)
  then have "\<not> unat client < length (um_cidOidToOrder u')" using assms(3) by simp
  then show ?thesis using u b(2) live by (auto simp: um_CancelOrder_def)
qed

theorem unordered_cancel_lost_witness:
  "\<exists>u' B. um_AddOrder 3 7 1 SELL 100 10 (CUnorderedMapMEOrderBook_new 1) = Inr u'
    \<and> me_repr (as_array u') B \<and> (3, 7) \<in> client_key ` live_orders B
    \<and> um_CancelOrder 3 7 1 u' = Inr (um_SendCall (SendClientResponse \<lparr>resp_type = CANCEL_REJECTED, resp_clientId = 3,
        resp_tickerId = 1, resp_clientOrderId = 7, resp_marketOrderId = OrderId_INVALID, resp_side = Side_INVALID,
        resp_price = Price_INVALID, resp_execQty = Qty_INVALID, resp_leavesQty = Qty_INVALID\<rparr>) u')"
  by (rule unordered_cancel_lost) (simp_all add: sides_def id_in_range_def bounds_defs)

end
