(* ===== verification/MarketSpec.thy ===== *)
theory MarketSpec
  imports BookFacts Messages
begin

text \<open>
  What the market-update stream means: the effect of each update on a book given as two lists of
  orders, and the updates a book copes with.  The locale \<open>feed_follower\<close> is the contract of a
  component that keeps a copy of the book from the stream; the client's order book and the
  exchange's snapshot synthesizer are its two instances.
\<close>

section \<open>The effect of an update\<close>

type_synonym mbook = "ESide \<Rightarrow> SMarketOrder list"

definition upd_order :: "SMEMarketUpdate \<Rightarrow> SMarketOrder" where
  "upd_order u = \<lparr>ord_orderId = upd_orderId u, ord_side = upd_side u, ord_price = upd_price u, ord_qty = upd_qty u,
     ord_priority = upd_priority u, pPrevOrder = None, pNextOrder = None\<rparr>"

definition spec_update :: "SMEMarketUpdate \<Rightarrow> mbook \<Rightarrow> mbook" where
  "spec_update u B =
     (case upd_type u of
        ADD \<Rightarrow> B(upd_side u := spec_insert ord_price (upd_side u) (upd_order u) (B (upd_side u)))
      | MODIFY \<Rightarrow> (\<lambda>sd. map (\<lambda>r. if ord_orderId r = upd_orderId u then r\<lparr>ord_qty := upd_qty u\<rparr> else r) (B sd))
      | CANCEL \<Rightarrow> (\<lambda>sd. filter (\<lambda>r. ord_orderId r \<noteq> upd_orderId u) (B sd))
      | CLEAR \<Rightarrow> (\<lambda>_. [])
      | _ \<Rightarrow> B)"

definition mlive :: "mbook \<Rightarrow> SMarketOrder set" where
  "mlive B = set (B BUY) \<union> set (B SELL)"

text \<open>
  The updates that fit the book: an added order is new, its id and its price have a place in the
  tables, and there is room; a modified or cancelled order is live, and the update names its side and price.
  \<open>CLEAR\<close> fits only the empty book.
\<close>

definition names_live :: "SMEMarketUpdate \<Rightarrow> mbook \<Rightarrow> bool" where
  "names_live u B \<longleftrightarrow> (\<exists>r\<in>mlive B. ord_orderId r = upd_orderId u \<and> ord_side r = upd_side u \<and> ord_price r = upd_price u)"

definition upd_fits :: "SMEMarketUpdate \<Rightarrow> mbook \<Rightarrow> bool" where
  "upd_fits u B \<longleftrightarrow>
     (case upd_type u of
        ADD \<Rightarrow> upd_side u \<in> sides \<and> unat (upd_orderId u) < ME_MAX_ORDER_IDS \<and> upd_orderId u \<notin> ord_orderId ` mlive B
          \<and> (\<forall>sd\<in>sides. \<forall>r\<in>set (B sd). PriceToIndex (ord_price r) = PriceToIndex (upd_price u)
               \<longrightarrow> sd = upd_side u \<and> ord_price r = upd_price u)
          \<and> length (B BUY) + length (B SELL) + 1 < ME_MAX_ORDER_IDS
          \<and> card (ord_price ` mlive B) + 1 < ME_MAX_PRICE_LEVELS
      | MODIFY \<Rightarrow> names_live u B
      | CANCEL \<Rightarrow> names_live u B
      | CLEAR \<Rightarrow> B BUY = [] \<and> B SELL = []
      | _ \<Rightarrow> True)"

fun feed_fits :: "SMEMarketUpdate list \<Rightarrow> mbook \<Rightarrow> bool" where
  "feed_fits [] B = True"
| "feed_fits (u # us) B = (upd_fits u B \<and> feed_fits us (spec_update u B))"

lemma feed_fits_append: "feed_fits (us @ vs) B \<longleftrightarrow> feed_fits us B \<and> feed_fits vs (fold spec_update us B)"
  by (induction us arbitrary: B) auto

section \<open>What a feed leads to\<close>

text \<open>Books are compared on the two sides.\<close>

definition mbook_eq :: "mbook \<Rightarrow> mbook \<Rightarrow> bool" where
  "mbook_eq B C \<longleftrightarrow> (\<forall>sd\<in>sides. B sd = C sd)"

lemma mbook_eq_refl [simp]: "mbook_eq B B"
  by (simp add: mbook_eq_def)

lemma mbook_eq_trans: "mbook_eq B C \<Longrightarrow> mbook_eq C D \<Longrightarrow> mbook_eq B D"
  by (simp add: mbook_eq_def)

lemma mbook_eq_upd:
  assumes "mbook_eq B C"
  shows "upd_fits u B = upd_fits u C" and "mbook_eq (spec_update u B) (spec_update u C)"
proof -
  have e: "B BUY = C BUY" "B SELL = C SELL" using assms by (simp_all add: mbook_eq_def sides_def)
  then have "mlive B = mlive C" by (simp add: mlive_def)
  then show "upd_fits u B = upd_fits u C" using e by (simp add: upd_fits_def names_live_def sides_def split: EMarketUpdateType.split)
  show "mbook_eq (spec_update u B) (spec_update u C)" using e
    by (auto simp: mbook_eq_def spec_update_def sides_def split: EMarketUpdateType.split)
qed

lemma mbook_eq_feed:
  "mbook_eq B C \<Longrightarrow> feed_fits us B = feed_fits us C \<and> mbook_eq (fold spec_update us B) (fold spec_update us C)"
proof (induction us arbitrary: B C)
  case (Cons u us)
  then show ?case using mbook_eq_upd [of B C u] by simp
qed simp

text \<open>A feed that fits \<open>B\<close> and turns it into \<open>C\<close>.\<close>

definition leads_to :: "SMEMarketUpdate list \<Rightarrow> mbook \<Rightarrow> mbook \<Rightarrow> bool" where
  "leads_to us B C \<longleftrightarrow> feed_fits us B \<and> mbook_eq (fold spec_update us B) C"

lemma leads_to_Nil: "mbook_eq B C \<Longrightarrow> leads_to [] B C"
  by (simp add: leads_to_def)

lemma leads_to_append: "leads_to us B C \<Longrightarrow> leads_to vs C D \<Longrightarrow> leads_to (us @ vs) B D"
  unfolding leads_to_def feed_fits_append fold_append comp_def
  using mbook_eq_feed [of "fold spec_update us B" C vs] mbook_eq_trans by blast

lemma leads_to_eq: "leads_to us B C \<Longrightarrow> mbook_eq C D \<Longrightarrow> leads_to us B D"
  using mbook_eq_trans unfolding leads_to_def by blast

lemma leads_to_one: "upd_fits u B \<Longrightarrow> mbook_eq (spec_update u B) C \<Longrightarrow> leads_to [u] B C"
  by (simp add: leads_to_def)

section \<open>Followers of the feed\<close>

locale feed_follower =
  fixes step :: "SMEMarketUpdate \<Rightarrow> 's \<Rightarrow> 's outcome"
    and rep :: "'s \<Rightarrow> mbook \<Rightarrow> bool"
  assumes step_law: "rep s B \<Longrightarrow> upd_fits u B \<Longrightarrow> \<exists>s'. step u s = Inr s' \<and> rep s' (spec_update u B)"
begin

lemma follow:
  "rep s B \<Longrightarrow> feed_fits us B \<Longrightarrow> \<exists>s'. foldE step us s = Inr s' \<and> rep s' (fold spec_update us B)"
proof (induction us arbitrary: s B)
  case Nil
  then show ?case by simp
next
  case (Cons u us)
  obtain s1 where "step u s = Inr s1" "rep s1 (spec_update u B)" using step_law [of s B u] Cons.prems by auto
  then show ?case using Cons.IH [of s1 "spec_update u B"] Cons.prems by simp
qed

text \<open>Stopping anywhere in the feed leaves a copy of the book at that point.\<close>

lemma follow_prefix:
  assumes "rep s B" and "feed_fits (us @ vs) B" and "foldE step us s = Inr s'"
  shows "rep s' (fold spec_update us B)" and "feed_fits vs (fold spec_update us B)"
  using follow [OF assms(1), of us] assms(2,3) by (auto simp: feed_fits_append)

end

section \<open>The books of all tickers\<close>

definition ticker_feed :: "TickerId \<Rightarrow> SMEMarketUpdate list \<Rightarrow> SMEMarketUpdate list" where
  "ticker_feed t us = filter (\<lambda>u. upd_tickerId u = t) us"

lemma ticker_feed_append [simp]: "ticker_feed t (us @ vs) = ticker_feed t us @ ticker_feed t vs"
  by (simp add: ticker_feed_def)

type_synonym mbooks = "TickerId \<Rightarrow> mbook"

definition family_update :: "SMEMarketUpdate \<Rightarrow> mbooks \<Rightarrow> mbooks" where
  "family_update u Bs = Bs(upd_tickerId u := spec_update u (Bs (upd_tickerId u)))"

text \<open>The number of live orders on all tickers.\<close>

definition total_live :: "mbooks \<Rightarrow> nat" where
  "total_live Bs = (\<Sum>t\<in>{t. unat t < ME_MAX_TICKERS}. card (mlive (Bs t)))"

definition family_fits :: "SMEMarketUpdate \<Rightarrow> mbooks \<Rightarrow> bool" where
  "family_fits u Bs \<longleftrightarrow> unat (upd_tickerId u) < ME_MAX_TICKERS \<and> upd_fits u (Bs (upd_tickerId u)) \<and> total_live Bs + 1 < ME_MAX_ORDER_IDS"

fun family_feed_fits :: "SMEMarketUpdate list \<Rightarrow> mbooks \<Rightarrow> bool" where
  "family_feed_fits [] Bs = True"
| "family_feed_fits (u # us) Bs = (family_fits u Bs \<and> family_feed_fits us (family_update u Bs))"

lemma fold_family_update: "fold family_update us Bs t = fold spec_update (ticker_feed t us) (Bs t)"
  by (induction us arbitrary: Bs) (auto simp: ticker_feed_def family_update_def)

text \<open>An update adds at most one order.\<close>

lemma finite_mlive [simp]: "finite (mlive B)"
  by (simp add: mlive_def)

lemma mlive_update:
  "mlive (spec_update u B) =
     (case upd_type u of
        ADD \<Rightarrow> (if upd_side u \<in> sides then insert (upd_order u) (mlive B) else mlive B)
      | MODIFY \<Rightarrow> (\<lambda>r. if ord_orderId r = upd_orderId u then r\<lparr>ord_qty := upd_qty u\<rparr> else r) ` mlive B
      | CANCEL \<Rightarrow> {r \<in> mlive B. ord_orderId r \<noteq> upd_orderId u}
      | CLEAR \<Rightarrow> {}
      | _ \<Rightarrow> mlive B)"
  by (auto simp: mlive_def spec_update_def sides_def split: EMarketUpdateType.split)

lemma card_mlive_update: "card (mlive (spec_update u B)) \<le> Suc (card (mlive B))"
proof (cases "upd_type u")
  case MODIFY
  then have "card (mlive (spec_update u B)) \<le> card (mlive B)" unfolding mlive_update by (simp only: EMarketUpdateType.case card_image_le finite_mlive)
  then show ?thesis by simp
next
  case CANCEL
  then have "card (mlive (spec_update u B)) \<le> card (mlive B)" unfolding mlive_update by (auto intro: card_mono)
  then show ?thesis by simp
qed (simp_all add: mlive_update card_insert_if)

lemma total_live_update: "total_live (family_update u Bs) \<le> Suc (total_live Bs)"
proof -
  let ?T = "{t :: TickerId. unat t < ME_MAX_TICKERS}" and ?f = "\<lambda>Bs t. card (mlive (Bs t))"
  have fin: "finite ?T" by simp
  have e: "sum (?f (family_update u Bs)) (?T - {upd_tickerId u}) = sum (?f Bs) (?T - {upd_tickerId u})"
    by (intro sum.cong refl) (simp add: family_update_def)
  show ?thesis
  proof (cases "upd_tickerId u \<in> ?T")
    case True
    have "?f (family_update u Bs) (upd_tickerId u) \<le> Suc (?f Bs (upd_tickerId u))"
      using card_mlive_update [of u] by (simp add: family_update_def)
    then show ?thesis unfolding total_live_def sum.remove [OF fin True] e by linarith
  next
    case False
    then show ?thesis using e unfolding total_live_def by simp
  qed
qed

lemma family_feed_fitsI:
  "(\<And>t. feed_fits (ticker_feed t us) (Bs t)) \<Longrightarrow> (\<And>u. u \<in> set us \<Longrightarrow> unat (upd_tickerId u) < ME_MAX_TICKERS)
    \<Longrightarrow> total_live Bs + length us < ME_MAX_ORDER_IDS \<Longrightarrow> family_feed_fits us Bs"
proof (induction us arbitrary: Bs)
  case (Cons u us)
  have f: "feed_fits (ticker_feed t (u # us)) (Bs t)" for t by (rule Cons.prems(1))
  have "family_fits u Bs"
    using f [of "upd_tickerId u"] Cons.prems(2) [of u] Cons.prems(3) by (simp add: family_fits_def ticker_feed_def)
  moreover have "family_feed_fits us (family_update u Bs)"
  proof (rule Cons.IH)
    show "feed_fits (ticker_feed t us) (family_update u Bs t)" for t
      using f [of t] by (auto simp: ticker_feed_def family_update_def split: if_splits)
    show "unat (upd_tickerId v) < ME_MAX_TICKERS" if "v \<in> set us" for v using Cons.prems(2) that by simp
    show "total_live (family_update u Bs) + length us < ME_MAX_ORDER_IDS"
      using Cons.prems(3) total_live_update [of u Bs] by simp
  qed
  ultimately show ?case by simp
qed simp

text \<open>A component that keeps the books of all tickers.\<close>

locale family_follower =
  fixes step :: "SMEMarketUpdate \<Rightarrow> 's \<Rightarrow> 's outcome"
    and rep :: "'s \<Rightarrow> mbooks \<Rightarrow> bool"
  assumes step_law: "rep s Bs \<Longrightarrow> family_fits u Bs \<Longrightarrow> \<exists>s'. step u s = Inr s' \<and> rep s' (family_update u Bs)"
begin

lemma follow:
  "rep s Bs \<Longrightarrow> family_feed_fits us Bs \<Longrightarrow> \<exists>s'. foldE step us s = Inr s' \<and> rep s' (fold family_update us Bs)"
proof (induction us arbitrary: s Bs)
  case (Cons u us)
  obtain s1 where "step u s = Inr s1" "rep s1 (family_update u Bs)" using step_law [of s Bs u] Cons.prems by auto
  then show ?case using Cons.IH [of s1 "family_update u Bs"] Cons.prems by simp
qed simp

end

end
