(* ===== verification/FeedMirror.thy ===== *)
theory FeedMirror
  imports MatchingEngine MarketSpec
begin

text \<open>
  The market updates that the exchange sends describe its books: fed from the start of a session,
  they all fit the book built so far, and that book is the exchange's, with the client members of
  the orders left out.
\<close>

section \<open>What the market sees of a book\<close>

definition mview :: "SMEOrder \<Rightarrow> SMarketOrder" where
  "mview r = \<lparr>ord_orderId = ord_orderId r, ord_side = ord_side r, ord_price = ord_price r, ord_qty = ord_qty r,
     ord_priority = ord_priority r, pPrevOrder = None, pNextOrder = None\<rparr>"

definition mirror :: "abook \<Rightarrow> mbook" where
  "mirror B sd = map mview (B sd)"

lemma mview_sel [simp]:
  "ord_orderId (mview r) = ord_orderId r" "ord_side (mview r) = ord_side r" "ord_price (mview r) = ord_price r"
  "ord_qty (mview r) = ord_qty r" "ord_priority (mview r) = ord_priority r"
  by (simp_all add: mview_def)

lemma mlive_mirror: "mlive (mirror B) = mview ` live_orders B"
  by (simp add: mlive_def mirror_def live_orders_def image_Un)

lemma mbook_eq_mirror: "(\<And>sd. sd \<in> sides \<Longrightarrow> B sd = C sd) \<Longrightarrow> mbook_eq (mirror B) (mirror C)"
  by (simp add: mbook_eq_def mirror_def)

section \<open>Market order ids\<close>

definition oids_ok :: "abook \<Rightarrow> bool" where
  "oids_ok B \<longleftrightarrow> distinct (map ord_orderId (B BUY @ B SELL)) \<and> (\<forall>sd\<in>sides. \<forall>r\<in>set (B sd). ord_side r = sd)"

lemma oids_ok_sides:
  assumes "sd \<in> sides"
  shows "oids_ok B \<longleftrightarrow> distinct (map ord_orderId (B sd)) \<and> distinct (map ord_orderId (B (opp sd)))
    \<and> ord_orderId ` set (B sd) \<inter> ord_orderId ` set (B (opp sd)) = {} \<and> (\<forall>sd\<in>sides. \<forall>r\<in>set (B sd). ord_side r = sd)"
  using assms by (cases "sd = BUY") (simp_all add: oids_ok_def sides_def opp_def Int_commute conj_ac)

lemma oids_front:
  assumes ok: "oids_ok B" and sd: "sd \<in> sides" and B: "B sd = r # rs" and x: "x \<in> set rs \<union> set (B (opp sd))"
  shows "ord_orderId x \<noteq> ord_orderId r"
proof -
  have "ord_orderId r \<notin> ord_orderId ` set rs" "ord_orderId r \<notin> ord_orderId ` set (B (opp sd))"
    using ok B unfolding oids_ok_sides [OF sd] by auto
  then have "ord_orderId r \<notin> ord_orderId ` (set rs \<union> set (B (opp sd)))" by (simp add: image_Un)
  then show ?thesis using imageI [OF x, of ord_orderId] by auto
qed

section \<open>Trades\<close>

lemma updates_of_trade:
  "updates_of (trade_calls t c side coid moid leaves r f) =
    [\<lparr>upd_type = TRADE, upd_orderId = OrderId_INVALID, upd_tickerId = t, upd_side = side,
        upd_price = ord_price r, upd_qty = f, upd_priority = Priority_INVALID\<rparr>,
     (if ord_qty r = f
       then \<lparr>upd_type = CANCEL, upd_orderId = ord_orderId r, upd_tickerId = t, upd_side = ord_side r,
              upd_price = ord_price r, upd_qty = ord_qty r, upd_priority = Priority_INVALID\<rparr>
       else \<lparr>upd_type = MODIFY, upd_orderId = ord_orderId r, upd_tickerId = t, upd_side = ord_side r,
              upd_price = ord_price r, upd_qty = ord_qty r - f, upd_priority = ord_priority r\<rparr>)]"
  by (simp add: trade_calls_def)

lemma trade_update_leads: "upd_type u = TRADE \<Longrightarrow> leads_to [u] B B"
  by (rule leads_to_one) (simp_all add: upd_fits_def spec_update_def)

lemma names_live_mirror:
  assumes "sd \<in> sides" and "r \<in> set (B sd)" and "upd_orderId u = ord_orderId r" "upd_side u = ord_side r" "upd_price u = ord_price r"
  shows "names_live u (mirror B)"
proof -
  have "mview r \<in> mlive (mirror B)" using assms(1,2) by (auto simp: mlive_mirror live_orders_def sides_def)
  then show ?thesis unfolding names_live_def using assms(3-5) by (metis mview_sel(1-3))
qed

text \<open>Cancelling, and reducing, the front order of a side.\<close>

lemma cancel_front:
  assumes ok: "oids_ok B" and sd: "sd \<in> sides" and B: "B sd = r # rs"
    and u: "upd_type u = CANCEL" "upd_orderId u = ord_orderId r" "upd_side u = ord_side r" "upd_price u = ord_price r"
  shows "leads_to [u] (mirror B) (mirror (B(sd := rs)))" and "oids_ok (B(sd := rs))"
proof -
  note D = ok [unfolded oids_ok_sides [OF sd]]
  have "spec_update u (mirror B) sd' = mirror (B(sd := rs)) sd'" if sd': "sd' \<in> sides" for sd'
  proof (cases "sd' = sd")
    case True
    have "ord_orderId x \<noteq> ord_orderId r" if "x \<in> set rs" for x using oids_front [OF ok sd B] that by simp
    then show ?thesis using True B u by (simp add: spec_update_def mirror_def filter_map comp_def)
  next
    case False
    then have "sd' = opp sd" using sd sd' by (auto simp: sides_def)
    then have "ord_orderId x \<noteq> ord_orderId r" if "x \<in> set (B sd')" for x using oids_front [OF ok sd B] that by simp
    then show ?thesis using False u by (auto simp: spec_update_def mirror_def filter_map comp_def intro!: filter_True)
  qed
  moreover have "upd_fits u (mirror B)"
    using names_live_mirror [OF sd, of r B u] B u by (simp add: upd_fits_def)
  ultimately show "leads_to [u] (mirror B) (mirror (B(sd := rs)))" by (intro leads_to_one) (simp_all add: mbook_eq_def)
  show "oids_ok (B(sd := rs))" using D B sd opp_neq [OF sd] unfolding oids_ok_sides [OF sd] by auto
qed

lemma modify_front:
  assumes ok: "oids_ok B" and sd: "sd \<in> sides" and B: "B sd = r # rs"
    and u: "upd_type u = MODIFY" "upd_orderId u = ord_orderId r" "upd_side u = ord_side r" "upd_price u = ord_price r"
  shows "leads_to [u] (mirror B) (mirror (B(sd := r\<lparr>ord_qty := upd_qty u\<rparr> # rs)))"
proof -
  have "spec_update u (mirror B) sd' = mirror (B(sd := r\<lparr>ord_qty := upd_qty u\<rparr> # rs)) sd'" if sd': "sd' \<in> sides" for sd'
  proof (cases "sd' = sd")
    case True
    have "ord_orderId x \<noteq> ord_orderId r" if "x \<in> set rs" for x using oids_front [OF ok sd B] that by simp
    then show ?thesis using True B u by (simp add: spec_update_def mirror_def mview_def)
  next
    case False
    then have "sd' = opp sd" using sd sd' by (auto simp: sides_def)
    then have "ord_orderId x \<noteq> ord_orderId r" if "x \<in> set (B sd')" for x using oids_front [OF ok sd B] that by simp
    then show ?thesis using False u by (simp add: spec_update_def mirror_def)
  qed
  moreover have "upd_fits u (mirror B)"
    using names_live_mirror [OF sd, of r B u] B u by (simp add: upd_fits_def)
  ultimately show ?thesis by (intro leads_to_one) (simp_all add: mbook_eq_def)
qed

lemma fills_lead:
  "spec_fill side price leaves rs = (fills, l, rest) \<Longrightarrow> side \<in> sides \<Longrightarrow> oids_ok B \<Longrightarrow> B (opp side) = rs \<Longrightarrow>
    leads_to (updates_of (fill_calls t c side coid moid leaves fills)) (mirror B) (mirror (B(opp side := rest)))"
proof (induction side price leaves rs arbitrary: fills l rest B rule: spec_fill.induct)
  case (1 side price leaves)
  then show ?case by (auto intro!: leads_to_Nil mbook_eq_mirror)
next
  case (2 side price leaves r rs)
  have os: "opp side \<in> sides" by simp
  show ?case
  proof (cases "leaves = 0 \<or> \<not> crosses side price (ord_price r)")
    case True
    then have "fills = []" "rest = r # rs" using 2(2) by auto
    then show ?thesis using 2(5) by (auto intro!: leads_to_Nil mbook_eq_mirror)
  next
    case False
    show ?thesis
    proof (cases "ord_qty r \<le> leaves")
      case True
      obtain fs where fs: "fills = (r, ord_qty r) # fs" "spec_fill side price (leaves - ord_qty r) rs = (fs, l, rest)"
        using 2(2) False True by (auto split: prod.splits)
      let ?B = "B(opp side := rs)"
      let ?tr = "\<lparr>upd_type = TRADE, upd_orderId = OrderId_INVALID, upd_tickerId = t, upd_side = side,
        upd_price = ord_price r, upd_qty = ord_qty r, upd_priority = Priority_INVALID\<rparr>"
      let ?cn = "\<lparr>upd_type = CANCEL, upd_orderId = ord_orderId r, upd_tickerId = t, upd_side = ord_side r,
              upd_price = ord_price r, upd_qty = ord_qty r, upd_priority = Priority_INVALID\<rparr>"
      note cn = cancel_front [OF 2(4) os 2(5), of ?cn]
      have "leads_to (updates_of (fill_calls t c side coid moid (leaves - ord_qty r) fs)) (mirror ?B) (mirror (?B(opp side := rest)))"
        using 2(1) [OF False True fs(2) 2(3), of ?B] cn(2) by (simp del: fun_upd_apply add: fun_upd_same)
      then have "leads_to ([?tr] @ [?cn] @ updates_of (fill_calls t c side coid moid (leaves - ord_qty r) fs)) (mirror B)
          (mirror (?B(opp side := rest)))"
        by (intro leads_to_append [OF trade_update_leads] leads_to_append [OF cn(1)]) simp_all
      then show ?thesis by (simp add: fs(1) updates_of_trade del: fun_upd_apply)
    next
      case part: False
      then have res: "fills = [(r, leaves)]" "rest = r\<lparr>ord_qty := ord_qty r - leaves\<rparr> # rs" and ne: "ord_qty r \<noteq> leaves"
        using 2(2) False by auto
      let ?tr = "\<lparr>upd_type = TRADE, upd_orderId = OrderId_INVALID, upd_tickerId = t, upd_side = side,
        upd_price = ord_price r, upd_qty = leaves, upd_priority = Priority_INVALID\<rparr>"
      let ?mo = "\<lparr>upd_type = MODIFY, upd_orderId = ord_orderId r, upd_tickerId = t, upd_side = ord_side r,
              upd_price = ord_price r, upd_qty = ord_qty r - leaves, upd_priority = ord_priority r\<rparr>"
      have "leads_to ([?tr] @ [?mo]) (mirror B) (mirror (B(opp side := rest)))"
        using modify_front [OF 2(4) os 2(5), of ?mo] res(2) by (intro leads_to_append [OF trade_update_leads]) simp_all
      then show ?thesis using ne by (simp add: res(1) updates_of_trade del: fun_upd_apply)
    qed
  qed
qed

section \<open>Adding and cancelling an order\<close>

lemma map_front:
  assumes "rest = drop k rs \<or> (k < length rs \<and> (\<exists>q. q \<noteq> 0 \<and> rest = (rs ! k)\<lparr>ord_qty := q\<rparr> # drop (Suc k) rs))"
    and f: "\<And>(r :: SMEOrder) q. f (r\<lparr>ord_qty := q\<rparr>) = f r"
  shows "map f rest = drop k (map f rs)"
  using assms(1)
proof
  assume "k < length rs \<and> (\<exists>q. q \<noteq> 0 \<and> rest = (rs ! k)\<lparr>ord_qty := q\<rparr> # drop (Suc k) rs)"
  then obtain q where q: "k < length rs" "rest = (rs ! k)\<lparr>ord_qty := q\<rparr> # drop (Suc k) rs" by blast
  have "map f rest = map f (rs ! k # drop (Suc k) rs)" using f by (simp add: q(2))
  then show ?thesis unfolding Cons_nth_drop_Suc [OF q(1)] by (simp add: drop_map)
qed (simp add: drop_map)

lemma spec_fill_rest_ids:
  assumes "spec_fill side price leaves rs = (fills, l, rest)"
  shows "\<exists>k. map ord_orderId rest = drop k (map ord_orderId rs) \<and> map ord_side rest = drop k (map ord_side rs)
    \<and> map ord_price rest = drop k (map ord_price rs)"
proof -
  obtain k where k: "rest = drop k rs \<or> (k < length rs \<and> (\<exists>q. q \<noteq> 0 \<and> rest = (rs ! k)\<lparr>ord_qty := q\<rparr> # drop (Suc k) rs))"
    using spec_fill_rest [OF assms] by blast
  show ?thesis by (intro exI [of _ k] conjI map_front [OF k]) simp_all
qed

lemma oids_ok_rest:
  assumes ok: "oids_ok B" and sd: "sd \<in> sides" and f: "spec_fill side price leaves (B sd) = (fills, l, rest)"
  shows "oids_ok (B(sd := rest))" and "ord_orderId ` set rest \<subseteq> ord_orderId ` set (B sd)"
    and "ord_price ` set rest \<subseteq> ord_price ` set (B sd)" and "length rest \<le> length (B sd)"
proof -
  obtain k where k: "map ord_orderId rest = drop k (map ord_orderId (B sd))" "map ord_side rest = drop k (map ord_side (B sd))"
    "map ord_price rest = drop k (map ord_price (B sd))" using spec_fill_rest_ids [OF f] by blast
  have i: "set (map ord_orderId rest) \<subseteq> set (map ord_orderId (B sd))" unfolding k by (rule set_drop_subset)
  then show ids: "ord_orderId ` set rest \<subseteq> ord_orderId ` set (B sd)" by simp
  have "set (map ord_price rest) \<subseteq> set (map ord_price (B sd))" unfolding k by (rule set_drop_subset)
  then show "ord_price ` set rest \<subseteq> ord_price ` set (B sd)" by simp
  show "length rest \<le> length (B sd)" using arg_cong [OF k(1), of length] by simp
  have "set (map ord_side rest) \<subseteq> set (map ord_side (B sd))" unfolding k by (rule set_drop_subset)
  then have s: "\<forall>r\<in>set rest. ord_side r = sd" using ok sd by (auto simp: oids_ok_def)
  have d: "distinct (map ord_orderId rest)" unfolding k(1) using ok sd by (intro distinct_drop) (simp add: oids_ok_sides)
  show "oids_ok (B(sd := rest))"
    using ok d s ids opp_neq [OF sd] unfolding oids_ok_sides [OF sd] by auto
qed

lemma oids_ok_insert:
  assumes ok: "oids_ok B" and sd: "sd \<in> sides" "ord_side n = sd" and fresh: "ord_orderId n \<notin> ord_orderId ` live_orders B"
  shows "oids_ok (B(sd := spec_insert ord_price sd n (B sd)))"
proof -
  have "ord_orderId n \<notin> ord_orderId ` set (B sd)" "ord_orderId n \<notin> ord_orderId ` set (B (opp sd))"
    using fresh sd(1) by (auto simp: live_orders_def sides_def opp_def)
  then show ?thesis using ok sd(2) opp_neq [OF sd(1)] unfolding oids_ok_sides [OF sd(1)] by (auto simp: spec_insert_distinct)
qed

lemma add_leads:
  assumes sd: "side \<in> sides" and id: "unat moid < ME_MAX_ORDER_IDS" "moid \<notin> ord_orderId ` live_orders B"
    and td: "\<forall>r\<in>live_orders B. PriceToIndex (ord_price r) = PriceToIndex price \<longrightarrow> ord_price r = price"
    and un: "\<forall>r\<in>set (B (opp side)). ord_price r \<noteq> price"
    and room: "has_room B"
    and new: "mview new = upd_order u" and u: "upd_type u = ADD" "upd_side u = side" "upd_orderId u = moid" "upd_price u = price"
  shows "leads_to [u] (mirror B) (mirror (B(side := spec_insert ord_price side new (B side))))"
proof (rule leads_to_one)
  have lv: "r \<in> live_orders B" if "sd \<in> sides" "r \<in> set (B sd)" for sd r using that by (auto simp: live_orders_def sides_def)
  have "sd = side \<and> ord_price r = price"
    if r: "sd \<in> sides" "r \<in> set (mirror B sd)" "PriceToIndex (ord_price r) = PriceToIndex price" for sd r
  proof -
    obtain r0 where r0: "r0 \<in> set (B sd)" "r = mview r0" using r(2) by (auto simp: mirror_def)
    then have "ord_price r0 = price" using td lv [OF r(1)] r(3) by simp
    moreover have "sd \<noteq> opp side" using un r0 calculation by auto
    ultimately show ?thesis using r0 sd r(1) by (auto simp: sides_def opp_def)
  qed
  then have "\<forall>sd\<in>sides. \<forall>r\<in>set (mirror B sd). PriceToIndex (ord_price r) = PriceToIndex price \<longrightarrow> sd = side \<and> ord_price r = price"
    by blast
  moreover have "ord_orderId ` mlive (mirror B) = ord_orderId ` live_orders B" "ord_price ` mlive (mirror B) = ord_price ` live_orders B"
    by (simp_all add: mlive_mirror image_image)
  moreover have "length (mirror B BUY) + length (mirror B SELL) + 1 < ME_MAX_ORDER_IDS" "card (ord_price ` live_orders B) + 1 < ME_MAX_PRICE_LEVELS"
    using room by (simp_all add: has_room_def mirror_def)
  ultimately show "upd_fits u (mirror B)"
    unfolding upd_fits_def u EMarketUpdateType.case using sd id by presburger
  have "spec_update u (mirror B) sd = mirror (B(side := spec_insert ord_price side new (B side))) sd" for sd
    using u spec_insert_map [of ord_price mview ord_price side new "B side"] new by (simp add: spec_update_def mirror_def)
  then show "mbook_eq (spec_update u (mirror B)) (mirror (B(side := spec_insert ord_price side new (B side))))"
    by (simp add: mbook_eq_def)
qed

lemma crosses_self: "side \<in> sides \<Longrightarrow> crosses side p p"
  by (auto simp: crosses_def price_misses_def sides_def)

lemma AddOrder_leads:
  assumes inv: "spec_inv m B" and ok: "oids_ok B" and sd: "side \<in> sides" and id: "unat m < ME_MAX_ORDER_IDS"
    and td: "table_distinguishes price B" and room: "has_room B"
    and spec: "spec_AddOrder client coid t side price qty m B = (B', calls)"
  shows "leads_to (updates_of calls) (mirror B) (mirror B')" and "oids_ok B'"
proof -
  obtain fills l rest where f: "spec_fill side price qty (B (opp side)) = (fills, l, rest)" by (metis prod_cases3)
  let ?B1 = "B(opp side := rest)"
  have os: "opp side \<in> sides" by simp
  note R = oids_ok_rest [OF ok os f] and D = spec_invD [OF inv sd]
  note cases = spec_AddOrder_cases [where B = B, OF f refl refl refl refl, of client coid t m]
  note fl = fills_lead [OF f sd ok refl, of t client coid "ucast (ucast m :: Qty)"]
  have lv: "set (?B1 side) = set (B side)" "set (?B1 (opp side)) = set rest" using sd by simp_all
  have live: "live_orders ?B1 = set (B side) \<union> set rest" "live_orders B = set (B side) \<union> set (B (opp side))"
    using sd by (auto simp: live_orders_def sides_def opp_def)
  have ids: "ord_orderId ` live_orders ?B1 \<subseteq> ord_orderId ` live_orders B" "ord_price ` live_orders ?B1 \<subseteq> ord_price ` live_orders B"
    unfolding live image_Un using R(2,3) by auto
  have fresh: "m \<notin> ord_orderId ` live_orders B" using D(1,2) unfolding live by (auto simp: side_inv_def)
  have "leads_to (updates_of calls) (mirror B) (mirror B') \<and> oids_ok B'"
  proof (cases "l = 0")
    case True
    then show ?thesis using spec cases fl R(1) by auto
  next
    case False
    define new where "new = \<lparr>ord_orderId = m, ord_side = side, ord_price = price, ord_qty = l, ord_priority = spec_priority price (?B1 side),
                 pPrevOrder = None, pNextOrder = None, ord_tickerId = t, ord_clientId = client, ord_clientOrderId = coid\<rparr>"
    define u where "u = \<lparr>upd_type = ADD, upd_orderId = m, upd_tickerId = t, upd_side = side,
                 upd_price = price, upd_qty = l, upd_priority = spec_priority price (?B1 side)\<rparr>"
    have un: "\<forall>r\<in>set rest. ord_price r \<noteq> price"
      using spec_fill_uncrossed [OF _ sd f False] D(2) precedes_sorted crosses_self [OF sd] by (fastforce simp: side_inv_def)
    have hr: "has_room ?B1"
    proof -
      have "card (ord_price ` live_orders ?B1) \<le> card (ord_price ` live_orders B)" by (rule card_mono [OF _ ids(2)]) (simp add: live_orders_def)
      moreover have "length (?B1 BUY) + length (?B1 SELL) \<le> length (B BUY) + length (B SELL)"
        using R(4) sd by (cases "side = BUY") (auto simp: opp_def sides_def)
      ultimately show ?thesis using room by (simp add: has_room_def)
    qed
    have td': "\<forall>r\<in>live_orders ?B1. PriceToIndex (ord_price r) = PriceToIndex price \<longrightarrow> ord_price r = price"
    proof (intro ballI impI)
      fix r assume r: "r \<in> live_orders ?B1" and e: "PriceToIndex (ord_price r) = PriceToIndex price"
      then obtain r0 where "r0 \<in> live_orders B" "ord_price r0 = ord_price r" using ids(2) by (metis (no_types, lifting) image_iff subsetD)
      then show "ord_price r = price" using td e by (auto simp: table_distinguishes_def)
    qed
    have add: "leads_to [u] (mirror ?B1) (mirror (?B1(side := spec_insert ord_price side new (?B1 side))))"
      by (rule add_leads [OF sd id _ td' _ hr, where u = u]) (use fresh ids(1) un in \<open>auto simp: new_def u_def mview_def upd_order_def\<close>)
    have "oids_ok (?B1(side := spec_insert ord_price side new (?B1 side)))"
      by (rule oids_ok_insert [OF R(1) sd]) (use fresh ids(1) in \<open>auto simp: new_def\<close>)
    moreover have "B' = ?B1(side := spec_insert ord_price side new (?B1 side))"
      "updates_of calls = updates_of (fill_calls t client side coid (ucast (ucast m :: Qty)) qty fills) @ [u]"
      using spec cases False by (auto simp: new_def u_def)
    ultimately show ?thesis using leads_to_append [OF fl add] by simp
  qed
  then show "leads_to (updates_of calls) (mirror B) (mirror B')" and "oids_ok B'" by simp_all
qed

lemma cancel_leads:
  assumes ok: "oids_ok B" and sd: "sd \<in> sides" and r: "r \<in> set (B sd)"
    and u: "upd_type u = CANCEL" "upd_orderId u = ord_orderId r" "upd_side u = ord_side r" "upd_price u = ord_price r"
  shows "leads_to [u] (mirror B) (mirror (B(sd := remove1 r (B sd))))" and "oids_ok (B(sd := remove1 r (B sd)))"
proof -
  note D = ok [unfolded oids_ok_sides [OF sd]]
  have d: "distinct (B sd)" using D by (simp add: distinct_map)
  have inj: "ord_orderId x = ord_orderId r \<longleftrightarrow> x = r" if "x \<in> set (B sd)" for x
    using D r that by (auto simp: distinct_map inj_on_def)
  have "spec_update u (mirror B) sd' = mirror (B(sd := remove1 r (B sd))) sd'" if sd': "sd' \<in> sides" for sd'
  proof (cases "sd' = sd")
    case True
    have "filter (\<lambda>x. ord_orderId x \<noteq> ord_orderId r) (B sd) = remove1 r (B sd)"
      unfolding distinct_remove1_removeAll [OF d] removeAll_filter_not_eq using inj by (intro filter_cong) auto
    then show ?thesis using True u by (simp add: spec_update_def mirror_def filter_map comp_def)
  next
    case False
    then have "sd' = opp sd" using sd sd' by (auto simp: sides_def)
    then have "ord_orderId x \<noteq> ord_orderId r" if "x \<in> set (B sd')" for x
      using D imageI [OF r, of ord_orderId] imageI [OF that, of ord_orderId] by auto
    then show ?thesis using False u by (auto simp: spec_update_def mirror_def filter_map comp_def intro!: filter_True)
  qed
  moreover have "upd_fits u (mirror B)"
    using names_live_mirror [of sd r B u] sd r u by (simp add: upd_fits_def)
  ultimately show "leads_to [u] (mirror B) (mirror (B(sd := remove1 r (B sd))))" by (intro leads_to_one) (simp_all add: mbook_eq_def)
  have "distinct (map ord_orderId (remove1 r (B sd)))"
    using D d by (simp add: distinct_map inj_on_diff)
  moreover have "ord_orderId ` set (remove1 r (B sd)) \<subseteq> ord_orderId ` set (B sd)" by (intro image_mono set_remove1_subset)
  moreover have "\<forall>x\<in>set (remove1 r (B sd)). ord_side x = sd" using D sd set_remove1_subset [of r "B sd"] by blast
  ultimately show "oids_ok (B(sd := remove1 r (B sd)))"
    using D opp_neq [OF sd] unfolding oids_ok_sides [OF sd] by auto
qed

lemma CancelOrder_leads:
  assumes ok: "oids_ok B" and spec: "spec_CancelOrder client coid t B = (B', calls)"
  shows "leads_to (updates_of calls) (mirror B) (mirror B')" and "oids_ok B'"
proof -
  have "leads_to (updates_of calls) (mirror B) (mirror B') \<and> oids_ok B'"
  proof (cases "spec_find client coid B")
    case None
    then show ?thesis using spec ok by (auto simp: spec_CancelOrder_def intro!: leads_to_Nil)
  next
    case (Some r)
    then have "r \<in> set (B BUY @ B SELL)" unfolding spec_find_def find_Some_iff by (auto simp: nth_append)
    then obtain sd where sd: "sd \<in> sides" "r \<in> set (B sd)" by (auto simp: sides_def)
    have os: "ord_side r = sd" using ok sd by (simp add: oids_ok_def)
    show ?thesis using cancel_leads [OF ok sd, of "\<lparr>upd_type = CANCEL, upd_orderId = ord_orderId r, upd_tickerId = t, upd_side = ord_side r,
             upd_price = ord_price r, upd_qty = 0, upd_priority = ord_priority r\<rparr>"] Some os spec
      by (auto simp: spec_CancelOrder_def simp del: fun_upd_apply)
  qed
  then show "leads_to (updates_of calls) (mirror B) (mirror B')" and "oids_ok B'" by simp_all
qed

section \<open>The whole stream\<close>

text \<open>The updates of each ticker describe its book.\<close>

definition feed_inv :: "spec_engine \<Rightarrow> bool" where
  "feed_inv sp \<longleftrightarrow> (\<forall>t. leads_to (ticker_feed t (sp_updates sp)) (\<lambda>_. []) (mirror (sp_books sp t)) \<and> oids_ok (sp_books sp t))"

lemma fill_calls_ticker: "u \<in> set (updates_of (fill_calls t c side coid moid leaves fs)) \<Longrightarrow> upd_tickerId u = t"
  by (induction t c side coid moid leaves fs rule: fill_calls.induct) (auto simp: updates_of_trade split: if_splits)

lemma spec_result_ticker:
  assumes "spec_result r sp = (B, calls)" and "u \<in> set (updates_of calls)"
  shows "upd_tickerId u = req_tickerId r"
  using assms fill_calls_ticker
  by (auto simp: spec_result_def spec_AddOrder_def spec_CancelOrder_def Let_def split: if_splits prod.splits option.splits)

lemma ticker_feed_result:
  assumes "spec_result r sp = (B, calls)"
  shows "ticker_feed t (updates_of calls) = (if t = req_tickerId r then updates_of calls else [])"
  using spec_result_ticker [OF assms] by (auto simp: ticker_feed_def filter_empty_conv filter_id_conv)

lemma spec_request_feed:
  assumes inv: "spec_engine_inv sp" and feed: "feed_inv sp" and ok: "request_ok r sp"
    and id: "req_type r = Req_NEW \<Longrightarrow> unat (sp_next sp (req_tickerId r)) < ME_MAX_ORDER_IDS"
  shows "feed_inv (spec_request r sp)"
proof -
  define t where "t = req_tickerId r"
  obtain B calls where res: "spec_result r sp = (B, calls)" by fastforce
  have F: "leads_to (ticker_feed t' (sp_updates sp)) (\<lambda>_. []) (mirror (sp_books sp t'))" "oids_ok (sp_books sp t')" for t'
    using feed by (simp_all add: feed_inv_def)
  have i: "spec_inv (sp_next sp t) (sp_books sp t)" using inv by (simp add: spec_engine_inv_def)
  have step: "leads_to (updates_of calls) (mirror (sp_books sp t)) (mirror B) \<and> oids_ok B"
  proof (cases "req_type r = Req_NEW")
    case True
    then have c: "req_side r \<in> sides" "table_distinguishes (req_price r) (sp_books sp t)" "has_room (sp_books sp t)"
      and idn: "unat (sp_next sp t) < ME_MAX_ORDER_IDS" using ok id by (simp_all add: request_ok_def Let_def t_def)
    have "spec_AddOrder (req_clientId r) (req_orderId r) t (req_side r) (req_price r) (req_qty r) (sp_next sp t) (sp_books sp t) = (B, calls)"
      using res True by (simp add: spec_result_def t_def Let_def)
    then show ?thesis using AddOrder_leads [OF i F(2) c(1) idn c(2,3)] by blast
  next
    case False
    then have "spec_CancelOrder (req_clientId r) (req_orderId r) t (sp_books sp t) = (B, calls)"
      using res by (simp add: spec_result_def t_def Let_def)
    then show ?thesis using CancelOrder_leads [OF F(2)] by blast
  qed
  have b: "sp_books (spec_request r sp) = (sp_books sp)(t := B)" "sp_updates (spec_request r sp) = sp_updates sp @ updates_of calls"
    using res by (simp_all add: spec_request_def Let_def t_def)
  show ?thesis
    unfolding feed_inv_def b ticker_feed_append ticker_feed_result [OF res]
    using F step leads_to_append [OF F(1)] by (simp add: t_def)
qed

lemma spec_requests_feed:
  "spec_engine_inv sp \<Longrightarrow> feed_inv sp \<Longrightarrow> requests_ok rs sp \<Longrightarrow> (\<forall>t. unat (sp_next sp t) + length rs \<le> ME_MAX_ORDER_IDS)
    \<Longrightarrow> feed_inv (fold spec_request rs sp)"
proof (induction rs arbitrary: sp)
  case (Cons r rs)
  have ok: "request_ok r sp" using Cons.prems by simp
  have "unat (sp_next sp t) < ME_MAX_ORDER_IDS" for t using spec [OF Cons.prems(4), of t] by simp
  then have f: "feed_inv (spec_request r sp)" using spec_request_feed [OF Cons.prems(1,2) ok] by blast
  have "unat (sp_next (spec_request r sp) t) + length rs \<le> ME_MAX_ORDER_IDS" for t
  proof -
    have "sp_next (spec_request r sp) t = sp_next sp t \<or> sp_next (spec_request r sp) t = sp_next sp t + 1"
      by (simp add: spec_request_def Let_def split: prod.split)
    moreover have "unat (sp_next sp t + 1) \<le> Suc (unat (sp_next sp t))" by (simp add: unat_word_ariths)
    moreover have "Suc (unat (sp_next sp t)) + length rs \<le> ME_MAX_ORDER_IDS" using spec [OF Cons.prems(4), of t] by simp
    ultimately show ?thesis by (elim disjE) simp_all
  qed
  then have "\<forall>t. unat (sp_next (spec_request r sp) t) + length rs \<le> ME_MAX_ORDER_IDS" by blast
  then show ?case using Cons.IH [OF spec_request_inv [OF Cons.prems(1) ok] f] Cons.prems(3) by simp
qed simp

lemma feed_inv_start: "feed_inv spec_start"
  by (auto simp: feed_inv_def spec_start_def ticker_feed_def oids_ok_def mbook_eq_def mirror_def intro!: leads_to_Nil)

end
