(* ===== verification/MarketOrderBook.thy ===== *)
theory MarketOrderBook
  imports BookFacts Messages
begin

text \<open>
  \<open>trading/strategy/MarketOrderBook.h\<close> and \<open>.cpp\<close>, \<open>MarketOrder.h\<close>: the client's copy of one
  ticker's order book, driven by the exchange's market updates, and its best bid and offer.  The
  linked part is the \<open>book_core\<close> that the exchange's book has too.  The calls to the trade engine
  (\<open>onTradeUpdate\<close>, \<open>onOrderBookUpdate\<close>) are the last action of \<open>OnMarketUpdate\<close>; they are recorded
  in \<open>notified\<close> and performed by the trade engine.
\<close>

section \<open>State\<close>

record SBBO =
  bidPrice :: Price
  askPrice :: Price
  bidQty :: Qty
  askQty :: Qty

definition SBBO_default :: SBBO where
  "SBBO_default = \<lparr>bidPrice = Price_INVALID, askPrice = Price_INVALID, bidQty = Qty_INVALID, askQty = Qty_INVALID\<rparr>"

definition SBBO_ToString :: "SBBO \<Rightarrow> string" where
  "SBBO_ToString b = ''BBO{'' @ QtyToString (bidQty b) @ ''@'' @ PriceToString (bidPrice b)
     @ ''X'' @ PriceToString (askPrice b) @ ''@'' @ QtyToString (askQty b) @ ''}''"

datatype book_event = OnTradeUpdate SMEMarketUpdate | OnOrderBookUpdate TickerId Price ESide

type_synonym mkt_core = "unit book_core"

record CMarketOrderBook =
  mb_tickerId :: TickerId
  m_oidToOrder :: "OrderId \<Rightarrow> ptr"
  mb_core :: mkt_core
  m_pBbo :: SBBO
  notified :: "book_event list"

definition SMarketOrder_default :: SMarketOrder where
  "SMarketOrder_default = \<lparr>ord_orderId = OrderId_INVALID, ord_side = Side_INVALID, ord_price = Price_INVALID,
     ord_qty = Qty_INVALID, ord_priority = Priority_INVALID, pPrevOrder = None, pNextOrder = None\<rparr>"

text \<open>The two arrays of pointers are not initialised by the code; the model starts them with null pointers.\<close>

definition CMarketOrderBook_new :: "TickerId \<Rightarrow> CMarketOrderBook" where
  "CMarketOrderBook_new ticker_id = \<lparr>mb_tickerId = ticker_id, m_oidToOrder = (\<lambda>_. None),
     mb_core = book_core_new ME_MAX_PRICE_LEVELS ME_MAX_ORDER_IDS SMarketOrder_default,
     m_pBbo = SBBO_default, notified = []\<rparr>"

section \<open>Levels and orders\<close>

text \<open>These members are, statement for statement, those of the exchange's book.\<close>

definition mkt_GetOrdersAtPrice :: "Price \<Rightarrow> mkt_core \<Rightarrow> ptr outcome" where
  "mkt_GetOrdersAtPrice = GetOrdersAtPrice"

definition mkt_AddOrdersAtPrice :: "ptr \<Rightarrow> mkt_core \<Rightarrow> mkt_core outcome" where
  "mkt_AddOrdersAtPrice = AddOrdersAtPrice"

definition mkt_RemoveOrdersAtPrice :: "ESide \<Rightarrow> Price \<Rightarrow> mkt_core \<Rightarrow> mkt_core outcome" where
  "mkt_RemoveOrdersAtPrice = RemoveOrdersAtPrice"

definition mkt_unlink_order :: "ptr \<Rightarrow> ptr \<Rightarrow> mkt_core \<Rightarrow> mkt_core outcome" where
  "mkt_unlink_order = unlink_order"

definition mkt_link_order :: "ptr \<Rightarrow> ptr \<Rightarrow> mkt_core \<Rightarrow> mkt_core outcome" where
  "mkt_link_order = link_order"

definition oid_set :: "OrderId \<Rightarrow> ptr \<Rightarrow> CMarketOrderBook \<Rightarrow> CMarketOrderBook outcome" where
  "oid_set oid x bk = bindE (arr_set ME_MAX_ORDER_IDS (m_oidToOrder bk) oid x) (\<lambda>m. Inr (bk\<lparr>m_oidToOrder := m\<rparr>))"

definition mkt_RemoveOrder :: "ptr \<Rightarrow> CMarketOrderBook \<Rightarrow> CMarketOrderBook outcome" where
  "mkt_RemoveOrder order b0 =
     bindE (get_ord (mb_core b0) order) (\<lambda>o0.
     bindE (mkt_GetOrdersAtPrice (ord_price o0) (mb_core b0)) (\<lambda>oap.
     bindE (if pPrevOrder o0 = order
            then mkt_RemoveOrdersAtPrice (ord_side o0) (ord_price o0) (mb_core b0)
            else mkt_unlink_order order oap (mb_core b0)) (\<lambda>c1.
     bindE (get_ord c1 order) (\<lambda>o1.
     bindE (oid_set (ord_orderId o1) None (b0\<lparr>mb_core := c1\<rparr>)) (\<lambda>b2.
     bindE (Deallocate order (m_orderPool (mb_core b2))) (\<lambda>p.
     Inr (b2\<lparr>mb_core := (mb_core b2)\<lparr>m_orderPool := p\<rparr>\<rparr>)))))))"

definition mkt_AddOrder :: "ptr \<Rightarrow> CMarketOrderBook \<Rightarrow> CMarketOrderBook outcome" where
  "mkt_AddOrder order b0 =
     bindE (get_ord (mb_core b0) order) (\<lambda>o0.
     bindE (mkt_GetOrdersAtPrice (ord_price o0) (mb_core b0)) (\<lambda>oap.
     bindE (if oap = None
            then bindE (set_ord order (\<lambda>x. x\<lparr>pPrevOrder := order\<rparr>) (mb_core b0)) (\<lambda>c1.
                 bindE (set_ord order (\<lambda>x. x\<lparr>pNextOrder := order\<rparr>) c1) (\<lambda>c2.
                 bindE (Allocate \<lparr>lvl_side = ord_side o0, lvl_price = ord_price o0, pFirstOrder = order,
                                  pPrevEntry = None, pNextEntry = None\<rparr> (m_ordersAtPricePool c2)) (\<lambda>(n, p).
                 mkt_AddOrdersAtPrice (Some n) (c2\<lparr>m_ordersAtPricePool := p\<rparr>))))
            else bindE (get_lvl (mb_core b0) oap) (\<lambda>l. mkt_link_order order (pFirstOrder l) (mb_core b0))) (\<lambda>c.
     bindE (get_ord c order) (\<lambda>o1.
     oid_set (ord_orderId o1) order (b0\<lparr>mb_core := c\<rparr>)))))"

section \<open>The best bid and offer\<close>

text \<open>
  The loop that adds up the quantities at the best level; \<open>fuel\<close> is the size of the order pool and
  a ring of orders is shorter.
\<close>

fun sum_qty :: "nat \<Rightarrow> mkt_core \<Rightarrow> ptr \<Rightarrow> ptr \<Rightarrow> Qty \<Rightarrow> Qty outcome" where
  "sum_qty fuel b first pOrder acc =
     (if pOrder = first then Inr acc
      else if fuel = 0 then Inl Diverges
      else bindE (get_ord b pOrder) (\<lambda>o'. sum_qty (fuel - 1) b first (pNextOrder o') (acc + ord_qty o')))"

declare sum_qty.simps [simp del]

definition top_of_book :: "ptr \<Rightarrow> mkt_core \<Rightarrow> (Price \<times> Qty) outcome" where
  "top_of_book best b =
     (if best = None then Inr (Price_INVALID, Qty_INVALID)
      else bindE (get_lvl b best) (\<lambda>l.
           bindE (get_ord b (pFirstOrder l)) (\<lambda>f.
           bindE (sum_qty (m_size (m_orderPool b)) b (pFirstOrder l) (pNextOrder f) (ord_qty f)) (\<lambda>q.
           Inr (lvl_price l, q)))))"

definition UpdateBBO :: "bool \<Rightarrow> bool \<Rightarrow> CMarketOrderBook \<Rightarrow> CMarketOrderBook outcome" where
  "UpdateBBO updateBid updateAsk b0 =
     bindE (if updateBid
            then bindE (top_of_book (m_pBidsByPrice (mb_core b0)) (mb_core b0)) (\<lambda>(p, q).
                 Inr (b0\<lparr>m_pBbo := (m_pBbo b0)\<lparr>bidPrice := p, bidQty := q\<rparr>\<rparr>))
            else Inr b0) (\<lambda>b1.
     if updateAsk
     then bindE (top_of_book (m_pAsksByPrice (mb_core b1)) (mb_core b1)) (\<lambda>(p, q).
          Inr (b1\<lparr>m_pBbo := (m_pBbo b1)\<lparr>askPrice := p, askQty := q\<rparr>\<rparr>))
     else Inr b1)"

section \<open>Market updates\<close>

text \<open>
  \<open>CLEAR\<close>: every order goes back to its pool, then every level of the two rings; the table of
  levels by price is left as it is.
\<close>

definition clear_orders :: "(OrderId \<Rightarrow> ptr) \<Rightarrow> 'o CMemoryPool \<Rightarrow> 'o CMemoryPool outcome" where
  "clear_orders m = foldE (\<lambda>i p. if m (of_nat i) \<noteq> None then Deallocate (m (of_nat i)) p else Inr p) [0..<ME_MAX_ORDER_IDS]"

fun clear_ring :: "nat \<Rightarrow> ptr \<Rightarrow> ptr \<Rightarrow> SMEOrdersAtPrice CMemoryPool \<Rightarrow> SMEOrdersAtPrice CMemoryPool outcome" where
  "clear_ring fuel best itr p =
     (if itr = best then Inr p
      else if fuel = 0 then Inl Diverges
      else bindE (Deallocate itr p) (\<lambda>p1. bindE (deref p1 itr) (\<lambda>l. clear_ring (fuel - 1) best (pNextEntry l) p1)))"

declare clear_ring.simps [simp del]

definition clear_levels :: "ptr \<Rightarrow> SMEOrdersAtPrice CMemoryPool \<Rightarrow> SMEOrdersAtPrice CMemoryPool outcome" where
  "clear_levels best p =
     (if best = None then Inr p
      else bindE (deref p best) (\<lambda>l.
           bindE (clear_ring (m_size p) best (pNextEntry l) p) (\<lambda>p1. Deallocate best p1)))"

definition mkt_Clear :: "CMarketOrderBook \<Rightarrow> CMarketOrderBook outcome" where
  "mkt_Clear b0 = (let c = mb_core b0 in
     bindE (clear_orders (m_oidToOrder b0) (m_orderPool c)) (\<lambda>op.
     bindE (clear_levels (m_pBidsByPrice c) (m_ordersAtPricePool c)) (\<lambda>lp1.
     bindE (clear_levels (m_pAsksByPrice c) lp1) (\<lambda>lp2.
     Inr (b0\<lparr>m_oidToOrder := (\<lambda>_. None),
             mb_core := c\<lparr>m_orderPool := op, m_ordersAtPricePool := lp2, m_pBidsByPrice := None, m_pAsksByPrice := None\<rparr>\<rparr>)))))"

text \<open>Which sides of the BBO the update may change, decided before it is applied.\<close>

definition bid_updated :: "SMEMarketUpdate \<Rightarrow> mkt_core \<Rightarrow> bool outcome" where
  "bid_updated u c =
     (if m_pBidsByPrice c \<noteq> None \<and> upd_side u = BUY
      then bindE (get_lvl c (m_pBidsByPrice c)) (\<lambda>l. Inr (sint (upd_price u) \<ge> sint (lvl_price l)))
      else Inr False)"

definition ask_updated :: "SMEMarketUpdate \<Rightarrow> mkt_core \<Rightarrow> bool outcome" where
  "ask_updated u c =
     (if m_pAsksByPrice c \<noteq> None \<and> upd_side u = SELL
      then bindE (get_lvl c (m_pAsksByPrice c)) (\<lambda>l. Inr (sint (upd_price u) \<le> sint (lvl_price l)))
      else Inr False)"

definition apply_update :: "SMEMarketUpdate \<Rightarrow> CMarketOrderBook \<Rightarrow> CMarketOrderBook outcome" where
  "apply_update u b0 =
     (case upd_type u of
        ADD \<Rightarrow> bindE (Allocate \<lparr>ord_orderId = upd_orderId u, ord_side = upd_side u, ord_price = upd_price u, ord_qty = upd_qty u,
                 ord_priority = upd_priority u, pPrevOrder = None, pNextOrder = None\<rparr> (m_orderPool (mb_core b0))) (\<lambda>(n, p).
               mkt_AddOrder (Some n) (b0\<lparr>mb_core := (mb_core b0)\<lparr>m_orderPool := p\<rparr>\<rparr>))
      | MODIFY \<Rightarrow> bindE (arr_at ME_MAX_ORDER_IDS (m_oidToOrder b0) (upd_orderId u)) (\<lambda>order.
                 bindE (set_ord order (\<lambda>x. x\<lparr>ord_qty := upd_qty u\<rparr>) (mb_core b0)) (\<lambda>c. Inr (b0\<lparr>mb_core := c\<rparr>)))
      | CANCEL \<Rightarrow> bindE (arr_at ME_MAX_ORDER_IDS (m_oidToOrder b0) (upd_orderId u)) (\<lambda>order. mkt_RemoveOrder order b0)
      | CLEAR \<Rightarrow> mkt_Clear b0
      | _ \<Rightarrow> Inr b0)"

definition OnMarketUpdate :: "SMEMarketUpdate \<Rightarrow> CMarketOrderBook \<Rightarrow> CMarketOrderBook outcome" where
  "OnMarketUpdate u b0 =
     bindE (bid_updated u (mb_core b0)) (\<lambda>bid.
     bindE (ask_updated u (mb_core b0)) (\<lambda>ask.
     if upd_type u = TRADE then Inr (b0\<lparr>notified := notified b0 @ [OnTradeUpdate u]\<rparr>)
     else bindE (apply_update u b0) (\<lambda>b1.
          bindE (UpdateBBO bid ask b1) (\<lambda>b2.
          Inr (b2\<lparr>notified := notified b2 @ [OnOrderBookUpdate (upd_tickerId u) (upd_price u) (upd_side u)]\<rparr>)))))"

end
