(* ===== verification/MarketRefine.thy ===== *)
theory MarketRefine
  imports MarketOrderBook MarketSpec
begin

text \<open>
  The client's order book follows the market-update stream: \<open>mkt_repr\<close> relates the linked book to
  the two lists of orders of theory \<open>MarketSpec\<close>, and every update keeps the relation.
\<close>

section \<open>The representation\<close>

definition moid_ok :: "CMarketOrderBook \<Rightarrow> nat set \<Rightarrow> bool" where
  "moid_ok bk S \<longleftrightarrow> (\<forall>n\<in>S. unat (ord_orderId (pobj (m_orderPool (mb_core bk)) n)) < ME_MAX_ORDER_IDS)
     \<and> (\<forall>i n. unat i < ME_MAX_ORDER_IDS \<longrightarrow>
          (m_oidToOrder bk i = Some n \<longleftrightarrow> n \<in> S \<and> ord_orderId (pobj (m_orderPool (mb_core bk)) n) = i))"

definition mkt_rep :: "CMarketOrderBook \<Rightarrow> (ESide \<Rightarrow> level_nodes list) \<Rightarrow> bool" where
  "mkt_rep bk ss \<longleftrightarrow> book_rep (mb_core bk) ss {} \<and> moid_ok bk (order_set ss)
     \<and> m_size (m_orderPool (mb_core bk)) = ME_MAX_ORDER_IDS
     \<and> m_size (m_ordersAtPricePool (mb_core bk)) = ME_MAX_PRICE_LEVELS"

definition morders :: "CMarketOrderBook \<Rightarrow> (ESide \<Rightarrow> level_nodes list) \<Rightarrow> mbook" where
  "morders bk ss sd = map (\<lambda>n. strip (pobj (m_orderPool (mb_core bk)) n)) (onodes (ss sd))"

definition mkt_repr :: "CMarketOrderBook \<Rightarrow> mbook \<Rightarrow> bool" where
  "mkt_repr bk B \<longleftrightarrow> (\<exists>ss. mkt_rep bk ss \<and> (\<forall>sd\<in>sides. morders bk ss sd = B sd))"

abbreviation moid :: "CMarketOrderBook \<Rightarrow> nat \<Rightarrow> OrderId" where
  "moid bk n \<equiv> ord_orderId (pobj (m_orderPool (mb_core bk)) n)"

lemma moid_okD:
  assumes "moid_ok bk S" and "n \<in> S"
  shows "unat (moid bk n) < ME_MAX_ORDER_IDS" and "m_oidToOrder bk (moid bk n) = Some n"
    and "k \<in> S \<Longrightarrow> moid bk k = moid bk n \<Longrightarrow> k = n"
  using assms unfolding moid_ok_def by (blast, blast, metis option.inject)

lemma moid_ok_update:
  assumes "moid_ok bk S" and "unat i < ME_MAX_ORDER_IDS"
    and "m_oidToOrder bk' = (m_oidToOrder bk)(i := x)"
    and "\<And>k. k \<in> S' \<Longrightarrow> moid bk' k = i \<longleftrightarrow> x = Some k"
    and "\<And>k. x = Some k \<Longrightarrow> k \<in> S' \<and> k \<notin> S"
    and "\<And>k. k \<in> S' \<Longrightarrow> x \<noteq> Some k \<Longrightarrow> k \<in> S \<and> moid bk' k = moid bk k"
    and "\<And>k. k \<in> S \<Longrightarrow> moid bk k \<noteq> i \<Longrightarrow> k \<in> S'"
  shows "moid_ok bk' S'"
proof -
  have "unat (moid bk' k) < ME_MAX_ORDER_IDS" if "k \<in> S'" for k
  proof (cases "x = Some k")
    case True
    then have "moid bk' k = i" using assms(4) [OF that] by simp
    then show ?thesis using assms(2) by simp
  next
    case False
    then show ?thesis using assms(6) [OF that False] moid_okD(1) [OF assms(1)] by simp
  qed
  moreover have "m_oidToOrder bk' j = Some k \<longleftrightarrow> k \<in> S' \<and> moid bk' k = j" if j: "unat j < ME_MAX_ORDER_IDS" for j k
  proof (cases "j = i")
    case True
    then show ?thesis using assms(3,4,5) by auto
  next
    case False
    then have "m_oidToOrder bk' j = Some k \<longleftrightarrow> k \<in> S \<and> moid bk k = j"
      using assms(1,3) j by (simp add: moid_ok_def)
    moreover have "k \<in> S \<and> moid bk k = j \<longleftrightarrow> k \<in> S' \<and> moid bk' k = j"
    proof (cases "x = Some k")
      case True
      then show ?thesis using assms(4) [of k] assms(5) [of k] False by simp
    next
      case other: False
      show ?thesis using assms(6) [OF _ other] assms(7) [of k] False by auto
    qed
    ultimately show ?thesis by simp
  qed
  ultimately show ?thesis unfolding moid_ok_def by blast
qed

text \<open>The code's \<open>RemoveOrder\<close> and \<open>AddOrder\<close> in terms of the linking of theory \<open>BookCore\<close>.\<close>

lemmas mkt_members = mkt_GetOrdersAtPrice_def mkt_AddOrdersAtPrice_def mkt_RemoveOrdersAtPrice_def
  mkt_unlink_order_def mkt_link_order_def

lemma mkt_RemoveOrder_links:
  "mkt_RemoveOrder order b0 =
     bindE (RemoveOrder_links order (mb_core b0)) (\<lambda>c1.
     bindE (get_ord c1 order) (\<lambda>o1.
     bindE (oid_set (ord_orderId o1) None (b0\<lparr>mb_core := c1\<rparr>)) (\<lambda>b2.
     bindE (Deallocate order (m_orderPool (mb_core b2))) (\<lambda>p.
     Inr (b2\<lparr>mb_core := (mb_core b2)\<lparr>m_orderPool := p\<rparr>\<rparr>)))))"
  unfolding mkt_RemoveOrder_def RemoveOrder_links_def mkt_members by (simp add: bindE_assoc)

lemma mkt_AddOrder_links:
  "mkt_AddOrder order b0 =
     bindE (AddOrder_links order (mb_core b0)) (\<lambda>c.
     bindE (get_ord c order) (\<lambda>o1.
     oid_set (ord_orderId o1) order (b0\<lparr>mb_core := c\<rparr>)))"
  unfolding mkt_AddOrder_def AddOrder_links_def mkt_members by (simp add: bindE_assoc)

lemma oid_set_ok: "unat i < ME_MAX_ORDER_IDS \<Longrightarrow> oid_set i x bk = Inr (bk\<lparr>m_oidToOrder := (m_oidToOrder bk)(i := x)\<rparr>)"
  by (simp add: oid_set_def)

section \<open>Cancelling\<close>

lemma filter_one:
  assumes "distinct ns" and "\<And>k. k \<in> set ns \<Longrightarrow> g (f k) = i \<longleftrightarrow> k = n"
  shows "filter (\<lambda>r. g r \<noteq> i) (map f ns) = map f (remove1 n ns)"
proof -
  have "filter (\<lambda>r. g r \<noteq> i) (map f ns) = map f (filter (\<lambda>k. g (f k) \<noteq> i) ns)" by (simp add: filter_map comp_def)
  also have "filter (\<lambda>k. g (f k) \<noteq> i) ns = filter (\<lambda>k. k \<noteq> n) ns" using assms(2) by (intro filter_cong) auto
  finally show ?thesis using assms(1) by (simp add: distinct_remove1_removeAll removeAll_filter_not_eq neq_commute)
qed

lemma morders_cancel:
  assumes rep: "mkt_rep bk ss" and sd: "sd \<in> sides" and n: "n \<in> set (onodes (ss sd))"
  shows "filter (\<lambda>r. ord_orderId r \<noteq> moid bk n) (morders bk ss sd)
      = map (\<lambda>k. strip (pobj (m_orderPool (mb_core bk)) k)) (remove1 n (onodes (ss sd)))"
    and "sd' \<in> sides \<Longrightarrow> sd' \<noteq> sd \<Longrightarrow> filter (\<lambda>r. ord_orderId r \<noteq> moid bk n) (morders bk ss sd') = morders bk ss sd'"
proof -
  have brep: "book_rep (mb_core bk) ss {}" and iok: "moid_ok bk (order_set ss)" using rep by (simp_all add: mkt_rep_def)
  have os: "k \<in> order_set ss" if "k \<in> set (onodes (ss sd''))" "sd'' \<in> sides" for k sd'' using that by (auto simp: order_set_def)
  have u: "moid bk k = moid bk n \<longleftrightarrow> k = n" if "k \<in> set (onodes (ss sd''))" "sd'' \<in> sides" for k sd''
    using moid_okD(3) [OF iok os [OF n sd] os [OF that]] by auto
  show "filter (\<lambda>r. ord_orderId r \<noteq> moid bk n) (morders bk ss sd)
      = map (\<lambda>k. strip (pobj (m_orderPool (mb_core bk)) k)) (remove1 n (onodes (ss sd)))"
    unfolding morders_def using u sd by (intro filter_one rep_distinct_onodes [OF brep sd]) simp
  show "filter (\<lambda>r. ord_orderId r \<noteq> moid bk n) (morders bk ss sd') = morders bk ss sd'" if "sd' \<in> sides" "sd' \<noteq> sd"
  proof -
    have "sd' = opp sd" using that sd by (auto simp: sides_def)
    then have "n \<notin> set (onodes (ss sd'))" using rep_sides_disjoint [OF brep sd] n by auto
    then have "\<forall>r\<in>set (morders bk ss sd'). ord_orderId r \<noteq> moid bk n" using u that(1) by (auto simp: morders_def)
    then show ?thesis by simp
  qed
qed

lemma mkt_RemoveOrder_spec:
  assumes rep: "mkt_rep bk ss" and sd: "sd \<in> sides" and n: "n \<in> set (onodes (ss sd))"
  shows "\<exists>bk' ss'. mkt_RemoveOrder (Some n) bk = Inr bk' \<and> mkt_rep bk' ss'
    \<and> (\<forall>sd'\<in>sides. morders bk' ss' sd' = filter (\<lambda>r. ord_orderId r \<noteq> moid bk n) (morders bk ss sd'))"
proof -
  have brep: "book_rep (mb_core bk) ss {}" and iok: "moid_ok bk (order_set ss)" using rep by (simp_all add: mkt_rep_def)
  obtain c1 ss' where c1: "RemoveOrder_links (Some n) (mb_core bk) = Inr c1" "book_rep c1 ss' {n}"
    "remove_post (mb_core bk) ss sd n c1 ss'"
    using RemoveOrder_links_spec [OF brep sd n] by auto
  obtain Q where Q: "Deallocate (Some n) (m_orderPool c1) = Inr Q" "book_rep (c1\<lparr>m_orderPool := Q\<rparr>) ss' {}"
    "pobj Q = pobj (m_orderPool c1)" "m_size Q = m_size (m_orderPool c1)"
    using book_rep_deallocate [OF c1(2), of n] by auto
  have st: "strip (pobj Q i) = strip (pobj (m_orderPool (mb_core bk)) i)" for i
    using c1(3) Q(3) by (simp add: remove_post_def)
  have nS: "n \<in> order_set ss" using n sd by (auto simp: order_set_def)
  note idn = moid_okD [OF iok nS]
  define bk' where "bk' = bk\<lparr>mb_core := c1\<lparr>m_orderPool := Q\<rparr>, m_oidToOrder := (m_oidToOrder bk)(moid bk n := None)\<rparr>"
  have ids: "moid bk' k = moid bk k" for k using strip_eqD(1) [OF st] by (simp add: bk'_def)
  have "ord_orderId (pobj (m_orderPool c1) n) = moid bk n" using ids [of n] Q(3) by (simp add: bk'_def)
  then have run: "mkt_RemoveOrder (Some n) bk = Inr bk'"
    using c1(1) Q(1) idn(1) by (simp add: mkt_RemoveOrder_links oid_set_ok bk'_def)
  have post: "\<forall>sd'. sd' \<noteq> sd \<longrightarrow> ss' sd' = ss sd'" "onodes (ss' sd) = remove1 n (onodes (ss sd))"
    using c1(3) by (simp_all add: remove_post_def)
  have os: "order_set ss' = order_set ss - {n}"
    using order_set_update [of sd ss' ss] post rep_sides_disjoint [OF brep sd] rep_distinct_onodes [OF brep sd] n sd by auto
  have "moid_ok bk' (order_set ss')"
    unfolding os by (rule moid_ok_update [OF iok idn(1)]) (use idn(3) ids in \<open>auto simp: bk'_def\<close>)
  then have "mkt_rep bk' ss'" using rep Q(2,4) c1(3) by (simp add: mkt_rep_def bk'_def remove_post_def)
  moreover have "morders bk' ss' sd' = filter (\<lambda>r. ord_orderId r \<noteq> moid bk n) (morders bk ss sd')" if "sd' \<in> sides" for sd'
    using morders_cancel [OF rep sd n] post st that by (cases "sd' = sd") (simp_all add: morders_def bk'_def)
  ultimately show ?thesis using run by blast
qed

section \<open>Adding\<close>

lemma mkt_Add_spec:
  assumes rep: "mkt_rep bk ss" and fits: "upd_fits u (morders bk ss)" and ty: "upd_type u = ADD"
  shows "\<exists>bk' ss'. apply_update u bk = Inr bk' \<and> mkt_rep bk' ss'
    \<and> (\<forall>sd'\<in>sides. morders bk' ss' sd' = spec_update u (morders bk ss) sd')"
proof -
  let ?Q = "m_orderPool (mb_core bk)"
  define sd where "sd = upd_side u"
  have brep: "book_rep (mb_core bk) ss {}" and iok: "moid_ok bk (order_set ss)" using rep by (simp_all add: mkt_rep_def)
  have sz: "m_size ?Q = ME_MAX_ORDER_IDS" "m_size (m_ordersAtPricePool (mb_core bk)) = ME_MAX_PRICE_LEVELS"
    using rep by (simp_all add: mkt_rep_def)
  have fit: "sd \<in> sides" "unat (upd_orderId u) < ME_MAX_ORDER_IDS" "upd_orderId u \<notin> ord_orderId ` mlive (morders bk ss)"
    "\<And>sd' r. sd' \<in> sides \<Longrightarrow> r \<in> set (morders bk ss sd') \<Longrightarrow> PriceToIndex (ord_price r) = PriceToIndex (upd_price u)
        \<Longrightarrow> sd' = sd \<and> ord_price r = upd_price u"
    "length (morders bk ss BUY) + length (morders bk ss SELL) + 1 < ME_MAX_ORDER_IDS"
    "card (ord_price ` mlive (morders bk ss)) + 1 < ME_MAX_PRICE_LEVELS"
    using fits ty unfolding sd_def by (auto simp: upd_fits_def)
  have live: "g ` mlive (morders bk ss) = (\<lambda>n. g (strip (pobj ?Q n))) ` order_set ss" for g :: "SMarketOrder \<Rightarrow> 'x"
    by (simp add: mlive_def morders_def order_set_sides image_Un image_image)
  have room: "Suc (card (order_set ss \<union> {})) < m_size ?Q"
    using card_order_nodes [of ss] fit(5) sz(1) by (simp add: morders_def)
  obtain n Q' where Q': "Allocate (upd_order u) ?Q = Inr (n, Q')" "n \<notin> order_set ss \<union> {}"
    "book_rep ((mb_core bk)\<lparr>m_orderPool := Q'\<rparr>) ss (insert n {})" "pobj Q' = (pobj ?Q)(n := upd_order u)" "m_size Q' = m_size ?Q"
    using book_rep_allocate [OF brep room] by blast
  define c where "c = (mb_core bk)\<lparr>m_orderPool := Q'\<rparr>"
  have other: "pobj Q' k = pobj ?Q k" if "k \<in> order_set ss" for k using Q'(2,4) that by auto
  have same: "map (\<lambda>k. strip (pobj Q' k)) (onodes (ss sd')) = morders bk ss sd'" if "sd' \<in> sides" for sd'
    unfolding morders_def by (rule map_cong [OF refl], subst other) (use that in \<open>auto simp: order_set_def\<close>)
  have "no_collision c ss sd (opx c n)"
    unfolding no_collision_def
  proof (intro ballI impI)
    fix sd' x assume x: "sd' \<in> sides" "x \<in> set (ss sd')" and e: "PriceToIndex (px c x) = PriceToIndex (opx c n)"
    have lx: "snd x \<noteq> []" "opx c (hd (snd x)) = px c x" using repD [OF Q'(3) x] by (auto simp: lvl_rep_def c_def)
    have on: "hd (snd x) \<in> set (onodes (ss sd'))" using lx(1) x(2) unfolding in_onodes by (metis hd_in_set)
    then have "hd (snd x) \<in> order_set ss" using x(1) by (auto simp: order_set_def)
    then have p: "ord_price (strip (pobj ?Q (hd (snd x)))) = px c x" using lx(2) other by (simp add: c_def)
    have "strip (pobj ?Q (hd (snd x))) \<in> set (morders bk ss sd')" using on by (simp add: morders_def)
    from fit(4) [OF x(1) this] show "sd' = sd \<and> px c x = opx c n" using p e Q'(4) by (simp add: c_def upd_order_def)
  qed
  moreover have "Suc (card (fst ` level_set ss)) < m_size (m_ordersAtPricePool c)"
    using card_levels [OF brep] live [of ord_price] fit(6) sz(2) by (simp add: c_def)
  moreover have "sd = ord_side (pobj (m_orderPool c) n)" using Q'(4) by (simp add: c_def upd_order_def sd_def)
  ultimately obtain c1 ss' where c1: "AddOrder_links (Some n) c = Inr c1" "book_rep c1 ss' ({n} - {n})" "add_post c ss sd n c1 ss'"
    using AddOrder_links_spec [OF Q'(3) [folded c_def], of n sd] fit(1) by auto
  have st: "strip (pobj (m_orderPool c1) k) = strip (pobj Q' k)" for k using c1(3) by (simp add: add_post_def c_def)
  have sn: "strip (pobj Q' n) = upd_order u" using Q'(4) by (simp add: strip_def upd_order_def)
  define bk' where "bk' = bk\<lparr>mb_core := c1, m_oidToOrder := (m_oidToOrder bk)(upd_orderId u := Some n)\<rparr>"
  have idn: "ord_orderId (pobj (m_orderPool c1) n) = upd_orderId u"
    using strip_eqD(1) [OF st [of n]] Q'(4) by (simp add: upd_order_def)
  have ido: "moid bk' k = moid bk k" if "k \<in> order_set ss" for k
    using strip_eqD(1) [OF st [of k]] other [OF that] by (simp add: bk'_def)
  have run: "apply_update u bk = Inr bk'"
    using Q'(1) c1(1) idn fit(2) ty
    by (simp add: apply_update_def mkt_AddOrder_links oid_set_ok bk'_def upd_order_def c_def)
  have post: "\<forall>sd'. sd' \<noteq> sd \<longrightarrow> ss' sd' = ss sd'" "onodes (ss' sd) = spec_insert (opx c) sd n (onodes (ss sd))"
    using c1(3) by (simp_all add: add_post_def)
  have os: "order_set ss' = insert n (order_set ss)" using order_set_update [OF fit(1) post(1)] post(2) by auto
  have fresh: "moid bk k \<noteq> upd_orderId u" if "k \<in> order_set ss" for k
    using fit(3) that unfolding live [of ord_orderId] strip_sel by (auto dest: sym)
  have "moid_ok bk' (order_set ss')"
    unfolding os
    by (rule moid_ok_update [OF iok fit(2)]) (use idn ido fresh in \<open>auto simp: bk'_def\<close>)
  then have "mkt_rep bk' ss'" using c1(2,3) sz Q'(5) by (simp add: mkt_rep_def bk'_def add_post_def c_def)
  moreover have "morders bk' ss' sd' = spec_update u (morders bk ss) sd'" if sd': "sd' \<in> sides" for sd'
  proof (cases "sd' = sd")
    case True
    have "morders bk' ss' sd = map (\<lambda>k. strip (pobj Q' k)) (onodes (ss' sd))" using st by (simp add: morders_def bk'_def)
    also have "\<dots> = spec_insert ord_price sd (upd_order u) (morders bk ss sd)"
      unfolding post(2) same [OF fit(1), symmetric] sn [symmetric]
      by (rule spec_insert_map) (simp add: c_def)
    finally show ?thesis using True ty by (simp add: spec_update_def sd_def)
  next
    case False
    then show ?thesis using ty post(1) st same [OF sd']
      by (simp add: morders_def spec_update_def bk'_def sd_def)
  qed
  ultimately show ?thesis using run by blast
qed

section \<open>Modifying, and clearing an empty book\<close>

lemma mkt_live_node:
  assumes rep: "mkt_rep bk ss" and nl: "names_live u (morders bk ss)"
  obtains n sd where "sd \<in> sides" and "n \<in> set (onodes (ss sd))" and "moid bk n = upd_orderId u"
    and "arr_at ME_MAX_ORDER_IDS (m_oidToOrder bk) (upd_orderId u) = Inr (Some n)"
proof -
  obtain sd r where r: "sd \<in> sides" "r \<in> set (morders bk ss sd)" "ord_orderId r = upd_orderId u"
    using nl by (auto simp: names_live_def mlive_def sides_def)
  then obtain n where n: "n \<in> set (onodes (ss sd))" "moid bk n = upd_orderId u" by (auto simp: morders_def)
  have "n \<in> order_set ss" using n(1) r(1) by (auto simp: order_set_def)
  from moid_okD(1,2) [OF _ this, of bk] have "arr_at ME_MAX_ORDER_IDS (m_oidToOrder bk) (upd_orderId u) = Inr (Some n)"
    using rep n(2) by (simp add: mkt_rep_def)
  with that r(1) n show thesis by blast
qed

lemma mkt_Modify_spec:
  assumes rep: "mkt_rep bk ss" and fits: "upd_fits u (morders bk ss)" and ty: "upd_type u = MODIFY"
  shows "\<exists>bk' ss'. apply_update u bk = Inr bk' \<and> mkt_rep bk' ss'
    \<and> (\<forall>sd'\<in>sides. morders bk' ss' sd' = spec_update u (morders bk ss) sd')"
proof -
  have "names_live u (morders bk ss)" using fits ty by (simp add: upd_fits_def)
  then obtain n sd where n: "sd \<in> sides" "n \<in> set (onodes (ss sd))" "moid bk n = upd_orderId u"
    "arr_at ME_MAX_ORDER_IDS (m_oidToOrder bk) (upd_orderId u) = Inr (Some n)" by (rule mkt_live_node [OF rep])
  let ?f = "\<lambda>x :: SMarketOrder. x\<lparr>ord_qty := upd_qty u\<rparr>"
  let ?Q = "m_orderPool (mb_core bk)"
  define bk' where "bk' = bk\<lparr>mb_core := (mb_core bk)\<lparr>m_orderPool := poke n ?f ?Q\<rparr>\<rparr>"
  have run: "apply_update u bk = Inr bk'" using ty n(4) by (simp add: apply_update_def bk'_def)
  have nS: "n \<in> order_set ss" using n(1,2) by (auto simp: order_set_def)
  have ids: "moid bk' k = moid bk k" for k by (simp add: bk'_def pobj_poke)
  have "book_rep (mb_core bk') ss {}"
    using rep book_rep_poke_order [of "mb_core bk" ss "{}" ?f n] by (simp add: mkt_rep_def bk'_def)
  moreover have "moid_ok bk' (order_set ss)" using rep ids by (simp add: mkt_rep_def moid_ok_def bk'_def)
  ultimately have "mkt_rep bk' ss" using rep by (simp add: mkt_rep_def bk'_def)
  moreover have "morders bk' ss sd' = spec_update u (morders bk ss) sd'" if sd': "sd' \<in> sides" for sd'
  proof -
    have "strip (pobj (m_orderPool (mb_core bk')) k)
        = (\<lambda>r. if ord_orderId r = upd_orderId u then r\<lparr>ord_qty := upd_qty u\<rparr> else r) (strip (pobj ?Q k))"
      if k: "k \<in> set (onodes (ss sd'))" for k
    proof -
      have "k \<in> order_set ss" using k sd' by (auto simp: order_set_def)
      then have "moid bk k = upd_orderId u \<longleftrightarrow> k = n"
        using moid_okD(3) [OF _ nS, of bk k] rep n(3) by (auto simp: mkt_rep_def)
      then show ?thesis by (auto simp: bk'_def pobj_poke strip_def)
    qed
    then show ?thesis using ty by (simp add: morders_def spec_update_def)
  qed
  ultimately show ?thesis using run by blast
qed

lemma clear_orders_empty:
  assumes "\<And>i. unat i < ME_MAX_ORDER_IDS \<Longrightarrow> m i = None"
  shows "clear_orders m p = Inr p"
proof -
  have "foldE (\<lambda>i p. if m (of_nat i) \<noteq> None then Deallocate (m (of_nat i)) p else Inr p) is p = Inr p"
    if "set is \<subseteq> {..<ME_MAX_ORDER_IDS}" for "is"
    using that
  proof (induction "is")
    case (Cons i "is")
    then have "unat (of_nat i :: OrderId) < ME_MAX_ORDER_IDS" by (simp add: bounds_defs unat_of_nat)
    then show ?case using Cons assms by simp
  qed simp
  then show ?thesis by (simp add: clear_orders_def subset_iff)
qed

lemma mkt_Clear_empty:
  assumes rep: "mkt_rep bk ss" and e: "morders bk ss BUY = []" "morders bk ss SELL = []"
  shows "\<exists>bk'. mkt_Clear bk = Inr bk' \<and> mkt_rep bk' ss \<and> mb_core bk' = mb_core bk \<and> m_pBbo bk' = m_pBbo bk \<and> notified bk' = notified bk"
proof -
  have brep: "book_rep (mb_core bk) ss {}" and iok: "moid_ok bk (order_set ss)" using rep by (simp_all add: mkt_rep_def)
  have o: "order_set ss = {}" using e by (simp add: order_set_sides morders_def)
  have no: "m_oidToOrder bk i = None" if "unat i < ME_MAX_ORDER_IDS" for i
    using iok that o by (cases "m_oidToOrder bk i") (auto simp: moid_ok_def)
  have "best_of BUY (mb_core bk) = None" "best_of SELL (mb_core bk) = None"
    using top_of_side(1) [OF brep] e by (simp_all add: sides_def morders_def)
  then have best: "m_pBidsByPrice (mb_core bk) = None" "m_pAsksByPrice (mb_core bk) = None" by (simp_all add: best_of_def)
  define bk' where "bk' = bk\<lparr>m_oidToOrder := \<lambda>_. None\<rparr>"
  have "(mb_core bk)\<lparr>m_orderPool := m_orderPool (mb_core bk), m_ordersAtPricePool := m_ordersAtPricePool (mb_core bk),
      m_pBidsByPrice := None, m_pAsksByPrice := None\<rparr> = mb_core bk" using best by simp
  then have "mkt_Clear bk = Inr bk'"
    using clear_orders_empty [of "m_oidToOrder bk" "m_orderPool (mb_core bk)", OF no] best by (simp add: mkt_Clear_def Let_def clear_levels_def bk'_def)
  moreover have "mkt_rep bk' ss" using rep o by (simp add: mkt_rep_def bk'_def moid_ok_def)
  ultimately show ?thesis by (simp add: bk'_def)
qed

section \<open>Every update that fits\<close>

lemma spec_update_cong:
  assumes "\<And>sd. sd \<in> sides \<Longrightarrow> B sd = C sd" and "sd \<in> sides"
  shows "upd_fits u B = upd_fits u C" and "spec_update u B sd = spec_update u C sd"
proof -
  have e: "B BUY = C BUY" "B SELL = C SELL" using assms(1) by (simp_all add: sides_def)
  then have "mlive B = mlive C" by (simp add: mlive_def)
  then show "upd_fits u B = upd_fits u C" using e by (simp add: upd_fits_def names_live_def sides_def split: EMarketUpdateType.split)
  show "spec_update u B sd = spec_update u C sd" using assms e
    by (auto simp: spec_update_def sides_def split: EMarketUpdateType.split)
qed

lemma apply_update_spec:
  assumes rep: "mkt_rep bk ss" and fits: "upd_fits u (morders bk ss)"
  shows "\<exists>bk' ss'. apply_update u bk = Inr bk' \<and> mkt_rep bk' ss'
    \<and> (\<forall>sd'\<in>sides. morders bk' ss' sd' = spec_update u (morders bk ss) sd')"
proof (cases "upd_type u")
  case CANCEL
  then have "names_live u (morders bk ss)" using fits by (simp add: upd_fits_def)
  then obtain n sd where n: "sd \<in> sides" "n \<in> set (onodes (ss sd))" "moid bk n = upd_orderId u"
    "arr_at ME_MAX_ORDER_IDS (m_oidToOrder bk) (upd_orderId u) = Inr (Some n)" by (rule mkt_live_node [OF rep])
  then show ?thesis using mkt_RemoveOrder_spec [OF rep n(1,2)] CANCEL by (simp add: apply_update_def spec_update_def)
next
  case CLEAR
  then have "morders bk ss BUY = []" "morders bk ss SELL = []" using fits by (simp_all add: upd_fits_def)
  then show ?thesis using mkt_Clear_empty [OF rep] CLEAR
    by (force simp: apply_update_def spec_update_def morders_def sides_def)
qed (use mkt_Add_spec [OF assms] mkt_Modify_spec [OF assms] rep in \<open>auto simp: apply_update_def spec_update_def\<close>)

end
