(* ===== verification/MarketBBO.thy ===== *)
theory MarketBBO
  imports MarketRefine
begin

text \<open>
  The best bid and offer of the client's book: what \<open>UpdateBBO\<close> computes, when \<open>OnMarketUpdate\<close>
  calls it, and after which updates the BBO is the top of the book.
\<close>

section \<open>The top of the book\<close>

text \<open>Price and total quantity at the best price (the sum wraps at 32 bits, as in the code).\<close>

fun spec_top :: "SMarketOrder list \<Rightarrow> Price \<times> Qty" where
  "spec_top [] = (Price_INVALID, Qty_INVALID)"
| "spec_top (r # rs) = (ord_price r, sum_list (map ord_qty (filter (\<lambda>x. ord_price x = ord_price r) (r # rs))))"

lemma sum_qty_chain:
  "chain (nxO (m_orderPool b)) pv (k # ns @ [f]) \<Longrightarrow> f \<notin> set ns \<Longrightarrow> length ns \<le> fuel \<Longrightarrow>
    sum_qty fuel b (Some f) (pNextOrder (pobj (m_orderPool b) k)) acc
      = Inr (acc + sum_list (map (\<lambda>i. ord_qty (pobj (m_orderPool b) i)) ns))"
proof (induction ns arbitrary: k fuel acc)
  case Nil
  then show ?case by (simp add: sum_qty.simps nxO_def)
next
  case (Cons n ns)
  then obtain fuel' where "fuel = Suc fuel'" by (cases fuel) auto
  moreover have "pNextOrder (pobj (m_orderPool b) k) = Some n" using Cons.prems(1) by (simp add: nxO_def)
  moreover have "n \<noteq> f" using Cons.prems(2) by auto
  ultimately show ?case
    using Cons.IH [of n fuel' "acc + ord_qty (pobj (m_orderPool b) n)"] Cons.prems by (simp add: sum_qty.simps [of "Suc fuel'"] add.assoc)
qed

lemma top_of_book_spec:
  assumes rep: "mkt_rep bk ss" and sd: "sd \<in> sides"
  shows "top_of_book (best_of sd (mb_core bk)) (mb_core bk) = Inr (spec_top (morders bk ss sd))"
proof -
  let ?b = "mb_core bk" and ?Q = "m_orderPool (mb_core bk)"
  have brep: "book_rep ?b ss {}" using rep by (simp add: mkt_rep_def)
  show ?thesis
  proof (cases "ss sd")
    case Nil
    then show ?thesis using top_of_side(1) [OF brep sd] by (simp add: top_of_book_def morders_def)
  next
    case (Cons x s)
    then have xs: "x \<in> set (ss sd)" by simp
    note lx = repD [OF brep sd xs, unfolded lvl_rep_def]
    obtain f ns where fn: "snd x = f # ns" using lx by (cases "snd x") auto
    have best: "best_of sd ?b = Some (fst x)" using brep sd Cons by (auto simp: book_rep_def side_links_def)
    have ch: "chain (nxO ?Q) (pvO ?Q) (f # ns @ [f])" and nf: "f \<notin> set ns" using lx fn by (auto simp: ring_def)
    have len: "length ns \<le> m_size ?Q" using rep_onodes_le [OF brep sd] Cons fn by simp
    have "levels_ok ?b sd (ss sd)" using brep sd by (simp add: book_rep_def)
    then have flt: "filter (\<lambda>i. opx ?b i = px ?b x) (onodes (ss sd)) = f # ns"
      using filter_level [of ?b sd "[]" x s] unfolding Cons fn [symmetric] by simp
    have pf: "ord_price (pobj ?Q f) = px ?b x" using lx fn by simp
    have "morders bk ss sd = strip (pobj ?Q f) # map (\<lambda>k. strip (pobj ?Q k)) (ns @ onodes s)"
      using Cons fn by (simp add: morders_def)
    moreover have "filter (\<lambda>r. ord_price r = px ?b x) (morders bk ss sd) = map (\<lambda>k. strip (pobj ?Q k)) (f # ns)"
      unfolding flt [symmetric] by (simp add: morders_def filter_map comp_def)
    ultimately have "spec_top (morders bk ss sd) = (px ?b x, ord_qty (pobj ?Q f) + sum_list (map (\<lambda>i. ord_qty (pobj ?Q i)) ns))"
      using pf by (simp add: comp_def)
    then show ?thesis using best sum_qty_chain [OF ch nf len] lx fn by (simp add: top_of_book_def px_def)
  qed
qed

section \<open>When the BBO is recomputed\<close>

definition spec_touches :: "ESide \<Rightarrow> SMEMarketUpdate \<Rightarrow> mbook \<Rightarrow> bool" where
  "spec_touches sd u B \<longleftrightarrow>
     (case B sd of [] \<Rightarrow> False | r # _ \<Rightarrow> upd_side u = sd \<and> \<not> worse sd (upd_price u) (ord_price r))"

definition spec_bbo :: "SMEMarketUpdate \<Rightarrow> mbook \<Rightarrow> SBBO \<Rightarrow> SBBO" where
  "spec_bbo u B bbo =
     (if upd_type u = TRADE then bbo
      else let B' = spec_update u B;
               bbo1 = (if spec_touches BUY u B then bbo\<lparr>bidPrice := fst (spec_top (B' BUY)), bidQty := snd (spec_top (B' BUY))\<rparr> else bbo)
           in if spec_touches SELL u B then bbo1\<lparr>askPrice := fst (spec_top (B' SELL)), askQty := snd (spec_top (B' SELL))\<rparr> else bbo1)"

definition spec_event :: "SMEMarketUpdate \<Rightarrow> book_event" where
  "spec_event u = (if upd_type u = TRADE then OnTradeUpdate u else OnOrderBookUpdate (upd_tickerId u) (upd_price u) (upd_side u))"

lemma best_price:
  assumes rep: "mkt_rep bk ss" and sd: "sd \<in> sides"
  shows "morders bk ss sd = [] \<Longrightarrow> best_of sd (mb_core bk) = None"
    and "morders bk ss sd = r # rs \<Longrightarrow> \<exists>l. best_of sd (mb_core bk) = Some l
      \<and> lvl_price (pobj (m_ordersAtPricePool (mb_core bk)) l) = ord_price r"
proof -
  have brep: "book_rep (mb_core bk) ss {}" using rep by (simp add: mkt_rep_def)
  show "best_of sd (mb_core bk) = None" if "morders bk ss sd = []"
    using top_of_side(1) [OF brep sd] that by (simp add: morders_def)
  assume m: "morders bk ss sd = r # rs"
  show "\<exists>l. best_of sd (mb_core bk) = Some l \<and> lvl_price (pobj (m_ordersAtPricePool (mb_core bk)) l) = ord_price r"
  proof (cases "ss sd")
    case Nil
    then show ?thesis using m by (simp add: morders_def)
  next
    case (Cons x s)
    then have "x \<in> set (ss sd)" by simp
    from repD [OF brep sd this] have lx: "snd x \<noteq> []" "opx (mb_core bk) (hd (snd x)) = px (mb_core bk) x" by (auto simp: lvl_rep_def)
    have "best_of sd (mb_core bk) = Some (fst x)" using brep sd Cons by (auto simp: book_rep_def side_links_def)
    moreover have "ord_price r = px (mb_core bk) x" using m Cons lx by (cases "snd x") (auto simp: morders_def)
    ultimately show ?thesis by (simp add: px_def)
  qed
qed

lemma updated_spec:
  assumes rep: "mkt_rep bk ss"
  shows "bid_updated u (mb_core bk) = Inr (spec_touches BUY u (morders bk ss))"
    and "ask_updated u (mb_core bk) = Inr (spec_touches SELL u (morders bk ss))"
proof -
  have b: "BUY \<in> sides" and s: "SELL \<in> sides" by (simp_all add: sides_def)
  show "bid_updated u (mb_core bk) = Inr (spec_touches BUY u (morders bk ss))"
    using best_price [OF rep b]
    by (cases "morders bk ss BUY") (auto simp: bid_updated_def spec_touches_def best_of_def worse_def not_less)
  show "ask_updated u (mb_core bk) = Inr (spec_touches SELL u (morders bk ss))"
    using best_price [OF rep s]
    by (cases "morders bk ss SELL") (auto simp: ask_updated_def spec_touches_def best_of_def worse_def not_less)
qed

lemma UpdateBBO_spec:
  assumes rep: "mkt_rep bk ss"
  shows "UpdateBBO x y bk = Inr (bk\<lparr>m_pBbo :=
    (let bbo1 = (if x then (m_pBbo bk)\<lparr>bidPrice := fst (spec_top (morders bk ss BUY)), bidQty := snd (spec_top (morders bk ss BUY))\<rparr> else m_pBbo bk)
     in if y then bbo1\<lparr>askPrice := fst (spec_top (morders bk ss SELL)), askQty := snd (spec_top (morders bk ss SELL))\<rparr> else bbo1)\<rparr>)"
proof -
  have b: "top_of_book (m_pBidsByPrice (mb_core bk)) (mb_core bk) = Inr (spec_top (morders bk ss BUY))"
    and s: "top_of_book (m_pAsksByPrice (mb_core bk)) (mb_core bk) = Inr (spec_top (morders bk ss SELL))"
    using top_of_book_spec [OF rep, of BUY] top_of_book_spec [OF rep, of SELL] by (simp_all add: sides_def best_of_def)
  show ?thesis by (cases x; cases y) (simp_all add: UpdateBBO_def b s split_beta)
qed

lemma apply_update_frame: "apply_update u bk = Inr bk' \<Longrightarrow> m_pBbo bk' = m_pBbo bk \<and> notified bk' = notified bk \<and> mb_tickerId bk' = mb_tickerId bk"
  by (auto simp: apply_update_def mkt_AddOrder_def mkt_RemoveOrder_def mkt_Clear_def oid_set_def bindE_eq_Inr Let_def
      split: EMarketUpdateType.splits if_splits)

lemma OnMarketUpdate_spec:
  assumes "mkt_repr bk B" and "upd_fits u B"
  shows "\<exists>bk'. OnMarketUpdate u bk = Inr bk' \<and> mkt_repr bk' (spec_update u B)
    \<and> m_pBbo bk' = spec_bbo u B (m_pBbo bk) \<and> notified bk' = notified bk @ [spec_event u] \<and> mb_tickerId bk' = mb_tickerId bk"
proof -
  obtain ss where rep: "mkt_rep bk ss" and B: "\<forall>sd\<in>sides. morders bk ss sd = B sd" using assms(1) by (auto simp: mkt_repr_def)
  have cong: "upd_fits u (morders bk ss)" "\<And>sd. sd \<in> sides \<Longrightarrow> spec_update u (morders bk ss) sd = spec_update u B sd"
    using spec_update_cong(1) [of "morders bk ss" B BUY u] spec_update_cong(2) [of "morders bk ss" B _ u] B assms(2)
    by (auto simp: sides_def)
  have bs: "BUY \<in> sides" "SELL \<in> sides" by (simp_all add: sides_def)
  have t: "spec_touches sd u (morders bk ss) = spec_touches sd u B" if "sd \<in> sides" for sd
    using B that by (simp add: spec_touches_def)
  note upd = updated_spec [OF rep, of u, unfolded t [OF bs(1)] t [OF bs(2)]]
  show ?thesis
  proof (cases "upd_type u = TRADE")
    case True
    have "mkt_rep (bk\<lparr>notified := notified bk @ [OnTradeUpdate u]\<rparr>) ss" using rep by (simp add: mkt_rep_def moid_ok_def)
    then have "mkt_repr (bk\<lparr>notified := notified bk @ [OnTradeUpdate u]\<rparr>) (spec_update u B)"
      using B True unfolding mkt_repr_def by (auto simp: spec_update_def morders_def)
    then show ?thesis using True upd by (simp add: OnMarketUpdate_def spec_bbo_def spec_event_def)
  next
    case False
    obtain b1 ss1 where b1: "apply_update u bk = Inr b1" "mkt_rep b1 ss1" "\<forall>sd'\<in>sides. morders b1 ss1 sd' = spec_update u B sd'"
      using apply_update_spec [OF rep cong(1)] cong(2) by auto
    note fr = apply_update_frame [OF b1(1)] and ub = UpdateBBO_spec [OF b1(2), of "spec_touches BUY u B" "spec_touches SELL u B"]
    define b3 where "b3 = b1\<lparr>m_pBbo := spec_bbo u B (m_pBbo bk),
        notified := notified bk @ [OnOrderBookUpdate (upd_tickerId u) (upd_price u) (upd_side u)]\<rparr>"
    have "OnMarketUpdate u bk = Inr b3"
      using False upd b1(1,3) ub fr bs by (simp add: OnMarketUpdate_def spec_bbo_def b3_def Let_def)
    moreover have "mkt_rep b3 ss1" using b1(2) by (simp add: mkt_rep_def moid_ok_def b3_def)
    then have "mkt_repr b3 (spec_update u B)" using b1(3) unfolding mkt_repr_def by (auto simp: morders_def b3_def)
    ultimately show ?thesis using fr False by (simp add: b3_def spec_event_def)
  qed
qed

interpretation market: feed_follower OnMarketUpdate mkt_repr
  by unfold_locales (use OnMarketUpdate_spec in blast)

lemma mkt_repr_new: "mkt_repr (CMarketOrderBook_new t) (\<lambda>_. [])"
proof -
  have "mkt_rep (CMarketOrderBook_new t) (\<lambda>_. [])"
    using book_rep_new [of ME_MAX_PRICE_LEVELS ME_MAX_ORDER_IDS SMarketOrder_default]
    by (simp add: mkt_rep_def CMarketOrderBook_new_def moid_ok_def order_set_def book_core_new_def bounds_defs)
  then show ?thesis unfolding mkt_repr_def by (auto simp: morders_def)
qed

section \<open>When the BBO is the top of the book\<close>

definition bbo_fresh :: "SBBO \<Rightarrow> mbook \<Rightarrow> bool" where
  "bbo_fresh bbo B \<longleftrightarrow> (bidPrice bbo, bidQty bbo) = spec_top (B BUY) \<and> (askPrice bbo, askQty bbo) = spec_top (B SELL)"

definition mbook_ok :: "mbook \<Rightarrow> bool" where
  "mbook_ok B \<longleftrightarrow> (\<forall>sd\<in>sides. \<forall>r\<in>set (B sd). ord_side r = sd) \<and> inj_on ord_orderId (mlive B)"

text \<open>The update adds the first order of its side.\<close>

definition first_of_side :: "SMEMarketUpdate \<Rightarrow> mbook \<Rightarrow> bool" where
  "first_of_side u B \<longleftrightarrow> upd_type u = ADD \<and> B (upd_side u) = []"

lemma mkt_repr_mbook_ok:
  assumes "mkt_repr bk B"
  shows "mbook_ok B"
proof -
  obtain ss where rep: "mkt_rep bk ss" and B: "\<forall>sd\<in>sides. morders bk ss sd = B sd" using assms by (auto simp: mkt_repr_def)
  have brep: "book_rep (mb_core bk) ss {}" and iok: "moid_ok bk (order_set ss)" using rep by (simp_all add: mkt_rep_def)
  have "ord_side r = sd" if sd: "sd \<in> sides" and r: "r \<in> set (B sd)" for sd r
  proof -
    have "r \<in> set (morders bk ss sd)" using B sd r by simp
    then obtain n where n: "n \<in> set (onodes (ss sd))" "r = strip (pobj (m_orderPool (mb_core bk)) n)" by (auto simp: morders_def)
    obtain x where "x \<in> set (ss sd)" "n \<in> set (snd x)" using n(1) unfolding in_onodes by blast
    then show ?thesis using repD [OF brep sd] n(2) by (auto simp: lvl_rep_def)
  qed
  moreover have "mlive B = mlive (morders bk ss)" using B by (simp add: mlive_def sides_def)
  then have "mlive B = (\<lambda>n. strip (pobj (m_orderPool (mb_core bk)) n)) ` order_set ss"
    by (simp add: mlive_def morders_def order_set_sides image_Un)
  then have "inj_on ord_orderId (mlive B)" using moid_okD(3) [OF iok] by (auto simp: inj_on_def)
  ultimately show ?thesis by (simp add: mbook_ok_def)
qed

lemma spec_top_eq:
  assumes "rs = r # t" and "rs' = r' # t'" and "ord_price r' = ord_price r"
    and "filter (\<lambda>x. ord_price x = ord_price r) rs' = filter (\<lambda>x. ord_price x = ord_price r) rs"
  shows "spec_top rs' = spec_top rs"
  using assms by simp

lemma spec_insert_worse_top:
  assumes "worse sd (ord_price n) (ord_price r)"
  shows "spec_top (spec_insert ord_price sd n (r # rs)) = spec_top (r # rs)"
proof -
  let ?W = "\<lambda>i. \<not> worse sd (ord_price i) (ord_price n)"
  have h: "spec_insert ord_price sd n (r # rs) = r # takeWhile ?W rs @ n # dropWhile ?W rs"
    using worse_asym [OF assms] by (simp add: spec_insert_def)
  have "ord_price n \<noteq> ord_price r" using assms by auto
  moreover have "filter P (takeWhile ?W rs) @ filter P (dropWhile ?W rs) = filter P rs" for P
    by (metis filter_append takeWhile_dropWhile_id)
  ultimately show ?thesis by (intro spec_top_eq [OF refl h]) (simp_all add: h)
qed

lemma names_live_spares_top:
  assumes ok: "mbook_ok B" and sd: "sd \<in> sides" and nl: "names_live u B" and nt: "\<not> spec_touches sd u B" and B: "B sd = r # rs"
    and x: "x \<in> set (B sd)" "ord_price x = ord_price r"
  shows "ord_orderId x \<noteq> upd_orderId u"
proof
  assume e: "ord_orderId x = upd_orderId u"
  obtain r0 where r0: "r0 \<in> mlive B" "ord_orderId r0 = upd_orderId u" "ord_side r0 = upd_side u" "ord_price r0 = upd_price u"
    using nl by (auto simp: names_live_def)
  have "x \<in> mlive B" using x(1) sd by (auto simp: mlive_def sides_def)
  then have "x = r0" using ok r0(1,2) e by (auto simp: mbook_ok_def inj_on_def)
  moreover have "ord_side x = sd" using ok sd x(1) by (simp add: mbook_ok_def)
  ultimately show False using nt B x(2) r0(3,4) by (auto simp: spec_touches_def)
qed

lemma untouched_top:
  assumes ok: "mbook_ok B" and fits: "upd_fits u B" and sd: "sd \<in> sides" and nt: "\<not> spec_touches sd u B"
    and nf: "\<not> first_of_side u B"
  shows "spec_top (spec_update u B sd) = spec_top (B sd)"
proof (cases "B sd")
  case Nil
  then show ?thesis using nf by (auto simp: spec_update_def first_of_side_def split: EMarketUpdateType.split)
next
  case (Cons r rs)
  note spare = names_live_spares_top [OF ok sd _ nt Cons]
  show ?thesis
  proof (cases "upd_type u")
    case ADD
    then show ?thesis using Cons nt spec_insert_worse_top [of sd "upd_order u" r rs]
      by (auto simp: spec_update_def spec_touches_def upd_order_def)
  next
    case MODIFY
    then have nl: "names_live u B" using fits by (simp add: upd_fits_def)
    let ?f = "\<lambda>x :: SMarketOrder. if ord_orderId x = upd_orderId u then x\<lparr>ord_qty := upd_qty u\<rparr> else x"
    have fp: "ord_price (?f x) = ord_price x" for x by simp
    have "filter (\<lambda>x. ord_price x = ord_price r) (map ?f (B sd)) = map ?f (filter (\<lambda>x. ord_price x = ord_price r) (B sd))"
      by (simp only: filter_map comp_def fp)
    also have "\<dots> = filter (\<lambda>x. ord_price x = ord_price r) (B sd)" using spare [OF nl] by (intro map_idI) auto
    finally have flt: "filter (\<lambda>x. ord_price x = ord_price r) (map ?f (r # rs)) = filter (\<lambda>x. ord_price x = ord_price r) (r # rs)"
      unfolding Cons .
    have "spec_update u B sd = map ?f (r # rs)" using MODIFY Cons by (simp add: spec_update_def)
    then show ?thesis unfolding Cons by (simp only: spec_top_eq [OF refl list.map(2) fp flt])
  next
    case CANCEL
    then have nl: "names_live u B" using fits by (simp add: upd_fits_def)
    have r: "ord_orderId r \<noteq> upd_orderId u" using spare [OF nl, of r] Cons by simp
    have "filter (\<lambda>x. ord_price x = ord_price r) (filter (\<lambda>r. ord_orderId r \<noteq> upd_orderId u) (B sd))
        = filter (\<lambda>x. ord_price x = ord_price r) (B sd)"
      unfolding filter_filter using spare [OF nl] by (intro filter_cong) auto
    then show ?thesis using CANCEL r Cons by (simp add: spec_update_def)
  next
    case CLEAR
    then show ?thesis using fits Cons sd by (auto simp: upd_fits_def sides_def)
  qed (simp_all add: spec_update_def)
qed

lemma bbo_stays_fresh:
  assumes ok: "mbook_ok B" and fits: "upd_fits u B" and fresh: "bbo_fresh bbo B" and nf: "\<not> first_of_side u B"
  shows "bbo_fresh (spec_bbo u B bbo) (spec_update u B)"
proof (cases "upd_type u = TRADE")
  case True
  then show ?thesis using fresh by (simp add: spec_bbo_def spec_update_def)
next
  case False
  have "BUY \<in> sides" "SELL \<in> sides" by (simp_all add: sides_def)
  note un = untouched_top [OF ok fits this(1) _ nf] untouched_top [OF ok fits this(2) _ nf]
  show ?thesis using fresh False un
    by (cases "spec_touches BUY u B"; cases "spec_touches SELL u B") (simp_all add: bbo_fresh_def spec_bbo_def Let_def)
qed

lemma bbo_misses_first:
  assumes "upd_type u = ADD" and "upd_side u \<in> sides" and "B (upd_side u) = []"
  shows "spec_bbo u B bbo = bbo"
  using assms by (auto simp: spec_bbo_def spec_touches_def sides_def Let_def split: list.split)

end
