(* ===== verification/SnapshotSynthesizer.thy ===== *)
theory SnapshotSynthesizer
  imports MemoryPool LockFreeQueue Messages
begin

text \<open>
  \<open>exchange/market_data/SnapshotSynthesizer.h\<close> and \<open>.cpp\<close>, and the loop of
  \<open>MarketDataPublisher.cpp\<close> that feeds it: the publisher numbers the market updates of the matching
  engine, sends each on the incremental stream and forwards it to the synthesizer, which keeps the
  live orders of every ticker and sends all of them, between two marks, on the snapshot stream.

  What is written to a multicast socket is appended to a list of messages.
\<close>

section \<open>The synthesizer\<close>

record CSnapshotSynthesizer =
  m_snapshotMdUpdates :: "MDPMarketUpdate CLockFreeQueue"
  m_tickerOrders :: "TickerId \<Rightarrow> OrderId \<Rightarrow> ptr"
  m_lastIncSeqNum :: "64 word"
  m_lastSnapshotTime :: Nanos
  snap_orderPool :: "SMEMarketUpdate CMemoryPool"
  snapshot_sent :: "MDPMarketUpdate list"

text \<open>The array of pointers is not initialised by the code; the model starts it with null pointers.\<close>

definition CSnapshotSynthesizer_new :: "MDPMarketUpdate CLockFreeQueue \<Rightarrow> CSnapshotSynthesizer" where
  "CSnapshotSynthesizer_new market_updates =
     \<lparr>m_snapshotMdUpdates = market_updates, m_tickerOrders = (\<lambda>_ _. None), m_lastIncSeqNum = 0, m_lastSnapshotTime = 0,
      snap_orderPool = CMemoryPool_new ME_MAX_ORDER_IDS SMEMarketUpdate_default, snapshot_sent = []\<rparr>"

text \<open>\<open>orders->at(oid)\<close> for the row of one ticker, read and assigned.\<close>

definition row_at :: "(OrderId \<Rightarrow> ptr) \<Rightarrow> OrderId \<Rightarrow> ptr outcome" where
  "row_at orders oid = arr_at ME_MAX_ORDER_IDS orders oid"

definition row_set :: "TickerId \<Rightarrow> OrderId \<Rightarrow> ptr \<Rightarrow> CSnapshotSynthesizer \<Rightarrow> CSnapshotSynthesizer outcome" where
  "row_set t oid x s =
     bindE (arr_set ME_MAX_ORDER_IDS (m_tickerOrders s t) oid x) (\<lambda>row.
     Inr (s\<lparr>m_tickerOrders := (m_tickerOrders s)(t := row)\<rparr>))"

text \<open>The two checks that \<open>MODIFY\<close> and \<open>CANCEL\<close> make of the stored order, after the null check.\<close>

definition check_existing :: "SMEMarketUpdate \<Rightarrow> ptr \<Rightarrow> CSnapshotSynthesizer \<Rightarrow> unit outcome" where
  "check_existing u order s =
     bindE (ASSERT (order \<noteq> None) (''Received:'' @ SMEMarketUpdate_ToString u @ '' but order does not exist.'')) (\<lambda>_.
     bindE (deref (snap_orderPool s) order) (\<lambda>o0.
     bindE (ASSERT (upd_orderId o0 = upd_orderId u) ''Expecting existing order to match new one.'') (\<lambda>_.
     ASSERT (upd_side o0 = upd_side u) ''Expecting existing order to match new one.'')))"

definition snap_apply :: "SMEMarketUpdate \<Rightarrow> CSnapshotSynthesizer \<Rightarrow> CSnapshotSynthesizer outcome" where
  "snap_apply u s =
     bindE (arr_at ME_MAX_TICKERS (m_tickerOrders s) (upd_tickerId u)) (\<lambda>orders.
     case upd_type u of
       ADD \<Rightarrow> bindE (row_at orders (upd_orderId u)) (\<lambda>order.
              bindE (case order of
                  None \<Rightarrow> Inr ()
                | Some n \<Rightarrow> ASSERT False (''Received:'' @ SMEMarketUpdate_ToString u @ '' but order already exists:''
                              @ SMEMarketUpdate_ToString (object (m_store (snap_orderPool s) n)))) (\<lambda>_.
              bindE (Allocate u (snap_orderPool s)) (\<lambda>(n, p).
              row_set (upd_tickerId u) (upd_orderId u) (Some n) (s\<lparr>snap_orderPool := p\<rparr>))))
     | MODIFY \<Rightarrow> bindE (row_at orders (upd_orderId u)) (\<lambda>order.
              bindE (check_existing u order s) (\<lambda>_.
              bindE (modify order (\<lambda>o0. o0\<lparr>upd_qty := upd_qty u\<rparr>) (snap_orderPool s)) (\<lambda>p1.
              bindE (modify order (\<lambda>o0. o0\<lparr>upd_price := upd_price u\<rparr>) p1) (\<lambda>p2.
              Inr (s\<lparr>snap_orderPool := p2\<rparr>)))))
     | CANCEL \<Rightarrow> bindE (row_at orders (upd_orderId u)) (\<lambda>order.
              bindE (check_existing u order s) (\<lambda>_.
              bindE (Deallocate order (snap_orderPool s)) (\<lambda>p.
              row_set (upd_tickerId u) (upd_orderId u) None (s\<lparr>snap_orderPool := p\<rparr>))))
     | _ \<Rightarrow> Inr s)"

definition AddToSnapshot :: "MDPMarketUpdate \<Rightarrow> CSnapshotSynthesizer \<Rightarrow> CSnapshotSynthesizer outcome" where
  "AddToSnapshot mu s =
     bindE (snap_apply (mdp_update mu) s) (\<lambda>s1.
     bindE (ASSERT (mdp_seqNum mu = m_lastIncSeqNum s1 + 1) ''Expected incremental seq_nums to increase.'') (\<lambda>_.
     Inr (s1\<lparr>m_lastIncSeqNum := mdp_seqNum mu\<rparr>)))"

section \<open>Publishing a snapshot\<close>

text \<open>\<open>snapshot_size\<close> and what has been sent so far.\<close>

type_synonym snapshot_out = "64 word \<times> MDPMarketUpdate list"

definition snap_send :: "SMEMarketUpdate \<Rightarrow> snapshot_out \<Rightarrow> snapshot_out" where
  "snap_send u st = (fst st + 1, snd st @ [\<lparr>mdp_seqNum = fst st, mdp_update = u\<rparr>])"

definition snap_mark :: "EMarketUpdateType \<Rightarrow> 64 word \<Rightarrow> SMEMarketUpdate" where
  "snap_mark ty seq = SMEMarketUpdate_default\<lparr>upd_type := ty, upd_orderId := seq\<rparr>"

definition snap_clear :: "TickerId \<Rightarrow> SMEMarketUpdate" where
  "snap_clear t = SMEMarketUpdate_default\<lparr>upd_type := CLEAR, upd_tickerId := t\<rparr>"

definition publish_order :: "SMEMarketUpdate CMemoryPool \<Rightarrow> ptr \<Rightarrow> snapshot_out \<Rightarrow> snapshot_out" where
  "publish_order p order st = (case order of None \<Rightarrow> st | Some n \<Rightarrow> snap_send (object (m_store p n)) st)"

definition publish_ticker :: "CSnapshotSynthesizer \<Rightarrow> TickerId \<Rightarrow> snapshot_out \<Rightarrow> snapshot_out" where
  "publish_ticker s ticker_id st =
     fold (\<lambda>i. publish_order (snap_orderPool s) (m_tickerOrders s ticker_id (of_nat i))) [0..<ME_MAX_ORDER_IDS]
       (snap_send (snap_clear ticker_id) st)"

definition PublishSnapshot :: "CSnapshotSynthesizer \<Rightarrow> CSnapshotSynthesizer" where
  "PublishSnapshot s =
     (let st0 = snap_send (snap_mark SNAPSHOT_START (m_lastIncSeqNum s)) (0, []);
          st1 = fold (\<lambda>t. publish_ticker s (of_nat t)) [0..<ME_MAX_TICKERS] st0;
          st2 = snap_send (snap_mark SNAPSHOT_END (m_lastIncSeqNum s)) st1
      in s\<lparr>snapshot_sent := snapshot_sent s @ snd st2\<rparr>)"

definition NANOS_TO_SECS :: Nanos where "NANOS_TO_SECS = 1000 * 1000 * 1000"

text \<open>One round of the main loop; \<open>now\<close> and \<open>now'\<close> are the two readings of the clock.\<close>

definition snap_Run :: "Nanos \<Rightarrow> Nanos \<Rightarrow> CSnapshotSynthesizer \<Rightarrow> CSnapshotSynthesizer outcome" where
  "snap_Run now now' s =
     bindE (drain (Suc (m_numElements (m_snapshotMdUpdates s))) front UpdateReadIndex AddToSnapshot (m_snapshotMdUpdates s) s) (\<lambda>(q, s1).
     let s2 = s1\<lparr>m_snapshotMdUpdates := q\<rparr> in
     Inr (if sint (now - m_lastSnapshotTime s2) > sint (60 * NANOS_TO_SECS)
          then PublishSnapshot (s2\<lparr>m_lastSnapshotTime := now'\<rparr>) else s2))"

section \<open>The publisher\<close>

record CMarketDataPublisher =
  m_nextIncSeqNum :: "64 word"
  pub_pOutgoingMdUpdates :: "SMEMarketUpdate CLockFreeQueue"
  pub_snapshotMdUpdates :: "MDPMarketUpdate CLockFreeQueue"
  incremental_sent :: "MDPMarketUpdate list"

definition CMarketDataPublisher_new :: "SMEMarketUpdate CLockFreeQueue \<Rightarrow> CMarketDataPublisher" where
  "CMarketDataPublisher_new market_updates =
     \<lparr>m_nextIncSeqNum = 1, pub_pOutgoingMdUpdates = market_updates,
      pub_snapshotMdUpdates = CLockFreeQueue_new ME_MAX_MARKET_UPDATES \<lparr>mdp_seqNum = 0, mdp_update = SMEMarketUpdate_default\<rparr>,
      incremental_sent = []\<rparr>"

text \<open>
  The body of the loop for the element in slot \<open>i\<close>.  The slot is read again after
  \<open>UpdateReadIndex\<close> has released it; \<open>produced\<close> is what the matching engine's thread writes to the
  queue in between.
\<close>

definition publish_one :: "SMEMarketUpdate list \<Rightarrow> nat \<Rightarrow> CMarketDataPublisher \<Rightarrow> CMarketDataPublisher outcome" where
  "publish_one produced i p =
     (let q0 = pub_pOutgoingMdUpdates p;
          sent' = incremental_sent p @ [\<lparr>mdp_seqNum = m_nextIncSeqNum p, mdp_update = q_store q0 i\<rparr>]
      in bindE (UpdateReadIndex q0) (\<lambda>q1.
         let q2 = fold enqueue produced q1
         in Inr (p\<lparr>incremental_sent := sent', pub_pOutgoingMdUpdates := q2,
                   pub_snapshotMdUpdates := enqueue \<lparr>mdp_seqNum = m_nextIncSeqNum p, mdp_update = q_store q2 i\<rparr> (pub_snapshotMdUpdates p),
                   m_nextIncSeqNum := m_nextIncSeqNum p + 1\<rparr>)))"

text \<open>The loop while nothing else writes; each round removes one element, so \<open>fuel\<close> above their number is enough.\<close>

fun pub_Run :: "nat \<Rightarrow> CMarketDataPublisher \<Rightarrow> CMarketDataPublisher outcome" where
  "pub_Run fuel p =
     (case GetNextToRead (pub_pOutgoingMdUpdates p) of
        None \<Rightarrow> Inr p
      | Some i \<Rightarrow> if fuel = 0 then Inl Diverges else bindE (publish_one [] i p) (pub_Run (fuel - 1)))"

declare pub_Run.simps [simp del]

end
