(* ===== verification/SnapshotRefine.thy ===== *)
theory SnapshotRefine
  imports SnapshotSynthesizer MarketSpec
begin

text \<open>
  The snapshot synthesizer keeps, for every ticker, exactly the live orders of the book that the
  update stream describes: \<open>snap_rel\<close> relates its id tables and its pool to the books of theory
  \<open>MarketSpec\<close>, and every update that fits keeps the relation.
\<close>

section \<open>The relation\<close>

text \<open>The blocks a row of the id table points to, and the orders in them.\<close>

definition row_blocks :: "CSnapshotSynthesizer \<Rightarrow> TickerId \<Rightarrow> nat set" where
  "row_blocks s t = {n. \<exists>i. unat i < ME_MAX_ORDER_IDS \<and> m_tickerOrders s t i = Some n}"

definition snap_order :: "CSnapshotSynthesizer \<Rightarrow> nat \<Rightarrow> SMarketOrder" where
  "snap_order s n = upd_order (pobj (snap_orderPool s) n)"

definition snap_rel :: "CSnapshotSynthesizer \<Rightarrow> mbooks \<Rightarrow> bool" where
  "snap_rel s Bs \<longleftrightarrow> pool_ok (snap_orderPool s) \<and> m_size (snap_orderPool s) = ME_MAX_ORDER_IDS
     \<and> pused (snap_orderPool s) = (\<Union>t\<in>{t. unat t < ME_MAX_TICKERS}. row_blocks s t)
     \<and> (\<forall>t i n. unat t < ME_MAX_TICKERS \<longrightarrow> unat i < ME_MAX_ORDER_IDS \<longrightarrow> m_tickerOrders s t i = Some n \<longrightarrow>
          upd_orderId (pobj (snap_orderPool s) n) = i \<and> upd_tickerId (pobj (snap_orderPool s) n) = t
          \<and> upd_type (pobj (snap_orderPool s) n) = ADD)
     \<and> (\<forall>t. unat t < ME_MAX_TICKERS \<longrightarrow> snap_order s ` row_blocks s t = mlive (Bs t))"

lemma upd_order_sel [simp]:
  "ord_orderId (upd_order u) = upd_orderId u" "ord_side (upd_order u) = upd_side u" "ord_price (upd_order u) = upd_price u"
  "ord_qty (upd_order u) = upd_qty u" "ord_priority (upd_order u) = upd_priority u"
  by (simp_all add: upd_order_def)

lemma snap_rel_orders: "snap_rel s Bs \<Longrightarrow> unat t < ME_MAX_TICKERS \<Longrightarrow> snap_order s ` row_blocks s t = mlive (Bs t)"
  by (simp add: snap_rel_def)

lemma snap_rel_entry:
  assumes "snap_rel s Bs" and "unat t < ME_MAX_TICKERS" and "unat i < ME_MAX_ORDER_IDS" and "m_tickerOrders s t i = Some n"
  shows "upd_orderId (pobj (snap_orderPool s) n) = i" and "upd_tickerId (pobj (snap_orderPool s) n) = t"
    and "upd_type (pobj (snap_orderPool s) n) = ADD"
  using assms unfolding snap_rel_def by blast+

lemma snap_relI:
  assumes "pool_ok (snap_orderPool s)" and "m_size (snap_orderPool s) = ME_MAX_ORDER_IDS"
    and "pused (snap_orderPool s) = (\<Union>t\<in>{t. unat t < ME_MAX_TICKERS}. row_blocks s t)"
    and "\<And>t i n. unat t < ME_MAX_TICKERS \<Longrightarrow> unat i < ME_MAX_ORDER_IDS \<Longrightarrow> m_tickerOrders s t i = Some n \<Longrightarrow>
          upd_orderId (pobj (snap_orderPool s) n) = i \<and> upd_tickerId (pobj (snap_orderPool s) n) = t
          \<and> upd_type (pobj (snap_orderPool s) n) = ADD"
    and "\<And>t. unat t < ME_MAX_TICKERS \<Longrightarrow> snap_order s ` row_blocks s t = mlive (Bs t)"
  shows "snap_rel s Bs"
  unfolding snap_rel_def using assms by blast

lemma snap_rel_pool:
  assumes "snap_rel s Bs"
  shows "pool_ok (snap_orderPool s)" and "m_size (snap_orderPool s) = ME_MAX_ORDER_IDS"
    and "pused (snap_orderPool s) = (\<Union>t\<in>{t. unat t < ME_MAX_TICKERS}. row_blocks s t)"
  using assms unfolding snap_rel_def by blast+

lemma in_row_blocks: "n \<in> row_blocks s t \<longleftrightarrow> (\<exists>i. unat i < ME_MAX_ORDER_IDS \<and> m_tickerOrders s t i = Some n)"
  by (simp add: row_blocks_def)

lemma row_blocks_set:
  assumes "unat i < ME_MAX_ORDER_IDS" and "m_tickerOrders s' = (m_tickerOrders s)(t := (m_tickerOrders s t)(i := x))"
    and "\<And>j n. unat j < ME_MAX_ORDER_IDS \<Longrightarrow> m_tickerOrders s t j = Some n \<Longrightarrow> m_tickerOrders s t i = Some n \<Longrightarrow> j = i"
  shows "row_blocks s' t' = (if t' = t then set_option x \<union> (row_blocks s t - set_option (m_tickerOrders s t i)) else row_blocks s t')"
proof (cases "t' = t")
  case True
  have "n \<in> row_blocks s' t \<longleftrightarrow> x = Some n \<or> (n \<in> row_blocks s t \<and> m_tickerOrders s t i \<noteq> Some n)" for n
    unfolding in_row_blocks assms(2) fun_upd_same fun_upd_apply using assms(1,3) by (metis (no_types, lifting))
  then show ?thesis using True by auto
next
  case False
  then show ?thesis by (simp add: row_blocks_def assms(2))
qed

lemma snap_relD:
  assumes "snap_rel s Bs" and "unat t < ME_MAX_TICKERS" and "n \<in> row_blocks s t"
  shows "upd_tickerId (pobj (snap_orderPool s) n) = t" and "upd_type (pobj (snap_orderPool s) n) = ADD"
    and "unat (upd_orderId (pobj (snap_orderPool s) n)) < ME_MAX_ORDER_IDS"
    and "m_tickerOrders s t (upd_orderId (pobj (snap_orderPool s) n)) = Some n"
    and "n \<in> pused (snap_orderPool s)" and "snap_order s n \<in> mlive (Bs t)"
proof -
  obtain i where i: "unat i < ME_MAX_ORDER_IDS" "m_tickerOrders s t i = Some n" using assms(3) by (auto simp: row_blocks_def)
  then show "upd_tickerId (pobj (snap_orderPool s) n) = t" "upd_type (pobj (snap_orderPool s) n) = ADD"
    "unat (upd_orderId (pobj (snap_orderPool s) n)) < ME_MAX_ORDER_IDS"
    "m_tickerOrders s t (upd_orderId (pobj (snap_orderPool s) n)) = Some n"
    using snap_rel_entry [OF assms(1,2) i] by simp_all
  show "n \<in> pused (snap_orderPool s)" using assms unfolding snap_rel_def by blast
  show "snap_order s n \<in> mlive (Bs t)" using assms unfolding snap_rel_def by blast
qed

lemma row_blocks_disjoint:
  assumes "snap_rel s Bs" and "unat t < ME_MAX_TICKERS" "unat t' < ME_MAX_TICKERS" and "t \<noteq> t'"
  shows "row_blocks s t \<inter> row_blocks s t' = {}"
  using snap_relD(1) [OF assms(1,2)] snap_relD(1) [OF assms(1,3)] assms(4) by blast

lemma row_Some: "unat i < ME_MAX_ORDER_IDS \<Longrightarrow> m_tickerOrders s t i = Some n \<Longrightarrow> n \<in> row_blocks s t"
  by (auto simp: row_blocks_def)

lemma snap_id_inj:
  assumes "snap_rel s Bs" and "unat t < ME_MAX_TICKERS" and "n \<in> row_blocks s t" "m \<in> row_blocks s t"
    and "upd_orderId (pobj (snap_orderPool s) n) = upd_orderId (pobj (snap_orderPool s) m)"
  shows "n = m"
  using snap_relD(4) [OF assms(1,2,3)] snap_relD(4) [OF assms(1,2,4)] unfolding assms(5) by simp

text \<open>The blocks in use are as many as the live orders.\<close>

lemma snap_card:
  assumes rel: "snap_rel s Bs"
  shows "card (pused (snap_orderPool s)) \<le> total_live Bs"
proof -
  let ?T = "{t :: TickerId. unat t < ME_MAX_TICKERS}"
  have "card (row_blocks s t) = card (mlive (Bs t))" if t: "t \<in> ?T" for t
  proof -
    have "inj_on (snap_order s) (row_blocks s t)"
    proof (rule inj_onI)
      fix n m assume nm: "n \<in> row_blocks s t" "m \<in> row_blocks s t" and e: "snap_order s n = snap_order s m"
      have "upd_orderId (pobj (snap_orderPool s) n) = upd_orderId (pobj (snap_orderPool s) m)"
        using arg_cong [OF e, of ord_orderId] by (simp add: snap_order_def)
      then show "n = m" using snap_id_inj [OF rel _ nm] t by simp
    qed
    then show ?thesis using card_image snap_rel_orders [OF rel, of t] t by fastforce
  qed
  then have "(\<Sum>t\<in>?T. card (row_blocks s t)) = total_live Bs" by (simp add: total_live_def)
  moreover have "card (\<Union>t\<in>?T. row_blocks s t) \<le> (\<Sum>t\<in>?T. card (row_blocks s t))" by (rule card_UN_le) simp
  ultimately show ?thesis using rel by (simp add: snap_rel_def)
qed

section \<open>The steps\<close>

lemma row_set_ok: "unat i < ME_MAX_ORDER_IDS \<Longrightarrow>
    row_set t i x s = Inr (s\<lparr>m_tickerOrders := (m_tickerOrders s)(t := (m_tickerOrders s t)(i := x))\<rparr>)"
  by (simp add: row_set_def)

lemma family_update_sel [simp]:
  "upd_tickerId u = t \<Longrightarrow> family_update u Bs t = spec_update u (Bs t)"
  "upd_tickerId u \<noteq> t \<Longrightarrow> family_update u Bs t = Bs t"
  by (auto simp: family_update_def)

lemma snap_add:
  assumes rel: "snap_rel s Bs" and fits: "family_fits u Bs" and ty: "upd_type u = ADD"
  shows "\<exists>s'. snap_apply u s = Inr s' \<and> snap_rel s' (family_update u Bs)"
proof -
  define t where "t = upd_tickerId u"
  define i where "i = upd_orderId u"
  let ?P = "snap_orderPool s"
  have t: "unat t < ME_MAX_TICKERS" and i: "unat i < ME_MAX_ORDER_IDS" and sd: "upd_side u \<in> sides"
    and fresh: "i \<notin> ord_orderId ` mlive (Bs t)" and tot: "total_live Bs + 1 < ME_MAX_ORDER_IDS"
    using fits ty by (simp_all add: family_fits_def upd_fits_def t_def i_def)
  have none: "m_tickerOrders s t i = None"
  proof (rule ccontr)
    assume "m_tickerOrders s t i \<noteq> None"
    then obtain n where n: "m_tickerOrders s t i = Some n" by blast
    then have "n \<in> row_blocks s t" using i by (rule row_Some [rotated])
    from snap_relD(6) [OF rel t this] have "upd_orderId (pobj ?P n) \<in> ord_orderId ` mlive (Bs t)"
      by (metis image_eqI snap_order_def upd_order_sel(1))
    moreover have "upd_orderId (pobj ?P n) = i" by (rule snap_rel_entry(1) [OF rel t i n])
    ultimately show False using fresh by simp
  qed
  have ok: "pool_ok ?P" and room: "Suc (card (pused ?P)) < m_size ?P"
    using snap_rel_pool [OF rel] snap_card [OF rel] tot by simp_all
  obtain n P' where P': "Allocate u ?P = Inr (n, P')" "pool_ok P'" "n \<notin> pused ?P" "pused P' = insert n (pused ?P)"
    "pobj P' = (pobj ?P)(n := u)" "m_size P' = m_size ?P"
    using pool.alloc_law [OF ok room, of u] by blast
  define s' where "s' = s\<lparr>snap_orderPool := P', m_tickerOrders := (m_tickerOrders s)(t := (m_tickerOrders s t)(i := Some n))\<rparr>"
  have run: "snap_apply u s = Inr s'"
    using ty t i none P'(1) by (simp add: snap_apply_def row_at_def row_set_ok t_def [symmetric] i_def [symmetric] s'_def)
  have rows: "row_blocks s' t' = (if t' = t then insert n (row_blocks s t) else row_blocks s t')" for t'
    using row_blocks_set [OF i, of s' s t "Some n"] none by (simp add: s'_def)
  have fr: "n \<notin> row_blocks s t'" if "unat t' < ME_MAX_TICKERS" for t' using snap_relD(5) [OF rel that] P'(3) by blast
  have ord: "snap_order s' k = (if k = n then upd_order u else snap_order s k)" for k
    using P'(5) by (simp add: snap_order_def s'_def)
  have img: "snap_order s' ` row_blocks s t' = snap_order s ` row_blocks s t'" if "unat t' < ME_MAX_TICKERS" for t'
    using fr [OF that] ord by (intro image_cong) auto
  have "snap_order s' ` row_blocks s' t' = mlive (family_update u Bs t')" if t': "unat t' < ME_MAX_TICKERS" for t'
  proof (cases "t' = t")
    case True
    have "snap_order s' ` row_blocks s' t = insert (upd_order u) (snap_order s' ` row_blocks s t)" using ord [of n] rows [of t] by simp
    also have "snap_order s' ` row_blocks s t = mlive (Bs t)" using img [OF t] snap_rel_orders [OF rel t] by simp
    finally show ?thesis using True ty sd by (simp add: mlive_update t_def)
  next
    case False
    then show ?thesis using snap_rel_orders [OF rel t'] img [OF t'] by (simp add: rows t_def)
  qed
  moreover have "pused P' = (\<Union>t\<in>{t. unat t < ME_MAX_TICKERS}. row_blocks s' t)"
    using t unfolding P'(4) snap_rel_pool(3) [OF rel] rows by auto
  moreover have "upd_orderId (pobj P' k) = j \<and> upd_tickerId (pobj P' k) = t' \<and> upd_type (pobj P' k) = ADD"
    if k: "unat t' < ME_MAX_TICKERS" "unat j < ME_MAX_ORDER_IDS" "m_tickerOrders s' t' j = Some k" for t' j k
  proof (cases "t' = t \<and> j = i")
    case True
    then show ?thesis using k(3) P'(5) ty by (auto simp: s'_def t_def i_def)
  next
    case False
    then have m: "m_tickerOrders s t' j = Some k" using k(3) by (auto simp: s'_def split: if_splits)
    then have "k \<noteq> n" using fr [OF k(1)] row_Some [OF k(2)] by blast
    then show ?thesis using snap_rel_entry [OF rel k(1,2) m] P'(5) by simp
  qed
  ultimately have "snap_rel s' (family_update u Bs)"
    using snap_rel_pool(2) [OF rel] P'(2,6) by (intro snap_relI) (simp_all add: s'_def)
  then show ?thesis using run by blast
qed

text \<open>The block of a live order.\<close>

lemma snap_live:
  assumes rel: "snap_rel s Bs" and t: "unat t < ME_MAX_TICKERS" and nl: "names_live u (Bs t)"
  obtains n where "n \<in> row_blocks s t" and "m_tickerOrders s t (upd_orderId u) = Some n" and "unat (upd_orderId u) < ME_MAX_ORDER_IDS"
    and "check_existing u (Some n) s = Inr ()" and "upd_price (pobj (snap_orderPool s) n) = upd_price u"
    and "upd_orderId (pobj (snap_orderPool s) n) = upd_orderId u"
proof -
  obtain r where r: "r \<in> mlive (Bs t)" "ord_orderId r = upd_orderId u" "ord_side r = upd_side u" "ord_price r = upd_price u"
    using nl by (auto simp: names_live_def)
  then obtain n where n: "n \<in> row_blocks s t" "r = snap_order s n" using snap_rel_orders [OF rel t] by blast
  have d: "upd_orderId (pobj (snap_orderPool s) n) = upd_orderId u" "upd_side (pobj (snap_orderPool s) n) = upd_side u"
    "upd_price (pobj (snap_orderPool s) n) = upd_price u"
    using r n(2) by (simp_all add: snap_order_def)
  have "check_existing u (Some n) s = Inr ()" using d by (simp add: check_existing_def)
  with that n(1) snap_relD(3,4) [OF rel t n(1)] d show thesis by simp
qed

lemma snap_modify:
  assumes rel: "snap_rel s Bs" and fits: "family_fits u Bs" and ty: "upd_type u = MODIFY"
  shows "\<exists>s'. snap_apply u s = Inr s' \<and> snap_rel s' (family_update u Bs)"
proof -
  define t where "t = upd_tickerId u"
  let ?P = "snap_orderPool s"
  have t: "unat t < ME_MAX_TICKERS" and nl: "names_live u (Bs t)"
    using fits ty by (simp_all add: family_fits_def upd_fits_def t_def)
  obtain n where n: "n \<in> row_blocks s t" "m_tickerOrders s t (upd_orderId u) = Some n" "unat (upd_orderId u) < ME_MAX_ORDER_IDS"
    "check_existing u (Some n) s = Inr ()" "upd_price (pobj ?P n) = upd_price u" "upd_orderId (pobj ?P n) = upd_orderId u"
    using snap_live [OF rel t nl] .
  define P' where "P' = poke n (\<lambda>x. x\<lparr>upd_price := upd_price u\<rparr>) (poke n (\<lambda>x. x\<lparr>upd_qty := upd_qty u\<rparr>) ?P)"
  define s' where "s' = s\<lparr>snap_orderPool := P'\<rparr>"
  have run: "snap_apply u s = Inr s'"
    using ty t n by (simp add: snap_apply_def row_at_def t_def [symmetric] s'_def P'_def)
  have pob: "pobj P' k = (if k = n then (pobj ?P n)\<lparr>upd_qty := upd_qty u\<rparr> else pobj ?P k)" for k
    using n(5) by (auto simp: P'_def pobj_poke)
  have rows: "row_blocks s' = row_blocks s" by (simp add: row_blocks_def s'_def fun_eq_iff)
  let ?f = "\<lambda>r :: SMarketOrder. if ord_orderId r = upd_orderId u then r\<lparr>ord_qty := upd_qty u\<rparr> else r"
  have "snap_order s' ` row_blocks s' t' = mlive (family_update u Bs t')" if t': "unat t' < ME_MAX_TICKERS" for t'
  proof (cases "t' = t")
    case True
    have "snap_order s' k = ?f (snap_order s k)" if k: "k \<in> row_blocks s t" for k
    proof -
      have "upd_orderId (pobj ?P k) = upd_orderId u \<longleftrightarrow> k = n" using snap_id_inj [OF rel t k n(1)] n(6) by auto
      then show ?thesis using pob [of k] by (simp add: snap_order_def s'_def upd_order_def)
    qed
    then have "snap_order s' ` row_blocks s t = ?f ` snap_order s ` row_blocks s t" unfolding image_image by (intro image_cong) simp_all
    then show ?thesis using True ty unfolding snap_rel_orders [OF rel t] by (simp add: rows mlive_update t_def)
  next
    case False
    have "n \<notin> row_blocks s t'" using row_blocks_disjoint [OF rel t t'] False n(1) by blast
    then have "snap_order s' ` row_blocks s t' = snap_order s ` row_blocks s t'"
      using pob by (intro image_cong) (auto simp: snap_order_def s'_def)
    then show ?thesis using False unfolding snap_rel_orders [OF rel t'] by (simp add: rows t_def)
  qed
  moreover have "upd_orderId (pobj P' k) = j \<and> upd_tickerId (pobj P' k) = t' \<and> upd_type (pobj P' k) = ADD"
    if "unat t' < ME_MAX_TICKERS" "unat j < ME_MAX_ORDER_IDS" "m_tickerOrders s t' j = Some k" for t' j k
    using snap_rel_entry [OF rel that] pob [of k] by (cases "k = n") simp_all
  moreover have "pused P' = pused ?P" "pool_ok P' = pool_ok ?P" "m_size P' = m_size ?P" by (simp_all add: P'_def)
  ultimately have "snap_rel s' (family_update u Bs)"
    using snap_rel_pool [OF rel] by (intro snap_relI) (simp_all add: s'_def rows [unfolded s'_def])
  then show ?thesis using run by blast
qed

lemma snap_cancel:
  assumes rel: "snap_rel s Bs" and fits: "family_fits u Bs" and ty: "upd_type u = CANCEL"
  shows "\<exists>s'. snap_apply u s = Inr s' \<and> snap_rel s' (family_update u Bs)"
proof -
  define t where "t = upd_tickerId u"
  define i where "i = upd_orderId u"
  let ?P = "snap_orderPool s"
  have t: "unat t < ME_MAX_TICKERS" and nl: "names_live u (Bs t)"
    using fits ty by (simp_all add: family_fits_def upd_fits_def t_def)
  obtain n where n: "n \<in> row_blocks s t" "m_tickerOrders s t i = Some n" "unat i < ME_MAX_ORDER_IDS"
    "check_existing u (Some n) s = Inr ()" "upd_orderId (pobj ?P n) = i"
    using snap_live [OF rel t nl] unfolding i_def by blast
  obtain P' where P': "Deallocate (Some n) ?P = Inr P'" "pool_ok P'" "pused P' = pused ?P - {n}" "pobj P' = pobj ?P" "m_size P' = m_size ?P"
    using pool.dealloc_law [of ?P n] snap_rel_pool(1) [OF rel] snap_relD(5) [OF rel t n(1)] by blast
  define s' where "s' = s\<lparr>snap_orderPool := P', m_tickerOrders := (m_tickerOrders s)(t := (m_tickerOrders s t)(i := None))\<rparr>"
  have run: "snap_apply u s = Inr s'"
    using ty t n P'(1) by (simp add: snap_apply_def row_at_def row_set_ok t_def [symmetric] i_def [symmetric] s'_def)
  have own: "m_tickerOrders s t j = Some n \<Longrightarrow> unat j < ME_MAX_ORDER_IDS \<Longrightarrow> j = i" for j
    using snap_rel_entry(1) [OF rel t, of j n] n(5) by simp
  have rows: "row_blocks s' t' = (if t' = t then row_blocks s t - {n} else row_blocks s t')" for t'
    using row_blocks_set [OF n(3), of s' s t None] own n(2) by (simp add: s'_def)
  have ord: "snap_order s' = snap_order s" using P'(4) by (simp add: snap_order_def s'_def fun_eq_iff)
  have "snap_order s' ` row_blocks s' t' = mlive (family_update u Bs t')" if t': "unat t' < ME_MAX_TICKERS" for t'
  proof (cases "t' = t")
    case True
    have idn: "ord_orderId (snap_order s k) = i \<longleftrightarrow> k = n" if "k \<in> row_blocks s t" for k
      using snap_id_inj [OF rel t that n(1)] n(5) by (auto simp: snap_order_def)
    have "snap_order s ` (row_blocks s t - {n}) = {r \<in> snap_order s ` row_blocks s t. ord_orderId r \<noteq> i}"
      using idn by auto
    then show ?thesis using True ty unfolding snap_rel_orders [OF rel t] by (simp add: rows ord mlive_update t_def i_def)
  next
    case False
    then show ?thesis using snap_rel_orders [OF rel t'] by (simp add: rows ord t_def)
  qed
  moreover have "pused P' = (\<Union>t\<in>{t. unat t < ME_MAX_TICKERS}. row_blocks s' t)"
    using t n(1) row_blocks_disjoint [OF rel t] unfolding P'(3) snap_rel_pool(3) [OF rel] rows by auto
  moreover have "m_tickerOrders s t' j = Some k" if "m_tickerOrders s' t' j = Some k" for t' j k
    using that by (auto simp: s'_def split: if_splits)
  then have "upd_orderId (pobj P' k) = j \<and> upd_tickerId (pobj P' k) = t' \<and> upd_type (pobj P' k) = ADD"
    if "unat t' < ME_MAX_TICKERS" "unat j < ME_MAX_ORDER_IDS" "m_tickerOrders s' t' j = Some k" for t' j k
    unfolding P'(4) using snap_rel_entry [OF rel that(1,2)] that(3) by blast
  ultimately have "snap_rel s' (family_update u Bs)"
    using snap_rel_pool(2) [OF rel] P'(2,5) by (intro snap_relI) (simp_all add: s'_def)
  then show ?thesis using run by blast
qed

lemma snap_apply_spec:
  assumes rel: "snap_rel s Bs" and fits: "family_fits u Bs"
  shows "\<exists>s'. snap_apply u s = Inr s' \<and> snap_rel s' (family_update u Bs)"
proof (cases "upd_type u = ADD \<or> upd_type u = MODIFY \<or> upd_type u = CANCEL")
  case True
  then show ?thesis using snap_add [OF assms] snap_modify [OF assms] snap_cancel [OF assms] by blast
next
  case False
  then have "mlive (spec_update u (Bs (upd_tickerId u))) = mlive (Bs (upd_tickerId u))"
    using fits unfolding mlive_update family_fits_def upd_fits_def by (cases "upd_type u") (simp_all add: mlive_def)
  then have "mlive (family_update u Bs t) = mlive (Bs t)" for t by (simp add: family_update_def)
  then have "snap_rel s (family_update u Bs)" using rel by (simp add: snap_rel_def)
  moreover have "snap_apply u s = Inr s"
    using False fits by (auto simp: snap_apply_def family_fits_def split: EMarketUpdateType.split)
  ultimately show ?thesis by simp
qed

interpretation snap: family_follower snap_apply snap_rel
  by unfold_locales (rule snap_apply_spec)

lemma snap_rel_new: "snap_rel (CSnapshotSynthesizer_new q) (\<lambda>_ _. [])"
  by (auto simp: snap_rel_def CSnapshotSynthesizer_new_def row_blocks_def mlive_def pool_ok_new bounds_defs)

end
