(* ===== verification/SnapshotFeed.thy ===== *)
theory SnapshotFeed
  imports SnapshotRefine
begin

text \<open>
  The two streams of the exchange: the publisher's numbering and forwarding, the synthesizer's run
  over a numbered stream, the messages of a snapshot, and the book that a client builds from them.
\<close>

section \<open>Numbered streams\<close>

fun number :: "64 word \<Rightarrow> SMEMarketUpdate list \<Rightarrow> MDPMarketUpdate list" where
  "number k [] = []"
| "number k (u # us) = \<lparr>mdp_seqNum = k, mdp_update = u\<rparr> # number (k + 1) us"

lemma number_append: "number k (us @ vs) = number k us @ number (k + of_nat (length us)) vs"
  by (induction us arbitrary: k) (simp_all add: add.assoc)

lemma length_number [simp]: "length (number k us) = length us"
  by (induction us arbitrary: k) simp_all

lemma map_update_number [simp]: "map mdp_update (number k us) = us"
  by (induction us arbitrary: k) simp_all

section \<open>The publisher's loop\<close>

lemma UpdateReadIndex_store: "UpdateReadIndex q = Inr q' \<Longrightarrow> q_store q' = q_store q"
  by (auto simp: UpdateReadIndex_def Let_def bindE_eq_Inr)

lemma next_slot:
  assumes "queue_ok q" and "contents q = u # us"
  shows "GetNextToRead q = Some (m_nextReadIndex q)" and "q_store q (m_nextReadIndex q) = u"
  using lfq.first_law [OF assms(1)] assms(2) by (auto simp: front_def GetNextToRead_def split: if_splits)

lemma pub_Run_spec:
  "queue_ok (pub_pOutgoingMdUpdates p) \<Longrightarrow> contents (pub_pOutgoingMdUpdates p) = us \<Longrightarrow> length us \<le> fuel \<Longrightarrow>
    queue_ok (pub_snapshotMdUpdates p) \<Longrightarrow> length (contents (pub_snapshotMdUpdates p)) + length us \<le> q_size (pub_snapshotMdUpdates p) \<Longrightarrow>
    \<exists>p'. pub_Run fuel p = Inr p' \<and> contents (pub_pOutgoingMdUpdates p') = [] \<and> queue_ok (pub_pOutgoingMdUpdates p')
      \<and> incremental_sent p' = incremental_sent p @ number (m_nextIncSeqNum p) us
      \<and> queue_ok (pub_snapshotMdUpdates p')
      \<and> contents (pub_snapshotMdUpdates p') = contents (pub_snapshotMdUpdates p) @ number (m_nextIncSeqNum p) us
      \<and> m_nextIncSeqNum p' = m_nextIncSeqNum p + of_nat (length us)"
proof (induction us arbitrary: p fuel)
  case Nil
  then have "GetNextToRead (pub_pOutgoingMdUpdates p) = None"
    using length_contents [of "pub_pOutgoingMdUpdates p"] by (simp add: GetNextToRead_def queue_size_def)
  then have "pub_Run fuel p = Inr p" by (subst pub_Run.simps) simp
  then show ?case using Nil by simp
next
  case (Cons u us)
  let ?q = "pub_pOutgoingMdUpdates p" and ?m = "\<lparr>mdp_seqNum = m_nextIncSeqNum p, mdp_update = u\<rparr>"
  obtain fuel' where fuel: "fuel = Suc fuel'" using Cons.prems(3) by (cases fuel) auto
  note slot = next_slot [OF Cons.prems(1,2)]
  obtain q1 where q1: "UpdateReadIndex ?q = Inr q1" "queue_ok q1" "contents q1 = us"
    using lfq.pop_law [OF Cons.prems(1,2)] by blast
  have st: "q_store q1 (m_nextReadIndex ?q) = u" using UpdateReadIndex_store [OF q1(1)] slot(2) by simp
  define p1 where "p1 = p\<lparr>incremental_sent := incremental_sent p @ [?m], pub_pOutgoingMdUpdates := q1,
      pub_snapshotMdUpdates := enqueue ?m (pub_snapshotMdUpdates p), m_nextIncSeqNum := m_nextIncSeqNum p + 1\<rparr>"
  have one: "publish_one [] (m_nextReadIndex ?q) p = Inr p1"
    using q1(1) slot(2) st by (simp add: publish_one_def Let_def p1_def)
  have snap: "queue_ok (enqueue ?m (pub_snapshotMdUpdates p))"
    "contents (enqueue ?m (pub_snapshotMdUpdates p)) = contents (pub_snapshotMdUpdates p) @ [?m]"
    using lfq.enq_law [OF Cons.prems(4), of ?m] Cons.prems(5) by simp_all
  have "pub_Run fuel p = pub_Run fuel' p1" using slot(1) one fuel by (subst pub_Run.simps) simp
  moreover have "length (contents (pub_snapshotMdUpdates p1)) + length us \<le> q_size (pub_snapshotMdUpdates p1)"
    using Cons.prems(5) snap(2) by (simp add: p1_def del: length_contents)
  ultimately show ?case using Cons.IH [of p1 fuel'] q1 snap Cons.prems(3) fuel by (simp add: p1_def add.assoc)
qed

text \<open>
  The read after the release: if the queue was full and the matching engine writes one update in
  between, the two streams get different updates under the same number.
\<close>

lemma publish_one_race:
  assumes q: "queue_ok (pub_pOutgoingMdUpdates p)" "contents (pub_pOutgoingMdUpdates p) = u # us"
    and full: "m_numElements (pub_pOutgoingMdUpdates p) = q_size (pub_pOutgoingMdUpdates p)"
    and s: "queue_ok (pub_snapshotMdUpdates p)" "length (contents (pub_snapshotMdUpdates p)) < q_size (pub_snapshotMdUpdates p)"
  shows "\<exists>p'. publish_one [w] (m_nextReadIndex (pub_pOutgoingMdUpdates p)) p = Inr p'
    \<and> incremental_sent p' = incremental_sent p @ [\<lparr>mdp_seqNum = m_nextIncSeqNum p, mdp_update = u\<rparr>]
    \<and> contents (pub_snapshotMdUpdates p') = contents (pub_snapshotMdUpdates p) @ [\<lparr>mdp_seqNum = m_nextIncSeqNum p, mdp_update = w\<rparr>]"
proof -
  let ?q = "pub_pOutgoingMdUpdates p"
  note slot = next_slot [OF q]
  obtain q1 where q1: "UpdateReadIndex ?q = Inr q1" using lfq.pop_law [OF q] by blast
  have w: "m_nextWriteIndex q1 = m_nextReadIndex ?q"
    using q1 q(1) full by (auto simp: UpdateReadIndex_def Let_def bindE_eq_Inr queue_ok_def)
  have "q_store (enqueue w q1) (m_nextReadIndex ?q) = w"
    using w by (simp add: enqueue_def UpdateWriteIndex_def write_slot_def GetNextToWriteTo_def)
  then show ?thesis using q1 slot(2) lfq.enq_law [OF s] by (simp add: publish_one_def Let_def)
qed

section \<open>The synthesizer on a numbered stream\<close>

lemma row_set_frame: "row_set t i x s = Inr s' \<Longrightarrow> \<exists>f. s' = s\<lparr>m_tickerOrders := f\<rparr>"
  by (auto simp: row_set_def bindE_eq_Inr)

lemma snap_apply_rows: "snap_apply u s = Inr s' \<Longrightarrow> \<exists>p f. s' = s\<lparr>snap_orderPool := p, m_tickerOrders := f\<rparr>"
proof -
  assume a: "snap_apply u s = Inr s'"
  have id: "\<exists>p f. s = s\<lparr>snap_orderPool := p, m_tickerOrders := f\<rparr>"
    by (intro exI [of _ "snap_orderPool s"] exI [of _ "m_tickerOrders s"]) simp
  have pool: "\<exists>p' f. s\<lparr>snap_orderPool := p\<rparr> = s\<lparr>snap_orderPool := p', m_tickerOrders := f\<rparr>" for p
    by (intro exI [of _ p] exI [of _ "m_tickerOrders s"]) simp
  have row: "row_set t i x (s\<lparr>snap_orderPool := p\<rparr>) = Inr s' \<Longrightarrow> \<exists>p f. s' = s\<lparr>snap_orderPool := p, m_tickerOrders := f\<rparr>" for t i x p
    by (drule row_set_frame) auto
  show ?thesis
  proof (cases "upd_type u")
    case ADD
    with a obtain t i x p where "row_set t i x (s\<lparr>snap_orderPool := p\<rparr>) = Inr s'"
      by (auto simp: snap_apply_def bindE_eq_Inr)
    then show ?thesis by (rule row)
  next
    case CANCEL
    with a obtain t i x p where "row_set t i x (s\<lparr>snap_orderPool := p\<rparr>) = Inr s'"
      by (auto simp: snap_apply_def bindE_eq_Inr)
    then show ?thesis by (rule row)
  next
    case MODIFY
    with a show ?thesis using pool by (auto simp: snap_apply_def bindE_eq_Inr)
  qed (use a id in \<open>auto simp: snap_apply_def bindE_eq_Inr\<close>)
qed

lemma snap_apply_frame: "snap_apply u s = Inr s' \<Longrightarrow> m_lastIncSeqNum s' = m_lastIncSeqNum s \<and> snapshot_sent s' = snapshot_sent s
    \<and> m_snapshotMdUpdates s' = m_snapshotMdUpdates s \<and> m_lastSnapshotTime s' = m_lastSnapshotTime s"
  by (drule snap_apply_rows) auto

lemma snap_rel_seq [simp]: "snap_rel (s\<lparr>m_lastIncSeqNum := k\<rparr>) Bs = snap_rel s Bs"
  by (simp add: snap_rel_def row_blocks_def snap_order_def)

lemma AddToSnapshot_all:
  "snap_rel s Bs \<Longrightarrow> family_feed_fits us Bs \<Longrightarrow>
    \<exists>s'. foldE AddToSnapshot (number (m_lastIncSeqNum s + 1) us) s = Inr s' \<and> snap_rel s' (fold family_update us Bs)
      \<and> m_lastIncSeqNum s' = m_lastIncSeqNum s + of_nat (length us) \<and> snapshot_sent s' = snapshot_sent s
      \<and> m_snapshotMdUpdates s' = m_snapshotMdUpdates s \<and> m_lastSnapshotTime s' = m_lastSnapshotTime s"
proof (induction us arbitrary: s Bs)
  case Nil
  then show ?case by simp
next
  case (Cons u us)
  obtain s1 where s1: "snap_apply u s = Inr s1" "snap_rel s1 (family_update u Bs)"
    using snap.step_law [of s Bs u] Cons.prems by auto
  note fr = snap_apply_frame [OF s1(1)]
  define s2 where "s2 = s1\<lparr>m_lastIncSeqNum := m_lastIncSeqNum s + 1\<rparr>"
  have "AddToSnapshot \<lparr>mdp_seqNum = m_lastIncSeqNum s + 1, mdp_update = u\<rparr> s = Inr s2"
    using s1(1) fr by (simp add: AddToSnapshot_def s2_def)
  moreover have "snap_rel s2 (family_update u Bs)" using s1(2) by (simp add: s2_def)
  ultimately show ?case using Cons.IH [of s2 "family_update u Bs"] Cons.prems(2) fr
    by (simp add: s2_def add.assoc)
qed

text \<open>A gap in the numbers stops the process.\<close>

lemma AddToSnapshot_gap:
  assumes "snap_rel s Bs" and "family_fits (mdp_update mu) Bs" and "mdp_seqNum mu \<noteq> m_lastIncSeqNum s + 1"
  shows "AddToSnapshot mu s = Inl (AssertFailed ''Expected incremental seq_nums to increase.'')"
proof -
  obtain s1 where s1: "snap_apply (mdp_update mu) s = Inr s1" using snap.step_law [OF assms(1,2)] by blast
  then show ?thesis using assms(3) snap_apply_frame [OF s1] by (simp add: AddToSnapshot_def)
qed

section \<open>The messages of a snapshot\<close>

definition ticker_orders :: "CSnapshotSynthesizer \<Rightarrow> TickerId \<Rightarrow> SMEMarketUpdate list" where
  "ticker_orders s t = map (pobj (snap_orderPool s))
     (List.map_filter (\<lambda>i. m_tickerOrders s t (of_nat i)) [0..<ME_MAX_ORDER_IDS])"

definition snapshot_body :: "CSnapshotSynthesizer \<Rightarrow> SMEMarketUpdate list" where
  "snapshot_body s = concat (map (\<lambda>t. snap_clear (of_nat t) # ticker_orders s (of_nat t)) [0..<ME_MAX_TICKERS])"

lemma snap_send_all: "fold snap_send us (k, out) = (k + of_nat (length us), out @ number k us)"
  by (induction us arbitrary: k out) (simp_all add: snap_send_def add.assoc)

lemma publish_orders: "fold (\<lambda>i. publish_order p (m (of_nat i))) is st
    = fold snap_send (map (pobj p) (List.map_filter (\<lambda>i. m (of_nat i)) is)) st"
proof (induction "is" arbitrary: st)
  case (Cons i "is")
  then show ?case by (cases "m (of_nat i)") (simp_all add: publish_order_def map_filter_simps pobj_def)
qed (simp add: map_filter_simps)

lemma publish_ticker_eq: "publish_ticker s t st = fold snap_send (snap_clear t # ticker_orders s t) st"
  by (simp add: publish_ticker_def publish_orders ticker_orders_def)

lemma publish_tickers: "fold (\<lambda>t. publish_ticker s (of_nat t)) ts st
    = fold snap_send (concat (map (\<lambda>t. snap_clear (of_nat t) # ticker_orders s (of_nat t)) ts)) st"
  by (induction ts arbitrary: st) (simp_all add: publish_ticker_eq)

lemma PublishSnapshot_messages:
  "PublishSnapshot s = s\<lparr>snapshot_sent := snapshot_sent s @ number 0
     (snap_mark SNAPSHOT_START (m_lastIncSeqNum s) # snapshot_body s @ [snap_mark SNAPSHOT_END (m_lastIncSeqNum s)])\<rparr>"
proof -
  let ?all = "snap_mark SNAPSHOT_START (m_lastIncSeqNum s) # snapshot_body s @ [snap_mark SNAPSHOT_END (m_lastIncSeqNum s)]"
  have "snap_send (snap_mark SNAPSHOT_END (m_lastIncSeqNum s)) (fold (\<lambda>t. publish_ticker s (of_nat t)) [0..<ME_MAX_TICKERS]
      (snap_send (snap_mark SNAPSHOT_START (m_lastIncSeqNum s)) (0, []))) = fold snap_send ?all (0, [])"
    unfolding publish_tickers snapshot_body_def by simp
  also have "\<dots> = (of_nat (length ?all), number 0 ?all)" by (simp only: snap_send_all add_0 append_Nil)
  finally show ?thesis by (simp only: PublishSnapshot_def Let_def snd_conv)
qed

section \<open>Rebuilding a book from its orders\<close>

text \<open>A book in price-time order, and one whose prices the tables can tell apart.\<close>

definition msorted :: "mbook \<Rightarrow> bool" where
  "msorted B \<longleftrightarrow> (\<forall>sd\<in>sides. sorted_wrt (precedes sd) (B sd) \<and> (\<forall>r\<in>set (B sd). ord_side r = sd))"

definition representable :: "SMarketOrder set \<Rightarrow> bool" where
  "representable S \<longleftrightarrow> finite S \<and> card S < ME_MAX_ORDER_IDS \<and> card (ord_price ` S) + 1 < ME_MAX_PRICE_LEVELS
     \<and> inj_on ord_orderId S
     \<and> (\<forall>r\<in>S. ord_side r \<in> sides \<and> unat (ord_orderId r) < ME_MAX_ORDER_IDS)
     \<and> (\<forall>r\<in>S. \<forall>q\<in>S. PriceToIndex (ord_price r) = PriceToIndex (ord_price q) \<longrightarrow> ord_side r = ord_side q \<and> ord_price r = ord_price q)"

lemma precedes_irrefl [simp]: "\<not> precedes sd x x"
  by (simp add: precedes_def)

lemma precedes_asym: "precedes sd x y \<Longrightarrow> \<not> precedes sd y x"
  using precedes_trans precedes_irrefl by blast

lemma sorted_unique:
  "sorted_wrt (precedes sd) xs \<Longrightarrow> sorted_wrt (precedes sd) ys \<Longrightarrow> set xs = set ys \<Longrightarrow> xs = ys"
proof (induction xs arbitrary: ys)
  case (Cons x xs)
  then obtain y zs where ys: "ys = y # zs" by (cases ys) auto
  have "x = y"
  proof (rule ccontr)
    assume "x \<noteq> y"
    then have "precedes sd x y" "precedes sd y x" using Cons.prems ys by (auto simp: set_eq_iff)
    then show False using precedes_asym by blast
  qed
  moreover have "set xs = set zs"
  proof -
    have "x \<notin> set xs" "x \<notin> set zs" using Cons.prems ys \<open>x = y\<close> by auto
    then show ?thesis using Cons.prems(3) ys \<open>x = y\<close> by auto
  qed
  ultimately show ?case using Cons.IH [of zs] Cons.prems ys by simp
qed simp

lemma msorted_unique:
  assumes "msorted B" and "msorted C" and "mlive B = mlive C"
  shows "mbook_eq B C"
  unfolding mbook_eq_def
proof
  fix sd assume sd: "sd \<in> sides"
  have "set (B sd) = {r \<in> mlive B. ord_side r = sd}" if "msorted B" for B
    using that sd by (auto simp: msorted_def mlive_def sides_def)
  then have "set (B sd) = set (C sd)" using assms by simp
  then show "B sd = C sd" using assms(1,2) sd by (intro sorted_unique [of sd]) (simp_all add: msorted_def)
qed

lemma msorted_length:
  assumes "msorted B"
  shows "length (B BUY) + length (B SELL) = card (mlive B)"
proof -
  have "distinct rs" if "sorted_wrt (precedes sd) rs" for sd and rs :: "SMarketOrder list"
    using that by (induction rs) auto
  then have "distinct (B sd)" if "sd \<in> sides" for sd using assms that unfolding msorted_def by blast
  then have d: "card (set (B BUY)) = length (B BUY)" "card (set (B SELL)) = length (B SELL)"
    by (simp_all add: distinct_card sides_def)
  have "set (B BUY) \<inter> set (B SELL) = {}" using assms by (auto simp: msorted_def sides_def)
  then show ?thesis using d by (simp add: mlive_def card_Un_disjoint)
qed

lemma add_sorted:
  assumes s: "msorted B" and rep: "representable S" and sub: "mlive B \<subseteq> S" and u: "upd_type u = ADD" "upd_order u \<in> S"
    and ids: "\<forall>r\<in>mlive B. ord_orderId r < upd_orderId u"
  shows "upd_fits u B" and "msorted (spec_update u B)" and "mlive (spec_update u B) = insert (upd_order u) (mlive B)"
proof -
  have "\<forall>r\<in>S. ord_side r \<in> sides \<and> unat (ord_orderId r) < ME_MAX_ORDER_IDS" using rep unfolding representable_def by (elim conjE)
  from bspec [OF this u(2)] have sd: "upd_side u \<in> sides" and i: "unat (upd_orderId u) < ME_MAX_ORDER_IDS" by simp_all
  have new: "upd_orderId u \<notin> ord_orderId ` mlive B" using ids by auto
  then have nB: "upd_order u \<notin> mlive B" by (metis image_eqI upd_order_sel(1))
  have fin: "finite S" using rep by (simp add: representable_def)
  have "card (insert (upd_order u) (mlive B)) \<le> card S" using sub u(2) by (intro card_mono [OF fin]) auto
  then have c: "card (mlive B) + 1 < ME_MAX_ORDER_IDS" using rep nB by (simp add: representable_def)
  have "card (ord_price ` mlive B) \<le> card (ord_price ` S)" using sub fin by (intro card_mono) auto
  then have p: "card (ord_price ` mlive B) + 1 < ME_MAX_PRICE_LEVELS" using rep by (simp add: representable_def)
  have lv: "r \<in> mlive B" if "r \<in> set (B sd')" "sd' \<in> sides" for r sd' using that by (auto simp: mlive_def sides_def)
  have col: "sd' = upd_side u \<and> ord_price r = upd_price u"
    if r: "sd' \<in> sides" "r \<in> set (B sd')" "PriceToIndex (ord_price r) = PriceToIndex (upd_price u)" for sd' r
  proof -
    have "r \<in> S" using lv [OF r(2,1)] sub by blast
    then have "ord_side r = ord_side (upd_order u) \<and> ord_price r = ord_price (upd_order u)"
      using rep u(2) r(3) unfolding representable_def by (metis upd_order_sel(3))
    moreover have "ord_side r = sd'" using s r by (simp add: msorted_def)
    ultimately show ?thesis by simp
  qed
  show "upd_fits u B"
    unfolding upd_fits_def u EMarketUpdateType.case using sd i new c p col msorted_length [OF s] by auto
  show "mlive (spec_update u B) = insert (upd_order u) (mlive B)" using u sd by (simp add: mlive_update)
  show "msorted (spec_update u B)"
    unfolding msorted_def
  proof
    fix sd' assume sd': "sd' \<in> sides"
    show "sorted_wrt (precedes sd') (spec_update u B sd') \<and> (\<forall>r\<in>set (spec_update u B sd'). ord_side r = sd')"
    proof (cases "sd' = upd_side u")
      case True
      have "\<forall>r\<in>set (B sd'). ord_orderId r < ord_orderId (upd_order u)" using ids lv sd' by auto
      then show ?thesis using True s sd' u(1) spec_insert_sorted [of sd' "B sd'" "upd_order u"]
        by (auto simp: spec_update_def msorted_def)
    next
      case False
      then show ?thesis using s sd' u(1) by (simp add: spec_update_def msorted_def)
    qed
  qed
qed

lemma adds_lead:
  "msorted B \<Longrightarrow> representable S \<Longrightarrow> mlive B \<union> upd_order ` set us = S \<Longrightarrow> (\<forall>u\<in>set us. upd_type u = ADD) \<Longrightarrow>
    sorted_wrt (\<lambda>u v. upd_orderId u < upd_orderId v) us \<Longrightarrow> (\<forall>r\<in>mlive B. \<forall>u\<in>set us. ord_orderId r < upd_orderId u) \<Longrightarrow>
    feed_fits us B \<and> msorted (fold spec_update us B) \<and> mlive (fold spec_update us B) = S"
proof (induction us arbitrary: B)
  case (Cons u us)
  have "upd_type u = ADD" "upd_order u \<in> S" "mlive B \<subseteq> S" using Cons.prems(3,4) by auto
  note a = add_sorted [OF Cons.prems(1,2) this(3,1,2)]
  have lt: "\<forall>r\<in>mlive B. ord_orderId r < upd_orderId u" using Cons.prems(6) by simp
  have "feed_fits us (spec_update u B) \<and> msorted (fold spec_update us (spec_update u B)) \<and> mlive (fold spec_update us (spec_update u B)) = S"
    using Cons.prems a [OF lt] by (intro Cons.IH) auto
  then show ?case using a(1) [OF lt] by simp
qed simp

lemma clear_leads: "upd_type u = CLEAR \<Longrightarrow> B BUY = [] \<Longrightarrow> B SELL = [] \<Longrightarrow> leads_to [u] B (\<lambda>_. [])"
  by (rule leads_to_one) (simp_all add: upd_fits_def spec_update_def)

text \<open>The orders of a row, in the order in which the snapshot sends them.\<close>

lemma ticker_orders_rel:
  assumes rel: "snap_rel s Bs" and t: "unat t < ME_MAX_TICKERS"
  shows "upd_order ` set (ticker_orders s t) = mlive (Bs t)" and "\<forall>u\<in>set (ticker_orders s t). upd_type u = ADD \<and> upd_tickerId u = t"
    and "sorted_wrt (\<lambda>u v. upd_orderId u < upd_orderId v) (ticker_orders s t)"
proof -
  let ?m = "\<lambda>i :: nat. m_tickerOrders s t (of_nat i)" and ?f = "\<lambda>n. unat (upd_orderId (pobj (snap_orderPool s) n))"
  have i: "unat (of_nat i :: OrderId) = i" if "i < ME_MAX_ORDER_IDS" for i using that by (simp add: bounds_defs unat_of_nat)
  have rows: "{n. \<exists>i\<in>set [0..<ME_MAX_ORDER_IDS]. ?m i = Some n} = row_blocks s t"
  proof (intro set_eqI iffI)
    show "n \<in> row_blocks s t" if n: "n \<in> {n. \<exists>i\<in>set [0..<ME_MAX_ORDER_IDS]. ?m i = Some n}" for n
    proof -
      obtain k where k: "k < ME_MAX_ORDER_IDS" "?m k = Some n" using n by auto
      then show ?thesis using i [OF k(1)] unfolding in_row_blocks by (intro exI [of _ "of_nat k"]) simp
    qed
    show "n \<in> {n. \<exists>i\<in>set [0..<ME_MAX_ORDER_IDS]. ?m i = Some n}" if n: "n \<in> row_blocks s t" for n
    proof -
      obtain j where "unat j < ME_MAX_ORDER_IDS" "m_tickerOrders s t j = Some n" using n unfolding in_row_blocks by blast
      then show ?thesis by (intro CollectI bexI [of _ "unat j"]) simp_all
    qed
  qed
  then have st: "set (ticker_orders s t) = pobj (snap_orderPool s) ` row_blocks s t"
    by (simp add: ticker_orders_def set_map_filter del: set_upt)
  then show "upd_order ` set (ticker_orders s t) = mlive (Bs t)"
    using snap_rel_orders [OF rel t] by (simp add: image_image snap_order_def)
  show "\<forall>u\<in>set (ticker_orders s t). upd_type u = ADD \<and> upd_tickerId u = t"
    unfolding st using snap_relD(1,2) [OF rel t] by blast
  have "sorted_wrt (\<lambda>a b. ?f a < ?f b) (List.map_filter ?m [0..<ME_MAX_ORDER_IDS])"
  proof (rule map_filter_sorted)
    show "sorted_wrt (<) [0..<ME_MAX_ORDER_IDS]" by (simp add: strict_sorted_iff)
    show "?f n = k" if "k \<in> set [0..<ME_MAX_ORDER_IDS]" "?m k = Some n" for k n
      using snap_rel_entry(1) [OF rel t, of "of_nat k" n] i [of k] that by simp
  qed
  then show "sorted_wrt (\<lambda>u v. upd_orderId u < upd_orderId v) (ticker_orders s t)"
    by (simp add: ticker_orders_def sorted_wrt_map word_less_nat_alt)
qed

lemma ticker_rebuild:
  assumes rel: "snap_rel s Bs" and t: "unat t < ME_MAX_TICKERS" and so: "msorted (Bs t)" and rp: "representable (mlive (Bs t))"
  shows "leads_to (snap_clear t # ticker_orders s t) (\<lambda>_. []) (Bs t)"
proof -
  note O = ticker_orders_rel [OF rel t]
  have e: "msorted (\<lambda>_. [])" "mlive (\<lambda>_. []) = {}" by (simp_all add: msorted_def mlive_def)
  have "feed_fits (ticker_orders s t) (\<lambda>_. []) \<and> msorted (fold spec_update (ticker_orders s t) (\<lambda>_. []))
    \<and> mlive (fold spec_update (ticker_orders s t) (\<lambda>_. [])) = mlive (Bs t)"
    using O e by (intro adds_lead [OF e(1) rp]) auto
  then have "leads_to (ticker_orders s t) (\<lambda>_. []) (Bs t)"
    using msorted_unique [OF _ so] by (simp add: leads_to_def)
  then show ?thesis using leads_to_append [OF clear_leads [of "snap_clear t" "\<lambda>_. []"]] by (simp add: snap_clear_def)
qed

text \<open>What a snapshot sends about one ticker.\<close>

lemma filter_concat_one:
  "distinct xs \<Longrightarrow> x \<in> set xs \<Longrightarrow> (\<And>y. y \<in> set xs \<Longrightarrow> filter P (f y) = (if y = x then f x else []))
    \<Longrightarrow> filter P (concat (map f xs)) = f x"
proof (induction xs)
  case (Cons y xs)
  have IH: "filter P (concat (map f xs)) = f x" if "x \<in> set xs" using Cons that by simp
  have "filter P (concat (map f xs)) = []" if "x \<notin> set xs" using Cons.prems(3) that by (induction xs) auto
  then show ?case using Cons.prems IH by (cases "y = x") auto
qed simp

lemma ticker_feed_body:
  assumes rel: "snap_rel s Bs" and t: "unat t < ME_MAX_TICKERS"
  shows "ticker_feed t (snapshot_body s) = snap_clear t # ticker_orders s t"
proof -
  let ?f = "\<lambda>k. snap_clear (of_nat k) # ticker_orders s (of_nat k)"
  have i: "unat (of_nat k :: TickerId) = k" if "k < ME_MAX_TICKERS" for k using that by (simp add: bounds_defs unat_of_nat)
  have "filter (\<lambda>u. upd_tickerId u = t) (?f k) = (if k = unat t then ?f (unat t) else [])" if "k \<in> set [0..<ME_MAX_TICKERS]" for k
  proof -
    have k: "unat (of_nat k :: TickerId) < ME_MAX_TICKERS" using that i by simp
    have all: "\<forall>u\<in>set (?f k). upd_tickerId u = of_nat k"
      using ticker_orders_rel(2) [OF rel k] by (simp add: snap_clear_def)
    have "of_nat k = t \<longleftrightarrow> k = unat t" using that i by auto
    then show ?thesis using all by (auto simp: filter_id_conv filter_empty_conv)
  qed
  then have "filter (\<lambda>u. upd_tickerId u = t) (concat (map ?f [0..<ME_MAX_TICKERS])) = ?f (unat t)"
    by (intro filter_concat_one) (use t in simp_all)
  then show ?thesis by (simp add: ticker_feed_def snapshot_body_def)
qed

lemma INVALID_ticker: "\<not> unat TickerId_INVALID < ME_MAX_TICKERS"
  by (simp add: TickerId_INVALID_def bounds_defs unsigned_minus_1_eq_mask mask_eq_exp_minus_1)

lemma snap_mark_feed: "unat t < ME_MAX_TICKERS \<Longrightarrow> ticker_feed t (snap_mark ty k # us) = ticker_feed t us"
  using INVALID_ticker by (auto simp: ticker_feed_def snap_mark_def SMEMarketUpdate_default_def)

lemma PublishSnapshot_feed:
  assumes "snap_rel s Bs" and "unat t < ME_MAX_TICKERS" and "snapshot_sent s = []"
  shows "ticker_feed t (map mdp_update (snapshot_sent (PublishSnapshot s))) = snap_clear t # ticker_orders s t"
  using assms(2,3) snap_mark_feed [OF assms(2), of _ _ "[]"]
  by (simp add: PublishSnapshot_messages snap_mark_feed ticker_feed_body [OF assms(1,2)]) (simp add: ticker_feed_def)

text \<open>A round of the synthesizer's loop: the queued numbered updates, then a snapshot if a minute has passed.\<close>

lemma snap_Run_spec:
  assumes rel: "snap_rel s Bs" and q: "queue_ok (m_snapshotMdUpdates s)" and c: "contents (m_snapshotMdUpdates s) = number (m_lastIncSeqNum s + 1) us"
    and fits: "family_feed_fits us Bs" and late: "sint (now - m_lastSnapshotTime s) > sint (60 * NANOS_TO_SECS)"
  shows "\<exists>s'. snap_Run now now' s = Inr (PublishSnapshot s') \<and> snap_rel s' (fold family_update us Bs)
    \<and> m_lastIncSeqNum s' = m_lastIncSeqNum s + of_nat (length us) \<and> snapshot_sent s' = snapshot_sent s"
proof -
  let ?q = "m_snapshotMdUpdates s"
  obtain s1 where s1: "foldE AddToSnapshot (contents ?q) s = Inr s1" "snap_rel s1 (fold family_update us Bs)"
    "m_lastIncSeqNum s1 = m_lastIncSeqNum s + of_nat (length us)" "snapshot_sent s1 = snapshot_sent s"
    "m_lastSnapshotTime s1 = m_lastSnapshotTime s"
    using AddToSnapshot_all [OF rel fits] unfolding c by blast
  have "length (contents ?q) < Suc (m_numElements ?q)" by simp
  from lfq.drain_law [OF q this, of AddToSnapshot s] s1(1)
  obtain q' where q': "drain (Suc (m_numElements ?q)) front UpdateReadIndex AddToSnapshot ?q s = Inr (q', s1)" by auto
  have "snap_rel (s1\<lparr>m_snapshotMdUpdates := q', m_lastSnapshotTime := now'\<rparr>) (fold family_update us Bs)"
    using s1(2) by (simp add: snap_rel_def row_blocks_def snap_order_def)
  then show ?thesis using q' s1 late
    by (intro exI [of _ "s1\<lparr>m_snapshotMdUpdates := q', m_lastSnapshotTime := now'\<rparr>"]) (simp add: snap_Run_def Let_def)
qed

end
