(* ===== verification/FeedChain.thy ===== *)
theory FeedChain
  imports FeedMirror MarketBBO SnapshotFeed
begin

text \<open>
  From the exchange's book to the client's: what the update stream of a run of the matching engine
  satisfies, and when the orders of a book can be sent as a snapshot.
\<close>

section \<open>The stream of a run\<close>

lemma request_tickers:
  assumes "request_ok r sp" and "\<forall>u\<in>set (sp_updates sp). unat (upd_tickerId u) < ME_MAX_TICKERS"
  shows "\<forall>u\<in>set (sp_updates (spec_request r sp)). unat (upd_tickerId u) < ME_MAX_TICKERS"
proof -
  obtain B calls where res: "spec_result r sp = (B, calls)" by fastforce
  have "unat (req_tickerId r) < ME_MAX_TICKERS" using assms(1) by (simp add: request_ok_def Let_def)
  then show ?thesis using assms(2) spec_result_ticker [OF res] res by (auto simp: spec_request_def Let_def)
qed

lemma requests_tickers:
  "requests_ok rs sp \<Longrightarrow> \<forall>u\<in>set (sp_updates sp). unat (upd_tickerId u) < ME_MAX_TICKERS
    \<Longrightarrow> \<forall>u\<in>set (sp_updates (fold spec_request rs sp)). unat (upd_tickerId u) < ME_MAX_TICKERS"
proof (induction rs arbitrary: sp)
  case (Cons r rs)
  then have "\<forall>u\<in>set (sp_updates (spec_request r sp)). unat (upd_tickerId u) < ME_MAX_TICKERS"
    by (intro request_tickers) simp_all
  then show ?case using Cons.IH [of "spec_request r sp"] Cons.prems(1) unfolding fold_Cons comp_apply requests_ok.simps by blast
qed simp

lemma requests_room:
  "requests_ok rs sp \<Longrightarrow> length (sp_updates sp) \<le> ME_MAX_MARKET_UPDATES
    \<Longrightarrow> length (sp_updates (fold spec_request rs sp)) \<le> ME_MAX_MARKET_UPDATES"
  by (induction rs arbitrary: sp) (simp_all add: request_ok_def Let_def)

lemma run_feed:
  assumes ok: "requests_ok rs spec_start" and len: "length rs < ME_MAX_ORDER_IDS"
  defines "sp \<equiv> fold spec_request rs spec_start"
  shows "leads_to (ticker_feed t (sp_updates sp)) (\<lambda>_. []) (mirror (sp_books sp t))" and "oids_ok (sp_books sp t)"
    and "spec_inv (sp_next sp t) (sp_books sp t)" and "length (sp_updates sp) \<le> ME_MAX_MARKET_UPDATES"
    and "family_feed_fits (sp_updates sp) (\<lambda>_ _. [])"
proof -
  have "\<forall>t. unat (sp_next spec_start t) + length rs \<le> ME_MAX_ORDER_IDS" using len by (simp add: spec_start_def)
  then have f: "feed_inv sp" unfolding sp_def by (rule spec_requests_feed [OF spec_start_inv feed_inv_start ok])
  then show l: "leads_to (ticker_feed t (sp_updates sp)) (\<lambda>_. []) (mirror (sp_books sp t))" and "oids_ok (sp_books sp t)" for t
    by (simp_all add: feed_inv_def)
  show "spec_inv (sp_next sp t) (sp_books sp t)"
    using spec_requests_inv [OF spec_start_inv ok] by (simp add: spec_engine_inv_def sp_def)
  show r: "length (sp_updates sp) \<le> ME_MAX_MARKET_UPDATES"
    unfolding sp_def by (rule requests_room [OF ok]) (simp add: spec_start_def)
  show "family_feed_fits (sp_updates sp) (\<lambda>_ _. [])"
  proof (rule family_feed_fitsI)
    show "feed_fits (ticker_feed t (sp_updates sp)) (\<lambda>_. [])" for t using l [of t] by (simp add: leads_to_def)
    show "unat (upd_tickerId u) < ME_MAX_TICKERS" if "u \<in> set (sp_updates sp)" for u
      using requests_tickers [OF ok] that by (simp add: sp_def spec_start_def)
    have "total_live (\<lambda>_ _. []) = 0" by (simp add: total_live_def mlive_def)
    then show "total_live (\<lambda>_ _. []) + length (sp_updates sp) < ME_MAX_ORDER_IDS" using r by (simp add: bounds_defs)
  qed
qed

section \<open>Books a client can hold\<close>

lemma msorted_mirror:
  assumes "spec_inv m B"
  shows "msorted (mirror B)"
proof -
  have "side_inv m sd (B sd)" if "sd \<in> sides" for sd using spec_invD(1) [OF assms that] .
  then show ?thesis
    by (auto simp: msorted_def mirror_def side_inv_def sorted_wrt_map precedes_def [abs_def])
qed

lemma mkt_repr_levels:
  assumes rep: "mkt_repr bk B" and r: "r \<in> mlive B" and q: "q \<in> mlive B" and pi: "PriceToIndex (ord_price r) = PriceToIndex (ord_price q)"
  shows "ord_price r = ord_price q" and "ord_side r = ord_side q" and "unat (ord_orderId r) < ME_MAX_ORDER_IDS"
proof -
  obtain ss where m: "mkt_rep bk ss" and B: "\<forall>sd\<in>sides. morders bk ss sd = B sd" using rep by (auto simp: mkt_repr_def)
  have brep: "book_rep (mb_core bk) ss {}" using m by (simp add: mkt_rep_def)
  have node: "\<exists>sd x n. sd \<in> sides \<and> x \<in> set (ss sd) \<and> n \<in> set (snd x) \<and> ord_price r = px (mb_core bk) x \<and> ord_side r = sd
      \<and> ord_orderId r = moid bk n \<and> n \<in> order_set ss" if r: "r \<in> mlive B" for r
  proof -
    obtain sd where sd: "sd \<in> sides" "r \<in> set (morders bk ss sd)" using r B by (auto simp: mlive_def sides_def)
    then obtain n x where n: "x \<in> set (ss sd)" "n \<in> set (snd x)" "r = strip (pobj (m_orderPool (mb_core bk)) n)"
      unfolding morders_def set_map by (auto simp: in_onodes)
    have "n \<in> order_set ss" using n(2) level_setI [of sd x ss] sd(1) n(1) unfolding in_order_set by blast
    moreover have "ord_price r = px (mb_core bk) x" "ord_side r = sd" "ord_orderId r = moid bk n"
      using repD [OF brep sd(1) n(1)] n(2,3) by (auto simp: lvl_rep_def)
    ultimately show ?thesis using sd(1) n(1,2) by blast
  qed
  obtain sd x n where a: "sd \<in> sides" "x \<in> set (ss sd)" "ord_price r = px (mb_core bk) x" "ord_side r = sd" "ord_orderId r = moid bk n" "n \<in> order_set ss"
    using node [OF r] by blast
  obtain sd' y where b: "sd' \<in> sides" "y \<in> set (ss sd')" "ord_price q = px (mb_core bk) y" "ord_side q = sd'" using node [OF q] by blast
  have "x \<in> level_set ss" "y \<in> level_set ss" using a b by (auto simp: in_level_set)
  then have "fst x = fst y" using table_ok_level [OF brep] pi a(3) b(3) by (metis option.inject)
  then show "ord_price r = ord_price q" using a(3) b(3) by (simp add: px_def)
  show "ord_side r = ord_side q" using rep_side_unique [OF brep a(1) b(1) a(2) b(2)] \<open>fst x = fst y\<close> a(4) b(4) by simp
  have "moid_ok bk (order_set ss)" using m by (simp add: mkt_rep_def)
  then show "unat (ord_orderId r) < ME_MAX_ORDER_IDS" using moid_okD(1) a(5,6) by simp
qed

lemma representable_mirror:
  assumes rep: "mkt_repr bk (mirror B)" and room: "has_room B"
  shows "representable (mlive (mirror B))"
proof -
  have ok: "mbook_ok (mirror B)" by (rule mkt_repr_mbook_ok [OF rep])
  have "card (mlive (mirror B)) \<le> length (mirror B BUY) + length (mirror B SELL)"
    unfolding mlive_def by (rule order.trans [OF card_Un_le add_mono [OF card_length card_length]])
  then have c: "card (mlive (mirror B)) < ME_MAX_ORDER_IDS" using room by (simp add: mirror_def has_room_def)
  have "ord_price ` mlive (mirror B) = ord_price ` live_orders B" by (simp add: mlive_mirror image_image)
  then have p: "card (ord_price ` mlive (mirror B)) + 1 < ME_MAX_PRICE_LEVELS" using room by (simp add: has_room_def)
  have s: "ord_side r \<in> sides" if "r \<in> mlive (mirror B)" for r using ok that by (auto simp: mbook_ok_def mlive_def sides_def)
  have "inj_on ord_orderId (mlive (mirror B))" using ok by (simp add: mbook_ok_def)
  moreover have "\<forall>r\<in>mlive (mirror B). ord_side r \<in> sides \<and> unat (ord_orderId r) < ME_MAX_ORDER_IDS"
    using s mkt_repr_levels(3) [OF rep _ _ refl] by blast
  moreover have "\<forall>r\<in>mlive (mirror B). \<forall>q\<in>mlive (mirror B). PriceToIndex (ord_price r) = PriceToIndex (ord_price q)
      \<longrightarrow> ord_side r = ord_side q \<and> ord_price r = ord_price q"
    using mkt_repr_levels(1,2) [OF rep] by blast
  ultimately show ?thesis unfolding representable_def by (intro conjI finite_mlive c p)
qed

end
