(* ===== verification/MarketClear.thy ===== *)
theory MarketClear
  imports MarketBBO
begin

text \<open>
  \<open>CLEAR\<close> on a client's book that holds orders: it gives every order and every level back to its
  pool and empties the id map and both sides, but it leaves the table from price to level as it
  was, so the entries of the old levels are stale.
\<close>

section \<open>Giving blocks back\<close>

lemma Deallocate_next: "Deallocate x p = Inr p' \<Longrightarrow> m_nextFreeIndex p' = m_nextFreeIndex p"
  by (auto simp: Deallocate_def bindE_eq_Inr split: option.splits)

lemma dealloc_list:
  "pool_ok p \<Longrightarrow> distinct xs \<Longrightarrow> set xs \<subseteq> pused p \<Longrightarrow>
    \<exists>p'. foldE (\<lambda>x. Deallocate (Some x)) xs p = Inr p' \<and> pool_ok p' \<and> pused p' = pused p - set xs
      \<and> pobj p' = pobj p \<and> m_size p' = m_size p \<and> m_nextFreeIndex p' = m_nextFreeIndex p"
proof (induction xs arbitrary: p)
  case Nil
  then show ?case by simp
next
  case (Cons x xs)
  obtain p1 where p1: "Deallocate (Some x) p = Inr p1" "pool_ok p1" "m_size p1 = m_size p" "pobj p1 = pobj p" "pused p1 = pused p - {x}"
    using Deallocate_ok [OF Cons.prems(1), of x] Cons.prems(3) by auto
  have "set xs \<subseteq> pused p1" using Cons.prems(2,3) p1(5) by auto
  then obtain p' where "foldE (\<lambda>x. Deallocate (Some x)) xs p1 = Inr p'" "pool_ok p'" "pused p' = pused p1 - set xs"
      "pobj p' = pobj p1" "m_size p' = m_size p1" "m_nextFreeIndex p' = m_nextFreeIndex p1"
    using Cons.IH [OF p1(2)] Cons.prems(2) by auto
  then show ?case using p1 Deallocate_next [OF p1(1)] by auto
qed

lemma foldE_optional:
  "foldE (\<lambda>i p. if m i \<noteq> None then D (m i) p else Inr p) is p = foldE (\<lambda>x. D (Some x)) (List.map_filter m is) p"
proof (induction "is" arbitrary: p)
  case (Cons i "is")
  then show ?case by (cases "m i") (simp_all add: map_filter_simps bindE_def split: sum.split)
qed (simp add: map_filter_simps)

lemma clear_orders_live:
  assumes ok: "pool_ok p" and m: "\<And>i n. unat i < ME_MAX_ORDER_IDS \<Longrightarrow> m i = Some n \<longleftrightarrow> n \<in> S \<and> f n = i"
    and f: "\<And>n. n \<in> S \<Longrightarrow> unat (f n) < ME_MAX_ORDER_IDS" and us: "pused p = S"
  shows "\<exists>p'. clear_orders m p = Inr p' \<and> pool_ok p' \<and> pused p' = {} \<and> pobj p' = pobj p
    \<and> m_size p' = m_size p \<and> m_nextFreeIndex p' = m_nextFreeIndex p"
proof -
  let ?is = "[0..<ME_MAX_ORDER_IDS]" and ?m = "\<lambda>i :: nat. m (of_nat i)"
  have lt: "unat (of_nat i :: OrderId) = i" if "i \<in> set ?is" for i using that by (simp add: bounds_defs unat_of_nat)
  have ms: "?m i = Some n \<longleftrightarrow> n \<in> S \<and> unat (f n) = i" if "i \<in> set ?is" for i n
    using m [of "of_nat i" n] lt [OF that] that by (auto simp: word_unat_eq_iff)
  have d: "distinct (List.map_filter ?m ?is)"
    by (rule map_filter_distinct) (use ms in auto)
  have "{n. \<exists>i\<in>set ?is. ?m i = Some n} = S"
  proof (intro set_eqI iffI)
    show "n \<in> S" if "n \<in> {n. \<exists>i\<in>set ?is. ?m i = Some n}" for n using that ms by blast
    show "n \<in> {n. \<exists>i\<in>set ?is. ?m i = Some n}" if "n \<in> S" for n
    proof -
      have i: "unat (f n) \<in> set ?is" using f [OF that] by simp
      then have "?m (unat (f n)) = Some n" using ms that by blast
      then show ?thesis using i by blast
    qed
  qed
  then have "distinct (List.map_filter ?m ?is)" "set (List.map_filter ?m ?is) = S" using d by (simp_all add: set_map_filter del: set_upt)
  moreover have "clear_orders m p = foldE (\<lambda>x. Deallocate (Some x)) (List.map_filter ?m ?is) p"
    unfolding clear_orders_def by (rule foldE_optional)
  ultimately show ?thesis using dealloc_list [OF ok, of "List.map_filter ?m ?is"] us by simp
qed

lemma clear_ring_chain:
  "chain (nxL p) pv (k # ns @ [f]) \<Longrightarrow> f \<notin> set ns \<Longrightarrow> length ns \<le> fuel \<Longrightarrow> pool_ok p \<Longrightarrow> distinct ns \<Longrightarrow> set ns \<subseteq> pused p \<Longrightarrow>
    clear_ring fuel (Some f) (pNextEntry (pobj p k)) p = foldE (\<lambda>x. Deallocate (Some x)) ns p"
proof (induction ns arbitrary: k fuel p)
  case Nil
  then show ?case by (simp add: clear_ring.simps nxL_def)
next
  case (Cons n ns)
  then obtain fuel' where fuel: "fuel = Suc fuel'" by (cases fuel) auto
  have nx: "pNextEntry (pobj p k) = Some n" using Cons.prems(1) by (simp add: nxL_def)
  have n: "n \<noteq> f" using Cons.prems(2) by auto
  obtain p1 where p1: "Deallocate (Some n) p = Inr p1" "pool_ok p1" "pobj p1 = pobj p" "pused p1 = pused p - {n}"
    by (rule Deallocate_ok [OF Cons.prems(4), of n]) (use Cons.prems(6) in auto)
  have "nxL p1 = nxL p" using p1(3) by (simp add: nxL_def fun_eq_iff)
  then have "clear_ring fuel' (Some f) (pNextEntry (pobj p1 n)) p1 = foldE (\<lambda>x. Deallocate (Some x)) ns p1"
    using Cons.prems fuel p1(2,4) by (intro Cons.IH) auto
  then show ?case using nx n p1(1) by (simp add: clear_ring.simps [of "Suc fuel'"] fuel)
qed

lemma foldE_one_last: "foldE D (xs @ [x]) p = bindE (foldE D xs p) (D x)"
  by (simp add: foldE_append bindE_def split: sum.split)

lemma clear_levels_ring:
  assumes r: "ring (nxL p) (pvL p) ls" and ok: "pool_ok p" and us: "set ls \<subseteq> pused p" and best: "best = head_ptr ls"
  shows "\<exists>p'. clear_levels best p = Inr p' \<and> pool_ok p' \<and> pused p' = pused p - set ls \<and> pobj p' = pobj p \<and> m_size p' = m_size p"
proof (cases ls)
  case Nil
  then show ?thesis using best ok by (simp add: clear_levels_def head_ptr_def)
next
  case (Cons f ns)
  have d: "distinct (f # ns)" using ring_distinct [OF r] Cons by simp
  have ch: "chain (nxL p) (pvL p) (f # ns @ [f])" using r Cons by (simp add: ring_def)
  have "length ns \<le> card (pused p)"
    using card_mono [of "pused p" "set ns"] us Cons d by (simp add: distinct_card)
  also have "\<dots> \<le> m_size p" using card_mono [of "{..<m_size p}" "pused p"] by (auto simp: pused_def)
  finally have "clear_ring (m_size p) (Some f) (pNextEntry (pobj p f)) p = foldE (\<lambda>x. Deallocate (Some x)) ns p"
    using clear_ring_chain [OF ch] d ok us Cons by simp
  then have "clear_levels best p = foldE (\<lambda>x. Deallocate (Some x)) (ns @ [f]) p"
    using best Cons by (simp add: clear_levels_def head_ptr_def foldE_one_last)
  then show ?thesis using dealloc_list [OF ok, of "ns @ [f]"] d us Cons by auto
qed

section \<open>The cleared book\<close>

lemma mkt_Clear_spec:
  assumes rep: "mkt_rep bk ss"
  shows "\<exists>bk'. mkt_Clear bk = Inr bk' \<and> m_pBidsByPrice (mb_core bk') = None \<and> m_pAsksByPrice (mb_core bk') = None
    \<and> m_oidToOrder bk' = (\<lambda>_. None) \<and> pused (m_orderPool (mb_core bk')) = {} \<and> pused (m_ordersAtPricePool (mb_core bk')) = {}
    \<and> pool_ok (m_orderPool (mb_core bk')) \<and> m_size (m_orderPool (mb_core bk')) = ME_MAX_ORDER_IDS
    \<and> m_nextFreeIndex (m_orderPool (mb_core bk')) = m_nextFreeIndex (m_orderPool (mb_core bk))
    \<and> pobj (m_orderPool (mb_core bk')) = pobj (m_orderPool (mb_core bk))
    \<and> pobj (m_ordersAtPricePool (mb_core bk')) = pobj (m_ordersAtPricePool (mb_core bk))
    \<and> m_priceOrdersAtPrice (mb_core bk') = m_priceOrdersAtPrice (mb_core bk)
    \<and> m_pBbo bk' = m_pBbo bk \<and> notified bk' = notified bk"
proof -
  let ?c = "mb_core bk" and ?ls = "\<lambda>sd. map fst (ss sd)"
  have brep: "book_rep ?c ss {}" and iok: "moid_ok bk (order_set ss)" using rep by (simp_all add: mkt_rep_def)
  have links: "side_links ?c BUY (?ls BUY)" "side_links ?c SELL (?ls SELL)" using brep by (auto simp: book_rep_def sides_def)
  have lok: "pool_ok (m_ordersAtPricePool ?c)" and ook: "pool_ok (m_orderPool ?c)"
    and lus: "pused (m_ordersAtPricePool ?c) = set (?ls BUY) \<union> set (?ls SELL)" and ous: "pused (m_orderPool ?c) = order_set ss"
    using brep by (auto simp: book_rep_def level_set_def sides_def)
  obtain op where op: "clear_orders (m_oidToOrder bk) (m_orderPool ?c) = Inr op" "pool_ok op" "pused op = {}" "pobj op = pobj (m_orderPool ?c)"
    "m_size op = m_size (m_orderPool ?c)" "m_nextFreeIndex op = m_nextFreeIndex (m_orderPool ?c)"
  proof -
    have "m_oidToOrder bk i = Some n \<longleftrightarrow> n \<in> order_set ss \<and> moid bk n = i" if "unat i < ME_MAX_ORDER_IDS" for i n
      using iok that by (simp add: moid_ok_def)
    from clear_orders_live [OF ook this moid_okD(1) [OF iok] ous] show thesis using that by blast
  qed
  have best: "m_pBidsByPrice ?c = head_ptr (?ls BUY)" "m_pAsksByPrice ?c = head_ptr (?ls SELL)"
    using links by (simp_all add: side_links_def best_of_def head_ptr_def)
  have dis: "set (?ls BUY) \<inter> set (?ls SELL) = {}" using rep_side_unique [OF brep, of BUY SELL] by (auto simp: sides_def)
  have rb: "ring (nxL (m_ordersAtPricePool ?c)) (pvL (m_ordersAtPricePool ?c)) (?ls BUY)"
    and rs: "ring (nxL (m_ordersAtPricePool ?c)) (pvL (m_ordersAtPricePool ?c)) (?ls SELL)"
    using links by (simp_all add: side_links_def)
  obtain lp1 where lp1: "clear_levels (m_pBidsByPrice ?c) (m_ordersAtPricePool ?c) = Inr lp1" "pool_ok lp1"
    "pused lp1 = set (?ls SELL)" "pobj lp1 = pobj (m_ordersAtPricePool ?c)"
    using clear_levels_ring [OF rb lok _ best(1)] lus Diff_triv [of "set (?ls SELL)" "set (?ls BUY)"] dis
    by (auto simp: Un_Diff Int_commute)
  have "nxL lp1 = nxL (m_ordersAtPricePool ?c)" "pvL lp1 = pvL (m_ordersAtPricePool ?c)" using lp1(4) by (simp_all add: link_defs fun_eq_iff)
  then have r2: "ring (nxL lp1) (pvL lp1) (?ls SELL)" using rs by simp
  obtain lp2 where lp2: "clear_levels (m_pAsksByPrice ?c) lp1 = Inr lp2" "pused lp2 = {}" "pobj lp2 = pobj lp1"
    using clear_levels_ring [OF r2 lp1(2) _ best(2)] lp1(3) by auto
  show ?thesis using op lp1 lp2 rep by (simp add: mkt_Clear_def Let_def mkt_rep_def)
qed

text \<open>A stale table entry: the next order at that price goes to a level that no side leads to.\<close>

lemma clear_then_add:
  assumes rep: "mkt_rep bk ss" and x: "x \<in> level_set ss" and pi: "PriceToIndex (upd_price u) = PriceToIndex (px (mb_core bk) x)"
    and u: "upd_type u = ADD" "unat (upd_orderId u) < ME_MAX_ORDER_IDS" and cl: "mkt_Clear bk = Inr bk1"
  shows "\<exists>bk2. apply_update u bk1 = Inr bk2 \<and> m_pBidsByPrice (mb_core bk2) = None \<and> m_pAsksByPrice (mb_core bk2) = None
    \<and> m_oidToOrder bk2 (upd_orderId u) \<noteq> None"
proof -
  let ?c = "mb_core bk" and ?c1 = "mb_core bk1"
  have brep: "book_rep ?c ss {}" using rep by (simp add: mkt_rep_def)
  note C = mkt_Clear_spec [OF rep, unfolded cl, simplified]
  have e: "m_pBidsByPrice ?c1 = None" "m_pAsksByPrice ?c1 = None" "pool_ok (m_orderPool ?c1)" "pused (m_orderPool ?c1) = {}"
    "m_size (m_orderPool ?c1) = ME_MAX_ORDER_IDS" "m_nextFreeIndex (m_orderPool ?c1) = m_nextFreeIndex (m_orderPool ?c)"
    "pobj (m_orderPool ?c1) = pobj (m_orderPool ?c)" "pobj (m_ordersAtPricePool ?c1) = pobj (m_ordersAtPricePool ?c)"
    "m_priceOrdersAtPrice ?c1 = m_priceOrdersAtPrice ?c" using C by simp_all
  obtain sd where sd: "sd \<in> sides" "x \<in> set (ss sd)" using x by (auto simp: in_level_set)
  note lx = repD [OF brep sd, unfolded lvl_rep_def]
  define first where "first = hd (snd x)"
  define n where "n = m_nextFreeIndex (m_orderPool ?c)"
  have tab: "m_priceOrdersAtPrice ?c1 (PriceToIndex (upd_price u)) = Some (fst x)" using table_ok_level [OF brep x] e(9) pi by simp
  have fx: "first \<in> set (snd x)" "last (snd x) \<in> set (snd x)" using lx by (simp_all add: first_def)
  then have "first \<in> pused (m_orderPool ?c)" "last (snd x) \<in> pused (m_orderPool ?c)"
    using brep x by (auto simp: book_rep_def in_order_set)
  moreover have "n \<notin> pused (m_orderPool ?c)" using brep by (auto simp: book_rep_def pool_ok_def pused_def n_def)
  ultimately have nf: "n \<noteq> first" "n \<noteq> last (snd x)" by auto
  have pf: "pFirstOrder (pobj (m_ordersAtPricePool ?c) (fst x)) = Some first" using lx by (simp add: first_def)
  have pv: "pPrevOrder (pobj (m_orderPool ?c) first) = Some (last (snd x))" unfolding first_def by (rule last_by_pPrev [OF brep sd])
  have "Suc (card (pused (m_orderPool ?c1))) < m_size (m_orderPool ?c1)" using e(4,5) by (simp add: bounds_defs)
  then obtain Q where Q: "Allocate (upd_order u) (m_orderPool ?c1) = Inr (n, Q)" "pobj Q = (pobj (m_orderPool ?c))(n := upd_order u)"
    by (rule Allocate_ok [OF e(3), of "upd_order u"]) (simp add: e(6,7) n_def)
  define c2 where "c2 = ?c1\<lparr>m_orderPool := Q\<rparr>"
  have "\<exists>c3. link_order (Some n) (Some first) c2 = Inr c3 \<and> m_pBidsByPrice c3 = None \<and> m_pAsksByPrice c3 = None
    \<and> ord_orderId (pobj (m_orderPool c3) n) = upd_orderId u"
    using nf pv e(1,2) Q(2) by (simp add: link_order_def c2_def pobj_poke upd_order_def)
  then obtain c3 where c3: "link_order (Some n) (Some first) c2 = Inr c3" "m_pBidsByPrice c3 = None" "m_pAsksByPrice c3 = None"
    "ord_orderId (pobj (m_orderPool c3) n) = upd_orderId u" by blast
  have "AddOrder_links (Some n) c2 = Inr c3"
    using tab c3(1) pf e(8) Q(2) by (simp add: AddOrder_links_def c2_def upd_order_def)
  then show ?thesis using c3 Q(1) u by (simp add: apply_update_def mkt_AddOrder_links oid_set_ok upd_order_def c2_def)
qed

end
