(* ===== verification/MarketProperties.thy ===== *)
theory MarketProperties
  imports FeedChain MarketClear ExchangeProperties
begin

text \<open>
  The properties of the market data path: the client's order book against the update stream and
  against the exchange's book, its best bid and offer, the publisher, the snapshot synthesizer and
  the book rebuilt from a snapshot.
\<close>

section \<open>Concrete updates\<close>

definition ex_update :: "EMarketUpdateType \<Rightarrow> OrderId \<Rightarrow> ESide \<Rightarrow> Price \<Rightarrow> Qty \<Rightarrow> SMEMarketUpdate" where
  "ex_update ty i sd p q = \<lparr>upd_type = ty, upd_orderId = i, upd_tickerId = 1, upd_side = sd, upd_price = p, upd_qty = q, upd_priority = 1\<rparr>"

lemma ex_update_sel [simp]:
  "upd_type (ex_update ty i sd p q) = ty" "upd_orderId (ex_update ty i sd p q) = i" "upd_tickerId (ex_update ty i sd p q) = 1"
  "upd_side (ex_update ty i sd p q) = sd" "upd_price (ex_update ty i sd p q) = p" "upd_qty (ex_update ty i sd p q) = q"
  by (simp_all add: ex_update_def)

lemma ex_add_fits: "unat i < ME_MAX_ORDER_IDS \<Longrightarrow> sd \<in> sides \<Longrightarrow> upd_fits (ex_update ADD i sd p q) (\<lambda>_. [])"
  by (simp add: upd_fits_def mlive_def bounds_defs)

section \<open>The client's book\<close>

text \<open>C12: \<open>CMarketOrderBook::OnMarketUpdate\<close> carries out every update that fits the book without a fault: the linked
  levels, the rings of orders and the id table represent the updated lists, the trade engine is notified
  once, and the best bid and offer are those of the contract \<open>spec_bbo\<close>.\<close>

theorem OnMarketUpdate_refines:
  assumes "mkt_repr bk B" and "upd_fits u B"
  shows "\<exists>bk'. OnMarketUpdate u bk = Inr bk' \<and> mkt_repr bk' (spec_update u B)
    \<and> m_pBbo bk' = spec_bbo u B (m_pBbo bk) \<and> notified bk' = notified bk @ [spec_event u]"
  using OnMarketUpdate_spec [OF assms] by blast

theorem OnMarketUpdate_refines_witness:
  "\<exists>bk'. OnMarketUpdate (ex_update ADD 4 BUY 100 7) (CMarketOrderBook_new 1) = Inr bk'
    \<and> mkt_repr bk' (spec_update (ex_update ADD 4 BUY 100 7) (\<lambda>_. []))"
proof -
  have "upd_fits (ex_update ADD 4 BUY 100 7) (\<lambda>_. [])" by (rule ex_add_fits) (simp_all add: bounds_defs sides_def)
  from OnMarketUpdate_refines [OF mkt_repr_new this] show ?thesis by blast
qed

text \<open>C3: end to end: after the matching engine has processed its requests, feeding the updates of a ticker, in the
  order in which the engine wrote them, to a new client book succeeds, and the client's book holds exactly
  the orders of the exchange's book in the same price-time order.\<close>

theorem client_mirrors_exchange:
  assumes "engine_rel me spec_start" and "queue_ok (m_pIncomingRequests me)"
    and "requests_ok (contents (m_pIncomingRequests me)) spec_start" and "length (contents (m_pIncomingRequests me)) < ME_MAX_ORDER_IDS"
    and "unat t < ME_MAX_TICKERS"
  shows "\<exists>me' bk B. me_Run me = Inr me' \<and> me_repr (m_tickerOrderBook me' t) B
    \<and> foldE OnMarketUpdate (ticker_feed t (contents (m_pOutgoingMdUpdates me'))) (CMarketOrderBook_new t) = Inr bk
    \<and> mkt_repr bk (mirror B)"
proof -
  define sp where "sp = fold spec_request (contents (m_pIncomingRequests me)) spec_start"
  obtain me' where me': "me_Run me = Inr me'" "engine_rel me' sp"
    using me_Run_spec [OF assms(1-3)] by (auto simp: sp_def)
  have c: "contents (m_pOutgoingMdUpdates me') = sp_updates sp" "me_repr (m_tickerOrderBook me' t) (sp_books sp t)"
    using me'(2) assms(5) by (simp_all add: engine_rel_def)
  have l: "feed_fits (ticker_feed t (sp_updates sp)) (\<lambda>_. [])"
    "mbook_eq (fold spec_update (ticker_feed t (sp_updates sp)) (\<lambda>_. [])) (mirror (sp_books sp t))"
    using run_feed(1) [OF assms(3,4), of t] by (simp_all add: leads_to_def sp_def)
  obtain bk where bk: "foldE OnMarketUpdate (ticker_feed t (sp_updates sp)) (CMarketOrderBook_new t) = Inr bk"
    "mkt_repr bk (fold spec_update (ticker_feed t (sp_updates sp)) (\<lambda>_. []))"
    using market.follow [OF mkt_repr_new l(1)] by blast
  have "mkt_repr bk (mirror (sp_books sp t))" using bk(2) l(2) by (auto simp: mkt_repr_def mbook_eq_def)
  then show ?thesis using me'(1) c bk(1) by metis
qed

theorem client_mirrors_exchange_witness:
  "\<exists>me' bk B. me_Run ex_engine = Inr me' \<and> me_repr (m_tickerOrderBook me' 1) B
    \<and> foldE OnMarketUpdate (ticker_feed 1 (contents (m_pOutgoingMdUpdates me'))) (CMarketOrderBook_new 1) = Inr bk
    \<and> mkt_repr bk (mirror B)"
  using client_mirrors_exchange [OF ex_engine_rel ex_engine_incoming(1), of 1] ex_stream_ok
  by (simp add: ex_engine_incoming(2) ex_stream_def bounds_defs)

text \<open>C32: the best bid and offer stay the top of the book (price and total quantity of the best level on both
  sides) through every update except the first order of an empty side.\<close>

theorem bbo_follows_book:
  assumes "mkt_repr bk B" and "upd_fits u B" and "bbo_fresh (m_pBbo bk) B" and "\<not> first_of_side u B"
  shows "\<exists>bk'. OnMarketUpdate u bk = Inr bk' \<and> mkt_repr bk' (spec_update u B) \<and> bbo_fresh (m_pBbo bk') (spec_update u B)"
proof -
  have "bbo_fresh (spec_bbo u B (m_pBbo bk)) (spec_update u B)"
    by (rule bbo_stays_fresh [OF mkt_repr_mbook_ok [OF assms(1)] assms(2-4)])
  then show ?thesis using OnMarketUpdate_spec [OF assms(1,2)] by metis
qed

theorem bbo_follows_book_witness:
  "\<exists>bk'. OnMarketUpdate (ex_update TRADE 0 BUY 100 7) (CMarketOrderBook_new 1) = Inr bk' \<and> bbo_fresh (m_pBbo bk') (\<lambda>_. [])"
proof -
  let ?u = "ex_update TRADE 0 BUY 100 7"
  have "upd_fits ?u (\<lambda>_. [])" "\<not> first_of_side ?u (\<lambda>_. [])" "spec_update ?u (\<lambda>_. []) = (\<lambda>_. [])"
    by (simp_all add: upd_fits_def first_of_side_def spec_update_def)
  moreover have "bbo_fresh (m_pBbo (CMarketOrderBook_new 1)) (\<lambda>_. [])"
    by (simp add: bbo_fresh_def CMarketOrderBook_new_def SBBO_default_def)
  ultimately show ?thesis using bbo_follows_book [OF mkt_repr_new [of 1], of ?u] by auto
qed

text \<open>The first order of an empty side never reaches the best bid and offer: the flags that trigger
  \<open>UpdateBBO\<close> need an existing best price, so the order is in the book, on top of its side, while the BBO stays as it was.\<close>

theorem first_order_misses_bbo:
  assumes "mkt_repr bk B" and "upd_fits u B" and "first_of_side u B"
  shows "\<exists>bk'. OnMarketUpdate u bk = Inr bk' \<and> mkt_repr bk' (spec_update u B)
    \<and> spec_top (spec_update u B (upd_side u)) = (upd_price u, upd_qty u) \<and> m_pBbo bk' = m_pBbo bk"
proof -
  have u: "upd_type u = ADD" "B (upd_side u) = []" "upd_side u \<in> sides"
    using assms(2,3) by (auto simp: first_of_side_def upd_fits_def)
  then have "spec_bbo u B (m_pBbo bk) = m_pBbo bk" by (intro bbo_misses_first)
  moreover have "spec_top (spec_update u B (upd_side u)) = (upd_price u, upd_qty u)"
    using u by (simp add: spec_update_def spec_insert_def upd_order_def)
  ultimately show ?thesis using OnMarketUpdate_spec [OF assms(1,2)] by auto
qed

theorem first_order_misses_bbo_witness:
  "\<exists>bk'. OnMarketUpdate (ex_update ADD 4 BUY 100 7) (CMarketOrderBook_new 1) = Inr bk' \<and> m_pBbo bk' = SBBO_default
    \<and> spec_top (spec_update (ex_update ADD 4 BUY 100 7) (\<lambda>_. []) BUY) = (100, 7)"
proof -
  have "upd_fits (ex_update ADD 4 BUY 100 7) (\<lambda>_. [])" by (rule ex_add_fits) (simp_all add: bounds_defs sides_def)
  moreover have "first_of_side (ex_update ADD 4 BUY 100 7) (\<lambda>_. [])" by (simp add: first_of_side_def)
  moreover have "m_pBbo (CMarketOrderBook_new 1) = SBBO_default" by (simp add: CMarketOrderBook_new_def)
  ultimately show ?thesis using first_order_misses_bbo [OF mkt_repr_new [of 1], of "ex_update ADD 4 BUY 100 7"] by auto
qed

section \<open>Clearing the book\<close>

lemma mlive_level:
  assumes "mkt_rep bk ss" and "\<forall>sd\<in>sides. morders bk ss sd = B sd" and "r \<in> mlive B"
  shows "\<exists>x\<in>level_set ss. ord_price r = px (mb_core bk) x"
proof -
  obtain sd where sd: "sd \<in> sides" "r \<in> set (morders bk ss sd)" using assms(2,3) by (auto simp: mlive_def sides_def)
  then obtain n x where n: "x \<in> set (ss sd)" "n \<in> set (snd x)" "r = strip (pobj (m_orderPool (mb_core bk)) n)"
    unfolding morders_def set_map by (auto simp: in_onodes)
  have brep: "book_rep (mb_core bk) ss {}" using assms(1) by (simp add: mkt_rep_def)
  have "ord_price r = px (mb_core bk) x" using repD [OF brep sd(1) n(1)] n(2,3) by (auto simp: lvl_rep_def)
  then show ?thesis using level_setI [of sd x ss] sd(1) n(1) by blast
qed

text \<open>\<open>CLEAR\<close> leaves the table of levels by price untouched, so the next order at a price that had a level is
  linked to the freed level: the id table knows the order, but neither side of the book leads to it.\<close>

theorem clear_leaves_stale_levels:
  assumes "mkt_repr bk B" and "r \<in> mlive B" and "PriceToIndex (upd_price u) = PriceToIndex (ord_price r)"
    and "upd_type u = ADD" and "unat (upd_orderId u) < ME_MAX_ORDER_IDS"
  shows "\<exists>bk1 bk2. OnMarketUpdate (snap_clear t) bk = Inr bk1 \<and> OnMarketUpdate u bk1 = Inr bk2
    \<and> m_pBidsByPrice (mb_core bk2) = None \<and> m_pAsksByPrice (mb_core bk2) = None \<and> m_oidToOrder bk2 (upd_orderId u) \<noteq> None"
proof -
  obtain ss where rep: "mkt_rep bk ss" and B: "\<forall>sd\<in>sides. morders bk ss sd = B sd" using assms(1) by (auto simp: mkt_repr_def)
  obtain x where x: "x \<in> level_set ss" "ord_price r = px (mb_core bk) x" using mlive_level [OF rep B assms(2)] by blast
  define b0 where "b0 = bk\<lparr>notified := notified bk @ [OnOrderBookUpdate t Price_INVALID Side_INVALID]\<rparr>"
  have rep0: "mkt_rep b0 ss" using rep by (simp add: mkt_rep_def moid_ok_def b0_def)
  obtain c1 where c1: "mkt_Clear b0 = Inr c1" "m_pBidsByPrice (mb_core c1) = None" "m_pAsksByPrice (mb_core c1) = None"
    "notified c1 = notified b0"
    using mkt_Clear_spec [OF rep0] by blast
  obtain bk1 where bk1: "mkt_Clear bk = Inr bk1" using mkt_Clear_spec [OF rep] by blast
  have c1': "c1 = bk1\<lparr>notified := notified b0\<rparr>"
    using c1(1) bk1 by (auto simp: mkt_Clear_def b0_def Let_def bindE_eq_Inr)
  obtain bk2 where bk2: "apply_update u c1 = Inr bk2" "m_pBidsByPrice (mb_core bk2) = None" "m_pAsksByPrice (mb_core bk2) = None"
    "m_oidToOrder bk2 (upd_orderId u) \<noteq> None"
    using clear_then_add [OF rep0 x(1) _ assms(4,5) c1(1)] assms(3) x(2) by (auto simp: b0_def)
  have "notified bk1 = notified bk" using mkt_Clear_spec [OF rep] bk1 by auto
  then have 1: "OnMarketUpdate (snap_clear t) bk = Inr c1"
    using bk1 c1' c1(2,3) by (simp add: OnMarketUpdate_def bid_updated_def ask_updated_def snap_clear_def SMEMarketUpdate_default_def
        apply_update_def UpdateBBO_def b0_def)
  have 2: "OnMarketUpdate u c1 = Inr (bk2\<lparr>notified := notified bk2 @ [OnOrderBookUpdate (upd_tickerId u) (upd_price u) (upd_side u)]\<rparr>)"
    using c1(2,3) bk2(1) assms(4) by (simp add: OnMarketUpdate_def bid_updated_def ask_updated_def UpdateBBO_def)
  have "\<exists>b. OnMarketUpdate u c1 = Inr b \<and> m_pBidsByPrice (mb_core b) = None \<and> m_pAsksByPrice (mb_core b) = None
    \<and> m_oidToOrder b (upd_orderId u) \<noteq> None" using 2 bk2 by simp
  then show ?thesis using 1 by blast
qed

theorem clear_leaves_stale_levels_witness:
  "\<exists>bk0 bk1 bk2. OnMarketUpdate (ex_update ADD 4 BUY 100 7) (CMarketOrderBook_new 1) = Inr bk0
    \<and> OnMarketUpdate (snap_clear 1) bk0 = Inr bk1 \<and> OnMarketUpdate (ex_update ADD 5 BUY 100 2) bk1 = Inr bk2
    \<and> m_pBidsByPrice (mb_core bk2) = None \<and> m_oidToOrder bk2 5 \<noteq> None"
proof -
  have "upd_fits (ex_update ADD 4 BUY 100 7) (\<lambda>_. [])" by (rule ex_add_fits) (simp_all add: bounds_defs sides_def)
  then obtain bk0 where bk0: "OnMarketUpdate (ex_update ADD 4 BUY 100 7) (CMarketOrderBook_new 1) = Inr bk0"
    "mkt_repr bk0 (spec_update (ex_update ADD 4 BUY 100 7) (\<lambda>_. []))" using OnMarketUpdate_spec [OF mkt_repr_new] by blast
  have r: "upd_order (ex_update ADD 4 BUY 100 7) \<in> mlive (spec_update (ex_update ADD 4 BUY 100 7) (\<lambda>_. []))"
    by (simp add: mlive_update sides_def)
  have "\<exists>bk1 bk2. OnMarketUpdate (snap_clear 1) bk0 = Inr bk1 \<and> OnMarketUpdate (ex_update ADD 5 BUY 100 2) bk1 = Inr bk2
    \<and> m_pBidsByPrice (mb_core bk2) = None \<and> m_pAsksByPrice (mb_core bk2) = None \<and> m_oidToOrder bk2 (upd_orderId (ex_update ADD 5 BUY 100 2)) \<noteq> None"
    by (rule clear_leaves_stale_levels [OF bk0(2) r]) (simp_all add: upd_order_def bounds_defs)
  then show ?thesis using bk0(1) by auto
qed

section \<open>Order ids past the end of the tables\<close>

lemma set_lvl_orders: "set_lvl x f b = Inr b' \<Longrightarrow> m_orderPool b' = m_orderPool b"
  by (auto simp: set_lvl_def bindE_eq_Inr)

lemma link_level_orders:
  "link_level_after pNew target b = Inr b' \<Longrightarrow> m_orderPool b' = m_orderPool b"
  "link_level_before pNew target b = Inr b' \<Longrightarrow> m_orderPool b' = m_orderPool b"
  unfolding link_level_after_def link_level_before_def bindE_eq_Inr by (elim exE conjE; simp add: set_lvl_orders)+

lemma new_best_orders: "new_best_level pNew target best sd price b = Inr b' \<Longrightarrow> m_orderPool b' = m_orderPool b"
  by (auto simp: new_best_level_def bindE_eq_Inr set_best_def dest: set_lvl_orders split: if_splits)

lemma set_best_orders [simp]: "m_orderPool (set_best sd x b) = m_orderPool b"
  by (simp add: set_best_def)

lemma price_entry_orders: "set_price_entry p x b = Inr b' \<Longrightarrow> m_orderPool b' = m_orderPool b"
  by (auto simp: set_price_entry_def bindE_eq_Inr)

lemma AddOrdersAtPrice_orders: "AddOrdersAtPrice pNew b = Inr b' \<Longrightarrow> m_orderPool b' = m_orderPool b"
  unfolding AddOrdersAtPrice_def Let_def
  by (auto elim!: bindE_InrE dest!: set_lvl_orders link_level_orders new_best_orders price_entry_orders split: if_splits prod.splits)

lemma set_ord_oid:
  assumes "set_ord x f b = Inr b'" and "\<And>y. ord_orderId (f y) = ord_orderId y"
  shows "ord_orderId (pobj (m_orderPool b') k) = ord_orderId (pobj (m_orderPool b) k)"
  using assms by (cases x) (auto simp: set_ord_def bindE_eq_Inr pobj_poke)

lemma AddOrder_links_oid:
  assumes "AddOrder_links order b = Inr b'"
  shows "ord_orderId (pobj (m_orderPool b') k) = ord_orderId (pobj (m_orderPool b) k)"
proof -
  have link: "ord_orderId (pobj (m_orderPool b') k) = ord_orderId (pobj (m_orderPool b) k)"
    if "link_order order first b = Inr b'" for first
    using that unfolding link_order_def bindE_eq_Inr by (elim exE conjE) (simp add: set_ord_oid)
  show ?thesis using assms link
    by (auto simp: AddOrder_links_def bindE_eq_Inr set_ord_oid AddOrdersAtPrice_orders split: if_splits)
qed

text \<open>The exchange numbers a ticker's orders 1, 2, 3 without end, and both copies of the book index an array of
  \<open>ME_MAX_ORDER_IDS\<close> pointers by that number: an update that names a larger id stops the client's and the
  synthesizer's process.\<close>

theorem order_id_past_table:
  assumes "upd_type u = ADD \<or> upd_type u = MODIFY \<or> upd_type u = CANCEL" and "\<not> unat (upd_orderId u) < ME_MAX_ORDER_IDS"
  shows "(\<exists>e. OnMarketUpdate u bk = Inl e) \<and> (\<exists>e. AddToSnapshot \<lparr>mdp_seqNum = k, mdp_update = u\<rparr> s = Inl e)"
proof
  have no: "arr_at ME_MAX_ORDER_IDS m (upd_orderId u) = Inl OutOfRange" "arr_set ME_MAX_ORDER_IDS m (upd_orderId u) x = Inl OutOfRange"
    for m and x :: ptr using assms(2) by (simp_all add: arr_at_def arr_set_def)
  have "apply_update u bk \<noteq> Inr bk'" for bk'
  proof
    assume a: "apply_update u bk = Inr bk'"
    show False
    proof (cases "upd_type u")
      case ADD
      with a obtain n p where n: "Allocate (upd_order u) (m_orderPool (mb_core bk)) = Inr (n, p)"
        "mkt_AddOrder (Some n) (bk\<lparr>mb_core := (mb_core bk)\<lparr>m_orderPool := p\<rparr>\<rparr>) = Inr bk'"
        by (auto simp: apply_update_def bindE_eq_Inr upd_order_def)
      have "ord_orderId (pobj p n) = upd_orderId u"
        using Allocate_block [OF n(1)] by (simp add: upd_order_def)
      then show False using n(2) no(2)
        by (auto simp: mkt_AddOrder_links bindE_eq_Inr oid_set_def dest!: AddOrder_links_oid [of _ _ _ n])
    qed (use a assms(1) no in \<open>auto simp: apply_update_def\<close>)
  qed
  then show "\<exists>e. OnMarketUpdate u bk = Inl e"
    using assms(1) by (cases "OnMarketUpdate u bk") (auto simp: OnMarketUpdate_def bindE_eq_Inr)
  show "\<exists>e. AddToSnapshot \<lparr>mdp_seqNum = k, mdp_update = u\<rparr> s = Inl e"
    using assms(1) no by (cases "AddToSnapshot \<lparr>mdp_seqNum = k, mdp_update = u\<rparr> s")
      (auto simp: AddToSnapshot_def snap_apply_def row_at_def bindE_eq_Inr)
qed

theorem order_id_past_table_witness:
  "\<exists>e. OnMarketUpdate (ex_update ADD (2 ^ 20) BUY 100 7) (CMarketOrderBook_new 1) = Inl e"
  using order_id_past_table [of "ex_update ADD (2 ^ 20) BUY 100 7" "CMarketOrderBook_new 1"] by (simp add: bounds_defs)

section \<open>The publisher\<close>

text \<open>While nothing is written in between, the publisher sends every queued update once and in order under consecutive
  sequence numbers on the incremental stream, and forwards the same numbered updates to the synthesizer.\<close>

theorem publisher_numbers:
  assumes "queue_ok (pub_pOutgoingMdUpdates p)" and "length (contents (pub_pOutgoingMdUpdates p)) \<le> fuel"
    and "queue_ok (pub_snapshotMdUpdates p)"
    and "length (contents (pub_snapshotMdUpdates p)) + length (contents (pub_pOutgoingMdUpdates p)) \<le> q_size (pub_snapshotMdUpdates p)"
  shows "\<exists>p'. pub_Run fuel p = Inr p' \<and> contents (pub_pOutgoingMdUpdates p') = []
    \<and> incremental_sent p' = incremental_sent p @ number (m_nextIncSeqNum p) (contents (pub_pOutgoingMdUpdates p))
    \<and> contents (pub_snapshotMdUpdates p') = contents (pub_snapshotMdUpdates p) @ number (m_nextIncSeqNum p) (contents (pub_pOutgoingMdUpdates p))
    \<and> m_nextIncSeqNum p' = m_nextIncSeqNum p + of_nat (length (contents (pub_pOutgoingMdUpdates p)))"
  using pub_Run_spec [OF assms(1) refl assms(2,3,4)] by blast

definition ex_pub :: "nat \<Rightarrow> SMEMarketUpdate list \<Rightarrow> CMarketDataPublisher" where
  "ex_pub n us = CMarketDataPublisher_new (fold enqueue us (CLockFreeQueue_new n SMEMarketUpdate_default))"

lemma ex_pub_queues:
  assumes "0 < n" and "length us \<le> n"
  shows "queue_ok (pub_pOutgoingMdUpdates (ex_pub n us))" and "contents (pub_pOutgoingMdUpdates (ex_pub n us)) = us"
    and "queue_ok (pub_snapshotMdUpdates (ex_pub n us))" and "contents (pub_snapshotMdUpdates (ex_pub n us)) = []"
    and "q_size (pub_snapshotMdUpdates (ex_pub n us)) = ME_MAX_MARKET_UPDATES" and "m_nextIncSeqNum (ex_pub n us) = 1"
    and "incremental_sent (ex_pub n us) = []" and "q_size (pub_pOutgoingMdUpdates (ex_pub n us)) = n"
proof -
  have "queue_ok (CLockFreeQueue_new n SMEMarketUpdate_default)" by (rule queue_ok_new) (use assms in simp)
  from lfq.enq_all [OF this, of us] assms(2)
  show "queue_ok (pub_pOutgoingMdUpdates (ex_pub n us))" "contents (pub_pOutgoingMdUpdates (ex_pub n us)) = us"
    "q_size (pub_pOutgoingMdUpdates (ex_pub n us)) = n"
    by (simp_all add: ex_pub_def CMarketDataPublisher_new_def)
qed (simp_all add: ex_pub_def CMarketDataPublisher_new_def queue_ok_new bounds_defs)

theorem publisher_numbers_witness:
  "\<exists>p'. pub_Run 2 (ex_pub 4 [ex_update ADD 4 BUY 100 7, ex_update CANCEL 4 BUY 100 0]) = Inr p'
    \<and> incremental_sent p' = [\<lparr>mdp_seqNum = 1, mdp_update = ex_update ADD 4 BUY 100 7\<rparr>, \<lparr>mdp_seqNum = 2, mdp_update = ex_update CANCEL 4 BUY 100 0\<rparr>]"
proof -
  let ?us = "[ex_update ADD 4 BUY 100 7, ex_update CANCEL 4 BUY 100 0]"
  note q = ex_pub_queues [of 4 ?us, simplified]
  show ?thesis using publisher_numbers [of "ex_pub 4 ?us" 2] by (auto simp: q bounds_defs)
qed

text \<open>The publisher reads the element again after it has released the slot.  If the queue was full and the matching
  engine's thread writes one update in that window, the incremental stream and the snapshot stream carry
  different updates under the same sequence number.\<close>

theorem publisher_race:
  assumes "queue_ok (pub_pOutgoingMdUpdates p)" and "contents (pub_pOutgoingMdUpdates p) = u # us"
    and "m_numElements (pub_pOutgoingMdUpdates p) = q_size (pub_pOutgoingMdUpdates p)"
    and "queue_ok (pub_snapshotMdUpdates p)" and "length (contents (pub_snapshotMdUpdates p)) < q_size (pub_snapshotMdUpdates p)"
  shows "\<exists>p'. publish_one [w] (m_nextReadIndex (pub_pOutgoingMdUpdates p)) p = Inr p'
    \<and> incremental_sent p' = incremental_sent p @ [\<lparr>mdp_seqNum = m_nextIncSeqNum p, mdp_update = u\<rparr>]
    \<and> contents (pub_snapshotMdUpdates p') = contents (pub_snapshotMdUpdates p) @ [\<lparr>mdp_seqNum = m_nextIncSeqNum p, mdp_update = w\<rparr>]"
  by (rule publish_one_race [OF assms])

theorem publisher_race_witness:
  "let p = ex_pub 2 [ex_update ADD 4 BUY 100 7, ex_update CANCEL 4 BUY 100 0]
   in \<exists>p'. publish_one [ex_update ADD 5 SELL 101 2] (m_nextReadIndex (pub_pOutgoingMdUpdates p)) p = Inr p'
    \<and> incremental_sent p' = [\<lparr>mdp_seqNum = 1, mdp_update = ex_update ADD 4 BUY 100 7\<rparr>]
    \<and> contents (pub_snapshotMdUpdates p') = [\<lparr>mdp_seqNum = 1, mdp_update = ex_update ADD 5 SELL 101 2\<rparr>]"
proof -
  define us where "us = [ex_update ADD 4 BUY 100 7, ex_update CANCEL 4 BUY 100 0]"
  have "length us \<le> 2" by (simp add: us_def)
  note q = ex_pub_queues [OF _ this, simplified]
  have n: "m_numElements (pub_pOutgoingMdUpdates (ex_pub 2 us)) = 2"
    using arg_cong [OF q(2), of length] by (simp add: us_def)
  have c: "contents (pub_pOutgoingMdUpdates (ex_pub 2 us)) = ex_update ADD 4 BUY 100 7 # [ex_update CANCEL 4 BUY 100 0]"
    using q(2) by (simp add: us_def)
  have "length (contents (pub_snapshotMdUpdates (ex_pub 2 us))) < q_size (pub_snapshotMdUpdates (ex_pub 2 us))"
    unfolding q(4,5) by (simp add: bounds_defs)
  from publisher_race [OF q(1) c _ q(3) this, of "ex_update ADD 5 SELL 101 2"] show ?thesis
    by (simp add: n q(4-8) Let_def flip: us_def)
qed

section \<open>The snapshot\<close>





text \<open>The synthesizer stops its process when an update does not carry the next sequence number.\<close>

theorem synthesizer_detects_gap:
  assumes "snap_rel s Bs" and "family_fits (mdp_update mu) Bs" and "mdp_seqNum mu \<noteq> m_lastIncSeqNum s + 1"
  shows "AddToSnapshot mu s = Inl (AssertFailed ''Expected incremental seq_nums to increase.'')"
  by (rule AddToSnapshot_gap [OF assms])

theorem synthesizer_detects_gap_witness:
  "AddToSnapshot \<lparr>mdp_seqNum = 2, mdp_update = ex_update TRADE 4 BUY 100 7\<rparr> (CSnapshotSynthesizer_new (CLockFreeQueue_new 8 \<lparr>mdp_seqNum = 0, mdp_update = SMEMarketUpdate_default\<rparr>))
    = Inl (AssertFailed ''Expected incremental seq_nums to increase.'')"
  by (rule synthesizer_detects_gap [OF snap_rel_new])
    (simp_all add: family_fits_def upd_fits_def total_live_def mlive_def bounds_defs CSnapshotSynthesizer_new_def)

end
