(* ===== verification/BookDump.thy ===== *)
theory BookDump
  imports BookFacts
begin

text \<open>
  The textual dump of a book (\<open>ToString\<close>), which is the same code in the three order books: one line per
  price level, best first, with the neighbouring prices, the sum and the number of its orders and, if
  asked for, the orders with their neighbours; and, if asked for, the check that the prices are sorted,
  which stops the process.  The destructors of the books dump them with the check.
\<close>

section \<open>The code\<close>

text \<open>\<open>%ns\<close> and \<open>%-ns\<close> of \<open>sprintf\<close>, and \<open>std::endl\<close>.\<close>

definition pad_left :: "nat \<Rightarrow> string \<Rightarrow> string" where
  "pad_left n s = replicate (n - length s) CHR '' '' @ s"

definition pad_right :: "nat \<Rightarrow> string \<Rightarrow> string" where
  "pad_right n s = s @ replicate (n - length s) CHR '' ''"

definition endl :: string where "endl = [CHR 0x0A]"

text \<open>The first loop over the orders of a level; it ends at the latest after one round per block of the pool.\<close>

fun level_sums :: "nat \<Rightarrow> 'o book_core \<Rightarrow> ptr \<Rightarrow> ptr \<Rightarrow> Qty \<Rightarrow> nat \<Rightarrow> (Qty \<times> nat) outcome" where
  "level_sums fuel b first o_itr qty num_orders =
     bindE (get_ord b o_itr) (\<lambda>x.
     let qty' = qty + ord_qty x; num_orders' = num_orders + 1 in
     if pNextOrder x = first then Inr (qty', num_orders')
     else if fuel = 0 then Inl Diverges
     else level_sums (fuel - 1) b first (pNextOrder x) qty' num_orders')"

declare level_sums.simps [simp del]

definition order_id_behind :: "'o book_core \<Rightarrow> ptr \<Rightarrow> OrderId outcome" where
  "order_id_behind b p = (if p = None then Inr OrderId_INVALID else bindE (get_ord b p) (\<lambda>x. Inr (ord_orderId x)))"

definition order_line :: "OrderId \<Rightarrow> Qty \<Rightarrow> OrderId \<Rightarrow> OrderId \<Rightarrow> string" where
  "order_line oid q prev nxt = ''[oid:'' @ OrderIdToString oid @ '' q:'' @ QtyToString q @ '' p:'' @ OrderIdToString prev
     @ '' n:'' @ OrderIdToString nxt @ ''] ''"

text \<open>The second loop.\<close>

fun level_orders :: "nat \<Rightarrow> bool \<Rightarrow> 'o book_core \<Rightarrow> ptr \<Rightarrow> ptr \<Rightarrow> string \<Rightarrow> string outcome" where
  "level_orders fuel detailed b first o_itr ss =
     bindE (get_ord b o_itr) (\<lambda>x.
     bindE (if detailed
            then bindE (order_id_behind b (pPrevOrder x)) (\<lambda>p.
                 bindE (order_id_behind b (pNextOrder x)) (\<lambda>n.
                 Inr (ss @ order_line (ord_orderId x) (ord_qty x) p n)))
            else Inr ss) (\<lambda>ss'.
     if pNextOrder x = first then Inr ss'
     else if fuel = 0 then Inl Diverges
     else level_orders (fuel - 1) detailed b first (pNextOrder x) ss'))"

declare level_orders.simps [simp del]

definition level_line :: "Price \<Rightarrow> Price \<Rightarrow> Price \<Rightarrow> Qty \<Rightarrow> nat \<Rightarrow> string" where
  "level_line price prev nxt qty num_orders =
     '' <px:'' @ pad_left 3 (PriceToString price) @ '' p:'' @ pad_left 3 (PriceToString prev) @ '' n:'' @ pad_left 3 (PriceToString nxt)
     @ ''> '' @ pad_right 3 (PriceToString price) @ '' @ '' @ pad_right 5 (QtyToString qty) @ ''('' @ pad_right 4 (to_string_nat num_orders) @ '')''"

text \<open>The lambda \<open>printer\<close>; \<open>lts\<close> is \<open>ToString\<close> of a level, for the message of the check.\<close>

definition printer :: "('o book_core \<Rightarrow> ptr \<Rightarrow> string outcome) \<Rightarrow> bool \<Rightarrow> 'o book_core \<Rightarrow> string \<Rightarrow> ptr \<Rightarrow> ESide \<Rightarrow> Price \<Rightarrow> bool
    \<Rightarrow> (string \<times> Price) outcome" where
  "printer lts detailed b ss itr side last_price sanity_check =
     bindE (get_lvl b itr) (\<lambda>l.
     bindE (level_sums (m_size (m_orderPool b)) b (pFirstOrder l) (pFirstOrder l) 0 0) (\<lambda>(qty, num_orders).
     bindE (get_lvl b (pPrevEntry l)) (\<lambda>prev.
     bindE (get_lvl b (pNextEntry l)) (\<lambda>nxt.
     bindE (level_orders (m_size (m_orderPool b)) detailed b (pFirstOrder l) (pFirstOrder l)
              (ss @ level_line (lvl_price l) (lvl_price prev) (lvl_price nxt) qty num_orders)) (\<lambda>ss'.
     if sanity_check
     then if (side = SELL \<and> sint last_price \<ge> sint (lvl_price l)) \<or> (side = BUY \<and> sint last_price \<le> sint (lvl_price l))
          then bindE (lts b itr) (\<lambda>t. FATAL (''Bids/Asks not sorted by ascending/descending prices last:'' @ PriceToString last_price @ '' itr:'' @ t))
          else Inr (ss' @ endl, lvl_price l)
     else Inr (ss' @ endl, last_price))))))"

text \<open>The loop over the levels of a side.\<close>

fun print_side :: "nat \<Rightarrow> ('o book_core \<Rightarrow> ptr \<Rightarrow> string outcome) \<Rightarrow> bool \<Rightarrow> bool \<Rightarrow> 'o book_core \<Rightarrow> ESide \<Rightarrow> string \<Rightarrow> ptr \<Rightarrow> ptr \<Rightarrow> nat \<Rightarrow> Price
    \<Rightarrow> string \<Rightarrow> string outcome" where
  "print_side fuel lts detailed validity_check b side label best itr count last_price ss =
     (if itr = None then Inr ss
      else if fuel = 0 then Inl Diverges
      else bindE (get_lvl b itr) (\<lambda>l.
           let next_itr = (if pNextEntry l = best then None else pNextEntry l) in
           bindE (printer lts detailed b (ss @ label @ to_string_nat count @ '' => '') itr side last_price validity_check) (\<lambda>(ss', last_price').
           print_side (fuel - 1) lts detailed validity_check b side label best next_itr (count + 1) last_price' ss')))"

declare print_side.simps [simp del]

definition Price_min :: Price where "Price_min = 2 ^ 63"
definition Price_max :: Price where "Price_max = 2 ^ 63 - 1"

definition book_ToString :: "('o book_core \<Rightarrow> ptr \<Rightarrow> string outcome) \<Rightarrow> TickerId \<Rightarrow> bool \<Rightarrow> bool \<Rightarrow> 'o book_core \<Rightarrow> string outcome" where
  "book_ToString lts ticker_id detailed validity_check b =
     bindE (print_side (Suc (m_size (m_ordersAtPricePool b))) lts detailed validity_check b SELL ''ASKS L:'' (m_pAsksByPrice b) (m_pAsksByPrice b) 0
              Price_min (''Ticker:'' @ TickerIdToString ticker_id @ endl)) (\<lambda>ss.
     print_side (Suc (m_size (m_ordersAtPricePool b))) lts detailed validity_check b BUY ''BIDS L:'' (m_pBidsByPrice b) (m_pBidsByPrice b) 0
       Price_max (ss @ endl @ ''                          X'' @ endl @ endl))"

section \<open>The contract\<close>

text \<open>The elements of a list with their neighbours on the circle.\<close>

fun circle :: "'a list \<Rightarrow> 'a list \<Rightarrow> ('a \<times> 'a \<times> 'a) list" where
  "circle as [] = []"
| "circle as (x # bs) = (last (x # bs @ as), x, hd (bs @ as @ [x])) # circle (as @ [x]) bs"

lemma circle_map: "circle (map f as) (map f bs) = map (\<lambda>(p, x, n). (f p, f x, f n)) (circle as bs)"
proof (induction as bs rule: circle.induct)
  case (2 as x bs)
  have "last (map f (x # bs @ as)) = f (last (x # bs @ as))" by (rule last_map) simp
  moreover have "hd (map f (bs @ as @ [x])) = f (hd (bs @ as @ [x]))" by (rule hd_map) simp
  ultimately show ?case using 2 by simp
qed simp

text \<open>A side as a list of levels: the runs of orders at one price.\<close>

function levels_of :: "'o SMarketOrder_scheme list \<Rightarrow> (Price \<times> 'o SMarketOrder_scheme list) list" where
  "levels_of [] = []"
| "levels_of (r # rs) = (ord_price r, r # takeWhile (\<lambda>x. ord_price x = ord_price r) rs)
     # levels_of (dropWhile (\<lambda>x. ord_price x = ord_price r) rs)"
  by pat_completeness auto
termination by (relation "measure length") (auto simp: less_Suc_eq_le length_dropWhile_le)

definition spec_order_lines :: "bool \<Rightarrow> 'o SMarketOrder_scheme list \<Rightarrow> string" where
  "spec_order_lines detailed rs = (if detailed then concat (map (\<lambda>(p, r, n). order_line (ord_orderId r) (ord_qty r) (ord_orderId p) (ord_orderId n))
     (circle [] rs)) else [])"

fun spec_levels :: "bool \<Rightarrow> string \<Rightarrow> nat \<Rightarrow> ((Price \<times> 'o SMarketOrder_scheme list) \<times> (Price \<times> 'o SMarketOrder_scheme list) \<times> (Price \<times> 'o SMarketOrder_scheme list)) list
    \<Rightarrow> string" where
  "spec_levels detailed label k [] = []"
| "spec_levels detailed label k ((p, l, n) # ls) = label @ to_string_nat k @ '' => ''
     @ level_line (fst l) (fst p) (fst n) (sum_list (map ord_qty (snd l))) (length (snd l)) @ spec_order_lines detailed (snd l) @ endl
     @ spec_levels detailed label (Suc k) ls"

definition spec_dump :: "TickerId \<Rightarrow> bool \<Rightarrow> (ESide \<Rightarrow> 'o SMarketOrder_scheme list) \<Rightarrow> string" where
  "spec_dump t detailed B = ''Ticker:'' @ TickerIdToString t @ endl @ spec_levels detailed ''ASKS L:'' 0 (circle [] (levels_of (B SELL)))
     @ endl @ ''                          X'' @ endl @ endl @ spec_levels detailed ''BIDS L:'' 0 (circle [] (levels_of (B BUY)))"

section \<open>The loops on represented books\<close>

lemma ring_around:
  assumes "ring nx pv (as @ x # bs)"
  shows "nx x = Some (hd (bs @ as @ [x]))" and "pv x = Some (last (x # bs @ as))"
proof -
  have r: "ring nx pv (x # bs @ as)" using assms ring_rotate [of nx pv as "x # bs"] by simp
  show "pv x = Some (last (x # bs @ as))" using ring_last_links(2) [OF r] by simp
  show "nx x = Some (hd (bs @ as @ [x]))"
  proof (cases "bs @ as")
    case Nil
    then show ?thesis using ring_last_links(1) [OF r] by simp
  next
    case (Cons y ys)
    then have "ring nx pv ([] @ x # y # ys)" using r by simp
    from ring_next_mid(1) [OF this] show ?thesis using Cons by (metis append_assoc hd_append2 list.distinct(1) list.sel(1))
  qed
qed

lemma ring_ends_at_first:
  assumes "ring nx pv (as @ x # bs)"
  shows "nx x = Some (hd (as @ x # bs)) \<longleftrightarrow> bs = []"
proof (cases bs)
  case (Cons y ys)
  then have "y \<noteq> hd (as @ x # bs)" using ring_distinct [OF assms] by (cases as) auto
  then show ?thesis using ring_around(1) [OF assms] Cons by simp
next
  case Nil
  have "hd ([] @ as @ [x]) = hd (as @ [x])" by simp
  then show ?thesis using ring_around(1) [OF assms] Nil by simp
qed

lemma level_sums_ring:
  assumes "ring (nxO (m_orderPool b)) (pvO (m_orderPool b)) (as @ x # bs)" and "length bs \<le> fuel"
  shows "level_sums fuel b (Some (hd (as @ x # bs))) (Some x) q n
    = Inr (q + sum_list (map (\<lambda>i. ord_qty (pobj (m_orderPool b) i)) (x # bs)), n + length (x # bs))"
  using assms
proof (induction bs arbitrary: as x fuel q n)
  case Nil
  then show ?case using ring_ends_at_first [OF Nil.prems(1)] by (simp add: level_sums.simps get_ord_def nxO_def)
next
  case (Cons y ys)
  obtain m where m: "fuel = Suc m" using Cons.prems(2) by (cases fuel) auto
  have nx: "pNextOrder (pobj (m_orderPool b) x) = Some y" using ring_around(1) [OF Cons.prems(1)] by (simp add: nxO_def)
  have "Some y \<noteq> Some (hd (as @ x # y # ys))" using ring_ends_at_first [OF Cons.prems(1)] nx by (simp add: nxO_def)
  moreover have "ring (nxO (m_orderPool b)) (pvO (m_orderPool b)) ((as @ [x]) @ y # ys)" using Cons.prems(1) by simp
  from Cons.IH [OF this, of m] have "level_sums m b (Some (hd (as @ x # y # ys))) (Some y) q' n'
      = Inr (q' + sum_list (map (\<lambda>i. ord_qty (pobj (m_orderPool b) i)) (y # ys)), n' + length (y # ys))" for q' n'
    using Cons.prems(2) m by simp
  ultimately show ?case using m nx by (simp add: level_sums.simps [of "Suc m"] get_ord_def Let_def add.assoc)
qed

lemma level_orders_ring:
  assumes "ring (nxO (m_orderPool b)) (pvO (m_orderPool b)) (as @ x # bs)" and "length bs \<le> fuel"
  shows "level_orders fuel detailed b (Some (hd (as @ x # bs))) (Some x) ss
    = Inr (ss @ (if detailed then concat (map (\<lambda>(p, i, n). order_line (ord_orderId (pobj (m_orderPool b) i)) (ord_qty (pobj (m_orderPool b) i))
        (ord_orderId (pobj (m_orderPool b) p)) (ord_orderId (pobj (m_orderPool b) n))) (circle as (x # bs))) else []))"
  using assms
proof (induction bs arbitrary: as x fuel ss)
  case Nil
  then show ?case using ring_ends_at_first [OF Nil.prems(1)] ring_around [OF Nil.prems(1)]
    by (simp add: level_orders.simps get_ord_def nxO_def pvO_def order_id_behind_def)
next
  case (Cons y ys)
  obtain m where m: "fuel = Suc m" using Cons.prems(2) by (cases fuel) auto
  have nx: "pNextOrder (pobj (m_orderPool b) x) = Some y" using ring_around(1) [OF Cons.prems(1)] by (simp add: nxO_def)
  have pv: "pPrevOrder (pobj (m_orderPool b) x) = Some (last (x # (y # ys) @ as))" using ring_around(2) [OF Cons.prems(1)] by (simp add: pvO_def)
  have "Some y \<noteq> Some (hd (as @ x # y # ys))" using ring_ends_at_first [OF Cons.prems(1)] nx by (simp add: nxO_def)
  moreover have "ring (nxO (m_orderPool b)) (pvO (m_orderPool b)) ((as @ [x]) @ y # ys)" using Cons.prems(1) by simp
  note IH = Cons.IH [OF this, of m]
  ultimately show ?case using m nx pv Cons.prems(2) IH
    by (cases detailed) (simp_all add: level_orders.simps [of "Suc m"] get_ord_def order_id_behind_def)
qed

section \<open>The levels on represented books\<close>

definition level_content :: "'o book_core \<Rightarrow> level_nodes \<Rightarrow> Price \<times> 'o SMarketOrder_scheme list" where
  "level_content b x = (px b x, map (\<lambda>n. strip (pobj (m_orderPool b) n)) (snd x))"

lemma levels_of_run:
  assumes "rs \<noteq> []" and "\<forall>r\<in>set rs. ord_price r = p" and "\<forall>r\<in>set qs. ord_price r \<noteq> p"
  shows "levels_of (rs @ qs) = (p, rs) # levels_of qs"
proof -
  obtain r rs' where rs: "rs = r # rs'" using assms(1) by (cases rs) auto
  have tw: "takeWhile (\<lambda>x. ord_price x = p) qs = []" "dropWhile (\<lambda>x. ord_price x = p) qs = qs"
    using assms(3) by (cases qs; simp)+
  have "takeWhile (\<lambda>x. ord_price x = p) (rs' @ qs) = rs'" "dropWhile (\<lambda>x. ord_price x = p) (rs' @ qs) = qs"
    using assms(2) rs tw by (simp_all add: takeWhile_append2 dropWhile_append2)
  then show ?thesis using assms(2) rs by simp
qed

lemma levels_of_nodes:
  "levels_ok b sd s \<Longrightarrow> levels_of (map (\<lambda>n. strip (pobj (m_orderPool b) n)) (onodes s)) = map (level_content b) s"
proof (induction s)
  case (Cons x s)
  let ?f = "\<lambda>n. strip (pobj (m_orderPool b) n)"
  have s: "levels_ok b sd s" using Cons.prems by (simp add: levels_ok_def)
  have x: "lvl_rep b sd x" using Cons.prems by (simp add: levels_ok_def)
  have "ord_price r \<noteq> px b x" if r: "r \<in> set (map ?f (onodes s))" for r
  proof -
    obtain y i where y: "y \<in> set s" "i \<in> set (snd y)" "r = ?f i" using r by (auto simp: in_onodes)
    have "ord_price r = px b y" "worse sd (px b y) (px b x)"
      using Cons.prems y by (simp_all add: levels_ok_def lvl_rep_def)
    then show ?thesis by auto
  qed
  then have "levels_of (map ?f (snd x) @ map ?f (onodes s)) = (px b x, map ?f (snd x)) # levels_of (map ?f (onodes s))"
    using x by (intro levels_of_run) (auto simp: lvl_rep_def)
  then show ?case using Cons.IH [OF s] by (simp add: level_content_def)
qed simp

lemma printer_level:
  assumes ring: "ring (nxL (m_ordersAtPricePool b)) (pvL (m_ordersAtPricePool b)) (map fst (as @ x # bs))"
    and rep: "lvl_rep b sd x" and fit: "length (snd x) \<le> m_size (m_orderPool b)" and sd: "sd \<in> sides"
  shows "printer lts detailed b ss (Some (fst x)) sd lastp check
    = (if check \<and> \<not> worse sd (px b x) lastp
       then bindE (lts b (Some (fst x))) (\<lambda>t. FATAL (''Bids/Asks not sorted by ascending/descending prices last:'' @ PriceToString lastp @ '' itr:'' @ t))
       else Inr (ss @ level_line (px b x) (px b (last (x # bs @ as))) (px b (hd (bs @ as @ [x]))) (sum_list (map ord_qty (snd (level_content b x))))
        (length (snd x)) @ spec_order_lines detailed (snd (level_content b x)) @ endl, if check then px b x else lastp))"
proof -
  let ?l = "pobj (m_ordersAtPricePool b) (fst x)"
  obtain i js where os: "snd x = i # js" using rep by (cases "snd x") (auto simp: lvl_rep_def)
  have first: "pFirstOrder ?l = Some i" using rep os by (simp add: lvl_rep_def)
  have r: "ring (nxO (m_orderPool b)) (pvO (m_orderPool b)) ([] @ i # js)" using rep os by (simp add: lvl_rep_def)
  have len: "length js \<le> m_size (m_orderPool b)" using fit os by simp
  have nx: "pNextEntry ?l = Some (fst (hd (bs @ as @ [x])))" "pPrevEntry ?l = Some (fst (last (x # bs @ as)))"
  proof -
    have "ring (nxL (m_ordersAtPricePool b)) (pvL (m_ordersAtPricePool b)) (map fst as @ fst x # map fst bs)" using ring by simp
    note a = ring_around [OF this]
    have "hd (map fst bs @ map fst as @ [fst x]) = fst (hd (bs @ as @ [x]))" using hd_map [of "bs @ as @ [x]" fst] by simp
    then show "pNextEntry ?l = Some (fst (hd (bs @ as @ [x])))" using a(1) by (simp add: nxL_def)
    have "last (fst x # map fst bs @ map fst as) = fst (last (x # bs @ as))" using last_map [of "x # bs @ as" fst] by simp
    then show "pPrevEntry ?l = Some (fst (last (x # bs @ as)))" using a(2) by (simp only: pvL_def)
  qed
  have lines: "spec_order_lines detailed (snd (level_content b x))
      = (if detailed then concat (map (\<lambda>(p, k, n). order_line (ord_orderId (pobj (m_orderPool b) k)) (ord_qty (pobj (m_orderPool b) k))
        (ord_orderId (pobj (m_orderPool b) p)) (ord_orderId (pobj (m_orderPool b) n))) (circle [] (i # js))) else [])"
    using circle_map [of "\<lambda>n. strip (pobj (m_orderPool b) n)" "[]" "i # js"]
    by (simp add: spec_order_lines_def level_content_def os comp_def case_prod_unfold)
  have bad: "(sd = SELL \<and> sint (px b x) \<le> sint lastp) \<or> (sd = BUY \<and> sint lastp \<le> sint (px b x)) \<longleftrightarrow> \<not> worse sd (px b x) lastp"
    using sd by (auto simp: worse_def px_def sides_def)
  have L: "level_orders (m_size (m_orderPool b)) detailed b (Some i) (Some i) t = Inr (t @ spec_order_lines detailed (snd (level_content b x)))" for t
    unfolding lines using level_orders_ring [OF r len, of detailed t] by simp
  have S: "level_sums (m_size (m_orderPool b)) b (Some i) (Some i) 0 0 = Inr (sum_list (map ord_qty (snd (level_content b x))), length (snd x))"
    using level_sums_ring [OF r len, of 0 0] by (simp add: level_content_def os comp_def)
  show ?thesis
    by (cases check; cases "worse sd (px b x) lastp")
      (simp_all only: printer_def get_lvl_def deref_Some bindE_Inr first nx L S bad prod.case px_def [symmetric] if_True if_False not_True_eq_False not_False_eq_True
        simp_thms append_assoc)
qed

lemma printer_passes:
  assumes "ring (nxL (m_ordersAtPricePool b)) (pvL (m_ordersAtPricePool b)) (map fst (as @ x # bs))"
    and "lvl_rep b sd x" and "length (snd x) \<le> m_size (m_orderPool b)" and "sd \<in> sides" and "check \<longrightarrow> worse sd (px b x) lastp"
  shows "printer lts detailed b ss (Some (fst x)) sd lastp check
    = Inr (ss @ level_line (px b x) (px b (last (x # bs @ as))) (px b (hd (bs @ as @ [x]))) (sum_list (map ord_qty (snd (level_content b x))))
        (length (snd x)) @ spec_order_lines detailed (snd (level_content b x)) @ endl, if check then px b x else lastp)"
  using printer_level [OF assms(1-4)] assms(5) by presburger

lemma print_side_levels:
  assumes "ring (nxL (m_ordersAtPricePool b)) (pvL (m_ordersAtPricePool b)) (map fst (as @ x # bs))"
    and "\<forall>y\<in>set (x # bs). lvl_rep b sd y \<and> length (snd y) \<le> m_size (m_orderPool b)" and "sd \<in> sides"
    and "sorted_wrt (\<lambda>y z. worse sd (px b z) (px b y)) (x # bs)" and "check \<longrightarrow> worse sd (px b x) lastp" and "length bs < fuel"
  shows "print_side fuel lts detailed check b sd label (Some (fst (hd (as @ x # bs)))) (Some (fst x)) k lastp ss
    = Inr (ss @ spec_levels detailed label k (map (\<lambda>(p, y, n). (level_content b p, level_content b y, level_content b n)) (circle as (x # bs))))"
  using assms
proof (induction bs arbitrary: as x fuel k lastp ss)
  case Nil
  obtain m where m: "fuel = Suc m" using Nil.prems(6) by (cases fuel) auto
  have ring: "ring (nxL (m_ordersAtPricePool b)) (pvL (m_ordersAtPricePool b)) (map fst as @ fst x # [])" using Nil.prems(1) by simp
  have "pNextEntry (pobj (m_ordersAtPricePool b) (fst x)) = Some (fst (hd (as @ [x])))"
    using ring_ends_at_first [OF ring] hd_map [of "as @ [x]" fst] by (simp add: nxL_def)
  then show ?case using printer_passes [OF Nil.prems(1), of sd check lastp lts detailed] Nil.prems m
    by (simp add: print_side.simps [of "Suc m"] print_side.simps [of m] get_lvl_def level_content_def Let_def)
next
  case (Cons y bs)
  obtain m where m: "fuel = Suc m" using Cons.prems(6) by (cases fuel) auto
  have ring: "ring (nxL (m_ordersAtPricePool b)) (pvL (m_ordersAtPricePool b)) (map fst as @ fst x # fst y # map fst bs)" using Cons.prems(1) by simp
  have nx: "pNextEntry (pobj (m_ordersAtPricePool b) (fst x)) = Some (fst y)" using ring_around(1) [OF ring] by (simp add: nxL_def)
  have "Some (fst y) \<noteq> Some (hd (map fst as @ fst x # fst y # map fst bs))" using ring_ends_at_first [OF ring] nx by (simp add: nxL_def)
  then have ne: "Some (fst y) \<noteq> Some (fst (hd (as @ x # y # bs)))" using hd_map [of "as @ x # y # bs" fst] by simp
  have ring': "ring (nxL (m_ordersAtPricePool b)) (pvL (m_ordersAtPricePool b)) (map fst ((as @ [x]) @ y # bs))" using Cons.prems(1) by simp
  note IH = Cons.IH [OF ring', of "if check then px b x else lastp" m]
  show ?case using printer_passes [OF Cons.prems(1), of sd check lastp lts detailed] Cons.prems(2-6) m nx ne IH
    by (simp add: print_side.simps [of "Suc m"] get_lvl_def level_content_def Let_def)
qed

lemma rep_levels_le:
  assumes rep: "book_rep b ss X" and sd: "sd \<in> sides"
  shows "length (ss sd) \<le> m_size (m_ordersAtPricePool b)"
proof -
  have "distinct (map fst (ss sd))" using rep sd by (auto simp: rep_defs dest: ring_distinct)
  then have "length (ss sd) = card (set (map fst (ss sd)))" using distinct_card by fastforce
  also have "\<dots> \<le> card (pused (m_ordersAtPricePool b))"
    using rep sd by (intro card_mono [OF finite_pused]) (auto simp: book_rep_def level_set_def)
  also have "\<dots> \<le> m_size (m_ordersAtPricePool b)"
    using card_mono [of "{..<m_size (m_ordersAtPricePool b)}" "pused (m_ordersAtPricePool b)"] by (auto simp: pused_def)
  finally show ?thesis .
qed

lemma rep_level_le:
  assumes rep: "book_rep b ss X" and sd: "sd \<in> sides" and x: "x \<in> set (ss sd)"
  shows "length (snd x) \<le> m_size (m_orderPool b)"
proof -
  obtain s1 s2 where "ss sd = s1 @ x # s2" using x by (auto simp: in_set_conv_decomp)
  then show ?thesis using rep_onodes_le [OF rep sd] by simp
qed

lemma print_side_rep:
  assumes rep: "book_rep b ss X" and sd: "sd \<in> sides"
    and lim: "check \<longrightarrow> (\<forall>n\<in>set (onodes (ss sd)). worse sd (ord_price (pobj (m_orderPool b) n)) lastp)"
  shows "print_side (Suc (m_size (m_ordersAtPricePool b))) lts detailed check b sd label (best_of sd b) (best_of sd b) k lastp t
    = Inr (t @ spec_levels detailed label k (circle [] (levels_of (map (\<lambda>n. strip (pobj (m_orderPool b) n)) (onodes (ss sd))))))"
proof -
  have links: "side_links b sd (map fst (ss sd))" and lv: "levels_ok b sd (ss sd)" using rep sd by (simp_all add: book_rep_def)
  show ?thesis
  proof (cases "ss sd")
    case Nil
    then show ?thesis using links by (simp add: side_links_def print_side.simps [of "Suc _"])
  next
    case (Cons x bs)
    have x: "lvl_rep b sd x" using lv Cons by (simp add: levels_ok_def)
    then obtain n where n: "n \<in> set (snd x)" "ord_price (pobj (m_orderPool b) n) = px b x" by (cases "snd x") (auto simp: lvl_rep_def)
    have ring: "ring (nxL (m_ordersAtPricePool b)) (pvL (m_ordersAtPricePool b)) (map fst ([] @ x # bs))"
      and best: "best_of sd b = Some (fst x)" using links Cons by (simp_all add: side_links_def)
    have each: "\<forall>y\<in>set (x # bs). lvl_rep b sd y \<and> length (snd y) \<le> m_size (m_orderPool b)"
      using lv Cons rep_level_le [OF rep sd] by (simp add: levels_ok_def)
    have sorted: "sorted_wrt (\<lambda>y z. worse sd (px b z) (px b y)) (x # bs)" using lv Cons by (simp add: levels_ok_def)
    have "n \<in> set (onodes (ss sd))" using n(1) Cons by simp
    then have bound: "check \<longrightarrow> worse sd (px b x) lastp" using lim n(2) by metis
    have fuel: "length bs < Suc (m_size (m_ordersAtPricePool b))" using rep_levels_le [OF rep sd] Cons by simp
    have "circle [] (map (level_content b) (x # bs)) = map (\<lambda>(p, y, n). (level_content b p, level_content b y, level_content b n)) (circle [] (x # bs))"
      using circle_map [of "level_content b" "[]" "x # bs"] by simp
    then show ?thesis using print_side_levels [OF ring each sd sorted bound fuel, of lts detailed label k t] levels_of_nodes [OF lv] best Cons by simp
  qed
qed

text \<open>The dump of a represented book is the contract's, and the check passes unless a price is the least or the greatest one.\<close>

definition prices_inside :: "(ESide \<Rightarrow> 'o SMarketOrder_scheme list) \<Rightarrow> bool" where
  "prices_inside B \<longleftrightarrow> (\<forall>r\<in>set (B SELL). ord_price r \<noteq> Price_min) \<and> (\<forall>r\<in>set (B BUY). ord_price r \<noteq> Price_max)"

lemma worse_limits: "p \<noteq> Price_min \<Longrightarrow> worse SELL p Price_min" "p \<noteq> Price_max \<Longrightarrow> worse BUY p Price_max"
proof -
  have lim: "sint Price_min = - (2 ^ 63)" "sint Price_max = 2 ^ 63 - 1" by (simp_all add: Price_min_def Price_max_def)
  have "- (2 ^ 63) \<le> sint p" "sint p < 2 ^ 63" for p :: Price using sint_greater_eq [of p] sint_less [of p] by simp_all
  then show "p \<noteq> Price_min \<Longrightarrow> worse SELL p Price_min" "p \<noteq> Price_max \<Longrightarrow> worse BUY p Price_max"
    using lim sint_word_eq [of p Price_min] sint_word_eq [of p Price_max] unfolding worse_def by (auto simp: order_less_le)
     (smt (verit))+
qed

lemma book_ToString_rep:
  assumes rep: "book_rep b ss X" and B: "\<forall>sd\<in>sides. map (\<lambda>n. strip (pobj (m_orderPool b) n)) (onodes (ss sd)) = B sd"
    and lim: "check \<longrightarrow> prices_inside B"
  shows "book_ToString lts t detailed check b = Inr (spec_dump t detailed B)"
proof -
  have sds: "SELL \<in> sides" "BUY \<in> sides" by (simp_all add: sides_def)
  have price: "ord_price (pobj (m_orderPool b) n) \<in> ord_price ` set (B sd)" if "sd \<in> sides" "n \<in> set (onodes (ss sd))" for sd n
    using B that by (metis image_eqI image_set strip_sel(3))
  have "check \<longrightarrow> (\<forall>n\<in>set (onodes (ss SELL)). worse SELL (ord_price (pobj (m_orderPool b) n)) Price_min)"
    using price [OF sds(1)] lim worse_limits(1) unfolding prices_inside_def by (metis image_iff)
  moreover have "check \<longrightarrow> (\<forall>n\<in>set (onodes (ss BUY)). worse BUY (ord_price (pobj (m_orderPool b) n)) Price_max)"
    using price [OF sds(2)] lim worse_limits(2) unfolding prices_inside_def by (metis image_iff)
  ultimately show ?thesis
    using print_side_rep [OF rep sds(1), of check Price_min] print_side_rep [OF rep sds(2), of check Price_max] B sds
    by (simp add: book_ToString_def spec_dump_def best_of_def)
qed

text \<open>Otherwise the check stops the process, at the first level of the side.\<close>

definition level_shown :: "('o book_core \<Rightarrow> ptr \<Rightarrow> string outcome) \<Rightarrow> 'o book_core \<Rightarrow> level_nodes \<Rightarrow> bool" where
  "level_shown lts b x \<longleftrightarrow> (\<exists>t. lts b (Some (fst x)) = Inr t)"

lemma print_side_stops:
  assumes rep: "book_rep b ss X" and sd: "sd \<in> sides" and n: "n \<in> set (onodes (ss sd))" "\<not> worse sd (ord_price (pobj (m_orderPool b) n)) lastp"
    and lts: "\<And>x. x \<in> set (ss sd) \<Longrightarrow> level_shown lts b x"
  shows "\<exists>m. print_side (Suc (m_size (m_ordersAtPricePool b))) lts detailed True b sd label (best_of sd b) (best_of sd b) k lastp t = Inl (FatalExit m)"
proof -
  have links: "side_links b sd (map fst (ss sd))" and lv: "levels_ok b sd (ss sd)" using rep sd by (simp_all add: book_rep_def)
  obtain x bs where s: "ss sd = x # bs" using n(1) by (cases "ss sd") auto
  have x: "lvl_rep b sd x" using lv s by (simp add: levels_ok_def)
  have ring: "ring (nxL (m_ordersAtPricePool b)) (pvL (m_ordersAtPricePool b)) (map fst ([] @ x # bs))"
    and best: "best_of sd b = Some (fst x)" using links s by (simp_all add: side_links_def)
  have fit: "length (snd x) \<le> m_size (m_orderPool b)" using rep_level_le [OF rep sd] s by simp
  obtain y where y: "y \<in> set (ss sd)" "n \<in> set (snd y)" using n(1) by (auto simp: in_onodes)
  then have "ord_price (pobj (m_orderPool b) n) = px b y" using lv by (auto simp: levels_ok_def lvl_rep_def)
  moreover have "y = x \<or> worse sd (px b y) (px b x)" using y lv s by (auto simp: levels_ok_def)
  ultimately have bad: "\<not> worse sd (px b x) lastp" using n(2) worse_trans [of sd "px b y" "px b x" lastp] by auto
  obtain u where "lts b (Some (fst x)) = Inr u" using lts [of x] s by (auto simp: level_shown_def)
  then show ?thesis using printer_level [OF ring x fit sd, where check = True and lastp = lastp and lts = lts and detailed = detailed] bad
    by (simp add: best print_side.simps [of "Suc _"] get_lvl_def Let_def FATAL_def)
qed

lemma book_ToString_stops:
  assumes rep: "book_rep b ss X" and B: "\<forall>sd\<in>sides. map (\<lambda>n. strip (pobj (m_orderPool b) n)) (onodes (ss sd)) = B sd"
    and bad: "\<not> prices_inside B" and lts: "\<And>x. x \<in> level_set ss \<Longrightarrow> level_shown lts b x"
  shows "\<exists>m. book_ToString lts t detailed True b = Inl (FatalExit m)"
proof -
  have sds: "SELL \<in> sides" "BUY \<in> sides" by (simp_all add: sides_def)
  have node: "\<exists>n\<in>set (onodes (ss sd)). ord_price (pobj (m_orderPool b) n) = ord_price r" if "sd \<in> sides" "r \<in> set (B sd)" for sd r
    using B that by (metis (no_types, lifting) image_iff image_set strip_sel(3))
  have shown: "level_shown lts b x" if "sd \<in> sides" "x \<in> set (ss sd)" for sd x using lts [of x] that by (auto simp: level_set_def)
  show ?thesis
  proof (cases "\<exists>r\<in>set (B SELL). ord_price r = Price_min")
    case True
    then obtain n where "n \<in> set (onodes (ss SELL))" "\<not> worse SELL (ord_price (pobj (m_orderPool b) n)) Price_min"
      using node [OF sds(1)] worse_irrefl by metis
    from print_side_stops [OF rep sds(1) this shown [OF sds(1)], where detailed = detailed and label = "''ASKS L:''" and k = 0 and t = "''Ticker:'' @ TickerIdToString t @ endl"] show ?thesis
      by (auto simp: book_ToString_def best_of_def bindE_def)
  next
    case False
    then have "\<exists>r\<in>set (B BUY). ord_price r = Price_max" using bad by (auto simp: prices_inside_def)
    then obtain n where "n \<in> set (onodes (ss BUY))" "\<not> worse BUY (ord_price (pobj (m_orderPool b) n)) Price_max"
      using node [OF sds(2)] worse_irrefl by metis
    note stop = print_side_stops [OF rep sds(2) this shown [OF sds(2)], where detailed = detailed and label = "''BIDS L:''" and k = 0]
    have "ord_price (pobj (m_orderPool b) n) \<noteq> Price_min" if "n \<in> set (onodes (ss SELL))" for n
    proof -
      have "strip (pobj (m_orderPool b) n) \<in> set (B SELL)" using B sds(1) that by (metis image_eqI image_set)
      then show ?thesis using False strip_sel(3) by metis
    qed
    then have "\<forall>n\<in>set (onodes (ss SELL)). worse SELL (ord_price (pobj (m_orderPool b) n)) Price_min" using worse_limits(1) by blast
    then show ?thesis using print_side_rep [OF rep sds(1), of True Price_min] stop by (simp add: book_ToString_def best_of_def)
  qed
qed

end
