(* ===== verification/DumpProperties.thy ===== *)
theory DumpProperties
  imports BookDump ExchangeProperties MarketProperties UnorderedProperties
begin

text \<open>
  \<open>ToString\<close> of the orders (\<open>exchange/matcher/MatchingEngineOrder.cpp\<close>, \<open>trading/strategy/MarketOrder.cpp\<close>), of
  the price levels, and of the three order books, and what the dumps show.
\<close>

section \<open>Orders, levels and books as text\<close>

definition SMEOrder_ToString :: "me_core \<Rightarrow> ptr \<Rightarrow> string outcome" where
  "SMEOrder_ToString b p =
     bindE (get_ord b p) (\<lambda>x.
     bindE (order_id_behind b (pPrevOrder x)) (\<lambda>prev.
     bindE (order_id_behind b (pNextOrder x)) (\<lambda>nxt.
     Inr (''SMEOrder[ticker:'' @ TickerIdToString (ord_tickerId x) @ '' cid:'' @ ClientIdToString (ord_clientId x)
       @ '' oid:'' @ OrderIdToString (ord_clientOrderId x) @ '' moid:'' @ OrderIdToString (ord_orderId x)
       @ '' side:'' @ SideToString (ord_side x) @ '' price:'' @ PriceToString (ord_price x) @ '' qty:'' @ QtyToString (ord_qty x)
       @ '' prio:'' @ PriorityToString (ord_priority x) @ '' prev:'' @ OrderIdToString prev @ '' next:'' @ OrderIdToString nxt @ '']''))))"

definition SMarketOrder_ToString :: "mkt_core \<Rightarrow> ptr \<Rightarrow> string outcome" where
  "SMarketOrder_ToString b p =
     bindE (get_ord b p) (\<lambda>x.
     bindE (order_id_behind b (pPrevOrder x)) (\<lambda>prev.
     bindE (order_id_behind b (pNextOrder x)) (\<lambda>nxt.
     Inr (''MarketOrder[oid:'' @ OrderIdToString (ord_orderId x) @ '' side:'' @ SideToString (ord_side x)
       @ '' price:'' @ PriceToString (ord_price x) @ '' qty:'' @ QtyToString (ord_qty x)
       @ '' prio:'' @ PriorityToString (ord_priority x) @ '' prev:'' @ OrderIdToString prev @ '' next:'' @ OrderIdToString nxt @ '']''))))"

definition level_price_behind :: "'o book_core \<Rightarrow> ptr \<Rightarrow> Price outcome" where
  "level_price_behind b p = (if p = None then Inr Price_INVALID else bindE (get_lvl b p) (\<lambda>l. Inr (lvl_price l)))"

definition level_ToString :: "string \<Rightarrow> string \<Rightarrow> ('o book_core \<Rightarrow> ptr \<Rightarrow> string outcome) \<Rightarrow> 'o book_core \<Rightarrow> ptr \<Rightarrow> string outcome" where
  "level_ToString name first_name ots b itr =
     bindE (get_lvl b itr) (\<lambda>l.
     bindE (if pFirstOrder l = None then Inr ''null'' else ots b (pFirstOrder l)) (\<lambda>first.
     bindE (level_price_behind b (pPrevEntry l)) (\<lambda>prev.
     bindE (level_price_behind b (pNextEntry l)) (\<lambda>nxt.
     Inr (name @ ''[side:'' @ SideToString (lvl_side l) @ '' price:'' @ PriceToString (lvl_price l) @ '' '' @ first_name @ first
       @ '' prev:'' @ PriceToString prev @ '' next:'' @ PriceToString nxt @ '']'')))))"

definition SMEOrdersAtPrice_ToString :: "me_core \<Rightarrow> ptr \<Rightarrow> string outcome" where
  "SMEOrdersAtPrice_ToString = level_ToString ''SMEOrdersAtPrice'' ''first_me_order:'' SMEOrder_ToString"

definition SMarketOrdersAtPrice_ToString :: "mkt_core \<Rightarrow> ptr \<Rightarrow> string outcome" where
  "SMarketOrdersAtPrice_ToString = level_ToString ''MarketOrdersAtPrice'' ''first_mkt_order:'' SMarketOrder_ToString"

definition me_ToString :: "bool \<Rightarrow> bool \<Rightarrow> CMEOrderBook \<Rightarrow> string outcome" where
  "me_ToString detailed validity_check bk = book_ToString SMEOrdersAtPrice_ToString (m_tickerId bk) detailed validity_check (core bk)"

definition um_ToString :: "bool \<Rightarrow> bool \<Rightarrow> CUnorderedMapMEOrderBook \<Rightarrow> string outcome" where
  "um_ToString detailed validity_check u = book_ToString SMEOrdersAtPrice_ToString (um_tickerId u) detailed validity_check (um_core u)"

definition mkt_ToString :: "bool \<Rightarrow> bool \<Rightarrow> CMarketOrderBook \<Rightarrow> string outcome" where
  "mkt_ToString detailed validity_check bk = book_ToString SMarketOrdersAtPrice_ToString (mb_tickerId bk) detailed validity_check (mb_core bk)"

section \<open>What the dumps show\<close>

lemma me_ToString_repr:
  assumes "me_repr bk B" and "check \<longrightarrow> prices_inside B"
  shows "me_ToString detailed check bk = Inr (spec_dump (m_tickerId bk) detailed B)"
proof -
  obtain ss where "me_rep bk ss" "\<forall>sd\<in>sides. orders_of bk ss sd = B sd" using assms(1) unfolding me_repr_def by blast
  then show ?thesis using book_ToString_rep [of "core bk" ss "{}" B check] assms(2)
    by (simp add: me_ToString_def me_rep_def orders_of_def)
qed

lemma mkt_ToString_repr:
  assumes "mkt_repr bk B" and "check \<longrightarrow> prices_inside B"
  shows "mkt_ToString detailed check bk = Inr (spec_dump (mb_tickerId bk) detailed B)"
proof -
  obtain ss where "mkt_rep bk ss" "\<forall>sd\<in>sides. morders bk ss sd = B sd" using assms(1) unfolding mkt_repr_def by blast
  then show ?thesis using book_ToString_rep [of "mb_core bk" ss "{}" B check] assms(2)
    by (simp add: mkt_ToString_def mkt_rep_def morders_def)
qed

text \<open>C27: the dumps of the three books show the orders of the book as the contract lays them out: per side from the best price
  to the worst, with the neighbouring prices, the total quantity and the number of orders of each level; the walks along the
  rings end, and the check of the prices passes whenever no sell order has the least and no buy order the greatest price.\<close>

theorem dumps_show_books:
  assumes "me_repr bk B" and "me_repr (as_array u) U" and "mkt_repr mk M"
    and "check \<longrightarrow> prices_inside B \<and> prices_inside U \<and> prices_inside M"
  shows "me_ToString detailed check bk = Inr (spec_dump (m_tickerId bk) detailed B)
    \<and> um_ToString detailed check u = Inr (spec_dump (um_tickerId u) detailed U)
    \<and> mkt_ToString detailed check mk = Inr (spec_dump (mb_tickerId mk) detailed M)"
proof (intro conjI)
  show "me_ToString detailed check bk = Inr (spec_dump (m_tickerId bk) detailed B)"
    using me_ToString_repr [OF assms(1)] assms(4) by blast
  have "um_ToString detailed check u = me_ToString detailed check (as_array u)" "m_tickerId (as_array u) = um_tickerId u"
    by (simp_all add: um_ToString_def me_ToString_def as_array_def)
  then show "um_ToString detailed check u = Inr (spec_dump (um_tickerId u) detailed U)"
    using me_ToString_repr [OF assms(2)] assms(4) by metis
  show "mkt_ToString detailed check mk = Inr (spec_dump (mb_tickerId mk) detailed M)"
    using mkt_ToString_repr [OF assms(3)] assms(4) by blast
qed

lemma spec_dump_one:
  "ord_orderId r = 1 \<Longrightarrow> ord_price r = 100 \<Longrightarrow> ord_qty r = 10 \<Longrightarrow> spec_dump t True (\<lambda>sd. if sd = SELL then [r] else [])
    = ''Ticker:'' @ TickerIdToString t @ endl @ ''ASKS L:0 =>  <px:100 p:100 n:100> 100 @ 10   (1   )[oid:1 q:10 p:1 n:1] '' @ endl
      @ endl @ ''                          X'' @ endl @ endl"
proof -
  assume r: "ord_orderId r = 1" "ord_price r = 100" "ord_qty r = 10"
  have numbers: "to_string_nat 0 = ''0''" "to_string_nat 1 = ''1''" "to_string_nat 10 = ''10''" "to_string_nat 100 = ''100''" by code_simp+
  have shown: "PriceToString 100 = ''100''" "QtyToString 10 = ''10''" "OrderIdToString 1 = ''1''"
    using numbers by (simp_all add: PriceToString_def QtyToString_def OrderIdToString_def invalid_defs to_string_int_def)
  show ?thesis
    by (simp add: spec_dump_def spec_order_lines_def order_line_def level_line_def pad_left_def pad_right_def r shown numbers [simplified]
      numeral_eq_Suc)
qed

theorem dumps_show_books_witness:
  "\<exists>bk. me_AddOrder 3 7 1 SELL 100 10 (CMEOrderBook_new 1) = Inr bk
    \<and> me_ToString True True bk = Inr (''Ticker:'' @ TickerIdToString (m_tickerId bk) @ endl @ ''ASKS L:0 =>  <px:100 p:100 n:100> 100 @ 10   (1   )[oid:1 q:10 p:1 n:1] '' @ endl
      @ endl @ ''                          X'' @ endl @ endl)"
proof -
  let ?B = "fst (spec_AddOrder 3 7 1 SELL 100 10 1 (\<lambda>_. []))"
  let ?r = "\<lparr>ord_orderId = 1, ord_side = SELL, ord_price = 100, ord_qty = 10, ord_priority = 1, pPrevOrder = None, pNextOrder = None,
    ord_tickerId = 1, ord_clientId = 3, ord_clientOrderId = 7\<rparr> :: SMEOrder"
  have "SELL \<in> sides" "id_in_range 3 7" by (simp_all add: sides_def id_in_range_def bounds_defs)
  from AddOrder_refines [OF me_repr_new [of 1] this empty_side has_room_empty, of 1 100 10]
  obtain bk where bk: "me_AddOrder 3 7 1 SELL 100 10 (CMEOrderBook_new 1) = Inr bk" "me_repr bk ?B"
    by (auto simp: CMEOrderBook_new_def)
  have B: "?B = (\<lambda>sd. if sd = SELL then [?r] else [])"
    by (auto simp: spec_AddOrder_def Let_def spec_insert_def spec_priority_def fun_eq_iff)
  have inside: "prices_inside ?B" "prices_inside (\<lambda>_. [] :: SMEOrder list)" "prices_inside (\<lambda>_. [] :: SMarketOrder list)"
    by (simp_all add: B prices_inside_def Price_min_def Price_max_def)
  have "me_ToString True True bk = Inr (spec_dump (m_tickerId bk) True ?B)"
    using dumps_show_books [OF bk(2) fresh_book(1) mkt_repr_new, of True True] inside by blast
  then show ?thesis using bk(1) spec_dump_one [of ?r "m_tickerId bk"] by (simp add: B)
qed

text \<open>The text of a level never follows a null pointer.\<close>

lemma ids_shown: "\<exists>i. order_id_behind b p = Inr i" "\<exists>q. level_price_behind b p = Inr q"
  by (cases p; simp add: order_id_behind_def level_price_behind_def get_ord_def get_lvl_def)+

lemma levels_shown: "level_shown SMEOrdersAtPrice_ToString b x" "level_shown SMarketOrdersAtPrice_ToString c x"
proof -
  have me: "\<exists>t. SMEOrder_ToString b (Some n) = Inr t" for n
    using ids_shown(1) [of b "pPrevOrder (pobj (m_orderPool b) n)"] ids_shown(1) [of b "pNextOrder (pobj (m_orderPool b) n)"]
    by (auto simp: SMEOrder_ToString_def get_ord_def)
  have mkt: "\<exists>t. SMarketOrder_ToString c (Some n) = Inr t" for n
    using ids_shown(1) [of c "pPrevOrder (pobj (m_orderPool c) n)"] ids_shown(1) [of c "pNextOrder (pobj (m_orderPool c) n)"]
    by (auto simp: SMarketOrder_ToString_def get_ord_def)
  have lvl: "\<exists>t. level_ToString s f ots d (Some l) = Inr t" if "\<And>n. \<exists>t. ots d (Some n) = Inr t" for s f ots and d :: "'z book_core" and l
  proof -
    let ?l = "pobj (m_ordersAtPricePool d) l"
    have "\<exists>t. (if pFirstOrder ?l = None then Inr ''null'' else ots d (pFirstOrder ?l)) = Inr t" using that by (cases "pFirstOrder ?l") auto
    then show ?thesis using ids_shown(2) [of d "pPrevEntry ?l"] ids_shown(2) [of d "pNextEntry ?l"]
      by (auto simp: level_ToString_def get_lvl_def)
  qed
  show "level_shown SMEOrdersAtPrice_ToString b x" "level_shown SMarketOrdersAtPrice_ToString c x"
    using lvl [of SMEOrder_ToString, OF me] lvl [of SMarketOrder_ToString, OF mkt]
    by (auto simp: level_shown_def SMEOrdersAtPrice_ToString_def SMarketOrdersAtPrice_ToString_def)
qed

text \<open>C40: the check that the destructors of the books make stops the process exactly when a sell order rests at the least price
  that there is or a buy order at the greatest one (which is \<open>Price_INVALID\<close>), although such a book is sorted.\<close>

theorem destructor_check_exact:
  assumes "me_repr bk B" and "mkt_repr mk M"
  shows "(\<exists>m. me_ToString detailed True bk = Inl (FatalExit m)) = (\<not> prices_inside B)
    \<and> (\<exists>m. mkt_ToString detailed True mk = Inl (FatalExit m)) = (\<not> prices_inside M)"
proof -
  obtain ss where ss: "me_rep bk ss" "\<forall>sd\<in>sides. orders_of bk ss sd = B sd" using assms(1) unfolding me_repr_def by blast
  obtain tt where tt: "mkt_rep mk tt" "\<forall>sd\<in>sides. morders mk tt sd = M sd" using assms(2) unfolding mkt_repr_def by blast
  have "\<exists>m. me_ToString detailed True bk = Inl (FatalExit m)" if "\<not> prices_inside B"
    using book_ToString_stops [of "core bk" ss "{}" B SMEOrdersAtPrice_ToString] that ss levels_shown
    by (simp add: me_ToString_def me_rep_def orders_of_def)
  moreover have "\<exists>m. mkt_ToString detailed True mk = Inl (FatalExit m)" if "\<not> prices_inside M"
    using book_ToString_stops [of "mb_core mk" tt "{}" M SMarketOrdersAtPrice_ToString] that tt levels_shown
    by (simp add: mkt_ToString_def mkt_rep_def morders_def)
  ultimately show ?thesis using me_ToString_repr [OF assms(1), of True detailed] mkt_ToString_repr [OF assms(2), of True detailed] by auto
qed

theorem destructor_check_exact_witness:
  "\<exists>bk m. me_AddOrder 3 7 1 BUY Price_INVALID 10 (CMEOrderBook_new 1) = Inr bk \<and> me_ToString False True bk = Inl (FatalExit m)"
proof -
  let ?B = "fst (spec_AddOrder 3 7 1 BUY Price_INVALID 10 1 (\<lambda>_. []))"
  have "BUY \<in> sides" "id_in_range 3 7" by (simp_all add: sides_def id_in_range_def bounds_defs)
  from AddOrder_refines [OF me_repr_new [of 1] this empty_side has_room_empty, of 1 Price_INVALID 10]
  obtain bk where bk: "me_AddOrder 3 7 1 BUY Price_INVALID 10 (CMEOrderBook_new 1) = Inr bk" "me_repr bk ?B"
    by (auto simp: CMEOrderBook_new_def)
  have "\<not> prices_inside ?B"
    by (simp add: spec_AddOrder_def Let_def spec_insert_def prices_inside_def Price_INVALID_def Price_max_def)
  then show ?thesis using destructor_check_exact [OF bk(2) mkt_repr_new, of False 1] bk(1) by blast
qed

end
