(* ===== verification/Wire.thy ===== *)
theory Wire
  imports Messages
begin

text \<open>
  The packed structs as they travel over the sockets (\<open>#pragma pack(push, 1)\<close>, little-endian
  integers, one byte per enumerator): what \<open>Send(&message, sizeof(message))\<close> appends to the send
  buffer and what \<open>reinterpret_cast\<close> reads at an offset of the receive buffer; and the loop with
  which every receive callback takes the complete messages off its buffer.
\<close>

type_synonym byte = "8 word"

section \<open>Fields\<close>

fun le_bytes :: "nat \<Rightarrow> nat \<Rightarrow> byte list" where
  "le_bytes 0 v = []"
| "le_bytes (Suc n) v = of_nat v # le_bytes n (v div 256)"

fun le_value :: "byte list \<Rightarrow> nat" where
  "le_value [] = 0"
| "le_value (b # bs) = unat b + 256 * le_value bs"

definition put_word :: "nat \<Rightarrow> 'a::len word \<Rightarrow> byte list" where
  "put_word n w = le_bytes n (unat w)"

type_synonym 'a reader = "byte list \<Rightarrow> ('a \<times> byte list) option"

definition get_word :: "nat \<Rightarrow> 'a::len word reader" where
  "get_word n bs = (if length bs < n then None else Some (of_nat (le_value (take n bs)), drop n bs))"

text \<open>An enumerator is one byte; bytes that name no enumerator are not read.\<close>

definition get_enum :: "('e \<Rightarrow> byte) \<Rightarrow> 'e list \<Rightarrow> 'e reader" where
  "get_enum code es bs =
     (case bs of [] \<Rightarrow> None
      | b # rest \<Rightarrow> map_option (\<lambda>e. (e, rest)) (find (\<lambda>e. code e = b) es))"

definition get_bind :: "'a reader \<Rightarrow> ('a \<Rightarrow> 'b reader) \<Rightarrow> 'b reader" where
  "get_bind r f bs = (case r bs of None \<Rightarrow> None | Some (x, rest) \<Rightarrow> f x rest)"

definition get_return :: "'a \<Rightarrow> 'a reader" where
  "get_return x bs = Some (x, bs)"

lemma length_le_bytes [simp]: "length (le_bytes n v) = n"
  by (induction n arbitrary: v) simp_all

lemma le_value_le_bytes: "le_value (le_bytes n v) = v mod 256 ^ n"
proof (induction n arbitrary: v)
  case (Suc n)
  have "unat (of_nat v :: byte) = v mod 256" by (simp add: unat_of_nat)
  moreover have "v mod (256 * 256 ^ n) = v mod 256 + 256 * (v div 256 mod 256 ^ n)" by (rule mod_mult2_eq [THEN trans]) simp
  ultimately show ?case by (simp add: Suc)
qed simp

lemma length_put_word [simp]: "length (put_word n w) = n"
  by (simp add: put_word_def)

lemma get_word_put:
  assumes "LENGTH('a::len) \<le> 8 * n"
  shows "get_word n (put_word n (w :: 'a word) @ rest) = Some (w, rest)"
proof -
  have "unat w < 2 ^ LENGTH('a)" by (rule unsigned_less)
  also have "\<dots> \<le> 2 ^ (8 * n)" using assms by simp
  finally have "unat w mod 256 ^ n = unat w" by (simp add: power_mult)
  then show ?thesis by (simp add: get_word_def put_word_def le_value_le_bytes)
qed

lemma get_enum_put:
  assumes "e \<in> set es" and "\<And>x y. x \<in> set es \<Longrightarrow> y \<in> set es \<Longrightarrow> code x = code y \<Longrightarrow> x = y"
  shows "get_enum code es (code e # rest) = Some (e, rest)"
proof -
  obtain x where x: "find (\<lambda>x. code x = code e) es = Some x"
    using assms(1) by (cases "find (\<lambda>x. code x = code e) es") (auto simp: find_None_iff)
  then have "x \<in> set es" "code x = code e" by (auto simp: find_Some_iff)
  then have "x = e" using assms by blast
  then show ?thesis using x by (simp add: get_enum_def)
qed

lemma get_bind_put: "r (p @ rest) = Some (x, rest) \<Longrightarrow> get_bind r f (p @ rest) = f x rest"
  by (simp add: get_bind_def)

section \<open>Enumerators\<close>

fun req_type_code :: "EClientRequestType \<Rightarrow> byte" where
  "req_type_code Req_INVALID = 0"
| "req_type_code Req_NEW = 1"
| "req_type_code Req_CANCEL = 2"

fun resp_type_code :: "EClientResponseType \<Rightarrow> byte" where
  "resp_type_code Resp_INVALID = 0"
| "resp_type_code ACCEPTED = 1"
| "resp_type_code CANCELED = 2"
| "resp_type_code FILLED = 3"
| "resp_type_code CANCEL_REJECTED = 4"

fun upd_type_code :: "EMarketUpdateType \<Rightarrow> byte" where
  "upd_type_code Upd_INVALID = 0"
| "upd_type_code CLEAR = 1"
| "upd_type_code ADD = 2"
| "upd_type_code MODIFY = 3"
| "upd_type_code CANCEL = 4"
| "upd_type_code TRADE = 5"
| "upd_type_code SNAPSHOT_START = 6"
| "upd_type_code SNAPSHOT_END = 7"

definition side_code :: "ESide \<Rightarrow> byte" where
  "side_code side = word_of_int (SideToValue side)"

definition get_req_type :: "EClientRequestType reader" where
  "get_req_type = get_enum req_type_code [Req_INVALID, Req_NEW, Req_CANCEL]"

definition get_resp_type :: "EClientResponseType reader" where
  "get_resp_type = get_enum resp_type_code [Resp_INVALID, ACCEPTED, CANCELED, FILLED, CANCEL_REJECTED]"

definition get_upd_type :: "EMarketUpdateType reader" where
  "get_upd_type = get_enum upd_type_code [Upd_INVALID, CLEAR, ADD, MODIFY, CANCEL, TRADE, SNAPSHOT_START, SNAPSHOT_END]"

definition get_side :: "ESide reader" where
  "get_side = get_enum side_code [Side_INVALID, BUY, SELL, Side_MAX]"

lemma get_enums_put:
  "get_req_type (req_type_code a # rest) = Some (a, rest)"
  "get_resp_type (resp_type_code b # rest) = Some (b, rest)"
  "get_upd_type (upd_type_code c # rest) = Some (c, rest)"
  "get_side (side_code d # rest) = Some (d, rest)"
proof -
  show "get_req_type (req_type_code a # rest) = Some (a, rest)"
    unfolding get_req_type_def by (rule get_enum_put) (cases a; auto)+
  show "get_resp_type (resp_type_code b # rest) = Some (b, rest)"
    unfolding get_resp_type_def by (rule get_enum_put) (cases b; auto)+
  show "get_upd_type (upd_type_code c # rest) = Some (c, rest)"
    unfolding get_upd_type_def by (rule get_enum_put) (cases c; auto)+
  show "get_side (side_code d # rest) = Some (d, rest)"
    unfolding get_side_def by (rule get_enum_put) (cases d; auto simp: side_code_def)+
qed

section \<open>Messages\<close>

definition put_SMEClientRequest :: "SMEClientRequest \<Rightarrow> byte list" where
  "put_SMEClientRequest r = req_type_code (req_type r) # put_word 4 (req_clientId r) @ put_word 4 (req_tickerId r)
     @ put_word 8 (req_orderId r) @ [side_code (req_side r)] @ put_word 8 (req_price r) @ put_word 4 (req_qty r)"

definition get_SMEClientRequest :: "SMEClientRequest reader" where
  "get_SMEClientRequest =
     get_bind get_req_type (\<lambda>ty. get_bind (get_word 4) (\<lambda>c. get_bind (get_word 4) (\<lambda>t. get_bind (get_word 8) (\<lambda>oid.
     get_bind get_side (\<lambda>sd. get_bind (get_word 8) (\<lambda>p. get_bind (get_word 4) (\<lambda>q.
     get_return \<lparr>req_type = ty, req_clientId = c, req_tickerId = t, req_orderId = oid, req_side = sd, req_price = p, req_qty = q\<rparr>)))))))"

definition put_SMEClientResponse :: "SMEClientResponse \<Rightarrow> byte list" where
  "put_SMEClientResponse r = resp_type_code (resp_type r) # put_word 4 (resp_clientId r) @ put_word 4 (resp_tickerId r)
     @ put_word 8 (resp_clientOrderId r) @ put_word 8 (resp_marketOrderId r) @ [side_code (resp_side r)]
     @ put_word 8 (resp_price r) @ put_word 4 (resp_execQty r) @ put_word 4 (resp_leavesQty r)"

definition get_SMEClientResponse :: "SMEClientResponse reader" where
  "get_SMEClientResponse =
     get_bind get_resp_type (\<lambda>ty. get_bind (get_word 4) (\<lambda>c. get_bind (get_word 4) (\<lambda>t. get_bind (get_word 8) (\<lambda>coid.
     get_bind (get_word 8) (\<lambda>moid. get_bind get_side (\<lambda>sd. get_bind (get_word 8) (\<lambda>p. get_bind (get_word 4) (\<lambda>x.
     get_bind (get_word 4) (\<lambda>l.
     get_return \<lparr>resp_type = ty, resp_clientId = c, resp_tickerId = t, resp_clientOrderId = coid, resp_marketOrderId = moid,
       resp_side = sd, resp_price = p, resp_execQty = x, resp_leavesQty = l\<rparr>)))))))))"

definition put_SMEMarketUpdate :: "SMEMarketUpdate \<Rightarrow> byte list" where
  "put_SMEMarketUpdate u = upd_type_code (upd_type u) # put_word 8 (upd_orderId u) @ put_word 4 (upd_tickerId u)
     @ [side_code (upd_side u)] @ put_word 8 (upd_price u) @ put_word 4 (upd_qty u) @ put_word 8 (upd_priority u)"

definition get_SMEMarketUpdate :: "SMEMarketUpdate reader" where
  "get_SMEMarketUpdate =
     get_bind get_upd_type (\<lambda>ty. get_bind (get_word 8) (\<lambda>oid. get_bind (get_word 4) (\<lambda>t. get_bind get_side (\<lambda>sd.
     get_bind (get_word 8) (\<lambda>p. get_bind (get_word 4) (\<lambda>q. get_bind (get_word 8) (\<lambda>pr.
     get_return \<lparr>upd_type = ty, upd_orderId = oid, upd_tickerId = t, upd_side = sd, upd_price = p, upd_qty = q, upd_priority = pr\<rparr>)))))))"

definition put_SOMClientRequest :: "SOMClientRequest \<Rightarrow> byte list" where
  "put_SOMClientRequest m = put_word 8 (som_seqNum m) @ put_SMEClientRequest (som_meClientRequest m)"

definition get_SOMClientRequest :: "SOMClientRequest reader" where
  "get_SOMClientRequest = get_bind (get_word 8) (\<lambda>k. get_bind get_SMEClientRequest (\<lambda>r.
     get_return \<lparr>som_seqNum = k, som_meClientRequest = r\<rparr>))"

definition put_SOMClientResponse :: "SOMClientResponse \<Rightarrow> byte list" where
  "put_SOMClientResponse m = put_word 8 (somr_seqNum m) @ put_SMEClientResponse (somr_meClientResponse m)"

definition get_SOMClientResponse :: "SOMClientResponse reader" where
  "get_SOMClientResponse = get_bind (get_word 8) (\<lambda>k. get_bind get_SMEClientResponse (\<lambda>r.
     get_return \<lparr>somr_seqNum = k, somr_meClientResponse = r\<rparr>))"

definition put_MDPMarketUpdate :: "MDPMarketUpdate \<Rightarrow> byte list" where
  "put_MDPMarketUpdate m = put_word 8 (mdp_seqNum m) @ put_SMEMarketUpdate (mdp_update m)"

definition get_MDPMarketUpdate :: "MDPMarketUpdate reader" where
  "get_MDPMarketUpdate = get_bind (get_word 8) (\<lambda>k. get_bind get_SMEMarketUpdate (\<lambda>u.
     get_return \<lparr>mdp_seqNum = k, mdp_update = u\<rparr>))"

text \<open>The sizes of the packed structs (\<open>sizeof\<close>).\<close>

definition sizeof_SMEClientRequest :: nat where "sizeof_SMEClientRequest = 30"
definition sizeof_SMEClientResponse :: nat where "sizeof_SMEClientResponse = 42"
definition sizeof_SMEMarketUpdate :: nat where "sizeof_SMEMarketUpdate = 34"
definition sizeof_SOMClientRequest :: nat where "sizeof_SOMClientRequest = 8 + sizeof_SMEClientRequest"
definition sizeof_SOMClientResponse :: nat where "sizeof_SOMClientResponse = 8 + sizeof_SMEClientResponse"
definition sizeof_MDPMarketUpdate :: nat where "sizeof_MDPMarketUpdate = 8 + sizeof_SMEMarketUpdate"

lemmas sizeof_defs = sizeof_SMEClientRequest_def sizeof_SMEClientResponse_def sizeof_SMEMarketUpdate_def
  sizeof_SOMClientRequest_def sizeof_SOMClientResponse_def sizeof_MDPMarketUpdate_def

section \<open>The receive loop\<close>

text \<open>
  \<open>for (; i + sizeof(M) <= m_nextRecvValidIndex; i += sizeof(M)) { ... }\<close> followed by the move of the
  incomplete rest to the front of the buffer.  \<open>buf\<close> is the buffer up to \<open>m_nextRecvValidIndex\<close>.
\<close>

function for_messages :: "('m reader) \<Rightarrow> nat \<Rightarrow> ('m \<Rightarrow> 's \<Rightarrow> 's outcome) \<Rightarrow> byte list \<Rightarrow> 's \<Rightarrow> ('s \<times> byte list) outcome" where
  "for_messages rd sz h buf s =
     (if sz \<le> length buf \<and> 0 < sz
      then case rd (take sz buf) of
             None \<Rightarrow> Inl UnnamedEnumerator
           | Some (m, _) \<Rightarrow> bindE (h m s) (for_messages rd sz h (drop sz buf))
      else Inr (s, buf))"
  by pat_completeness auto
termination
  by (relation "measure (\<lambda>(rd, sz, h, buf, s). length buf)") auto

declare for_messages.simps [simp del]

text \<open>
  A read: the bytes \<open>c\<close> arrive behind what is in the buffer, the loop runs with a handler that knows
  something about the read (\<open>x\<close>, its time), and then \<open>fin\<close> is called.
\<close>

definition recv_piece :: "'m reader \<Rightarrow> nat \<Rightarrow> ('x \<Rightarrow> 'm \<Rightarrow> 's \<Rightarrow> 's outcome) \<Rightarrow> ('s \<Rightarrow> 's outcome)
    \<Rightarrow> 'x \<times> byte list \<Rightarrow> 's \<times> byte list \<Rightarrow> ('s \<times> byte list) outcome" where
  "recv_piece rd sz h fin xc sb =
     bindE (for_messages rd sz (h (fst xc)) (snd sb @ snd xc) (fst sb)) (\<lambda>(s', buf').
     bindE (fin s') (\<lambda>s''. Inr (s'', buf')))"

text \<open>A struct with its layout: it is read back whatever follows it, and it has its size.\<close>

locale packed =
  fixes put :: "'m \<Rightarrow> byte list"
    and get :: "'m reader"
    and size :: nat
  assumes get_put: "get (put m @ rest) = Some (m, rest)"
    and put_size: "length (put m) = size"
    and size_pos: "0 < size"
begin

lemma put_inj: "put m = put m' \<longleftrightarrow> m = m'"
  using get_put by (metis option.inject prod.inject)

lemma for_messages_one:
  "for_messages get size h (put m @ buf) s = bindE (h m s) (for_messages get size h buf)"
proof -
  have t: "take size (put m @ buf) = put m" "drop size (put m @ buf) = buf" by (simp_all add: put_size)
  have l: "size \<le> length (put m @ buf) \<and> 0 < size" using size_pos by (simp add: put_size)
  have g: "get (put m) = Some (m, [])" using get_put [of m "[]"] by simp
  show ?thesis by (simp only: for_messages.simps [of get size h "put m @ buf"] t l g if_True option.case prod.case simp_thms)
qed

lemma for_messages_short: "length buf < size \<Longrightarrow> for_messages get size h buf s = Inr (s, buf)"
  by (subst for_messages.simps) simp

text \<open>The handler sees the complete messages in order, and the incomplete rest stays in the buffer.\<close>

lemma for_messages_all:
  "length part < size \<Longrightarrow>
    for_messages get size h (concat (map put ms) @ part) s = bindE (foldE h ms s) (\<lambda>s'. Inr (s', part))"
proof (induction ms arbitrary: s)
  case Nil
  then show ?case by (simp add: for_messages_short)
next
  case (Cons m ms)
  then show ?case by (simp add: for_messages_one bindE_assoc bindE_def split: sum.split)
qed

text \<open>Cutting a stream of messages: some whole messages, and the beginning of the next one.\<close>

lemma cut_stream:
  "bs @ rest = concat (map put ms) \<Longrightarrow>
    \<exists>ms1 ms2 part. ms = ms1 @ ms2 \<and> bs = concat (map put ms1) @ part \<and> length part < size \<and> part @ rest = concat (map put ms2)"
proof (induction ms arbitrary: bs)
  case Nil
  then show ?case using size_pos by simp
next
  case (Cons m ms)
  show ?case
  proof (cases "length bs < size")
    case True
    then show ?thesis using Cons.prems by (intro exI [of _ "[]"] exI [of _ "m # ms"] exI [of _ bs]) simp
  next
    case False
    have "take size (bs @ rest) = put m" "drop size (bs @ rest) = concat (map put ms)" unfolding Cons.prems by (simp_all add: put_size)
    then have bs: "take size bs = put m" "drop size bs @ rest = concat (map put ms)" using False by simp_all
    obtain ms1 ms2 part where "ms = ms1 @ ms2" "drop size bs = concat (map put ms1) @ part" "length part < size" "part @ rest = concat (map put ms2)"
      using Cons.IH [OF bs(2)] by blast
    then show ?thesis using bs(1) append_take_drop_id [of size bs]
      by (intro exI [of _ "m # ms1"] exI [of _ ms2] exI [of _ part]) auto
  qed
qed

text \<open>
  A stream of messages that arrives in pieces of any sizes: every message is handled once and in
  order, whatever the cuts, so an invariant of the handled messages holds at the end.
\<close>

lemma pieces_law:
  assumes step: "\<And>don ms1 rest x s. all = don @ ms1 @ rest \<Longrightarrow> I don s \<Longrightarrow>
      \<exists>s1 s2. foldE (h x) ms1 s = Inr s1 \<and> fin s1 = Inr s2 \<and> I (don @ ms1) s2"
  shows "all = don @ todo \<Longrightarrow> I don s \<Longrightarrow> buf @ concat (map snd cs) = concat (map put todo) \<Longrightarrow> length buf < size \<Longrightarrow>
    \<exists>s'. foldE (recv_piece get size h fin) cs (s, buf) = Inr (s', []) \<and> I all s'"
proof (induction cs arbitrary: don todo s buf)
  case Nil
  have "todo = []"
  proof (cases todo)
    case (Cons m ms)
    then have "size \<le> length buf" using Nil.prems(3) by (simp add: put_size)
    then show ?thesis using Nil.prems(4) by simp
  qed simp
  then show ?case using Nil.prems by simp
next
  case (Cons xc cs)
  obtain x c where xc: "xc = (x, c)" by fastforce
  have "(buf @ c) @ concat (map snd cs) = concat (map put todo)" using Cons.prems(3) xc by simp
  from cut_stream [OF this] obtain ms1 ms2 part where m: "todo = ms1 @ ms2" "buf @ c = concat (map put ms1) @ part"
    "length part < size" "part @ concat (map snd cs) = concat (map put ms2)" by blast
  have all: "all = don @ ms1 @ ms2" using Cons.prems(1) m(1) by simp
  obtain s1 s2 where s: "foldE (h x) ms1 s = Inr s1" "fin s1 = Inr s2" "I (don @ ms1) s2" using step [OF all Cons.prems(2)] by blast
  have "recv_piece get size h fin xc (s, buf) = Inr (s2, part)"
    by (simp add: recv_piece_def xc m(2) for_messages_all [OF m(3)] s(1,2))
  moreover have "all = (don @ ms1) @ ms2" using all by simp
  ultimately show ?case using Cons.IH [OF _ s(3) m(4,3)] by simp
qed

end

section \<open>Numbered messages\<close>

text \<open>The senders number their messages consecutively.\<close>

fun numbered :: "(64 word \<Rightarrow> 'a \<Rightarrow> 'b) \<Rightarrow> 64 word \<Rightarrow> 'a list \<Rightarrow> 'b list" where
  "numbered mk k [] = []"
| "numbered mk k (x # xs) = mk k x # numbered mk (k + 1) xs"

lemma length_numbered [simp]: "length (numbered mk k xs) = length xs"
  by (induction xs arbitrary: k) simp_all

lemma numbered_append: "numbered mk k (xs @ ys) = numbered mk k xs @ numbered mk (k + of_nat (length xs)) ys"
  by (induction xs arbitrary: k) (simp_all add: add.assoc)

lemma numbered_split:
  "numbered mk k xs = as @ bs \<Longrightarrow>
    \<exists>ys zs. xs = ys @ zs \<and> as = numbered mk k ys \<and> bs = numbered mk (k + of_nat (length as)) zs"
proof (induction as arbitrary: k xs)
  case Nil
  then show ?case by (intro exI [of _ "[]"] exI [of _ xs]) simp
next
  case (Cons a as)
  then obtain x xs' where x: "xs = x # xs'" "a = mk k x" "numbered mk (k + 1) xs' = as @ bs" by (cases xs) auto
  obtain ys zs where "xs' = ys @ zs" "as = numbered mk (k + 1) ys" "bs = numbered mk (k + 1 + of_nat (length as)) zs"
    using Cons.IH [OF x(3)] by blast
  then show ?case using x by (intro exI [of _ "x # ys"] exI [of _ zs]) (simp add: add.assoc)
qed

lemmas put_defs = put_SMEClientRequest_def put_SMEClientResponse_def put_SMEMarketUpdate_def
  put_SOMClientRequest_def put_SOMClientResponse_def put_MDPMarketUpdate_def

lemmas get_defs = get_SMEClientRequest_def get_SMEClientResponse_def get_SMEMarketUpdate_def
  get_SOMClientRequest_def get_SOMClientResponse_def get_MDPMarketUpdate_def get_return_def

interpretation requests: packed put_SOMClientRequest get_SOMClientRequest sizeof_SOMClientRequest
  by unfold_locales (simp_all add: put_defs get_defs get_bind_def get_word_put get_enums_put sizeof_defs)

interpretation responses: packed put_SOMClientResponse get_SOMClientResponse sizeof_SOMClientResponse
  by unfold_locales (simp_all add: put_defs get_defs get_bind_def get_word_put get_enums_put sizeof_defs)

interpretation updates: packed put_MDPMarketUpdate get_MDPMarketUpdate sizeof_MDPMarketUpdate
  by unfold_locales (simp_all add: put_defs get_defs get_bind_def get_word_put get_enums_put sizeof_defs)

end
