(* ===== verification/Sockets.thy ===== *)
theory Sockets
  imports Wire
begin

text \<open>
  \<open>common/TcpSocket.h\<close> and \<open>.cpp\<close>, \<open>common/MultiCastSocket.h\<close> and \<open>.cpp\<close>: buffered sockets.  A buffer is
  the list of the bytes before its \<open>m_next...ValidIndex\<close>.  The system calls are parameters: what
  \<open>recv\<close> delivered, and what \<open>send\<close> returned for the bytes it was given.
\<close>

section \<open>TCP sockets\<close>

definition TCPBufferSize :: nat where "TCPBufferSize = 64 * 1024 * 1024"

record CTCPSocket =
  m_fd :: int
  m_pSendBuffer :: "byte list"
  m_pRecvBuffer :: "byte list"
  m_isSendDisconnected :: bool
  wire :: "byte list"  \<comment> \<open>what the kernel has accepted for transmission\<close>

definition CTCPSocket_new :: "int \<Rightarrow> CTCPSocket" where
  "CTCPSocket_new fd = \<lparr>m_fd = fd, m_pSendBuffer = [], m_pRecvBuffer = [], m_isSendDisconnected = False, wire = []\<rparr>"

text \<open>\<open>memcpy\<close> into the send buffer, which is not checked against its size.\<close>

definition tcp_Send :: "byte list \<Rightarrow> CTCPSocket \<Rightarrow> CTCPSocket outcome" where
  "tcp_Send data s =
     (if length data > 0
      then if length (m_pSendBuffer s) + length data > TCPBufferSize then Inl OutOfBounds
           else Inr (s\<lparr>m_pSendBuffer := m_pSendBuffer s @ data\<rparr>)
      else Inr s)"

text \<open>
  The answer of \<open>send\<close>: a number of bytes, or an error that is \<open>EWOULDBLOCK\<close>-like or another one.
\<close>

datatype send_result = Sent nat | WouldBlock | SendError

text \<open>
  The sending half of \<open>SendAndRecv\<close>.  The loop is over after one round: \<open>n_send_this_msg\<close> is all of
  \<open>n_send\<close>, and a \<open>send\<close> that took less fails the assertion.  The index is reset in every case.
\<close>

definition tcp_flush :: "(byte list \<Rightarrow> send_result) \<Rightarrow> CTCPSocket \<Rightarrow> CTCPSocket outcome" where
  "tcp_flush send s =
     (let n_send = min TCPBufferSize (length (m_pSendBuffer s)); data = take n_send (m_pSendBuffer s)
      in bindE (if n_send > 0
                then case send data of
                       Sent n \<Rightarrow> bindE (ASSERT (n = n_send) ''Don't support partial send lengths yet.'') (\<lambda>_. Inr (s\<lparr>wire := wire s @ data\<rparr>))
                     | WouldBlock \<Rightarrow> Inr s
                     | SendError \<Rightarrow> Inr (s\<lparr>m_isSendDisconnected := True\<rparr>)
                else Inr s) (\<lambda>s'. Inr (s'\<lparr>m_pSendBuffer := []\<rparr>)))"

text \<open>
  \<open>SendAndRecv\<close>: \<open>received\<close> is what \<open>recvmsg\<close> delivered (no bytes when it failed) with the time stamp of
  the kernel, which the code leaves 0 when there is none; \<open>cb\<close> is \<open>m_recvCallback\<close>, which works on the
  state \<open>a\<close> of its owner and returns what it leaves in the receive buffer.
\<close>

definition tcp_SendAndRecv :: "byte list \<Rightarrow> Nanos option \<Rightarrow> (byte list \<Rightarrow> send_result)
    \<Rightarrow> (Nanos \<Rightarrow> byte list \<Rightarrow> 'a \<Rightarrow> ('a \<times> byte list) outcome) \<Rightarrow> CTCPSocket \<Rightarrow> 'a \<Rightarrow> (bool \<times> CTCPSocket \<times> 'a) outcome" where
  "tcp_SendAndRecv received kernel_time send cb s a =
     (let space = TCPBufferSize - length (m_pRecvBuffer s); data = take space received
      in bindE (if length data > 0
                then bindE (cb (case kernel_time of None \<Rightarrow> 0 | Some k \<Rightarrow> k) (m_pRecvBuffer s @ data) a) (\<lambda>(a', rest).
                     Inr (s\<lparr>m_pRecvBuffer := rest\<rparr>, a'))
                else Inr (s, a)) (\<lambda>(s', a').
         bindE (tcp_flush send s') (\<lambda>s''. Inr (length data > 0, s'', a'))))"

section \<open>Multicast sockets\<close>

definition MultiCastBufferSize :: nat where "MultiCastBufferSize = 64 * 1024 * 1024"

text \<open>The struct has the members of a TCP socket; nothing reads or writes \<open>m_isRecvDisconnected\<close>.\<close>

type_synonym SMultiCastSocket = CTCPSocket

definition SMultiCastSocket_new :: SMultiCastSocket where
  "SMultiCastSocket_new = CTCPSocket_new (- 1)"

definition mcast_Send :: "byte list \<Rightarrow> CTCPSocket \<Rightarrow> CTCPSocket outcome" where
  "mcast_Send pData s =
     (if length pData > 0
      then if length (m_pSendBuffer s) + length pData > MultiCastBufferSize then Inl OutOfBounds
           else let s' = s\<lparr>m_pSendBuffer := m_pSendBuffer s @ pData\<rparr>
                in bindE (ASSERT (length (m_pSendBuffer s') < MultiCastBufferSize) ''Mcast socket buffer filled up and SendAndRecv() not called.'')
                     (\<lambda>_. Inr s')
      else Inr s)"

definition mcast_flush :: "(byte list \<Rightarrow> send_result) \<Rightarrow> CTCPSocket \<Rightarrow> CTCPSocket outcome" where
  "mcast_flush send s =
     (let n_send = min MultiCastBufferSize (length (m_pSendBuffer s)); data = take n_send (m_pSendBuffer s)
      in bindE (if n_send > 0
                then case send data of
                       Sent n \<Rightarrow> bindE (ASSERT (n = n_send) ''Don't support partial send lengths yet.'') (\<lambda>_. Inr (s\<lparr>wire := wire s @ data\<rparr>))
                     | WouldBlock \<Rightarrow> Inr s
                     | SendError \<Rightarrow> Inr (s\<lparr>m_isSendDisconnected := True\<rparr>)
                else Inr s) (\<lambda>s'. Inr (s'\<lparr>m_pSendBuffer := []\<rparr>)))"

definition mcast_SendAndRecv :: "byte list \<Rightarrow> (byte list \<Rightarrow> send_result)
    \<Rightarrow> (byte list \<Rightarrow> 'a \<Rightarrow> ('a \<times> byte list) outcome) \<Rightarrow> CTCPSocket \<Rightarrow> 'a \<Rightarrow> (bool \<times> CTCPSocket \<times> 'a) outcome" where
  "mcast_SendAndRecv received send cb s a =
     (let space = MultiCastBufferSize - length (m_pRecvBuffer s); data = take space received
      in bindE (if length data > 0
                then bindE (cb (m_pRecvBuffer s @ data) a) (\<lambda>(a', rest). Inr (s\<lparr>m_pRecvBuffer := rest\<rparr>, a'))
                else Inr (s, a)) (\<lambda>(s', a').
         bindE (mcast_flush send s') (\<lambda>s''. Inr (length data > 0, s'', a'))))"

section \<open>What the sockets do\<close>

text \<open>Messages appended one by one travel as one sequence of bytes.\<close>

lemma tcp_Send_ok:
  "length (m_pSendBuffer s) + length data \<le> TCPBufferSize \<Longrightarrow> tcp_Send data s = Inr (s\<lparr>m_pSendBuffer := m_pSendBuffer s @ data\<rparr>)"
  by (cases "data = []") (simp_all add: tcp_Send_def)

lemma tcp_Send_all:
  "length (m_pSendBuffer s) + length (concat ds) \<le> TCPBufferSize \<Longrightarrow>
    foldE tcp_Send ds s = Inr (s\<lparr>m_pSendBuffer := m_pSendBuffer s @ concat ds\<rparr>)"
  by (induction ds arbitrary: s) (simp_all add: tcp_Send_ok)

lemma tcp_flush_sent:
  assumes "\<And>data. send data = Sent (length data)" and "length (m_pSendBuffer s) \<le> TCPBufferSize"
  shows "tcp_flush send s = Inr (s\<lparr>wire := wire s @ m_pSendBuffer s, m_pSendBuffer := []\<rparr>)"
  using assms by (cases "m_pSendBuffer s") (simp_all add: tcp_flush_def Let_def)

lemma tcp_flush_blocked:
  assumes "\<And>data. send data = WouldBlock"
  shows "tcp_flush send s = Inr (s\<lparr>m_pSendBuffer := []\<rparr>)"
  using assms by (simp add: tcp_flush_def Let_def)

end
