(* ===== verification/OrderServer.thy ===== *)
theory OrderServer
  imports LockFreeQueue Sockets "HOL-Library.Multiset"
begin

text \<open>
  \<open>exchange/order_server/FifoSequencer.h\<close> and \<open>OrderServer.h\<close>/\<open>.cpp\<close>: the requests of the clients are
  taken off the receive buffers, checked against the client's socket and sequence number, collected,
  sorted by their receive time and written to the matching engine's queue; the responses of the
  matching engine are numbered per client and written to the client's socket.

  A client socket is a number; the bytes written to its send buffer are collected in \<open>os_out\<close>.
\<close>

section \<open>The FIFO sequencer\<close>

definition ME_MAX_PENDING_REQUESTS :: nat where "ME_MAX_PENDING_REQUESTS = 1024"

record SRecvTimeClientRequest =
  recvTime :: Nanos
  rt_request :: SMEClientRequest

definition recv_before :: "SRecvTimeClientRequest \<Rightarrow> SRecvTimeClientRequest \<Rightarrow> bool" where
  "recv_before a b \<longleftrightarrow> sint (recvTime a) < sint (recvTime b)"

record CFIFOSequencer =
  fifo_pIncomingRequests :: "SMEClientRequest CLockFreeQueue"
  m_pendingClientRequests :: "nat \<Rightarrow> SRecvTimeClientRequest"
  m_pendingSize :: nat

definition CFIFOSequencer_new :: "SMEClientRequest CLockFreeQueue \<Rightarrow> CFIFOSequencer" where
  "CFIFOSequencer_new pClientRequests =
     \<lparr>fifo_pIncomingRequests = pClientRequests,
      m_pendingClientRequests = (\<lambda>_. \<lparr>recvTime = 0, rt_request = SMEClientRequest_default\<rparr>), m_pendingSize = 0\<rparr>"

definition AddClientRequest :: "Nanos \<Rightarrow> SMEClientRequest \<Rightarrow> CFIFOSequencer \<Rightarrow> CFIFOSequencer outcome" where
  "AddClientRequest rx_time request f =
     (if m_pendingSize f \<ge> ME_MAX_PENDING_REQUESTS then FATAL ''Too many pending requests''
      else Inr (f\<lparr>m_pendingClientRequests := (m_pendingClientRequests f)(m_pendingSize f := \<lparr>recvTime = rx_time, rt_request = request\<rparr>),
                 m_pendingSize := m_pendingSize f + 1\<rparr>))"

text \<open>
  \<open>std::sort\<close> on a range is a parameter: it permutes the range into ascending order and promises nothing
  about elements that compare equal.
\<close>

type_synonym std_sort = "SRecvTimeClientRequest list \<Rightarrow> SRecvTimeClientRequest list"

definition pending :: "CFIFOSequencer \<Rightarrow> SRecvTimeClientRequest list" where
  "pending f = map (m_pendingClientRequests f) [0..<m_pendingSize f]"

definition store_list :: "'a list \<Rightarrow> (nat \<Rightarrow> 'a) \<Rightarrow> nat \<Rightarrow> 'a" where
  "store_list xs m i = (if i < length xs then xs ! i else m i)"

definition SequenceAndPublish :: "std_sort \<Rightarrow> CFIFOSequencer \<Rightarrow> CFIFOSequencer" where
  "SequenceAndPublish srt f =
     (if m_pendingSize f = 0 then f
      else let m = store_list (srt (pending f)) (m_pendingClientRequests f)
           in f\<lparr>m_pendingClientRequests := m,
                fifo_pIncomingRequests := fold (\<lambda>i. enqueue (rt_request (m i))) [0..<m_pendingSize f] (fifo_pIncomingRequests f),
                m_pendingSize := 0\<rparr>)"

section \<open>The order server\<close>

record COrderServer =
  m_pOutgoingResponses :: "SMEClientResponse CLockFreeQueue"
  m_cidNextOutgoingSeqNum :: "ClientId \<Rightarrow> 64 word"
  m_cidNextExpSeqNum :: "ClientId \<Rightarrow> 64 word"
  m_cidTcpSocket :: "ClientId \<Rightarrow> nat option"
  m_fifoSequencer :: CFIFOSequencer
  os_out :: "nat \<Rightarrow> byte list"

definition COrderServer_new :: "SMEClientRequest CLockFreeQueue \<Rightarrow> SMEClientResponse CLockFreeQueue \<Rightarrow> COrderServer" where
  "COrderServer_new client_requests client_responses =
     \<lparr>m_pOutgoingResponses = client_responses, m_cidNextOutgoingSeqNum = (\<lambda>_. 1), m_cidNextExpSeqNum = (\<lambda>_. 1),
      m_cidTcpSocket = (\<lambda>_. None), m_fifoSequencer = CFIFOSequencer_new client_requests, os_out = (\<lambda>_. [])\<rparr>"

text \<open>The body of the loop of \<open>RecvCallback\<close>; the arrays are indexed unchecked by the client id of the message.\<close>

definition os_request :: "nat \<Rightarrow> Nanos \<Rightarrow> SOMClientRequest \<Rightarrow> COrderServer \<Rightarrow> COrderServer outcome" where
  "os_request socket rx_time request s =
     (let cid = req_clientId (som_meClientRequest request)
      in bindE (raw_at ME_MAX_NUM_CLIENTS (m_cidTcpSocket s) cid) (\<lambda>known.
         let s1 = (if known = None then s\<lparr>m_cidTcpSocket := (m_cidTcpSocket s)(cid := Some socket)\<rparr> else s)
         in if m_cidTcpSocket s1 cid \<noteq> Some socket then Inr s1
            else if som_seqNum request \<noteq> m_cidNextExpSeqNum s1 cid then Inr s1
            else let s2 = s1\<lparr>m_cidNextExpSeqNum := (m_cidNextExpSeqNum s1)(cid := m_cidNextExpSeqNum s1 cid + 1)\<rparr>
                 in bindE (AddClientRequest rx_time (som_meClientRequest request) (m_fifoSequencer s2)) (\<lambda>f.
                    Inr (s2\<lparr>m_fifoSequencer := f\<rparr>))))"

definition os_RecvCallback :: "nat \<Rightarrow> Nanos \<Rightarrow> byte list \<Rightarrow> COrderServer \<Rightarrow> (COrderServer \<times> byte list) outcome" where
  "os_RecvCallback socket rx_time buf s =
     (if length buf \<ge> sizeof_SOMClientRequest
      then for_messages get_SOMClientRequest sizeof_SOMClientRequest (os_request socket rx_time) buf s
      else Inr (s, buf))"

definition RecvFinishedCallback :: "std_sort \<Rightarrow> COrderServer \<Rightarrow> COrderServer" where
  "RecvFinishedCallback srt s = s\<lparr>m_fifoSequencer := SequenceAndPublish srt (m_fifoSequencer s)\<rparr>"

text \<open>The body of the loop of \<open>Run\<close> over the outgoing responses.\<close>

definition os_response :: "SMEClientResponse \<Rightarrow> COrderServer \<Rightarrow> COrderServer outcome" where
  "os_response r s =
     (let cid = resp_clientId r
      in bindE (raw_at ME_MAX_NUM_CLIENTS (m_cidNextOutgoingSeqNum s) cid) (\<lambda>next_outgoing_seq_num.
         bindE (ASSERT (m_cidTcpSocket s cid \<noteq> None) (''Dont have a CTCPSocket for ClientId:'' @ to_string_nat (unat cid))) (\<lambda>_.
         let k = the (m_cidTcpSocket s cid)
         in Inr (s\<lparr>os_out := (os_out s)(k := os_out s k @ put_word 8 next_outgoing_seq_num @ put_SMEClientResponse r),
                   m_cidNextOutgoingSeqNum := (m_cidNextOutgoingSeqNum s)(cid := next_outgoing_seq_num + 1)\<rparr>))))"

text \<open>One round of \<open>Run\<close> after the sockets have been served.\<close>

definition os_Run :: "COrderServer \<Rightarrow> COrderServer outcome" where
  "os_Run s =
     bindE (drain (Suc (m_numElements (m_pOutgoingResponses s))) front UpdateReadIndex os_response (m_pOutgoingResponses s) s) (\<lambda>(q, s').
     Inr (s'\<lparr>m_pOutgoingResponses := q\<rparr>))"

section \<open>The sequencer's contract\<close>

text \<open>What \<open>std::sort\<close> promises, and what \<open>std::stable_sort\<close> would promise in addition.\<close>

definition sorts :: "std_sort \<Rightarrow> bool" where
  "sorts srt \<longleftrightarrow> (\<forall>xs. mset (srt xs) = mset xs \<and> sorted_wrt (\<lambda>a b. \<not> recv_before b a) (srt xs))"

definition stable :: "std_sort \<Rightarrow> bool" where
  "stable srt \<longleftrightarrow> (\<forall>xs t. filter (\<lambda>r. recvTime r = t) (srt xs) = filter (\<lambda>r. recvTime r = t) xs)"

lemma sorts_length: "sorts srt \<Longrightarrow> length (srt xs) = length xs"
  unfolding sorts_def by (metis size_mset)

lemma sorts_set: "sorts srt \<Longrightarrow> set (srt xs) = set xs"
  unfolding sorts_def by (metis set_mset_mset)

lemma key_sort_sorts: "sorts (sort_key (\<lambda>r. sint (recvTime r)))"
proof -
  let ?k = "\<lambda>r. sint (recvTime r)"
  have "sorted_wrt (\<lambda>a b. \<not> recv_before b a) (sort_key ?k xs)" for xs
    using sorted_sort_key [of ?k xs] by (simp only: sorted_map recv_before_def not_less)
  then show ?thesis by (simp add: sorts_def)
qed

lemma key_sort_stable: "stable (sort_key (\<lambda>r. sint (recvTime r)))"
proof -
  have sint_eq: "sint x = sint t \<longleftrightarrow> x = t" for x t :: Nanos
    using signed_word_eqI [of x t] by blast
  have "filter (\<lambda>r. recvTime r = t) (sort_key (\<lambda>r. sint (recvTime r)) xs) = filter (\<lambda>r. recvTime r = t) xs" for xs :: "SRecvTimeClientRequest list" and t
    using sort_key_stable [of "\<lambda>r. sint (recvTime r)" "sint t" xs] by (simp only: sint_eq)
  then show ?thesis by (simp add: stable_def)
qed

lemma pending_add: "m_pendingSize f < ME_MAX_PENDING_REQUESTS \<Longrightarrow>
  \<exists>f'. AddClientRequest t r f = Inr f' \<and> pending f' = pending f @ [\<lparr>recvTime = t, rt_request = r\<rparr>]
    \<and> m_pendingSize f' = m_pendingSize f + 1 \<and> fifo_pIncomingRequests f' = fifo_pIncomingRequests f"
  by (auto simp: AddClientRequest_def pending_def)

lemma length_pending [simp]: "length (pending f) = m_pendingSize f"
  by (simp add: pending_def)

lemma pending_empty_iff: "pending f = [] \<longleftrightarrow> m_pendingSize f = 0"
  by (simp add: pending_def)

lemma SequenceAndPublish_spec:
  assumes s: "sorts srt" and q: "queue_ok (fifo_pIncomingRequests f)"
    and room: "length (contents (fifo_pIncomingRequests f)) + m_pendingSize f \<le> q_size (fifo_pIncomingRequests f)"
  shows "queue_ok (fifo_pIncomingRequests (SequenceAndPublish srt f))
    \<and> contents (fifo_pIncomingRequests (SequenceAndPublish srt f)) = contents (fifo_pIncomingRequests f) @ map rt_request (srt (pending f))
    \<and> q_size (fifo_pIncomingRequests (SequenceAndPublish srt f)) = q_size (fifo_pIncomingRequests f)
    \<and> pending (SequenceAndPublish srt f) = []"
proof (cases "m_pendingSize f = 0")
  case True
  then have "srt (pending f) = []" using sorts_length [OF s, of "pending f"] by simp
  then show ?thesis using True q by (simp add: SequenceAndPublish_def pending_empty_iff)
next
  case False
  let ?m = "store_list (srt (pending f)) (m_pendingClientRequests f)"
  have len: "length (srt (pending f)) = m_pendingSize f" using sorts_length [OF s] by simp
  have "map (\<lambda>i. rt_request (?m i)) [0..<m_pendingSize f] = map rt_request (srt (pending f))"
    by (rule nth_equalityI) (simp_all add: len store_list_def)
  moreover have "fold (\<lambda>i. enqueue (rt_request (?m i))) is q = fold enqueue (map (\<lambda>i. rt_request (?m i)) is) q" for "is" q
    by (simp add: fold_map comp_def)
  ultimately have "fold (\<lambda>i. enqueue (rt_request (?m i))) [0..<m_pendingSize f] (fifo_pIncomingRequests f)
      = fold enqueue (map rt_request (srt (pending f))) (fifo_pIncomingRequests f)" by simp
  then show ?thesis using False lfq.enq_all [OF q, of "map rt_request (srt (pending f))"] room len
    by (simp add: SequenceAndPublish_def Let_def pending_empty_iff del: length_contents)
qed

text \<open>Requests that arrived at one time keep their order in a stable sort.\<close>

lemma stable_one_time:
  assumes "sorts srt" and "stable srt" and "\<forall>r\<in>set xs. recvTime r = t"
  shows "srt xs = xs"
proof -
  have "filter (\<lambda>r. recvTime r = t) (srt xs) = srt xs" "filter (\<lambda>r. recvTime r = t) xs = xs"
    using assms(3) sorts_set [OF assms(1), of xs] by (simp_all add: filter_id_conv)
  then show ?thesis using assms(2) by (simp add: stable_def)
qed

end
