(* ===== verification/OrderGateway.thy ===== *)
theory OrderGateway
  imports OrderServer
begin

text \<open>
  \<open>trading/order_gw/OrderGateway.h\<close> and \<open>.cpp\<close>: the client's end of the TCP connection.  It numbers the
  requests of the trade engine and sends them, and it checks the client id and the sequence number of the
  responses and hands them to the trade engine.
\<close>

section \<open>The gateway\<close>

record COrderGateway =
  og_clientId :: ClientId
  m_pOutgoingRequests :: "SMEClientRequest CLockFreeQueue"
  m_pIncomingResponses :: "SMEClientResponse CLockFreeQueue"
  m_nextOutgoingSeqNum :: "64 word"
  m_nextExpSeqNum :: "64 word"
  m_tcpSocket :: CTCPSocket

definition COrderGateway_new :: "ClientId \<Rightarrow> SMEClientRequest CLockFreeQueue \<Rightarrow> SMEClientResponse CLockFreeQueue \<Rightarrow> COrderGateway" where
  "COrderGateway_new clientId pClientRequests pClientResponses =
     \<lparr>og_clientId = clientId, m_pOutgoingRequests = pClientRequests, m_pIncomingResponses = pClientResponses,
      m_nextOutgoingSeqNum = 1, m_nextExpSeqNum = 1, m_tcpSocket = CTCPSocket_new (- 1)\<rparr>"

text \<open>The body of the loop over the outgoing requests.\<close>

definition og_request :: "SMEClientRequest \<Rightarrow> COrderGateway \<Rightarrow> COrderGateway outcome" where
  "og_request clientRequest g =
     bindE (tcp_Send (put_word 8 (m_nextOutgoingSeqNum g)) (m_tcpSocket g)) (\<lambda>s1.
     bindE (tcp_Send (put_SMEClientRequest clientRequest) s1) (\<lambda>s2.
     Inr (g\<lparr>m_tcpSocket := s2, m_nextOutgoingSeqNum := m_nextOutgoingSeqNum g + 1\<rparr>)))"

text \<open>The body of the loop of \<open>RecvCallback\<close>.\<close>

definition og_response :: "SOMClientResponse \<Rightarrow> COrderGateway \<Rightarrow> COrderGateway outcome" where
  "og_response response g =
     (if resp_clientId (somr_meClientResponse response) \<noteq> og_clientId g then Inr g
      else if somr_seqNum response \<noteq> m_nextExpSeqNum g then Inr g
      else Inr (g\<lparr>m_nextExpSeqNum := m_nextExpSeqNum g + 1,
                  m_pIncomingResponses := enqueue (somr_meClientResponse response) (m_pIncomingResponses g)\<rparr>))"

definition og_RecvCallback :: "Nanos \<Rightarrow> byte list \<Rightarrow> COrderGateway \<Rightarrow> (COrderGateway \<times> byte list) outcome" where
  "og_RecvCallback rx_time buf g =
     (if length buf \<ge> sizeof_SOMClientResponse
      then for_messages get_SOMClientResponse sizeof_SOMClientResponse og_response buf g
      else Inr (g, buf))"

text \<open>One round of \<open>Run\<close>; the first three arguments are what the system calls deliver.\<close>

definition og_Run :: "byte list \<Rightarrow> Nanos option \<Rightarrow> (byte list \<Rightarrow> send_result) \<Rightarrow> COrderGateway \<Rightarrow> COrderGateway outcome" where
  "og_Run received kernel_time send g =
     bindE (tcp_SendAndRecv received kernel_time send og_RecvCallback (m_tcpSocket g) g) (\<lambda>(_, s, g1).
     let g2 = g1\<lparr>m_tcpSocket := s\<rparr>
     in bindE (drain (Suc (m_numElements (m_pOutgoingRequests g2))) front UpdateReadIndex og_request (m_pOutgoingRequests g2) g2) (\<lambda>(q, g3).
        Inr (g3\<lparr>m_pOutgoingRequests := q\<rparr>)))"

section \<open>Requests, from the trade engine to the matching engine\<close>

abbreviation som :: "64 word \<Rightarrow> SMEClientRequest \<Rightarrow> SOMClientRequest" where
  "som k r \<equiv> \<lparr>som_seqNum = k, som_meClientRequest = r\<rparr>"

abbreviation somr :: "64 word \<Rightarrow> SMEClientResponse \<Rightarrow> SOMClientResponse" where
  "somr k r \<equiv> \<lparr>somr_seqNum = k, somr_meClientResponse = r\<rparr>"

lemma som_bytes: "put_word 8 k @ put_SMEClientRequest r = put_SOMClientRequest (som k r)"
  by (simp add: put_SOMClientRequest_def)

lemma somr_bytes: "put_word 8 k @ put_SMEClientResponse r = put_SOMClientResponse (somr k r)"
  by (simp add: put_SOMClientResponse_def)

lemma length_put_request [simp]: "length (put_SMEClientRequest r) = sizeof_SMEClientRequest"
  by (simp add: put_SMEClientRequest_def sizeof_SMEClientRequest_def)

lemma og_requests:
  "length (m_pSendBuffer (m_tcpSocket g)) + length rs * sizeof_SOMClientRequest \<le> TCPBufferSize \<Longrightarrow>
    \<exists>g'. foldE og_request rs g = Inr g'
      \<and> m_pSendBuffer (m_tcpSocket g') = m_pSendBuffer (m_tcpSocket g)
          @ concat (map put_SOMClientRequest (numbered som (m_nextOutgoingSeqNum g) rs))
      \<and> m_nextOutgoingSeqNum g' = m_nextOutgoingSeqNum g + of_nat (length rs)
      \<and> g' = g\<lparr>m_tcpSocket := m_tcpSocket g', m_nextOutgoingSeqNum := m_nextOutgoingSeqNum g'\<rparr>"
proof (induction rs arbitrary: g)
  case Nil
  then show ?case by simp
next
  case (Cons r rs)
  define g1 where "g1 = g\<lparr>m_tcpSocket := (m_tcpSocket g)\<lparr>m_pSendBuffer := m_pSendBuffer (m_tcpSocket g)
      @ put_SOMClientRequest (som (m_nextOutgoingSeqNum g) r)\<rparr>, m_nextOutgoingSeqNum := m_nextOutgoingSeqNum g + 1\<rparr>"
  have "og_request r g = Inr g1"
    using Cons.prems by (simp add: og_request_def tcp_Send_ok sizeof_defs g1_def put_SOMClientRequest_def)
  moreover have "length (m_pSendBuffer (m_tcpSocket g1)) + length rs * sizeof_SOMClientRequest \<le> TCPBufferSize"
    using Cons.prems by (simp add: g1_def requests.put_size)
  from Cons.IH [OF this] obtain g' where "foldE og_request rs g1 = Inr g'"
    "m_pSendBuffer (m_tcpSocket g') = m_pSendBuffer (m_tcpSocket g1) @ concat (map put_SOMClientRequest (numbered som (m_nextOutgoingSeqNum g1) rs))"
    "m_nextOutgoingSeqNum g' = m_nextOutgoingSeqNum g1 + of_nat (length rs)"
    "g' = g1\<lparr>m_tcpSocket := m_tcpSocket g', m_nextOutgoingSeqNum := m_nextOutgoingSeqNum g'\<rparr>" by blast
  ultimately show ?case by (simp add: g1_def add.assoc)
qed

lemma os_request_accepts:
  assumes "unat (req_clientId r) < ME_MAX_NUM_CLIENTS" and "m_cidTcpSocket s (req_clientId r) \<in> {None, Some k}"
    and "m_cidNextExpSeqNum s (req_clientId r) = n" and "m_pendingSize (m_fifoSequencer s) < ME_MAX_PENDING_REQUESTS"
  shows "\<exists>f. AddClientRequest t r (m_fifoSequencer s) = Inr f
    \<and> os_request k t (som n r) s = Inr (s\<lparr>m_cidTcpSocket := (m_cidTcpSocket s)(req_clientId r := Some k),
          m_cidNextExpSeqNum := (m_cidNextExpSeqNum s)(req_clientId r := n + 1), m_fifoSequencer := f\<rparr>)"
  using assms pending_add [of "m_fifoSequencer s" t r] by (fastforce simp: os_request_def Let_def fun_upd_idem)

lemma os_requests:
  "\<forall>r\<in>set rs. req_clientId r = c \<Longrightarrow> unat c < ME_MAX_NUM_CLIENTS \<Longrightarrow> m_cidTcpSocket s c \<in> {None, Some k} \<Longrightarrow>
    m_pendingSize (m_fifoSequencer s) + length rs \<le> ME_MAX_PENDING_REQUESTS \<Longrightarrow>
    \<exists>s'. foldE (os_request k t) (numbered som (m_cidNextExpSeqNum s c) rs) s = Inr s'
      \<and> m_cidTcpSocket s' c \<in> {None, Some k} \<and> m_cidNextExpSeqNum s' c = m_cidNextExpSeqNum s c + of_nat (length rs)
      \<and> pending (m_fifoSequencer s') = pending (m_fifoSequencer s) @ map (\<lambda>r. \<lparr>recvTime = t, rt_request = r\<rparr>) rs
      \<and> fifo_pIncomingRequests (m_fifoSequencer s') = fifo_pIncomingRequests (m_fifoSequencer s)"
proof (induction rs arbitrary: s)
  case Nil
  then show ?case by simp
next
  case (Cons r rs)
  have c: "req_clientId r = c" using Cons.prems(1) by simp
  have lt: "m_pendingSize (m_fifoSequencer s) < ME_MAX_PENDING_REQUESTS" using Cons.prems(4) by simp
  obtain f where f: "AddClientRequest t r (m_fifoSequencer s) = Inr f"
    "os_request k t (som (m_cidNextExpSeqNum s c) r) s = Inr (s\<lparr>m_cidTcpSocket := (m_cidTcpSocket s)(c := Some k),
          m_cidNextExpSeqNum := (m_cidNextExpSeqNum s)(c := m_cidNextExpSeqNum s c + 1), m_fifoSequencer := f\<rparr>)"
    using os_request_accepts [of r s k "m_cidNextExpSeqNum s c" t] Cons.prems(2,3) lt unfolding c by auto
  have p: "pending f = pending (m_fifoSequencer s) @ [\<lparr>recvTime = t, rt_request = r\<rparr>]" "m_pendingSize f = m_pendingSize (m_fifoSequencer s) + 1"
    "fifo_pIncomingRequests f = fifo_pIncomingRequests (m_fifoSequencer s)"
    using pending_add [OF lt, of t r] f(1) by auto
  define s1 where "s1 = s\<lparr>m_cidTcpSocket := (m_cidTcpSocket s)(c := Some k),
          m_cidNextExpSeqNum := (m_cidNextExpSeqNum s)(c := m_cidNextExpSeqNum s c + 1), m_fifoSequencer := f\<rparr>"
  have s1: "m_cidTcpSocket s1 c \<in> {None, Some k}" "m_cidNextExpSeqNum s1 c = m_cidNextExpSeqNum s c + 1" "m_fifoSequencer s1 = f"
    by (simp_all add: s1_def)
  have "m_pendingSize (m_fifoSequencer s1) + length rs \<le> ME_MAX_PENDING_REQUESTS" using Cons.prems(4) p(2) s1(3) by simp
  from Cons.IH [OF _ Cons.prems(2) s1(1) this] Cons.prems(1) show ?case
    using f(2) s1 p by (auto simp: s1_def [symmetric] add.assoc)
qed

text \<open>The test before the loop of the callbacks is the loop's own.\<close>

lemma recv_callback_loop:
  "os_RecvCallback k t buf s = for_messages get_SOMClientRequest sizeof_SOMClientRequest (os_request k t) buf s"
  by (simp add: os_RecvCallback_def requests.for_messages_short)

lemma og_callback_loop:
  "og_RecvCallback t buf g = for_messages get_SOMClientResponse sizeof_SOMClientResponse og_response buf g"
  by (simp add: og_RecvCallback_def responses.for_messages_short)

text \<open>
  The reads of one client's socket, whatever the sizes of the pieces, each with its receive time and
  each followed by \<open>RecvFinishedCallback\<close>.
\<close>

definition os_reads :: "std_sort \<Rightarrow> nat \<Rightarrow> (Nanos \<times> byte list) list \<Rightarrow> COrderServer \<times> byte list \<Rightarrow> (COrderServer \<times> byte list) outcome" where
  "os_reads srt k = foldE (\<lambda>(t, c) (s, buf).
     bindE (os_RecvCallback k t (buf @ c) s) (\<lambda>(s', buf'). Inr (RecvFinishedCallback srt s', buf')))"

lemma os_reads_pieces:
  "os_reads srt k cs sb = foldE (recv_piece get_SOMClientRequest sizeof_SOMClientRequest (os_request k) (\<lambda>s. Inr (RecvFinishedCallback srt s))) cs sb"
proof -
  have "(\<lambda>(t, c) (s, buf). bindE (os_RecvCallback k t (buf @ c) s) (\<lambda>(s', buf'). Inr (RecvFinishedCallback srt s', buf')))
      = recv_piece get_SOMClientRequest sizeof_SOMClientRequest (os_request k) (\<lambda>s. Inr (RecvFinishedCallback srt s))"
    by (intro ext) (simp add: recv_piece_def recv_callback_loop split_beta)
  then show ?thesis by (simp add: os_reads_def)
qed

lemma requests_path:
  assumes srt: "sorts srt" "stable srt" and rs: "\<forall>r\<in>set rs. req_clientId r = c" "unat c < ME_MAX_NUM_CLIENTS" "length rs \<le> ME_MAX_PENDING_REQUESTS"
    and s: "m_cidTcpSocket s c \<in> {None, Some k}" "m_cidNextExpSeqNum s c = n" "m_pendingSize (m_fifoSequencer s) = 0"
    and q: "queue_ok (fifo_pIncomingRequests (m_fifoSequencer s))" "contents (fifo_pIncomingRequests (m_fifoSequencer s)) = rs0"
      "length rs0 + length rs \<le> q_size (fifo_pIncomingRequests (m_fifoSequencer s))"
    and bytes: "concat (map snd cs) = concat (map put_SOMClientRequest (numbered som n rs))"
  shows "\<exists>s'. os_reads srt k cs (s, []) = Inr (s', []) \<and> contents (fifo_pIncomingRequests (m_fifoSequencer s')) = rs0 @ rs
    \<and> m_cidNextExpSeqNum s' c = n + of_nat (length rs)"
proof -
  let ?q = "\<lambda>s :: COrderServer. fifo_pIncomingRequests (m_fifoSequencer s)"
  define I where "I don s' \<longleftrightarrow> (\<exists>rs1 rs2. rs = rs1 @ rs2 \<and> don = numbered som n rs1 \<and> m_cidTcpSocket s' c \<in> {None, Some k}
      \<and> m_cidNextExpSeqNum s' c = n + of_nat (length rs1) \<and> pending (m_fifoSequencer s') = []
      \<and> queue_ok (?q s') \<and> contents (?q s') = rs0 @ rs1 \<and> q_size (?q s') = q_size (?q s))" for don and s' :: COrderServer
  have step: "\<exists>s1 s2. foldE (os_request k t) ms s0 = Inr s1 \<and> Inr (RecvFinishedCallback srt s1) = Inr s2 \<and> I (don @ ms) s2"
    if all: "numbered som n rs = don @ ms @ rest" and I: "I don s0" for don ms rest t s0
  proof -
    obtain rs1 rs2 where r: "rs = rs1 @ rs2" "don = numbered som n rs1" "m_cidTcpSocket s0 c \<in> {None, Some k}"
      "m_cidNextExpSeqNum s0 c = n + of_nat (length rs1)" "pending (m_fifoSequencer s0) = []"
      "queue_ok (?q s0)" "contents (?q s0) = rs0 @ rs1" "q_size (?q s0) = q_size (?q s)" using I unfolding I_def by blast
    have "numbered som (n + of_nat (length rs1)) rs2 = ms @ rest" using all unfolding r(1,2) by (simp add: numbered_append)
    then obtain rs3 rs4 where r3: "rs2 = rs3 @ rs4" "ms = numbered som (n + of_nat (length rs1)) rs3" using numbered_split by blast
    have z: "m_pendingSize (m_fifoSequencer s0) = 0" using r(5) by (simp add: pending_empty_iff)
    have c3: "\<forall>r\<in>set rs3. req_clientId r = c" using rs(1) r(1) r3(1) by simp
    have l3: "m_pendingSize (m_fifoSequencer s0) + length rs3 \<le> ME_MAX_PENDING_REQUESTS" using rs(3) r(1) r3(1) z by simp
    obtain s1 where s1: "foldE (os_request k t) ms s0 = Inr s1" "m_cidTcpSocket s1 c \<in> {None, Some k}"
      "m_cidNextExpSeqNum s1 c = n + of_nat (length rs1) + of_nat (length rs3)"
      "pending (m_fifoSequencer s1) = map (\<lambda>r. \<lparr>recvTime = t, rt_request = r\<rparr>) rs3" "?q s1 = ?q s0"
      using os_requests [OF c3 rs(2) r(3) l3, of t] r(4,5) unfolding r3(2) by auto
    have "m_pendingSize (m_fifoSequencer s1) = length rs3" using arg_cong [OF s1(4), of length] by simp
    then have room: "length (contents (?q s1)) + m_pendingSize (m_fifoSequencer s1) \<le> q_size (?q s1)"
      using q(3) r(1,7,8) r3(1) unfolding s1(5) by (simp del: length_contents)
    have same: "srt (map (\<lambda>r. \<lparr>recvTime = t, rt_request = r\<rparr>) rs3) = map (\<lambda>r. \<lparr>recvTime = t, rt_request = r\<rparr>) rs3"
      by (rule stable_one_time [OF srt, of _ t]) simp
    have ok1: "queue_ok (?q s1)" using r(6) s1(5) by simp
    note P = SequenceAndPublish_spec [OF srt(1) ok1 room, unfolded s1(4,5) same]
    have "I (don @ ms) (RecvFinishedCallback srt s1)"
      unfolding I_def RecvFinishedCallback_def
      by (rule exI [of _ "rs1 @ rs3"], rule exI [of _ rs4])
        (use P r s1(2,3) r3 in \<open>simp add: numbered_append comp_def add.assoc\<close>)
    then show ?thesis using s1(1) by blast
  qed
  have "I [] s" unfolding I_def
    by (rule exI [of _ "[]"], rule exI [of _ rs]) (use s q in \<open>simp add: pending_empty_iff\<close>)
  have "\<exists>s'. foldE (recv_piece get_SOMClientRequest sizeof_SOMClientRequest (os_request k) (\<lambda>s. Inr (RecvFinishedCallback srt s))) cs (s, []) = Inr (s', [])
      \<and> I (numbered som n rs) s'"
  proof (rule requests.pieces_law [where I = I and don = "[]" and todo = "numbered som n rs"])
    show "\<exists>s1 s2. foldE (os_request k t) ms s0 = Inr s1 \<and> Inr (RecvFinishedCallback srt s1) = Inr s2 \<and> I (don @ ms) s2"
      if "numbered som n rs = don @ ms @ rest" "I don s0" for don ms rest t s0 by (rule step [OF that])
  qed (use \<open>I [] s\<close> bytes in \<open>simp_all add: requests.size_pos\<close>)
  then obtain s' where s': "os_reads srt k cs (s, []) = Inr (s', [])" "I (numbered som n rs) s'"
    by (auto simp: os_reads_pieces)
  obtain rs1 rs2 where r: "rs = rs1 @ rs2" "numbered som n rs = numbered som n rs1" "m_cidNextExpSeqNum s' c = n + of_nat (length rs1)"
    "contents (?q s') = rs0 @ rs1" using s'(2) unfolding I_def by blast
  have "rs2 = []" using arg_cong [OF r(2), of length] r(1) by simp
  then show ?thesis using s'(1) r by auto
qed

section \<open>Responses, from the matching engine to the trade engine\<close>

definition client_socket :: "COrderServer \<Rightarrow> ClientId \<Rightarrow> nat \<Rightarrow> bool" where
  "client_socket s c k \<longleftrightarrow> (\<forall>c'. unat c' < ME_MAX_NUM_CLIENTS \<longrightarrow> m_cidTcpSocket s c' = Some k \<longleftrightarrow> c' = c)"

lemma os_responses:
  "\<forall>r\<in>set rs. unat (resp_clientId r) < ME_MAX_NUM_CLIENTS \<and> m_cidTcpSocket s (resp_clientId r) \<noteq> None \<Longrightarrow>
    client_socket s c k \<Longrightarrow> unat c < ME_MAX_NUM_CLIENTS \<Longrightarrow>
    \<exists>s'. foldE os_response rs s = Inr s' \<and> m_cidTcpSocket s' = m_cidTcpSocket s
      \<and> os_out s' k = os_out s k @ concat (map put_SOMClientResponse
          (numbered somr (m_cidNextOutgoingSeqNum s c) (filter (\<lambda>r. resp_clientId r = c) rs)))
      \<and> m_cidNextOutgoingSeqNum s' c = m_cidNextOutgoingSeqNum s c + of_nat (length (filter (\<lambda>r. resp_clientId r = c) rs))"
proof (induction rs arbitrary: s)
  case Nil
  then show ?case by simp
next
  case (Cons r rs)
  obtain j where j: "m_cidTcpSocket s (resp_clientId r) = Some j" using Cons.prems(1) by auto
  define s1 where "s1 = s\<lparr>os_out := (os_out s)(j := os_out s j @ put_SOMClientResponse (somr (m_cidNextOutgoingSeqNum s (resp_clientId r)) r)),
      m_cidNextOutgoingSeqNum := (m_cidNextOutgoingSeqNum s)(resp_clientId r := m_cidNextOutgoingSeqNum s (resp_clientId r) + 1)\<rparr>"
  have run: "os_response r s = Inr s1" using Cons.prems(1) j by (simp add: os_response_def Let_def s1_def somr_bytes)
  have jk: "j = k \<longleftrightarrow> resp_clientId r = c" using Cons.prems(1,2) j by (auto simp: client_socket_def)
  have "client_socket s1 c k" "\<forall>r\<in>set rs. unat (resp_clientId r) < ME_MAX_NUM_CLIENTS \<and> m_cidTcpSocket s1 (resp_clientId r) \<noteq> None"
    using Cons.prems(1,2) by (simp_all add: client_socket_def s1_def)
  from Cons.IH [OF this(2,1) Cons.prems(3)] show ?case
    using run jk by (cases "resp_clientId r = c") (auto simp: s1_def add.assoc)
qed

lemma og_responses:
  "\<forall>r\<in>set rs. resp_clientId r = og_clientId g \<Longrightarrow> queue_ok (m_pIncomingResponses g) \<Longrightarrow>
    length (contents (m_pIncomingResponses g)) + length rs \<le> q_size (m_pIncomingResponses g) \<Longrightarrow>
    \<exists>g'. foldE og_response (numbered somr (m_nextExpSeqNum g) rs) g = Inr g'
      \<and> og_clientId g' = og_clientId g \<and> m_nextExpSeqNum g' = m_nextExpSeqNum g + of_nat (length rs)
      \<and> queue_ok (m_pIncomingResponses g') \<and> contents (m_pIncomingResponses g') = contents (m_pIncomingResponses g) @ rs
      \<and> q_size (m_pIncomingResponses g') = q_size (m_pIncomingResponses g)"
proof (induction rs arbitrary: g)
  case Nil
  then show ?case by simp
next
  case (Cons r rs)
  define g1 where "g1 = g\<lparr>m_nextExpSeqNum := m_nextExpSeqNum g + 1, m_pIncomingResponses := enqueue r (m_pIncomingResponses g)\<rparr>"
  have run: "og_response (somr (m_nextExpSeqNum g) r) g = Inr g1" using Cons.prems(1) by (simp add: og_response_def g1_def)
  have q: "queue_ok (m_pIncomingResponses g1)" "contents (m_pIncomingResponses g1) = contents (m_pIncomingResponses g) @ [r]"
    "q_size (m_pIncomingResponses g1) = q_size (m_pIncomingResponses g)"
    using lfq.enq_law [OF Cons.prems(2), of r] Cons.prems(3) by (simp_all add: g1_def)
  have "length (contents (m_pIncomingResponses g1)) + length rs \<le> q_size (m_pIncomingResponses g1)"
    using Cons.prems(3) q by (simp del: length_contents)
  from Cons.IH [OF _ q(1) this] Cons.prems(1) show ?case using run q by (auto simp: g1_def add.assoc)
qed

lemma og_ignores: "\<forall>m\<in>set ms. somr_seqNum m \<noteq> m_nextExpSeqNum g \<Longrightarrow> foldE og_response ms g = Inr g"
  by (induction ms) (simp_all add: og_response_def)

lemma numbered_later:
  "0 < unat d \<Longrightarrow> unat d + length xs \<le> 2 ^ 64 \<Longrightarrow> m \<in> set (numbered somr (n + d) xs) \<Longrightarrow> somr_seqNum m \<noteq> n"
proof (induction xs arbitrary: d)
  case (Cons x xs)
  show ?case
  proof (cases "m = somr (n + d) x")
    case True
    have "d \<noteq> 0" using Cons.prems(1) by auto
    then show ?thesis using True by simp
  next
    case False
    then have m: "m \<in> set (numbered somr (n + (d + 1)) xs)" using Cons.prems(3) by (simp add: add.assoc)
    then have "xs \<noteq> []" by auto
    then have "unat d + 1 < 2 ^ 64" using Cons.prems(2) by (cases xs) auto
    then have "unat (d + 1) = unat d + 1" by (simp add: unat_word_ariths)
    then show ?thesis using Cons.IH [of "d + 1"] Cons.prems(2) m by simp
  qed
qed simp

end
