(* ===== verification/OrderProperties.thy ===== *)
theory OrderProperties
  imports OrderGateway
begin

text \<open>
  The properties of the order path: requests from the trade engine through the gateway, the wire and
  the order server to the matching engine, and responses back.
\<close>

section \<open>Requests\<close>

definition ex_order :: "OrderId \<Rightarrow> SMEClientRequest" where
  "ex_order i = \<lparr>req_type = Req_NEW, req_clientId = 3, req_tickerId = 1, req_orderId = i, req_side = BUY, req_price = 100, req_qty = 5\<rparr>"

definition ex_queue :: "'a list \<Rightarrow> 'a \<Rightarrow> 'a CLockFreeQueue" where
  "ex_queue xs T = fold enqueue xs (CLockFreeQueue_new (Suc (length xs)) T)"




definition ex_gateway :: "SMEClientRequest list \<Rightarrow> COrderGateway" where
  "ex_gateway rs = COrderGateway_new 3 (ex_queue rs SMEClientRequest_default) (CLockFreeQueue_new 8 SMEClientResponse_default)"

definition ex_server :: COrderServer where
  "ex_server = COrderServer_new (CLockFreeQueue_new 8 SMEClientRequest_default) (CLockFreeQueue_new 8 SMEClientResponse_default)"


text \<open>A request that arrives on another socket than the client's first one, or with another sequence number than
  the next one, is dropped: it reaches neither the sequencer nor the counters, and no answer is sent.\<close>

theorem server_drops_unexpected:
  assumes "unat (req_clientId (som_meClientRequest m)) < ME_MAX_NUM_CLIENTS" and "m_cidTcpSocket s (req_clientId (som_meClientRequest m)) = Some k"
    and "k \<noteq> socket \<or> som_seqNum m \<noteq> m_cidNextExpSeqNum s (req_clientId (som_meClientRequest m))"
  shows "os_request socket t m s = Inr s"
  using assms by (auto simp: os_request_def Let_def)

theorem server_drops_unexpected_witness:
  "os_request 8 5 (som 1 (ex_order 1)) (ex_server\<lparr>m_cidTcpSocket := (\<lambda>_. Some 7)\<rparr>) = Inr (ex_server\<lparr>m_cidTcpSocket := (\<lambda>_. Some 7)\<rparr>)"
  by (rule server_drops_unexpected [of _ _ 7]) (simp_all add: ex_order_def bounds_defs)

section \<open>The sequencer\<close>

text \<open>\<open>SequenceAndPublish\<close> writes every pending request to the matching engine's queue once, in ascending order of
  the receive times, behind what the queue holds, and empties the pending list; the request after
  \<open>ME_MAX_PENDING_REQUESTS\<close> pending ones stops the process.\<close>

theorem sequencer_sorts_by_time:
  assumes "sorts srt" and "queue_ok (fifo_pIncomingRequests f)"
    and "length (contents (fifo_pIncomingRequests f)) + m_pendingSize f \<le> q_size (fifo_pIncomingRequests f)"
  shows "\<exists>rs. mset rs = mset (pending f) \<and> sorted_wrt (\<lambda>a b. sint (recvTime a) \<le> sint (recvTime b)) rs
    \<and> contents (fifo_pIncomingRequests (SequenceAndPublish srt f)) = contents (fifo_pIncomingRequests f) @ map rt_request rs
    \<and> pending (SequenceAndPublish srt f) = []
    \<and> (m_pendingSize f = ME_MAX_PENDING_REQUESTS \<longrightarrow> AddClientRequest t r f = Inl (FatalExit ''Too many pending requests''))"
proof -
  have "mset (srt (pending f)) = mset (pending f)" "sorted_wrt (\<lambda>a b. sint (recvTime a) \<le> sint (recvTime b)) (srt (pending f))"
    using assms(1) by (simp_all add: sorts_def recv_before_def not_less)
  moreover have "m_pendingSize f = ME_MAX_PENDING_REQUESTS \<longrightarrow> AddClientRequest t r f = Inl (FatalExit ''Too many pending requests'')"
    by (simp add: AddClientRequest_def FATAL_def)
  ultimately show ?thesis using SequenceAndPublish_spec [OF assms] by blast
qed

definition ex_pending :: "Nanos \<Rightarrow> Nanos \<Rightarrow> CFIFOSequencer" where
  "ex_pending t1 t2 = (CFIFOSequencer_new (CLockFreeQueue_new 8 SMEClientRequest_default))\<lparr>
     m_pendingClientRequests := (\<lambda>i. if i = 0 then \<lparr>recvTime = t1, rt_request = ex_order 1\<rparr> else \<lparr>recvTime = t2, rt_request = ex_order 2\<rparr>),
     m_pendingSize := 2\<rparr>"

lemma ex_pending_eq: "pending (ex_pending t1 t2) = [\<lparr>recvTime = t1, rt_request = ex_order 1\<rparr>, \<lparr>recvTime = t2, rt_request = ex_order 2\<rparr>]"
  by (simp add: pending_def ex_pending_def upt_rec)

lemma ex_pending_queue:
  "queue_ok (fifo_pIncomingRequests (ex_pending t1 t2))" "contents (fifo_pIncomingRequests (ex_pending t1 t2)) = []"
  "length (contents (fifo_pIncomingRequests (ex_pending t1 t2))) + m_pendingSize (ex_pending t1 t2) \<le> q_size (fifo_pIncomingRequests (ex_pending t1 t2))"
  using queue_ok_new [of 8 SMEClientRequest_default] by (simp_all add: ex_pending_def CFIFOSequencer_new_def del: length_contents)

theorem sequencer_sorts_by_time_witness:
  "\<exists>rs. mset rs = mset (pending (ex_pending 9 4)) \<and> sorted_wrt (\<lambda>a b. sint (recvTime a) \<le> sint (recvTime b)) rs
    \<and> contents (fifo_pIncomingRequests (SequenceAndPublish (sort_key (\<lambda>r. sint (recvTime r))) (ex_pending 9 4))) = map rt_request rs"
  using sequencer_sorts_by_time [OF key_sort_sorts ex_pending_queue(1,3), of 9 4] by (auto simp: ex_pending_queue(2))

text \<open>What \<open>std::sort\<close> promises does not fix the order of requests with one receive time, and all requests of one
  read carry the same time: a sort that keeps its contract hands the matching engine the second request of
  a client before the first.\<close>

theorem sequencer_may_swap:
  "\<exists>srt. sorts srt \<and> contents (fifo_pIncomingRequests (SequenceAndPublish srt (ex_pending t t))) = [ex_order 2, ex_order 1]"
proof -
  let ?k = "\<lambda>r :: SRecvTimeClientRequest. sint (recvTime r)"
  define srt where "srt xs = sort_key ?k (rev xs)" for xs
  have "sorts srt"
    using key_sort_sorts by (simp add: sorts_def srt_def)
  moreover have "srt (pending (ex_pending t t)) = rev (pending (ex_pending t t))"
    unfolding srt_def by (rule stable_one_time [OF key_sort_sorts key_sort_stable, of _ t]) (simp add: ex_pending_eq)
  ultimately show ?thesis
    using SequenceAndPublish_spec [of srt "ex_pending t t", OF _ ex_pending_queue(1,3)] ex_pending_queue(2)
    by (intro exI [of _ srt]) (simp add: ex_pending_eq)
qed

section \<open>Responses\<close>





definition ex_response :: "OrderId \<Rightarrow> SMEClientResponse" where
  "ex_response i = \<lparr>resp_type = ACCEPTED, resp_clientId = 3, resp_tickerId = 1, resp_clientOrderId = i, resp_marketOrderId = i,
     resp_side = BUY, resp_price = 100, resp_execQty = 0, resp_leavesQty = 5\<rparr>"



text \<open>C38: a send that would block loses data: the socket's buffer is emptied although nothing was handed to the
  kernel.  After one lost response the gateway ignores every later one, since no response carries the
  number it waits for, and the trade engine hears nothing any more.\<close>

theorem blocked_send_deafens_gateway:
  assumes "\<forall>data. send data = WouldBlock" and "Suc (length rs) < 2 ^ 64"
  shows "tcp_flush send sock = Inr (sock\<lparr>m_pSendBuffer := []\<rparr>)
    \<and> foldE og_response (numbered somr (m_nextExpSeqNum g + 1) rs) g = Inr g"
proof -
  have "m \<in> set (numbered somr (m_nextExpSeqNum g + 1) rs) \<Longrightarrow> somr_seqNum m \<noteq> m_nextExpSeqNum g" for m
    using numbered_later [of 1 rs m "m_nextExpSeqNum g"] assms(2) by simp
  then show ?thesis using og_ignores [of "numbered somr (m_nextExpSeqNum g + 1) rs" g] tcp_flush_blocked assms(1) by blast
qed

theorem blocked_send_deafens_gateway_witness:
  "tcp_flush (\<lambda>_. WouldBlock) ((CTCPSocket_new 4)\<lparr>m_pSendBuffer := [1, 2]\<rparr>) = Inr (CTCPSocket_new 4)
    \<and> foldE og_response (numbered somr 2 [ex_response 2, ex_response 3]) (ex_gateway []) = Inr (ex_gateway [])"
  using blocked_send_deafens_gateway [of "\<lambda>_. WouldBlock" "[ex_response 2, ex_response 3]" "(CTCPSocket_new 4)\<lparr>m_pSendBuffer := [1, 2]\<rparr>" "ex_gateway []"]
  by (simp add: ex_gateway_def COrderGateway_new_def CTCPSocket_new_def)

end
