(* ===== verification/TcpServer.thy ===== *)
theory TcpServer
  imports OrderServer
begin

text \<open>
  \<open>common/TcpServer.h\<close> and \<open>.cpp\<close>: the listening socket, the sockets accepted from it, and the two calls that
  the order server makes in every round: \<open>Poll\<close>, which looks for connections, and \<open>SendAndRecv\<close>, which
  serves the sockets.  A \<open>CTCPSocket*\<close> is a number, \<open>new\<close> takes the next one.  What \<open>epoll_wait\<close>, \<open>accept\<close>
  and the other system calls answer are parameters.
\<close>

section \<open>State\<close>

record CTCPServer =
  m_efd :: int
  m_listenerSocket :: nat
  m_sockets :: "nat list"
  m_receiveSockets :: "nat list"
  m_sendSockets :: "nat list"
  m_disconnectedSockets :: "nat list"
  tcp_sock :: "nat \<Rightarrow> CTCPSocket"
  epoll_list :: "nat list"  \<comment> \<open>the sockets registered with the kernel, all for input\<close>
  next_socket :: nat

definition CTCPServer_new :: CTCPServer where
  "CTCPServer_new = \<lparr>m_efd = - 1, m_listenerSocket = 0, m_sockets = [], m_receiveSockets = [], m_sendSockets = [],
     m_disconnectedSockets = [], tcp_sock = (\<lambda>_. CTCPSocket_new (- 1)), epoll_list = [], next_socket = 1\<rparr>"

definition set_sock :: "nat \<Rightarrow> (CTCPSocket \<Rightarrow> CTCPSocket) \<Rightarrow> CTCPServer \<Rightarrow> CTCPServer" where
  "set_sock k f srv = srv\<lparr>tcp_sock := (tcp_sock srv)(k := f (tcp_sock srv k))\<rparr>"

section \<open>Connections\<close>

text \<open>\<open>added\<close> and \<open>deleted\<close>: did \<open>epoll_ctl\<close> succeed?\<close>

definition EPollAdd :: "bool \<Rightarrow> nat \<Rightarrow> CTCPServer \<Rightarrow> bool \<times> CTCPServer" where
  "EPollAdd added k srv = (added, if added then srv\<lparr>epoll_list := epoll_list srv @ [k]\<rparr> else srv)"

definition EPollDel :: "bool \<Rightarrow> nat \<Rightarrow> CTCPServer \<Rightarrow> bool \<times> CTCPServer" where
  "EPollDel deleted k srv = (deleted, if deleted then srv\<lparr>epoll_list := removeAll k (epoll_list srv)\<rparr> else srv)"

text \<open>\<open>Destroy\<close> closes the epoll instance, which forgets its sockets, and the listener.\<close>

definition srv_Destroy :: "CTCPServer \<Rightarrow> CTCPServer" where
  "srv_Destroy srv = set_sock (m_listenerSocket srv) (\<lambda>s. s\<lparr>m_fd := - 1\<rparr>) (srv\<lparr>m_efd := - 1, epoll_list := []\<rparr>)"

definition srv_Listen :: "int \<Rightarrow> int \<Rightarrow> bool \<Rightarrow> string \<Rightarrow> string \<Rightarrow> int \<Rightarrow> CTCPServer \<Rightarrow> CTCPServer outcome" where
  "srv_Listen efd fd added err iface port srv0 =
     (let srv1 = (srv_Destroy srv0)\<lparr>m_efd := efd\<rparr>
      in bindE (ASSERT (m_efd srv1 \<ge> 0) (''epoll_create() failed error:'' @ err)) (\<lambda>_.
         let srv2 = set_sock (m_listenerSocket srv1) (\<lambda>s. s\<lparr>m_fd := fd\<rparr>) srv1
         in bindE (ASSERT (fd \<ge> 0) (''Listener socket failed to connect. iface:'' @ iface @ '' port:'' @ to_string_int port @ '' error:'' @ err)) (\<lambda>_.
            let (ok, srv3) = EPollAdd added (m_listenerSocket srv2) srv2
            in bindE (ASSERT ok (''epoll_ctl() failed. error:'' @ err)) (\<lambda>_. Inr srv3))))"

definition srv_Del :: "bool \<Rightarrow> nat \<Rightarrow> CTCPServer \<Rightarrow> CTCPServer" where
  "srv_Del deleted k srv0 =
     (let srv = snd (EPollDel deleted k srv0)
      in srv\<lparr>m_sockets := removeAll k (m_sockets srv), m_receiveSockets := removeAll k (m_receiveSockets srv),
             m_sendSockets := removeAll k (m_sendSockets srv)\<rparr>)"

section \<open>Poll\<close>

datatype epoll_flag = EPOLLIN | EPOLLOUT | EPOLLERR | EPOLLHUP

type_synonym epoll_event = "nat \<times> epoll_flag list"

definition push_once :: "nat \<Rightarrow> nat list \<Rightarrow> nat list" where
  "push_once k ks = (if k \<in> set ks then ks else ks @ [k])"

text \<open>The body of the loop over the events; the flag is \<open>have_new_connection\<close>.\<close>

definition poll_event :: "epoll_event \<Rightarrow> CTCPServer \<times> bool \<Rightarrow> CTCPServer \<times> bool" where
  "poll_event = (\<lambda>(k, events) (srv, have_new_connection).
     if EPOLLIN \<in> set events \<and> k = m_listenerSocket srv then (srv, True)
     else let srv1 = (if EPOLLIN \<in> set events then srv\<lparr>m_receiveSockets := push_once k (m_receiveSockets srv)\<rparr> else srv);
              srv2 = (if EPOLLOUT \<in> set events then srv1\<lparr>m_sendSockets := push_once k (m_sendSockets srv1)\<rparr> else srv1);
              srv3 = (if EPOLLERR \<in> set events \<or> EPOLLHUP \<in> set events
                      then srv2\<lparr>m_receiveSockets := push_once k (m_receiveSockets srv2)\<rparr> else srv2)
          in (srv3, have_new_connection))"

text \<open>A successful \<open>accept\<close>: the descriptor, and whether the options and the registration succeed.\<close>

record accepted =
  acc_fd :: int
  acc_options :: bool
  acc_added :: bool

definition poll_accept :: "string \<Rightarrow> accepted \<Rightarrow> CTCPServer \<Rightarrow> CTCPServer outcome" where
  "poll_accept err a srv0 =
     bindE (ASSERT (acc_options a) (''Failed to set non-blocking or no-delay on pSocket:'' @ to_string_int (acc_fd a))) (\<lambda>_.
     let k = next_socket srv0;
         srv1 = set_sock k (\<lambda>_. CTCPSocket_new (acc_fd a)) (srv0\<lparr>next_socket := k + 1\<rparr>);
         (ok, srv2) = EPollAdd (acc_added a) k srv1
     in bindE (ASSERT ok (''Unable to add socket. error:'' @ err)) (\<lambda>_.
        Inr (srv2\<lparr>m_sockets := push_once k (m_sockets srv2), m_receiveSockets := push_once k (m_receiveSockets srv2)\<rparr>)))"

definition MAX_EVENTS :: nat where "MAX_EVENTS = 1024"

text \<open>
  One call of \<open>Poll\<close>: \<open>events\<close> is the answer of \<open>epoll_wait\<close>, written to an array of 1024 events, and
  \<open>accepts\<close> are the answers of \<open>accept\<close> before it fails.
\<close>

definition srv_Poll :: "bool \<Rightarrow> string \<Rightarrow> epoll_event list \<Rightarrow> accepted list \<Rightarrow> CTCPServer \<Rightarrow> CTCPServer outcome" where
  "srv_Poll deleted err events accepts srv0 =
     (let srv1 = fold (srv_Del deleted) (m_disconnectedSockets srv0) srv0
      in if length events > MAX_EVENTS then Inl OutOfBounds
         else let (srv2, have_new_connection) = fold poll_event events (srv1, False)
              in if have_new_connection then foldE (poll_accept err) accepts srv2 else Inr srv2)"

section \<open>Serving the sockets\<close>

record net_input =
  rx_bytes :: "byte list"
  rx_kernel_time :: "Nanos option"
  tx_result :: "byte list \<Rightarrow> send_result"

text \<open>\<open>cb k\<close> is \<open>m_recvCallback\<close> called with the socket \<open>k\<close>; it works on the state \<open>a\<close> of the server's owner.\<close>

definition serve_socket :: "(nat \<Rightarrow> net_input) \<Rightarrow> (nat \<Rightarrow> Nanos \<Rightarrow> byte list \<Rightarrow> 'a \<Rightarrow> ('a \<times> byte list) outcome) \<Rightarrow> nat
    \<Rightarrow> bool \<times> CTCPServer \<times> 'a \<Rightarrow> (bool \<times> CTCPServer \<times> 'a) outcome" where
  "serve_socket net cb k = (\<lambda>(recv, srv, a).
     bindE (tcp_SendAndRecv (rx_bytes (net k)) (rx_kernel_time (net k)) (tx_result (net k)) (cb k) (tcp_sock srv k) a) (\<lambda>(r, s, a').
     Inr (recv \<or> r, set_sock k (\<lambda>_. s) srv, a')))"

definition srv_SendAndRecv :: "(nat \<Rightarrow> net_input) \<Rightarrow> (nat \<Rightarrow> net_input) \<Rightarrow> (nat \<Rightarrow> Nanos \<Rightarrow> byte list \<Rightarrow> 'a \<Rightarrow> ('a \<times> byte list) outcome)
    \<Rightarrow> ('a \<Rightarrow> 'a) \<Rightarrow> CTCPServer \<times> 'a \<Rightarrow> (CTCPServer \<times> 'a) outcome" where
  "srv_SendAndRecv net net' cb finished = (\<lambda>(srv0, a0).
     bindE (foldE (serve_socket net cb) (m_receiveSockets srv0) (False, srv0, a0)) (\<lambda>(recv, srv1, a1).
     let a2 = (if recv then finished a1 else a1)
     in bindE (foldE (serve_socket net' cb) (m_sendSockets srv1) (False, srv1, a2)) (\<lambda>(_, srv2, a3). Inr (srv2, a3))))"

section \<open>The sockets that the server knows\<close>

definition server_ok :: "CTCPServer \<Rightarrow> bool" where
  "server_ok srv \<longleftrightarrow> distinct (m_sockets srv) \<and> distinct (m_receiveSockets srv) \<and> m_listenerSocket srv \<notin> set (m_sockets srv)
     \<and> set (m_sockets srv) \<subseteq> set (m_receiveSockets srv) \<and> set (m_receiveSockets srv) \<subseteq> insert (m_listenerSocket srv) (set (m_sockets srv))
     \<and> m_sendSockets srv = [] \<and> m_disconnectedSockets srv = []
     \<and> epoll_list srv = m_listenerSocket srv # m_sockets srv
     \<and> (\<forall>k\<in>set (epoll_list srv). k < next_socket srv)"

text \<open>
  What \<open>epoll\<close> promises: events only for registered sockets, and of the kinds asked for (input) besides
  errors and hang-ups, which are always reported; and no more than asked for.
\<close>

definition epoll_answers :: "CTCPServer \<Rightarrow> epoll_event list \<Rightarrow> bool" where
  "epoll_answers srv events \<longleftrightarrow> (\<forall>(k, fl)\<in>set events. k \<in> set (epoll_list srv) \<and> EPOLLOUT \<notin> set fl) \<and> length events \<le> 1 + length (m_sockets srv)"

lemma push_once_set [simp]: "set (push_once k ks) = insert k (set ks)" "distinct (push_once k ks) = distinct ks"
  by (auto simp: push_once_def)

lemma poll_event_ok:
  assumes "server_ok srv" and "k \<in> set (epoll_list srv)" and "EPOLLOUT \<notin> set fl" and "poll_event (k, fl) (srv, n) = (srv', n')"
  shows "server_ok srv' \<and> m_sockets srv' = m_sockets srv \<and> epoll_list srv' = epoll_list srv \<and> tcp_sock srv' = tcp_sock srv
    \<and> m_listenerSocket srv' = m_listenerSocket srv \<and> n' = (n \<or> (k = m_listenerSocket srv \<and> EPOLLIN \<in> set fl))"
  using assms by (auto simp: poll_event_def server_ok_def Let_def split: if_splits)

lemma poll_events_ok:
  assumes "server_ok srv" and "\<forall>(k, fl)\<in>set events. k \<in> set (epoll_list srv) \<and> EPOLLOUT \<notin> set fl"
    and "fold poll_event events (srv, n) = (srv', n')"
  shows "server_ok srv' \<and> m_sockets srv' = m_sockets srv \<and> epoll_list srv' = epoll_list srv \<and> tcp_sock srv' = tcp_sock srv
    \<and> n' = (n \<or> (\<exists>fl. (m_listenerSocket srv, fl) \<in> set events \<and> EPOLLIN \<in> set fl))"
  using assms
proof (induction events arbitrary: srv n)
  case (Cons e events)
  obtain k fl where e: "e = (k, fl)" by (cases e)
  obtain srv1 n1 where 1: "poll_event (k, fl) (srv, n) = (srv1, n1)" by fastforce
  note p = poll_event_ok [OF Cons.prems(1) _ _ 1]
  have "fold poll_event events (srv1, n1) = (srv', n')" using Cons.prems(3) e 1 by simp
  from Cons.IH [OF _ _ this] show ?case using p Cons.prems(2) e by auto
qed simp

lemma poll_accept_ok:
  assumes "server_ok srv" and "poll_accept err a srv = Inr srv'"
  shows "server_ok srv' \<and> m_sockets srv' = m_sockets srv @ [next_socket srv] \<and> m_fd (tcp_sock srv' (next_socket srv)) = acc_fd a
    \<and> (\<forall>k\<in>set (m_sockets srv). tcp_sock srv' k = tcp_sock srv k)"
  using assms
  by (auto simp: poll_accept_def server_ok_def EPollAdd_def set_sock_def CTCPSocket_new_def push_once_def bindE_eq_Inr ASSERT_eq_Inr Let_def less_Suc_eq
      split: if_splits)

lemma poll_accepts_ok:
  "server_ok srv \<Longrightarrow> foldE (poll_accept err) as srv = Inr srv' \<Longrightarrow>
    server_ok srv' \<and> (\<exists>ks. m_sockets srv' = m_sockets srv @ ks \<and> map (\<lambda>k. m_fd (tcp_sock srv' k)) ks = map acc_fd as
      \<and> (\<forall>k\<in>set (m_sockets srv). tcp_sock srv' k = tcp_sock srv k))"
proof (induction as arbitrary: srv)
  case (Cons a as)
  obtain srv1 where 1: "poll_accept err a srv = Inr srv1" "foldE (poll_accept err) as srv1 = Inr srv'"
    using Cons.prems(2) by (auto simp: bindE_eq_Inr)
  note p = poll_accept_ok [OF Cons.prems(1) 1(1)]
  obtain ks where ks: "server_ok srv'" "m_sockets srv' = m_sockets srv1 @ ks" "map (\<lambda>k. m_fd (tcp_sock srv' k)) ks = map acc_fd as"
    "\<forall>k\<in>set (m_sockets srv1). tcp_sock srv' k = tcp_sock srv1 k" using Cons.IH [OF _ 1(2)] p by blast
  have "m_sockets srv' = m_sockets srv @ (next_socket srv # ks)"
    "map (\<lambda>k. m_fd (tcp_sock srv' k)) (next_socket srv # ks) = map acc_fd (a # as)"
    "\<forall>k\<in>set (m_sockets srv). tcp_sock srv' k = tcp_sock srv k"
    using ks p by auto
  then show ?case using ks(1) by blast
qed simp

end
