(* ===== verification/ServerProperties.thy ===== *)
theory ServerProperties
  imports TcpServer OrderProperties
begin

text \<open>
  The TCP server: which sockets it knows after any sequence of polls, and a round of the order server
  over the sockets of several clients.
\<close>

section \<open>Polling\<close>

text \<open>The inputs of one poll: the events, and what \<open>accept\<close> returns.\<close>

type_synonym poll_input = "epoll_event list \<times> accepted list"

definition run_polls :: "bool \<Rightarrow> string \<Rightarrow> poll_input list \<Rightarrow> CTCPServer \<Rightarrow> CTCPServer outcome" where
  "run_polls deleted err = foldE (\<lambda>(events, accepts). srv_Poll deleted err events accepts)"

text \<open>The inputs of a run keep the promises of \<open>epoll\<close>, and fewer than 1024 sockets get connected.\<close>

fun polls_answered :: "bool \<Rightarrow> string \<Rightarrow> poll_input list \<Rightarrow> CTCPServer \<Rightarrow> bool" where
  "polls_answered deleted err [] srv = True"
| "polls_answered deleted err ((events, accepts) # ps) srv \<longleftrightarrow> epoll_answers srv events \<and> length (m_sockets srv) < MAX_EVENTS
     \<and> (\<forall>a\<in>set accepts. acc_options a \<and> acc_added a)
     \<and> (\<forall>srv'. srv_Poll deleted err events accepts srv = Inr srv' \<longrightarrow> polls_answered deleted err ps srv')"

text \<open>The connections that a run accepts: those of the polls that report the listener.\<close>

definition connections :: "nat \<Rightarrow> poll_input list \<Rightarrow> int list" where
  "connections l ps = concat (map (\<lambda>(events, accepts). if \<exists>fl. (l, fl) \<in> set events \<and> EPOLLIN \<in> set fl then map acc_fd accepts else []) ps)"

lemma poll_accepts_total:
  "\<forall>a\<in>set as. acc_options a \<and> acc_added a \<Longrightarrow> \<exists>srv'. foldE (poll_accept err) as srv = Inr srv' \<and> m_listenerSocket srv' = m_listenerSocket srv"
proof (induction as arbitrary: srv)
  case (Cons a as)
  obtain srv1 where "poll_accept err a srv = Inr srv1" "m_listenerSocket srv1 = m_listenerSocket srv"
    using Cons.prems by (auto simp: poll_accept_def EPollAdd_def set_sock_def Let_def)
  then show ?case using Cons.IH [of srv1] Cons.prems by auto
qed simp

lemma srv_Poll_ok:
  assumes "server_ok srv" and "epoll_answers srv events" and "length (m_sockets srv) < MAX_EVENTS" and "\<forall>a\<in>set accepts. acc_options a \<and> acc_added a"
  shows "\<exists>srv' ks. srv_Poll deleted err events accepts srv = Inr srv' \<and> server_ok srv' \<and> m_sockets srv' = m_sockets srv @ ks
    \<and> map (\<lambda>k. m_fd (tcp_sock srv' k)) ks = connections (m_listenerSocket srv) [(events, accepts)]
    \<and> m_listenerSocket srv' = m_listenerSocket srv \<and> (\<forall>k\<in>set (m_sockets srv). tcp_sock srv' k = tcp_sock srv k)"
proof -
  obtain srv2 new where f: "fold poll_event events (srv, False) = (srv2, new)" by fastforce
  have "\<forall>(k, fl)\<in>set events. k \<in> set (epoll_list srv) \<and> EPOLLOUT \<notin> set fl" using assms(2) by (simp add: epoll_answers_def)
  note e = poll_events_ok [OF assms(1) this f]
  have l2: "m_listenerSocket srv2 = m_listenerSocket srv" using e assms(1) by (auto simp: server_ok_def)
  have n: "\<not> length events > MAX_EVENTS" using assms(2,3) by (simp add: epoll_answers_def)
  have d: "m_disconnectedSockets srv = []" using assms(1) by (simp add: server_ok_def)
  have P: "srv_Poll deleted err events accepts srv = (if new then foldE (poll_accept err) accepts srv2 else Inr srv2)"
    using f n d by (simp add: srv_Poll_def)
  show ?thesis
  proof (cases new)
    case True
    obtain srv' where s: "foldE (poll_accept err) accepts srv2 = Inr srv'" "m_listenerSocket srv' = m_listenerSocket srv2"
      using poll_accepts_total [OF assms(4)] by blast
    from poll_accepts_ok [OF _ s(1)] e obtain ks where "server_ok srv'" "m_sockets srv' = m_sockets srv @ ks"
      "map (\<lambda>k. m_fd (tcp_sock srv' k)) ks = map acc_fd accepts" "\<forall>k\<in>set (m_sockets srv). tcp_sock srv' k = tcp_sock srv k" by auto
    then show ?thesis using P True s l2 e by (auto simp: connections_def)
  next
    case False
    then show ?thesis using P e l2 by (auto simp: connections_def)
  qed
qed

text \<open>C30: under the promises of \<open>epoll\<close>, any sequence of polls keeps the server's lists consistent, and every accepted
  connection is kept, in order, and served from then on: the lists of sockets to send and of dead sockets stay empty, so that no
  socket is ever taken out.\<close>

theorem server_keeps_connections:
  assumes "server_ok srv" and "polls_answered deleted err ps srv"
  shows "\<exists>srv' ks. run_polls deleted err ps srv = Inr srv' \<and> server_ok srv' \<and> m_sockets srv' = m_sockets srv @ ks
    \<and> map (\<lambda>k. m_fd (tcp_sock srv' k)) ks = connections (m_listenerSocket srv) ps
    \<and> set (m_sockets srv') \<subseteq> set (m_receiveSockets srv') \<and> m_sendSockets srv' = [] \<and> m_disconnectedSockets srv' = []"
proof -
  have "\<exists>srv' ks. run_polls deleted err ps srv = Inr srv' \<and> server_ok srv' \<and> m_sockets srv' = m_sockets srv @ ks
    \<and> map (\<lambda>k. m_fd (tcp_sock srv' k)) ks = connections (m_listenerSocket srv) ps
    \<and> (\<forall>k\<in>set (m_sockets srv). tcp_sock srv' k = tcp_sock srv k)"
    using assms
  proof (induction ps arbitrary: srv)
    case Nil
    then show ?case by (simp add: run_polls_def connections_def)
  next
    case (Cons p ps)
    obtain events accepts where p: "p = (events, accepts)" by (cases p)
    obtain srv1 ks where 1: "srv_Poll deleted err events accepts srv = Inr srv1" "server_ok srv1" "m_sockets srv1 = m_sockets srv @ ks"
      "map (\<lambda>k. m_fd (tcp_sock srv1 k)) ks = connections (m_listenerSocket srv) [(events, accepts)]"
      "m_listenerSocket srv1 = m_listenerSocket srv" "\<forall>k\<in>set (m_sockets srv). tcp_sock srv1 k = tcp_sock srv k"
      using srv_Poll_ok [of srv events accepts deleted err] Cons.prems p by auto
    have "polls_answered deleted err ps srv1" using Cons.prems(2) p 1(1) by simp
    from Cons.IH [OF 1(2) this] obtain srv' ks' where 2: "run_polls deleted err ps srv1 = Inr srv'" "server_ok srv'"
      "m_sockets srv' = m_sockets srv1 @ ks'" "map (\<lambda>k. m_fd (tcp_sock srv' k)) ks' = connections (m_listenerSocket srv) ps"
      "\<forall>k\<in>set (m_sockets srv1). tcp_sock srv' k = tcp_sock srv1 k" unfolding 1(5) by blast
    have "map (\<lambda>k. m_fd (tcp_sock srv' k)) (ks @ ks') = connections (m_listenerSocket srv) (p # ps)"
    proof -
      have "map (\<lambda>k. m_fd (tcp_sock srv' k)) ks = map (\<lambda>k. m_fd (tcp_sock srv1 k)) ks" using 1(3) 2(5) by simp
      moreover have "connections l (p # ps) = connections l [p] @ connections l ps" for l by (simp add: connections_def)
      ultimately show ?thesis using 1(4) 2(4) p by simp
    qed
    moreover have "run_polls deleted err (p # ps) srv = Inr srv'" using 1(1) 2(1) p by (simp add: run_polls_def)
    moreover have "m_sockets srv' = m_sockets srv @ (ks @ ks')" using 1(3) 2(3) by simp
    moreover have "\<forall>k\<in>set (m_sockets srv). tcp_sock srv' k = tcp_sock srv k" using 1(3,6) 2(5) by auto
    ultimately show ?case using 2(2) by blast
  qed
  then show ?thesis by (auto simp: server_ok_def)
qed

definition ex_listening :: CTCPServer where
  "ex_listening = CTCPServer_new\<lparr>m_efd := 5, epoll_list := [0]\<rparr>"

definition ex_polls :: "poll_input list" where
  "ex_polls = [([(0, [EPOLLIN])], [\<lparr>acc_fd = 8, acc_options = True, acc_added = True\<rparr>, \<lparr>acc_fd = 9, acc_options = True, acc_added = True\<rparr>]),
     ([], []), ([(1, [EPOLLIN, EPOLLHUP])], [])]"

theorem server_keeps_connections_witness:
  "\<exists>srv'. run_polls True [] ex_polls ex_listening = Inr srv' \<and> server_ok srv' \<and> map (\<lambda>k. m_fd (tcp_sock srv' k)) (m_sockets srv') = [8, 9]"
proof -
  have "server_ok ex_listening" "m_sockets ex_listening = []" "m_listenerSocket ex_listening = 0"
    by (simp_all add: ex_listening_def CTCPServer_new_def server_ok_def)
  moreover have "polls_answered True [] ex_polls ex_listening"
    by (simp add: ex_polls_def ex_listening_def CTCPServer_new_def epoll_answers_def MAX_EVENTS_def srv_Poll_def poll_event_def
        poll_accept_def EPollAdd_def set_sock_def push_once_def)
  moreover have "connections 0 ex_polls = [8, 9]" by (simp add: connections_def ex_polls_def)
  ultimately show ?thesis using server_keeps_connections [of ex_listening True "[]" ex_polls] by auto
qed

section \<open>A round over the sockets of several clients\<close>



text \<open>What the requests of a round leave alone, and the socket that they register.\<close>

definition os_frame :: "COrderServer \<Rightarrow> COrderServer \<Rightarrow> bool" where
  "os_frame s s' \<longleftrightarrow> m_cidNextOutgoingSeqNum s' = m_cidNextOutgoingSeqNum s \<and> os_out s' = os_out s
     \<and> m_pOutgoingResponses s' = m_pOutgoingResponses s"

lemma os_frame_refl [simp]: "os_frame s s"
  by (simp add: os_frame_def)



















end
