(* ===== verification/MarketDataConsumer.thy ===== *)
theory MarketDataConsumer
  imports LockFreeQueue Sockets
begin

text \<open>
  \<open>trading/market_data/MarketDataConsumer.h\<close> and \<open>.cpp\<close>: the client's end of the two multicast streams.
  In order, the incremental updates are passed on; after a gap the consumer subscribes to the snapshot
  stream, queues what arrives on both streams, and as soon as it has a complete snapshot and all
  incremental updates after it, passes on both.

  The results of the two socket calls of \<open>startSnapshotSync\<close> are a parameter \<open>net\<close>.
\<close>

section \<open>Queued updates\<close>

text \<open>\<open>std::map<size_t, SMEMarketUpdate>\<close>: its entries in ascending order of the keys.\<close>

type_synonym QueuedMarketUpdates = "(64 word \<times> SMEMarketUpdate) list"

fun map_assign :: "64 word \<Rightarrow> SMEMarketUpdate \<Rightarrow> QueuedMarketUpdates \<Rightarrow> QueuedMarketUpdates" where
  "map_assign k u [] = [(k, u)]"
| "map_assign k u ((k', u') # m) =
     (if k < k' then (k, u) # (k', u') # m
      else if k = k' then (k, u) # m
      else (k', u') # map_assign k u m)"

section \<open>The consumer\<close>

record CMarketDataConsumer =
  m_nextExpIncSeqNum :: "64 word"
  m_pIncomingMdUpdates :: "SMEMarketUpdate CLockFreeQueue"
  m_isInRecovery :: bool
  m_snapshotQueuedMsgs :: QueuedMarketUpdates
  m_incrementalQueuedMsgs :: QueuedMarketUpdates
  snapshot_subscribed :: bool

definition CMarketDataConsumer_new :: "SMEMarketUpdate CLockFreeQueue \<Rightarrow> CMarketDataConsumer" where
  "CMarketDataConsumer_new market_updates =
     \<lparr>m_nextExpIncSeqNum = 1, m_pIncomingMdUpdates = market_updates, m_isInRecovery = False,
      m_snapshotQueuedMsgs = [], m_incrementalQueuedMsgs = [], snapshot_subscribed = False\<rparr>"

record subscription =
  init_ok :: bool
  join_ok :: bool

definition startSnapshotSync :: "subscription \<Rightarrow> CMarketDataConsumer \<Rightarrow> CMarketDataConsumer outcome" where
  "startSnapshotSync net c =
     bindE (ASSERT (init_ok net) ''Unable to create snapshot mcast socket. error:'') (\<lambda>_.
     bindE (ASSERT (join_ok net) ''Join failed on:'') (\<lambda>_.
     Inr (c\<lparr>m_snapshotQueuedMsgs := [], m_incrementalQueuedMsgs := [], snapshot_subscribed := True\<rparr>)))"

definition is_mark :: "SMEMarketUpdate \<Rightarrow> bool" where
  "is_mark u \<longleftrightarrow> \<not> (upd_type u \<noteq> SNAPSHOT_START \<and> upd_type u \<noteq> SNAPSHOT_END)"

text \<open>The first loop: \<open>None\<close> when there is a gap, otherwise the events.\<close>

fun scan_snapshot :: "64 word \<Rightarrow> QueuedMarketUpdates \<Rightarrow> SMEMarketUpdate list \<Rightarrow> SMEMarketUpdate list option" where
  "scan_snapshot next_snapshot_seq [] final_events = Some final_events"
| "scan_snapshot next_snapshot_seq ((k, u) # m) final_events =
     (if k \<noteq> next_snapshot_seq then None
      else scan_snapshot (next_snapshot_seq + 1) m (if \<not> is_mark u then final_events @ [u] else final_events))"

text \<open>The second loop: whether it saw no gap, \<open>m_nextExpIncSeqNum\<close>, and the events.\<close>

fun scan_incremental :: "64 word \<Rightarrow> QueuedMarketUpdates \<Rightarrow> SMEMarketUpdate list \<Rightarrow> bool \<times> 64 word \<times> SMEMarketUpdate list" where
  "scan_incremental next_exp [] final_events = (True, next_exp, final_events)"
| "scan_incremental next_exp ((k, u) # m) final_events =
     (if k < next_exp then scan_incremental next_exp m final_events
      else if k \<noteq> next_exp then (False, next_exp, final_events)
      else scan_incremental (next_exp + 1) m (if \<not> is_mark u then final_events @ [u] else final_events))"

definition checkSnapshotSync :: "CMarketDataConsumer \<Rightarrow> CMarketDataConsumer" where
  "checkSnapshotSync c =
     (if m_snapshotQueuedMsgs c = [] then c
      else if upd_type (snd (hd (m_snapshotQueuedMsgs c))) \<noteq> SNAPSHOT_START then c\<lparr>m_snapshotQueuedMsgs := []\<rparr>
      else case scan_snapshot 0 (m_snapshotQueuedMsgs c) [] of
             None \<Rightarrow> c\<lparr>m_snapshotQueuedMsgs := []\<rparr>
           | Some final_events \<Rightarrow>
               (let last_snapshot_msg = snd (last (m_snapshotQueuedMsgs c))
                in if upd_type last_snapshot_msg \<noteq> SNAPSHOT_END then c
                   else case scan_incremental (upd_orderId last_snapshot_msg + 1) (m_incrementalQueuedMsgs c) final_events of
                          (False, next_exp, _) \<Rightarrow> c\<lparr>m_nextExpIncSeqNum := next_exp, m_snapshotQueuedMsgs := []\<rparr>
                        | (True, next_exp, events) \<Rightarrow>
                            c\<lparr>m_nextExpIncSeqNum := next_exp,
                              m_pIncomingMdUpdates := fold enqueue events (m_pIncomingMdUpdates c),
                              m_snapshotQueuedMsgs := [], m_incrementalQueuedMsgs := [],
                              m_isInRecovery := False, snapshot_subscribed := False\<rparr>))"

definition queueMessage :: "bool \<Rightarrow> MDPMarketUpdate \<Rightarrow> CMarketDataConsumer \<Rightarrow> CMarketDataConsumer" where
  "queueMessage is_snapshot request c =
     checkSnapshotSync
       (if is_snapshot
        then let queued = (if mdp_seqNum request \<in> fst ` set (m_snapshotQueuedMsgs c) then [] else m_snapshotQueuedMsgs c)
             in c\<lparr>m_snapshotQueuedMsgs := map_assign (mdp_seqNum request) (mdp_update request) queued\<rparr>
        else c\<lparr>m_incrementalQueuedMsgs := map_assign (mdp_seqNum request) (mdp_update request) (m_incrementalQueuedMsgs c)\<rparr>)"

text \<open>The body of the loop of \<open>RecvCallback\<close>.\<close>

definition mdc_message :: "subscription \<Rightarrow> bool \<Rightarrow> MDPMarketUpdate \<Rightarrow> CMarketDataConsumer \<Rightarrow> CMarketDataConsumer outcome" where
  "mdc_message net is_snapshot request c =
     (let already_in_recovery = m_isInRecovery c;
          c1 = c\<lparr>m_isInRecovery := already_in_recovery \<or> mdp_seqNum request \<noteq> m_nextExpIncSeqNum c\<rparr>
      in if m_isInRecovery c1
         then bindE (if \<not> already_in_recovery then startSnapshotSync net c1 else Inr c1) (\<lambda>c2.
              Inr (queueMessage is_snapshot request c2))
         else if \<not> is_snapshot
         then Inr (c1\<lparr>m_nextExpIncSeqNum := m_nextExpIncSeqNum c1 + 1,
                      m_pIncomingMdUpdates := enqueue (mdp_update request) (m_pIncomingMdUpdates c1)\<rparr>)
         else Inr c1)"

definition mdc_RecvCallback :: "subscription \<Rightarrow> bool \<Rightarrow> byte list \<Rightarrow> CMarketDataConsumer \<Rightarrow> (CMarketDataConsumer \<times> byte list) outcome" where
  "mdc_RecvCallback net is_snapshot buf c =
     (if is_snapshot \<and> \<not> m_isInRecovery c then Inr (c, [])
      else if length buf \<ge> sizeof_MDPMarketUpdate
      then for_messages get_MDPMarketUpdate sizeof_MDPMarketUpdate (mdc_message net is_snapshot) buf c
      else Inr (c, buf))"

text \<open>
  One round of the loop of \<open>Run\<close>: both sockets receive, and the callback knows from the descriptor which of them
  it serves.  \<open>inc_received\<close> and \<open>snap_received\<close> are what \<open>recv\<close> delivered.
\<close>

definition mdc_Run :: "subscription \<Rightarrow> (byte list \<Rightarrow> send_result) \<Rightarrow> byte list \<Rightarrow> byte list \<Rightarrow> CTCPSocket \<times> CTCPSocket \<times> CMarketDataConsumer
    \<Rightarrow> (CTCPSocket \<times> CTCPSocket \<times> CMarketDataConsumer) outcome" where
  "mdc_Run net send inc_received snap_received st =
     (case st of (m_incrementalMcastSocket, m_snapshotMcastSocket, c) \<Rightarrow>
        bindE (mcast_SendAndRecv inc_received send (mdc_RecvCallback net False) m_incrementalMcastSocket c) (\<lambda>(_, inc, c1).
        bindE (mcast_SendAndRecv snap_received send (mdc_RecvCallback net True) m_snapshotMcastSocket c1) (\<lambda>(_, snap, c2).
        Inr (inc, snap, c2))))"

end
