(* ===== verification/ConsumerRecovery.thy ===== *)
theory ConsumerRecovery
  imports MarketDataConsumer SnapshotFeed
begin

text \<open>
  The consumer passes on an incremental stream without gaps, and recovers from a gap with a snapshot
  that arrives, in order, interleaved in any way with further incremental updates.
\<close>

section \<open>Runs of consecutive numbers\<close>

text \<open>The queued form of a numbered stream.\<close>

definition queued :: "64 word \<Rightarrow> SMEMarketUpdate list \<Rightarrow> QueuedMarketUpdates" where
  "queued k us = map (\<lambda>m. (mdp_seqNum m, mdp_update m)) (number k us)"

lemma queued_simps [simp]: "queued k [] = []" "queued k (u # us) = (k, u) # queued (k + 1) us"
  by (simp_all add: queued_def)

lemma queued_append: "queued k (us @ vs) = queued k us @ queued (k + of_nat (length us)) vs"
  by (simp add: queued_def number_append)

lemma queued_keys:
  "unat k + length us \<le> 2 ^ 64 \<Longrightarrow> x \<in> fst ` set (queued k us) \<Longrightarrow> unat k \<le> unat x \<and> unat x < unat k + length us"
proof (induction us arbitrary: k)
  case (Cons u us)
  show ?case
  proof (cases "x = k")
    case False
    then have x: "x \<in> fst ` set (queued (k + 1) us)" using Cons.prems(2) by simp
    then have "us \<noteq> []" by auto
    then have "unat (k + 1) = unat k + 1" using Cons.prems(1) by (cases us) (auto simp: unat_word_ariths)
    then show ?thesis using Cons.IH [OF _ x] Cons.prems(1) by simp
  qed simp
qed simp

lemma unat_add_of_nat: "unat k + n < 2 ^ 64 \<Longrightarrow> unat (k + of_nat n :: 64 word) = unat k + n"
  by (simp add: unat_word_ariths unat_of_nat)

lemma map_assign_last: "\<forall>x\<in>fst ` set m. x < k \<Longrightarrow> map_assign k u m = m @ [(k, u)]"
proof (induction m)
  case (Cons a m)
  then show ?case by (cases a) auto
qed simp

lemma map_assign_queued:
  assumes "unat k + length us < 2 ^ 64"
  shows "map_assign (k + of_nat (length us)) u (queued k us) = queued k (us @ [u])"
    and "k + of_nat (length us) \<notin> fst ` set (queued k us)"
proof -
  have "\<forall>x\<in>fst ` set (queued k us). x < k + of_nat (length us)"
    using queued_keys [of k us] assms by (auto simp: word_less_nat_alt unat_add_of_nat)
  then show "map_assign (k + of_nat (length us)) u (queued k us) = queued k (us @ [u])"
    and "k + of_nat (length us) \<notin> fst ` set (queued k us)"
    by (auto simp: map_assign_last queued_append)
qed

lemma scan_snapshot_queued: "scan_snapshot k (queued k us) es = Some (es @ filter (\<lambda>u. \<not> is_mark u) us)"
  by (induction us arbitrary: k es) simp_all

lemma scan_incremental_skip:
  "unat k + length us \<le> 2 ^ 64 \<Longrightarrow> unat k + length us \<le> unat n \<Longrightarrow>
    scan_incremental n (queued k us @ m) es = scan_incremental n m es"
proof (induction us arbitrary: k)
  case (Cons u us)
  have lt: "k < n" using Cons.prems(2) by (simp add: word_less_nat_alt)
  have "unat n < 2 ^ 64" using unsigned_less [where ?'a = nat and w = n] by simp
  then have "unat k + 1 < 2 ^ 64" using Cons.prems(2) by simp
  then have "unat (k + 1) = unat k + 1" by (simp add: unat_word_ariths)
  then show ?case using lt Cons.IH [of "k + 1"] Cons.prems by simp
qed simp

lemma scan_incremental_queued:
  "scan_incremental k (queued k us) es = (True, k + of_nat (length us), es @ filter (\<lambda>u. \<not> is_mark u) us)"
  by (induction us arbitrary: k es) (simp_all add: add.assoc)

section \<open>In order\<close>

lemma mdc_in_order:
  "\<not> m_isInRecovery c \<Longrightarrow> queue_ok (m_pIncomingMdUpdates c) \<Longrightarrow>
    length (contents (m_pIncomingMdUpdates c)) + length us \<le> q_size (m_pIncomingMdUpdates c) \<Longrightarrow>
    \<exists>c'. foldE (mdc_message net False) (number (m_nextExpIncSeqNum c) us) c = Inr c'
      \<and> \<not> m_isInRecovery c' \<and> m_nextExpIncSeqNum c' = m_nextExpIncSeqNum c + of_nat (length us)
      \<and> queue_ok (m_pIncomingMdUpdates c') \<and> contents (m_pIncomingMdUpdates c') = contents (m_pIncomingMdUpdates c) @ us
      \<and> q_size (m_pIncomingMdUpdates c') = q_size (m_pIncomingMdUpdates c)"
proof (induction us arbitrary: c)
  case Nil
  then show ?case by simp
next
  case (Cons u us)
  define c1 where "c1 = c\<lparr>m_isInRecovery := False, m_nextExpIncSeqNum := m_nextExpIncSeqNum c + 1,
      m_pIncomingMdUpdates := enqueue u (m_pIncomingMdUpdates c)\<rparr>"
  have run: "mdc_message net False \<lparr>mdp_seqNum = m_nextExpIncSeqNum c, mdp_update = u\<rparr> c = Inr c1"
    using Cons.prems(1) by (simp add: mdc_message_def Let_def c1_def)
  have q: "queue_ok (m_pIncomingMdUpdates c1)" "contents (m_pIncomingMdUpdates c1) = contents (m_pIncomingMdUpdates c) @ [u]"
    "q_size (m_pIncomingMdUpdates c1) = q_size (m_pIncomingMdUpdates c)"
    using lfq.enq_law [OF Cons.prems(2), of u] Cons.prems(3) by (simp_all add: c1_def)
  have "length (contents (m_pIncomingMdUpdates c1)) + length us \<le> q_size (m_pIncomingMdUpdates c1)"
    using Cons.prems(3) q by (simp del: length_contents)
  from Cons.IH [OF _ q(1) this] show ?case using run q by (auto simp: c1_def add.assoc)
qed

section \<open>Recovery\<close>

text \<open>
  While it recovers the consumer holds the first messages \<open>sn\<close> of a snapshot and the incremental
  updates \<open>us\<close> from number \<open>a\<close> on.
\<close>

definition recovering :: "64 word \<Rightarrow> SMEMarketUpdate list \<Rightarrow> SMEMarketUpdate list \<Rightarrow> CMarketDataConsumer \<Rightarrow> bool" where
  "recovering a sn us c \<longleftrightarrow> m_isInRecovery c \<and> m_snapshotQueuedMsgs c = queued 0 sn \<and> m_incrementalQueuedMsgs c = queued a us"

text \<open>The beginning of a snapshot: nothing yet, or the start mark and no end mark at the end.\<close>

definition open_snapshot :: "SMEMarketUpdate list \<Rightarrow> bool" where
  "open_snapshot sn \<longleftrightarrow> sn = [] \<or> upd_type (hd sn) = SNAPSHOT_START \<and> upd_type (last sn) \<noteq> SNAPSHOT_END"

lemma queued_Nil_iff [simp]: "queued k us = [] \<longleftrightarrow> us = []"
  by (cases us) simp_all

lemma last_queued: "us \<noteq> [] \<Longrightarrow> snd (last (queued k us)) = last us"
  by (induction us arbitrary: k) auto

lemma queued_hd_last: "us \<noteq> [] \<Longrightarrow> snd (hd (queued k us)) = hd us \<and> snd (last (queued k us)) = last us \<and> queued k us \<noteq> []"
  using last_queued [of us k] by (cases us) simp_all

lemma in_recovery_again: "m_isInRecovery c \<Longrightarrow> c\<lparr>m_isInRecovery := True\<rparr> = (c :: CMarketDataConsumer)"
  by (cases c) simp

lemma check_open:
  assumes "recovering a sn us c" and "open_snapshot sn"
  shows "checkSnapshotSync c = c"
proof (cases "sn = []")
  case True
  then show ?thesis using assms(1) by (simp add: checkSnapshotSync_def recovering_def)
next
  case False
  then show ?thesis using assms queued_hd_last [OF False, of 0]
    by (simp add: checkSnapshotSync_def recovering_def open_snapshot_def scan_snapshot_queued Let_def)
qed

lemma recovering_incremental:
  assumes "recovering a sn us c" and "open_snapshot sn" and "unat a + length us < 2 ^ 64"
  shows "\<exists>c'. mdc_message net False \<lparr>mdp_seqNum = a + of_nat (length us), mdp_update = u\<rparr> c = Inr c' \<and> recovering a sn (us @ [u]) c'
    \<and> m_pIncomingMdUpdates c' = m_pIncomingMdUpdates c"
proof -
  define c1 where "c1 = c\<lparr>m_incrementalQueuedMsgs := queued a (us @ [u])\<rparr>"
  have r: "recovering a sn (us @ [u]) c1" using assms(1) by (simp add: recovering_def c1_def)
  have c: "m_isInRecovery c" "m_incrementalQueuedMsgs c = queued a us" using assms(1) by (simp_all add: recovering_def)
  have "mdc_message net False \<lparr>mdp_seqNum = a + of_nat (length us), mdp_update = u\<rparr> c = Inr (checkSnapshotSync c1)"
    using c map_assign_queued(1) [OF assms(3), of u] by (simp add: mdc_message_def queueMessage_def in_recovery_again c1_def)
  then show ?thesis using check_open [OF r assms(2)] r by (simp add: c1_def)
qed

lemma recovering_snapshot:
  assumes "recovering a sn us c" and "length sn < 2 ^ 64"
  shows "mdc_message net True \<lparr>mdp_seqNum = of_nat (length sn), mdp_update = u\<rparr> c
    = Inr (checkSnapshotSync (c\<lparr>m_snapshotQueuedMsgs := queued 0 (sn @ [u])\<rparr>))"
proof -
  have c: "m_isInRecovery c" "m_snapshotQueuedMsgs c = queued 0 sn" using assms(1) by (simp_all add: recovering_def)
  show ?thesis using c map_assign_queued [where k = 0 and us = sn] assms(2)
    by (simp add: mdc_message_def queueMessage_def in_recovery_again)
qed

lemma recovery_step:
  assumes rec: "recovering a sn us c" and op: "open_snapshot sn" and len: "length sn < 2 ^ 64"
    and u: "open_snapshot (sn @ [u])"
  shows "\<exists>c'. mdc_message net True \<lparr>mdp_seqNum = of_nat (length sn), mdp_update = u\<rparr> c = Inr c' \<and> recovering a (sn @ [u]) us c'
    \<and> m_pIncomingMdUpdates c' = m_pIncomingMdUpdates c"
proof -
  let ?c = "c\<lparr>m_snapshotQueuedMsgs := queued 0 (sn @ [u])\<rparr>"
  have "recovering a (sn @ [u]) us ?c" using rec by (simp add: recovering_def)
  then show ?thesis using recovering_snapshot [OF rec len] check_open [OF _ u] by auto
qed

text \<open>
  Any interleaving of a snapshot's messages before its end with further incremental updates:
  \<open>True\<close> tags a message of the snapshot stream.
\<close>

lemma recovery_interleaved:
  "recovering a sn us c \<Longrightarrow> unat a + length us + length us' < 2 ^ 64 \<Longrightarrow> length sn + length sn' < 2 ^ 64 \<Longrightarrow>
    map snd (filter fst es) = number (of_nat (length sn)) sn' \<Longrightarrow>
    map snd (filter (\<lambda>e. \<not> fst e) es) = number (a + of_nat (length us)) us' \<Longrightarrow>
    (\<forall>k\<le>length sn'. open_snapshot (sn @ take k sn')) \<Longrightarrow>
    \<exists>c'. foldE (\<lambda>(is_snapshot, m). mdc_message net is_snapshot m) es c = Inr c' \<and> recovering a (sn @ sn') (us @ us') c'
      \<and> m_pIncomingMdUpdates c' = m_pIncomingMdUpdates c"
proof (induction es arbitrary: c sn us sn' us')
  case Nil
  then show ?case by (cases sn'; cases us') auto
next
  case (Cons e es)
  have op: "open_snapshot sn" using spec [OF Cons.prems(6), of 0] by simp
  show ?case
  proof (cases "fst e")
    case True
    then obtain u sn1 where sn1: "sn' = u # sn1" "snd e = \<lparr>mdp_seqNum = of_nat (length sn), mdp_update = u\<rparr>"
      "map snd (filter fst es) = number (of_nat (length sn) + 1) sn1" using Cons.prems(4) by (cases sn') auto
    have opk: "open_snapshot ((sn @ [u]) @ take k sn1)" if "k \<le> length sn1" for k
      using spec [OF Cons.prems(6), of "Suc k"] that sn1(1) by simp
    have "open_snapshot (sn @ [u])" using opk [of 0] by simp
    then obtain c1 where c1: "mdc_message net True (snd e) c = Inr c1" "recovering a (sn @ [u]) us c1" "m_pIncomingMdUpdates c1 = m_pIncomingMdUpdates c"
      using recovery_step [OF Cons.prems(1) op] Cons.prems(3) sn1(2) by auto
    have "map snd (filter (\<lambda>e. \<not> fst e) es) = number (a + of_nat (length us)) us'" using Cons.prems(5) True by simp
    then show ?thesis using Cons.IH [OF c1(2), of us' sn1] c1(1,3) Cons.prems(2,3) sn1 opk True
      by (auto simp: split_beta add.commute)
  next
    case False
    then obtain u us1 where us1: "us' = u # us1" "snd e = \<lparr>mdp_seqNum = a + of_nat (length us), mdp_update = u\<rparr>"
      "map snd (filter (\<lambda>e. \<not> fst e) es) = number (a + of_nat (length us) + 1) us1" using Cons.prems(5) by (cases us') auto
    obtain c1 where c1: "mdc_message net False (snd e) c = Inr c1" "recovering a sn (us @ [u]) c1" "m_pIncomingMdUpdates c1 = m_pIncomingMdUpdates c"
      using recovering_incremental [OF Cons.prems(1) op] Cons.prems(2) us1(2) by auto
    have "map snd (filter fst es) = number (of_nat (length sn)) sn'" using Cons.prems(4) False by simp
    then show ?thesis using Cons.IH [OF c1(2), of us1 sn'] c1(1,3) Cons.prems(2,3,6) us1 False
      by (auto simp: split_beta add.assoc add.commute [of 1])
  qed
qed

text \<open>The end mark completes the recovery when the incremental updates reach back to the snapshot.\<close>

lemma recovery_end:
  assumes rec: "recovering a sn us c" and len: "length sn < 2 ^ 64" and sn: "sn \<noteq> []" "upd_type (hd sn) = SNAPSHOT_START"
    and en: "upd_type en = SNAPSHOT_END" and n: "upd_orderId en + 1 = a + of_nat d" and d: "d \<le> length us" and a: "unat a + length us < 2 ^ 64"
    and q: "queue_ok (m_pIncomingMdUpdates c)"
    and room: "length (contents (m_pIncomingMdUpdates c)) + length sn + length us \<le> q_size (m_pIncomingMdUpdates c)"
  shows "\<exists>c'. mdc_message net True \<lparr>mdp_seqNum = of_nat (length sn), mdp_update = en\<rparr> c = Inr c'
    \<and> \<not> m_isInRecovery c' \<and> \<not> snapshot_subscribed c' \<and> m_nextExpIncSeqNum c' = a + of_nat (length us)
    \<and> contents (m_pIncomingMdUpdates c') = contents (m_pIncomingMdUpdates c)
        @ filter (\<lambda>u. \<not> is_mark u) sn @ filter (\<lambda>u. \<not> is_mark u) (drop d us)
    \<and> queue_ok (m_pIncomingMdUpdates c') \<and> q_size (m_pIncomingMdUpdates c') = q_size (m_pIncomingMdUpdates c)"
proof -
  let ?c = "c\<lparr>m_snapshotQueuedMsgs := queued 0 (sn @ [en])\<rparr>" and ?fs = "filter (\<lambda>u. \<not> is_mark u)"
  have split: "queued a us = queued a (take d us) @ queued (a + of_nat d) (drop d us)"
    using queued_append [of a "take d us" "drop d us"] d by simp
  have "scan_incremental (a + of_nat d) (queued a (take d us) @ queued (a + of_nat d) (drop d us)) es
      = scan_incremental (a + of_nat d) (queued (a + of_nat d) (drop d us)) es" for es
    using d a by (intro scan_incremental_skip) (simp_all add: unat_add_of_nat)
  then have inc: "scan_incremental (upd_orderId en + 1) (queued a us) es = (True, a + of_nat (length us), es @ ?fs (drop d us))" for es
    using d unfolding n split by (simp add: scan_incremental_queued of_nat_diff)
  have hl: "snd (hd (queued 0 (sn @ [en]))) = hd sn" "snd (last (queued 0 (sn @ [en]))) = en" "queued 0 (sn @ [en]) \<noteq> []"
    using queued_hd_last [of "sn @ [en]" 0] sn(1) by simp_all
  have mk: "?fs (sn @ [en]) = ?fs sn" using en by (simp add: is_mark_def)
  have scan: "scan_snapshot 0 (queued 0 (sn @ [en])) [] = Some (?fs sn)" unfolding scan_snapshot_queued mk by simp
  define c' where "c' = ?c\<lparr>m_nextExpIncSeqNum := a + of_nat (length us),
      m_pIncomingMdUpdates := fold enqueue (?fs sn @ ?fs (drop d us)) (m_pIncomingMdUpdates c),
      m_snapshotQueuedMsgs := [], m_incrementalQueuedMsgs := [], m_isInRecovery := False, snapshot_subscribed := False\<rparr>"
  have "checkSnapshotSync ?c = c'"
    using rec hl sn(2) en scan inc by (simp add: checkSnapshotSync_def recovering_def Let_def c'_def)
  moreover have "length (?fs sn @ ?fs (drop d us)) \<le> length sn + length us"
    by (auto intro!: add_mono order_trans [OF length_filter_le])
  then have "length (contents (m_pIncomingMdUpdates c)) + length (?fs sn @ ?fs (drop d us)) \<le> q_size (m_pIncomingMdUpdates c)"
    using room by simp
  from lfq.enq_all [OF q this] have "queue_ok (m_pIncomingMdUpdates c')
    \<and> contents (m_pIncomingMdUpdates c') = contents (m_pIncomingMdUpdates c) @ ?fs sn @ ?fs (drop d us)
    \<and> q_size (m_pIncomingMdUpdates c') = q_size (m_pIncomingMdUpdates c)" by (simp add: c'_def)
  ultimately show ?thesis using recovering_snapshot [OF rec len, of net en] by (simp add: c'_def)
qed

section \<open>From the gap to the book\<close>

lemma recovery_begins:
  assumes "init_ok net" and "join_ok net" and "\<not> m_isInRecovery c" and "a \<noteq> m_nextExpIncSeqNum c"
  shows "\<exists>c1. mdc_message net False \<lparr>mdp_seqNum = a, mdp_update = u\<rparr> c = Inr c1 \<and> recovering a [] [u] c1
    \<and> m_pIncomingMdUpdates c1 = m_pIncomingMdUpdates c"
proof -
  define c1 where "c1 = c\<lparr>m_isInRecovery := True, m_snapshotQueuedMsgs := [], m_incrementalQueuedMsgs := [(a, u)], snapshot_subscribed := True\<rparr>"
  have r: "recovering a [] [u] c1" by (simp add: recovering_def c1_def)
  have "mdc_message net False \<lparr>mdp_seqNum = a, mdp_update = u\<rparr> c = Inr (checkSnapshotSync c1)"
    using assms by (cases c) (simp add: mdc_message_def Let_def startSnapshotSync_def ASSERT_def queueMessage_def c1_def)
  then show ?thesis using check_open [OF r] r by (simp add: open_snapshot_def c1_def)
qed

lemma family_feed_ticker: "family_feed_fits us Bs \<Longrightarrow> feed_fits (ticker_feed t us) (Bs t)"
proof (induction us arbitrary: Bs)
  case (Cons u us)
  then have "family_fits u Bs" "feed_fits (ticker_feed t us) (family_update u Bs t)" by simp_all
  then show ?case by (auto simp: ticker_feed_def family_fits_def family_update_def split: if_splits)
qed (simp add: ticker_feed_def)

lemma family_feed_append: "family_feed_fits (us @ vs) Bs \<longleftrightarrow> family_feed_fits us Bs \<and> family_feed_fits vs (fold family_update us Bs)"
  by (induction us arbitrary: Bs) auto

lemma snapshot_body_length: "length (snapshot_body s) \<le> ME_MAX_TICKERS * Suc ME_MAX_ORDER_IDS"
proof -
  have "length (ticker_orders s t) \<le> ME_MAX_ORDER_IDS" for t
    using length_filter_le [of _ "[0..<ME_MAX_ORDER_IDS]"] by (simp add: ticker_orders_def List.map_filter_def)
  then have row: "length (snap_clear t # ticker_orders s t) \<le> Suc ME_MAX_ORDER_IDS" for t by simp
  have "(\<Sum>t\<leftarrow>ts. length (snap_clear (of_nat t) # ticker_orders s (of_nat t))) \<le> length ts * Suc ME_MAX_ORDER_IDS" for ts
  proof (induction ts)
    case (Cons t ts)
    have "length (snap_clear (of_nat t) # ticker_orders s (of_nat t)) \<le> Suc ME_MAX_ORDER_IDS" by (rule row)
    from add_mono [OF this Cons.IH] show ?case by simp
  qed simp
  from this [of "[0..<ME_MAX_TICKERS]"] show ?thesis by (simp add: snapshot_body_def length_concat comp_def)
qed

lemma snapshot_body_marks:
  assumes "snap_rel s Bs"
  shows "filter (\<lambda>u. \<not> is_mark u) (snapshot_body s) = snapshot_body s"
proof -
  have "\<not> is_mark u" if t: "t < ME_MAX_TICKERS" and u: "u \<in> set (snap_clear (of_nat t) # ticker_orders s (of_nat t))" for u t
  proof -
    have "unat (of_nat t :: TickerId) < ME_MAX_TICKERS" using t by (simp add: bounds_defs unat_of_nat)
    from ticker_orders_rel(2) [OF assms this] show ?thesis using u by (auto simp: is_mark_def snap_clear_def)
  qed
  then show ?thesis by (auto simp: snapshot_body_def filter_id_conv)
qed

text \<open>Every beginning of a snapshot is open.\<close>

lemma snapshot_open:
  assumes "snap_rel s Bs" and "upd_type st = SNAPSHOT_START"
  shows "open_snapshot ([] @ take k (st # snapshot_body s))"
proof (cases k)
  case (Suc j)
  have "upd_type (last (st # take j (snapshot_body s))) \<noteq> SNAPSHOT_END"
  proof (cases "take j (snapshot_body s) = []")
    case False
    have "last (take j (snapshot_body s)) \<in> set (snapshot_body s)" by (rule set_take_subset [THEN subsetD, OF last_in_set [OF False]])
    then have "\<not> is_mark (last (take j (snapshot_body s)))" using snapshot_body_marks [OF assms(1)] by (auto simp: filter_id_conv)
    then show ?thesis using False by (simp add: is_mark_def)
  qed (simp add: assms(2))
  then show ?thesis using Suc assms(2) by (simp add: open_snapshot_def)
qed (simp add: open_snapshot_def)

text \<open>
  All messages from the gap to the end mark: the queue has the snapshot and all updates since.
\<close>

lemma recovery_completes:
  assumes net: "init_ok net" "join_ok net" and c: "\<not> m_isInRecovery c" "m_nextExpIncSeqNum c \<noteq> a"
    and q: "queue_ok (m_pIncomingMdUpdates c)"
      "length (contents (m_pIncomingMdUpdates c)) + Suc (length (snapshot_body s)) + Suc (length us) \<le> q_size (m_pIncomingMdUpdates c)"
    and rel: "snap_rel s Bs" and L: "m_lastIncSeqNum s + 1 = a + of_nat d" "d \<le> Suc (length us)" "unat a + Suc (length us) < 2 ^ 64"
    and sn: "map snd (filter fst es) = number 0 (snap_mark SNAPSHOT_START (m_lastIncSeqNum s) # snapshot_body s)"
    and inc: "map snd (filter (\<lambda>e. \<not> fst e) es) = number (a + 1) us"
    and um: "\<forall>v\<in>set (u # us). \<not> is_mark v"
  defines "en \<equiv> \<lparr>mdp_seqNum = of_nat (Suc (length (snapshot_body s))), mdp_update = snap_mark SNAPSHOT_END (m_lastIncSeqNum s)\<rparr>"
  shows "\<exists>c'. foldE (\<lambda>(is_snapshot, m). mdc_message net is_snapshot m) ((False, \<lparr>mdp_seqNum = a, mdp_update = u\<rparr>) # es @ [(True, en)]) c = Inr c'
    \<and> \<not> m_isInRecovery c' \<and> m_nextExpIncSeqNum c' = a + of_nat (Suc (length us))
    \<and> contents (m_pIncomingMdUpdates c') = contents (m_pIncomingMdUpdates c) @ snapshot_body s @ drop d (u # us)
    \<and> queue_ok (m_pIncomingMdUpdates c') \<and> q_size (m_pIncomingMdUpdates c') = q_size (m_pIncomingMdUpdates c)"
proof -
  let ?st = "snap_mark SNAPSHOT_START (m_lastIncSeqNum s)" and ?f = "\<lambda>(is_snapshot, m). mdc_message net is_snapshot m"
  obtain c1 where c1: "mdc_message net False \<lparr>mdp_seqNum = a, mdp_update = u\<rparr> c = Inr c1" "recovering a [] [u] c1"
    "m_pIncomingMdUpdates c1 = m_pIncomingMdUpdates c" using recovery_begins [OF net c(1)] c(2) by metis
  have st: "upd_type ?st = SNAPSHOT_START" by (simp add: snap_mark_def)
  have body: "length (snapshot_body s) < 2 ^ 62" using snapshot_body_length [of s] by (simp add: bounds_defs)
  have op: "\<forall>k\<le>length (?st # snapshot_body s). open_snapshot ([] @ take k (?st # snapshot_body s))"
    using snapshot_open [OF rel st] by blast
  obtain c2 where c2: "foldE ?f es c1 = Inr c2" "recovering a (?st # snapshot_body s) (u # us) c2"
    "m_pIncomingMdUpdates c2 = m_pIncomingMdUpdates c1"
    using recovery_interleaved [OF c1(2), of us "?st # snapshot_body s" es net] op sn inc L(3) body by auto
  obtain c3 where c3: "mdc_message net True en c2 = Inr c3" "\<not> m_isInRecovery c3" "m_nextExpIncSeqNum c3 = a + of_nat (Suc (length us))"
    "contents (m_pIncomingMdUpdates c3) = contents (m_pIncomingMdUpdates c2)
      @ filter (\<lambda>u. \<not> is_mark u) (?st # snapshot_body s) @ filter (\<lambda>u. \<not> is_mark u) (drop d (u # us))"
    "queue_ok (m_pIncomingMdUpdates c3)" "q_size (m_pIncomingMdUpdates c3) = q_size (m_pIncomingMdUpdates c2)"
    using recovery_end [OF c2(2), of "snap_mark SNAPSHOT_END (m_lastIncSeqNum s)" d net] L q c1(3) c2(3) body st
    by (auto simp: en_def snap_mark_def)
  have "filter (\<lambda>u. \<not> is_mark u) (?st # snapshot_body s) = snapshot_body s"
    using snapshot_body_marks [OF rel] st by (simp add: is_mark_def)
  moreover have "filter (\<lambda>u. \<not> is_mark u) (drop d (u # us)) = drop d (u # us)"
    using um set_drop_subset [of d "u # us"] unfolding filter_id_conv by blast
  ultimately show ?thesis using c1 c2 c3 by (simp add: foldE_append)
qed

end
