(* ===== verification/ConsumerProperties.thy ===== *)
theory ConsumerProperties
  imports ConsumerRecovery MarketProperties
begin

text \<open>
  Properties of the market data consumer: updates in order are passed on whatever the datagrams they
  came in, and a gap is repaired by the next snapshot.
\<close>

lemma mdc_in_order_bytes:
  assumes "\<not> m_isInRecovery c" and "queue_ok (m_pIncomingMdUpdates c)"
    and "length (contents (m_pIncomingMdUpdates c)) + length us \<le> q_size (m_pIncomingMdUpdates c)" and "length part < sizeof_MDPMarketUpdate"
  shows "\<exists>c'. mdc_RecvCallback net False (concat (map put_MDPMarketUpdate (number (m_nextExpIncSeqNum c) us)) @ part) c = Inr (c', part)
    \<and> \<not> m_isInRecovery c' \<and> m_nextExpIncSeqNum c' = m_nextExpIncSeqNum c + of_nat (length us)
    \<and> contents (m_pIncomingMdUpdates c') = contents (m_pIncomingMdUpdates c) @ us
    \<and> queue_ok (m_pIncomingMdUpdates c') \<and> q_size (m_pIncomingMdUpdates c') = q_size (m_pIncomingMdUpdates c)"
proof -
  let ?buf = "concat (map put_MDPMarketUpdate (number (m_nextExpIncSeqNum c) us)) @ part"
  obtain c' where c': "foldE (mdc_message net False) (number (m_nextExpIncSeqNum c) us) c = Inr c'"
    "\<not> m_isInRecovery c'" "m_nextExpIncSeqNum c' = m_nextExpIncSeqNum c + of_nat (length us)"
    "contents (m_pIncomingMdUpdates c') = contents (m_pIncomingMdUpdates c) @ us"
    "queue_ok (m_pIncomingMdUpdates c')" "q_size (m_pIncomingMdUpdates c') = q_size (m_pIncomingMdUpdates c)"
    using mdc_in_order [OF assms(1-3)] by blast
  have loop: "for_messages get_MDPMarketUpdate sizeof_MDPMarketUpdate (mdc_message net False) ?buf c = Inr (c', part)"
    using updates.for_messages_all [OF assms(4), of "mdc_message net False" "number (m_nextExpIncSeqNum c) us" c] c'(1) by simp
  have "mdc_RecvCallback net False ?buf c = Inr (c', part)"
  proof (cases "length ?buf \<ge> sizeof_MDPMarketUpdate")
    case True
    then show ?thesis using loop assms(1) by (simp add: mdc_RecvCallback_def del: length_append)
  next
    case False
    then show ?thesis using loop updates.for_messages_short [of ?buf "mdc_message net False" c] assms(1)
      by (simp add: mdc_RecvCallback_def not_le del: length_append)
  qed
  then show ?thesis using c' by blast
qed

text \<open>Without a gap, the bytes of consecutive incremental updates, received together with the beginning of a
  further message, put exactly these updates on the queue to the trade engine and leave the incomplete rest in the
  socket's buffer; the consumer then expects the number that follows.\<close>

theorem consumer_passes_on:
  assumes "\<not> m_isInRecovery c" and "queue_ok (m_pIncomingMdUpdates c)"
    and "length (contents (m_pIncomingMdUpdates c)) + length us \<le> q_size (m_pIncomingMdUpdates c)" and "length part < sizeof_MDPMarketUpdate"
  shows "\<exists>c'. mdc_RecvCallback net False (concat (map put_MDPMarketUpdate (number (m_nextExpIncSeqNum c) us)) @ part) c = Inr (c', part)
    \<and> \<not> m_isInRecovery c' \<and> m_nextExpIncSeqNum c' = m_nextExpIncSeqNum c + of_nat (length us)
    \<and> contents (m_pIncomingMdUpdates c') = contents (m_pIncomingMdUpdates c) @ us"
  using mdc_in_order_bytes [OF assms, of net] by blast

definition ex_updates :: "SMEMarketUpdate list" where
  "ex_updates = [ex_update ADD 1 BUY 100 7, ex_update ADD 2 SELL 105 5, ex_update CANCEL 1 BUY 100 7]"

definition ex_consumer :: "nat \<Rightarrow> CMarketDataConsumer" where
  "ex_consumer n = CMarketDataConsumer_new (CLockFreeQueue_new n SMEMarketUpdate_default)"

lemma ex_consumer_simps [simp]:
  "\<not> m_isInRecovery (ex_consumer n)" "m_nextExpIncSeqNum (ex_consumer n) = 1" "m_pIncomingMdUpdates (ex_consumer n) = CLockFreeQueue_new n SMEMarketUpdate_default"
  by (simp_all add: ex_consumer_def CMarketDataConsumer_new_def)

theorem consumer_passes_on_witness:
  "\<exists>c'. mdc_RecvCallback \<lparr>init_ok = True, join_ok = True\<rparr> False (concat (map put_MDPMarketUpdate (number 1 ex_updates)) @ [1, 2]) (ex_consumer 8) = Inr (c', [1, 2])
    \<and> contents (m_pIncomingMdUpdates c') = ex_updates"
  using consumer_passes_on [where c = "ex_consumer 8" and us = ex_updates and part = "[1, 2]" and net = "\<lparr>init_ok = True, join_ok = True\<rparr>"]
    queue_ok_new [of 8 SMEMarketUpdate_default]
  by (auto simp: sizeof_defs ex_updates_def)




text \<open>The witness: of three updates the first is lost, the snapshot is taken after the second.\<close>

definition ex_bid :: SMarketOrder where "ex_bid = upd_order (ex_update ADD 1 BUY 100 7)"
definition ex_ask :: SMarketOrder where "ex_ask = upd_order (ex_update ADD 2 SELL 105 5)"

lemma ex_quotes [simp]:
  "ord_orderId ex_bid = 1" "ord_side ex_bid = BUY" "ord_price ex_bid = 100" "ord_orderId ex_ask = 2" "ord_side ex_ask = SELL" "ord_price ex_ask = 105"
  by (simp_all add: ex_bid_def ex_ask_def)










end
