(* ===== verification/Arith.thy ===== *)
theory Arith
  imports Prelude Complex_Main
begin

text \<open>
  The arithmetic of the trading side.  Signed operations whose result does not fit are undefined
  behaviour in C++; they are the fault \<open>SignedOverflow\<close>.  The operations on \<open>double\<close> are a record
  that the definitions take as an argument; \<open>exact_fp\<close> is arithmetic without rounding, with \<open>None\<close>
  for the value of a division by zero and for a quiet NaN.
\<close>

section \<open>Signed integers\<close>

definition signed_of :: "int \<Rightarrow> 'w::len word outcome" where
  "signed_of n = (if n \<in> {- (2 ^ (LENGTH('w) - 1)) ..< 2 ^ (LENGTH('w) - 1)} then Inr (word_of_int n) else Inl SignedOverflow)"

definition smul :: "'w::len word \<Rightarrow> 'w word \<Rightarrow> 'w word outcome" where
  "smul a b = signed_of (sint a * sint b)"

definition sadd :: "'w::len word \<Rightarrow> 'w word \<Rightarrow> 'w word outcome" where
  "sadd a b = signed_of (sint a + sint b)"

definition ssub :: "'w::len word \<Rightarrow> 'w word \<Rightarrow> 'w word outcome" where
  "ssub a b = signed_of (sint a - sint b)"

text \<open>\<open>std::abs\<close>\<close>

definition sabs :: "'w::len word \<Rightarrow> 'w word outcome" where
  "sabs a = signed_of \<bar>sint a\<bar>"

lemma sint_word_of_int_range:
  "n \<in> {- (2 ^ (LENGTH('w) - 1)) ..< 2 ^ (LENGTH('w) - 1)} \<Longrightarrow> sint (word_of_int n :: 'w::len word) = n"
  by (simp add: sint_sbintrunc' signed_take_bit_int_eq_self)

lemma signed_ofI:
  assumes "n \<in> {- (2 ^ (LENGTH('w) - 1)) ..< 2 ^ (LENGTH('w) - 1)}"
  shows "\<exists>w :: 'w::len word. signed_of n = Inr w \<and> sint w = n"
  using assms sint_word_of_int_range [OF assms] by (simp add: signed_of_def)

lemma signed_of_sint [simp]: "signed_of (sint (w :: 'w::len word)) = Inr w"
proof -
  have "sint w \<in> {- (2 ^ (LENGTH('w) - 1)) ..< 2 ^ (LENGTH('w) - 1)}"
    using sint_ge [of w] sint_lt [of w] by simp
  then show ?thesis by (simp add: signed_of_def)
qed

lemma signed_of_eq_Inr: "signed_of n = Inr w \<longleftrightarrow> sint w = n"
proof
  show "sint w = n" if "signed_of n = Inr w"
    using that sint_word_of_int_range [of n, where ?'w = 'a] by (auto simp: signed_of_def split: if_splits)
qed auto

section \<open>Floating point\<close>

record 'd fp =
  fp_add :: "'d \<Rightarrow> 'd \<Rightarrow> 'd"
  fp_sub :: "'d \<Rightarrow> 'd \<Rightarrow> 'd"
  fp_mul :: "'d \<Rightarrow> 'd \<Rightarrow> 'd"
  fp_div :: "'d \<Rightarrow> 'd \<Rightarrow> 'd"
  fp_lt :: "'d \<Rightarrow> 'd \<Rightarrow> bool"
  fp_le :: "'d \<Rightarrow> 'd \<Rightarrow> bool"
  fp_eq :: "'d \<Rightarrow> 'd \<Rightarrow> bool"
  fp_int :: "int \<Rightarrow> 'd"
  fp_half :: 'd
  fp_nan :: 'd
  fp_show :: "'d \<Rightarrow> string"

definition lift2 :: "(real \<Rightarrow> real \<Rightarrow> real) \<Rightarrow> real option \<Rightarrow> real option \<Rightarrow> real option" where
  "lift2 f x y = (case (x, y) of (Some a, Some b) \<Rightarrow> Some (f a b) | _ \<Rightarrow> None)"

definition rel2 :: "(real \<Rightarrow> real \<Rightarrow> bool) \<Rightarrow> real option \<Rightarrow> real option \<Rightarrow> bool" where
  "rel2 r x y = (case (x, y) of (Some a, Some b) \<Rightarrow> r a b | _ \<Rightarrow> False)"

definition exact_fp :: "real option fp" where
  "exact_fp = \<lparr>fp_add = lift2 (+), fp_sub = lift2 (-), fp_mul = lift2 (*),
     fp_div = (\<lambda>x y. if y = Some 0 then None else lift2 (/) x y),
     fp_lt = rel2 (<), fp_le = rel2 (\<le>), fp_eq = rel2 (=),
     fp_int = (\<lambda>n. Some (of_int n)), fp_half = Some (1 / 2), fp_nan = None, fp_show = (\<lambda>_. '''')\<rparr>"

lemma lift2_Some [simp]: "lift2 f (Some a) (Some b) = Some (f a b)"
  by (simp add: lift2_def)

lemma rel2_Some [simp]: "rel2 r (Some a) (Some b) = r a b"
  by (simp add: rel2_def)

lemma rel2_None [simp]: "rel2 r None y = False" "rel2 r x None = False"
  by (auto simp: rel2_def split: option.splits)

lemma exact_simps [simp]:
  "fp_add exact_fp = lift2 (+)" "fp_sub exact_fp = lift2 (-)" "fp_mul exact_fp = lift2 (*)"
  "fp_lt exact_fp = rel2 (<)" "fp_le exact_fp = rel2 (\<le>)" "fp_eq exact_fp = rel2 (=)"
  "fp_int exact_fp n = Some (of_int n)" "fp_half exact_fp = Some (1 / 2)" "fp_nan exact_fp = None"
  by (simp_all add: exact_fp_def)

lemma exact_div [simp]: "b \<noteq> 0 \<Longrightarrow> fp_div exact_fp (Some a) (Some b) = Some (a / b)"
  by (simp add: exact_fp_def)

lemma exact_div0 [simp]: "fp_div exact_fp x (Some 0) = None"
  by (simp add: exact_fp_def)

end
