(* ===== verification/PositionKeeper.thy ===== *)
theory PositionKeeper
  imports Arith Messages MarketOrderBook
begin

text \<open>
  \<open>trading/strategy/PositionKeeper.h\<close>: position, profit and loss and volume of every instrument.
  \<open>openVWAP\<close> is the one member of \<open>SPositionInfo\<close> without an initialiser: its first values are an
  argument of the constructor.
\<close>

section \<open>One instrument\<close>

record 'd SPositionInfo =
  position :: "32 word"
  realPnL :: 'd
  unrealPnL :: 'd
  totalPnL :: 'd
  openVWAP :: "64 word \<Rightarrow> 'd"
  volume :: Qty
  pos_pBbo :: "SBBO option"

definition SPositionInfo_default :: "'d fp \<Rightarrow> (64 word \<Rightarrow> 'd) \<Rightarrow> 'd SPositionInfo" where
  "SPositionInfo_default F junk = \<lparr>position = 0, realPnL = fp_int F 0, unrealPnL = fp_int F 0, totalPnL = fp_int F 0,
     openVWAP = junk, volume = 0, pos_pBbo = None\<rparr>"

definition vwap_ToString :: "'d fp \<Rightarrow> ESide \<Rightarrow> 'd SPositionInfo \<Rightarrow> string outcome" where
  "vwap_ToString F side p =
     (if position p \<noteq> 0
      then bindE (sabs (position p)) (\<lambda>n. Inr (fp_show F (fp_div F (openVWAP p (SideToIndex side)) (fp_int F (sint n)))))
      else Inr (fp_show F (fp_int F 0)))"

definition SPositionInfo_ToString :: "'d fp \<Rightarrow> 'd SPositionInfo \<Rightarrow> string outcome" where
  "SPositionInfo_ToString F p =
     bindE (vwap_ToString F BUY p) (\<lambda>buy.
     bindE (vwap_ToString F SELL p) (\<lambda>sell.
     Inr (''Position{pos:'' @ to_string_int (sint (position p)) @ '' u-pnl:'' @ fp_show F (unrealPnL p) @ '' r-pnl:'' @ fp_show F (realPnL p)
       @ '' t-pnl:'' @ fp_show F (totalPnL p) @ '' vol:'' @ QtyToString (volume p) @ '' vwaps:['' @ buy @ ''X'' @ sell @ ''] ''
       @ (case pos_pBbo p of Some b \<Rightarrow> SBBO_ToString b | None \<Rightarrow> []) @ ''}'')))"

text \<open>The unrealised profit of the open position at a price: both branches of \<open>addFill\<close> and \<open>UpdateBBO\<close>.\<close>

definition unreal_at :: "'d fp \<Rightarrow> 'd \<Rightarrow> 'd SPositionInfo \<Rightarrow> 'd outcome" where
  "unreal_at F price p =
     bindE (sabs (position p)) (\<lambda>n. let q = fp_int F (sint n) in
     Inr (if sint (position p) > 0
          then fp_mul F (fp_sub F price (fp_div F (openVWAP p (SideToIndex BUY)) q)) q
          else fp_mul F (fp_sub F (fp_div F (openVWAP p (SideToIndex SELL)) q) price) q))"

definition open_fill :: "'d fp \<Rightarrow> SMEClientResponse \<Rightarrow> 'd SPositionInfo \<Rightarrow> 'd SPositionInfo outcome" where
  "open_fill F r p = (let i = SideToIndex (resp_side r) in
     bindE (signed_of (sint (resp_price r) * uint (resp_execQty r))) (\<lambda>cost :: 64 word.
     Inr (p\<lparr>openVWAP := (openVWAP p)(i := fp_add F (openVWAP p i) (fp_int F (sint cost)))\<rparr>)))"

definition close_fill :: "'d fp \<Rightarrow> 32 word \<Rightarrow> SMEClientResponse \<Rightarrow> 'd SPositionInfo \<Rightarrow> 'd SPositionInfo outcome" where
  "close_fill F oldPosition r p =
     (let i = SideToIndex (resp_side r);
          j = SideToIndex (if resp_side r = BUY then SELL else BUY);
          px = fp_int F (sint (resp_price r))
      in bindE (sabs oldPosition) (\<lambda>old_n.
         bindE (sabs (position p)) (\<lambda>n.
         let opp_side_vwap = fp_div F (openVWAP p j) (fp_int F (sint old_n));
             p1 = p\<lparr>openVWAP := (openVWAP p)(j := fp_mul F opp_side_vwap (fp_int F (sint n))),
                    realPnL := fp_add F (realPnL p)
                      (fp_mul F (fp_mul F (fp_int F (min (sint (resp_execQty r)) (sint old_n))) (fp_sub F opp_side_vwap px))
                        (fp_int F (SideToValue (resp_side r))))\<rparr>
         in bindE (smul (position p) oldPosition) (\<lambda>prod.
            if sint prod < 0
            then bindE (signed_of (sint (resp_price r) * sint n)) (\<lambda>cost :: 64 word.
                 Inr (p1\<lparr>openVWAP := (openVWAP p1)(i := fp_int F (sint cost), j := fp_int F 0)\<rparr>))
            else Inr p1))))"

definition addFill :: "'d fp \<Rightarrow> SMEClientResponse \<Rightarrow> 'd SPositionInfo \<Rightarrow> 'd SPositionInfo outcome" where
  "addFill F r p0 =
     (let p = p0\<lparr>position := position p0 + resp_execQty r * word_of_int (SideToValue (resp_side r)),
                 volume := volume p0 + resp_execQty r\<rparr>
      in bindE (smul (position p0) (word_of_int (SideToValue (resp_side r)))) (\<lambda>dir.
         bindE (if sint dir \<ge> 0 then open_fill F r p else close_fill F (position p0) r p) (\<lambda>p1.
         bindE (if position p1 = 0
                then Inr (p1\<lparr>openVWAP := (openVWAP p1)(SideToIndex BUY := fp_int F 0, SideToIndex SELL := fp_int F 0),
                             unrealPnL := fp_int F 0\<rparr>)
                else bindE (unreal_at F (fp_int F (sint (resp_price r))) p1) (\<lambda>x. Inr (p1\<lparr>unrealPnL := x\<rparr>))) (\<lambda>p2.
         Inr (p2\<lparr>totalPnL := fp_add F (unrealPnL p2) (realPnL p2)\<rparr>)))))"

text \<open>\<open>pBbo = pBbo\<close> assigns the parameter to itself, so the member keeps its value.\<close>

definition pos_UpdateBBO :: "'d fp \<Rightarrow> SBBO \<Rightarrow> 'd SPositionInfo \<Rightarrow> 'd SPositionInfo outcome" where
  "pos_UpdateBBO F bbo p =
     (if position p \<noteq> 0 \<and> bidPrice bbo \<noteq> Price_INVALID \<and> askPrice bbo \<noteq> Price_INVALID
      then bindE (sadd (bidPrice bbo) (askPrice bbo)) (\<lambda>sum.
           bindE (unreal_at F (fp_mul F (fp_int F (sint sum)) (fp_half F)) p) (\<lambda>x.
           Inr (p\<lparr>unrealPnL := x, totalPnL := fp_add F x (realPnL p)\<rparr>)))
      else Inr p)"

section \<open>All instruments\<close>

record 'd EPositionKeeper =
  m_tickerPosition :: "TickerId \<Rightarrow> 'd SPositionInfo"

definition EPositionKeeper_new :: "'d fp \<Rightarrow> (TickerId \<Rightarrow> 64 word \<Rightarrow> 'd) \<Rightarrow> 'd EPositionKeeper" where
  "EPositionKeeper_new F junk = \<lparr>m_tickerPosition = (\<lambda>t. SPositionInfo_default F (junk t))\<rparr>"

definition on_position :: "('d SPositionInfo \<Rightarrow> 'd SPositionInfo outcome) \<Rightarrow> TickerId \<Rightarrow> 'd EPositionKeeper \<Rightarrow> 'd EPositionKeeper outcome" where
  "on_position f t k =
     bindE (arr_at ME_MAX_TICKERS (m_tickerPosition k) t) (\<lambda>p.
     bindE (f p) (\<lambda>p'. Inr (k\<lparr>m_tickerPosition := (m_tickerPosition k)(t := p')\<rparr>)))"

definition pk_addFill :: "'d fp \<Rightarrow> SMEClientResponse \<Rightarrow> 'd EPositionKeeper \<Rightarrow> 'd EPositionKeeper outcome" where
  "pk_addFill F r = on_position (addFill F r) (resp_tickerId r)"

definition pk_UpdateBBO :: "'d fp \<Rightarrow> TickerId \<Rightarrow> SBBO \<Rightarrow> 'd EPositionKeeper \<Rightarrow> 'd EPositionKeeper outcome" where
  "pk_UpdateBBO F t bbo = on_position (pos_UpdateBBO F bbo) t"

definition getPositionInfo :: "TickerId \<Rightarrow> 'd EPositionKeeper \<Rightarrow> 'd SPositionInfo outcome" where
  "getPositionInfo t k = arr_at ME_MAX_TICKERS (m_tickerPosition k) t"

definition EPositionKeeper_ToString :: "'d fp \<Rightarrow> 'd EPositionKeeper \<Rightarrow> string outcome" where
  "EPositionKeeper_ToString F k =
     bindE (foldE (\<lambda>i (ss, totalPnl, totalVol). let p = m_tickerPosition k (of_nat i) in
              bindE (SPositionInfo_ToString F p) (\<lambda>str.
              Inr (ss @ ''TickerId:'' @ TickerIdToString (of_nat i) @ '' '' @ str @ [CHR 0x0A], fp_add F totalPnl (totalPnL p), totalVol + volume p)))
            [0..<ME_MAX_TICKERS] ([], fp_int F 0, 0)) (\<lambda>(ss, totalPnl, totalVol :: Qty).
     Inr (ss @ ''Total PnL:'' @ fp_show F totalPnl @ '' Vol:'' @ to_string_nat (unat totalVol) @ [CHR 0x0A]))"

end
