(* ===== verification/OrderManager.thy ===== *)
theory OrderManager
  imports PositionKeeper LockFreeQueue
begin

text \<open>
  \<open>trading/strategy/OrderManager.h\<close> and \<open>.cpp\<close>, \<open>OrderManagerOrder.h\<close>, \<open>RiskManager.h\<close> and \<open>.cpp\<close>, and the
  configurations of \<open>common/Types.h\<close>: the orders of a trading algorithm, at most one per instrument and
  side, and the checks before a new one is sent.  The risk manager reads the position keeper through
  pointers; here the position keeper is an argument.
\<close>

section \<open>Configurations\<close>

record 'd ERiskCfg =
  max_order_size :: Qty
  max_position :: Qty
  max_loss :: 'd

definition ERiskCfg_ToString :: "'d fp \<Rightarrow> 'd ERiskCfg \<Rightarrow> string" where
  "ERiskCfg_ToString F c = ''ERiskCfg{max-order-size:'' @ QtyToString (max_order_size c) @ '' max-position:''
     @ QtyToString (max_position c) @ '' max-loss:'' @ fp_show F (max_loss c) @ ''}''"

record 'd ETradeEngineCfg =
  cfg_clip :: Qty
  cfg_threshold :: 'd
  cfg_riskCfg :: "'d ERiskCfg"

definition ETradeEngineCfg_ToString :: "'d fp \<Rightarrow> 'd ETradeEngineCfg \<Rightarrow> string" where
  "ETradeEngineCfg_ToString F c = ''ETradeEngineCfg{clip:'' @ QtyToString (cfg_clip c) @ '' thresh:'' @ fp_show F (cfg_threshold c)
     @ '' risk:'' @ ERiskCfg_ToString F (cfg_riskCfg c) @ ''}''"

section \<open>Risk\<close>

datatype ERiskCheckResult = Risk_INVALID | ORDER_TOO_LARGE | POSITION_TOO_LARGE | LOSS_TOO_LARGE | ALLOWED

fun riskCheckResultToString :: "ERiskCheckResult \<Rightarrow> string" where
  "riskCheckResultToString Risk_INVALID = ''INVALID''"
| "riskCheckResultToString ORDER_TOO_LARGE = ''ORDER_TOO_LARGE''"
| "riskCheckResultToString POSITION_TOO_LARGE = ''POSITION_TOO_LARGE''"
| "riskCheckResultToString LOSS_TOO_LARGE = ''LOSS_TOO_LARGE''"
| "riskCheckResultToString ALLOWED = ''ALLOWED''"

definition SRiskInfo_check :: "'d fp \<Rightarrow> 'd SPositionInfo \<Rightarrow> 'd ERiskCfg \<Rightarrow> ESide \<Rightarrow> Qty \<Rightarrow> ERiskCheckResult outcome" where
  "SRiskInfo_check F pos cfg side qty =
     (if qty > max_order_size cfg then Inr ORDER_TOO_LARGE
      else bindE (smul (word_of_int (SideToValue side)) qty) (\<lambda>change.
           bindE (sadd (position pos) change) (\<lambda>after.
           bindE (sabs after) (\<lambda>size.
           Inr (if sint size > sint (max_position cfg) then POSITION_TOO_LARGE
                else if fp_lt F (totalPnL pos) (max_loss cfg) then LOSS_TOO_LARGE
                else ALLOWED)))))"

definition SRiskInfo_ToString :: "'d fp \<Rightarrow> 'd SPositionInfo \<Rightarrow> 'd ERiskCfg \<Rightarrow> string outcome" where
  "SRiskInfo_ToString F pos cfg = bindE (SPositionInfo_ToString F pos) (\<lambda>p.
     Inr (''SRiskInfo[pos:'' @ p @ '' '' @ ERiskCfg_ToString F cfg @ '']''))"

record 'd CRiskManager =
  m_tickerRisk :: "TickerId \<Rightarrow> 'd ERiskCfg"

definition CRiskManager_new :: "(TickerId \<Rightarrow> 'd ETradeEngineCfg) \<Rightarrow> 'd CRiskManager" where
  "CRiskManager_new tickerCfg = \<lparr>m_tickerRisk = (\<lambda>t. cfg_riskCfg (tickerCfg t))\<rparr>"

definition checkPreTradeRisk :: "'d fp \<Rightarrow> 'd EPositionKeeper \<Rightarrow> 'd CRiskManager \<Rightarrow> TickerId \<Rightarrow> ESide \<Rightarrow> Qty \<Rightarrow> ERiskCheckResult outcome" where
  "checkPreTradeRisk F k rm t side qty =
     bindE (arr_at ME_MAX_TICKERS (m_tickerRisk rm) t) (\<lambda>cfg.
     bindE (getPositionInfo t k) (\<lambda>pos. SRiskInfo_check F pos cfg side qty))"

section \<open>Orders\<close>

datatype EOMOrderState = OM_INVALID | PENDING_NEW | LIVE | PENDING_CANCEL | DEAD

fun OMOrderStateToString :: "EOMOrderState \<Rightarrow> string" where
  "OMOrderStateToString PENDING_NEW = ''PENDING_NEW''"
| "OMOrderStateToString LIVE = ''LIVE''"
| "OMOrderStateToString PENDING_CANCEL = ''PENDING_CANCEL''"
| "OMOrderStateToString DEAD = ''DEAD''"
| "OMOrderStateToString OM_INVALID = ''INVALID''"

record SOMOrder =
  om_tickerId :: TickerId
  om_orderId :: OrderId
  om_side :: ESide
  om_price :: Price
  om_qty :: Qty
  om_orderState :: EOMOrderState

definition SOMOrder_default :: SOMOrder where
  "SOMOrder_default = \<lparr>om_tickerId = TickerId_INVALID, om_orderId = OrderId_INVALID, om_side = Side_INVALID,
     om_price = Price_INVALID, om_qty = Qty_INVALID, om_orderState = OM_INVALID\<rparr>"

definition SOMOrder_ToString :: "SOMOrder \<Rightarrow> string" where
  "SOMOrder_ToString x = ''SOMOrder[tid:'' @ TickerIdToString (om_tickerId x) @ '' oid:'' @ OrderIdToString (om_orderId x)
     @ '' side:'' @ SideToString (om_side x) @ '' price:'' @ PriceToString (om_price x) @ '' qty:'' @ QtyToString (om_qty x)
     @ '' state:'' @ OMOrderStateToString (om_orderState x) @ '']''"

section \<open>The order manager\<close>

text \<open>
  A pointer to an order is its place in the table.  The manager sends through the trade engine, whose
  client id and request queue are the last two members.
\<close>

type_synonym order_place = "TickerId \<times> 64 word"

record COrderManager =
  m_tickerSideOrder :: "order_place \<Rightarrow> SOMOrder"
  m_nextOrderId :: OrderId
  om_clientId :: ClientId
  om_requests :: "SMEClientRequest CLockFreeQueue"

definition COrderManager_new :: "ClientId \<Rightarrow> SMEClientRequest CLockFreeQueue \<Rightarrow> COrderManager" where
  "COrderManager_new client q = \<lparr>m_tickerSideOrder = (\<lambda>_. SOMOrder_default), m_nextOrderId = 1, om_clientId = client, om_requests = q\<rparr>"

definition sendClientRequest :: "SMEClientRequest \<Rightarrow> COrderManager \<Rightarrow> COrderManager" where
  "sendClientRequest r om = om\<lparr>om_requests := enqueue r (om_requests om)\<rparr>"

definition order_at :: "TickerId \<Rightarrow> ESide \<Rightarrow> order_place outcome" where
  "order_at t side = (if unat t < ME_MAX_TICKERS then Inr (t, SideToIndex side) else Inl OutOfRange)"

definition order_put :: "order_place \<Rightarrow> SOMOrder \<Rightarrow> COrderManager \<Rightarrow> COrderManager" where
  "order_put pOrder x om = om\<lparr>m_tickerSideOrder := (m_tickerSideOrder om)(pOrder := x)\<rparr>"

definition om_onOrderUpdate :: "SMEClientResponse \<Rightarrow> COrderManager \<Rightarrow> COrderManager outcome" where
  "om_onOrderUpdate r om =
     bindE (order_at (resp_tickerId r) (resp_side r)) (\<lambda>pOrder. let x = m_tickerSideOrder om pOrder in
     Inr (case resp_type r of
            ACCEPTED \<Rightarrow> order_put pOrder (x\<lparr>om_orderState := LIVE\<rparr>) om
          | CANCELED \<Rightarrow> order_put pOrder (x\<lparr>om_orderState := DEAD\<rparr>) om
          | FILLED \<Rightarrow> (let x1 = x\<lparr>om_qty := resp_leavesQty r\<rparr>
                      in order_put pOrder (if om_qty x1 = 0 then x1\<lparr>om_orderState := DEAD\<rparr> else x1) om)
          | _ \<Rightarrow> om))"

definition newOrder :: "order_place \<Rightarrow> TickerId \<Rightarrow> Price \<Rightarrow> ESide \<Rightarrow> Qty \<Rightarrow> COrderManager \<Rightarrow> COrderManager" where
  "newOrder pOrder ticker_id price side qty om =
     (let new_request = \<lparr>req_type = Req_NEW, req_clientId = om_clientId om, req_tickerId = ticker_id, req_orderId = m_nextOrderId om,
            req_side = side, req_price = price, req_qty = qty\<rparr>;
          om1 = sendClientRequest new_request om;
          om2 = order_put pOrder \<lparr>om_tickerId = ticker_id, om_orderId = m_nextOrderId om1, om_side = side, om_price = price,
            om_qty = qty, om_orderState = PENDING_NEW\<rparr> om1
      in om2\<lparr>m_nextOrderId := m_nextOrderId om2 + 1\<rparr>)"

definition cancelOrder :: "order_place \<Rightarrow> COrderManager \<Rightarrow> COrderManager" where
  "cancelOrder pOrder om =
     (let x = m_tickerSideOrder om pOrder;
          om1 = sendClientRequest \<lparr>req_type = Req_CANCEL, req_clientId = om_clientId om, req_tickerId = om_tickerId x,
            req_orderId = om_orderId x, req_side = om_side x, req_price = om_price x, req_qty = om_qty x\<rparr> om
      in order_put pOrder (x\<lparr>om_orderState := PENDING_CANCEL\<rparr>) om1)"

definition moveOrder :: "'d fp \<Rightarrow> 'd EPositionKeeper \<Rightarrow> 'd CRiskManager \<Rightarrow> order_place \<Rightarrow> TickerId \<Rightarrow> Price \<Rightarrow> ESide \<Rightarrow> Qty
    \<Rightarrow> COrderManager \<Rightarrow> COrderManager outcome" where
  "moveOrder F k rm pOrder ticker_id price side qty om =
     (case om_orderState (m_tickerSideOrder om pOrder) of
        LIVE \<Rightarrow> Inr (if om_price (m_tickerSideOrder om pOrder) \<noteq> price then cancelOrder pOrder om else om)
      | PENDING_NEW \<Rightarrow> Inr om
      | PENDING_CANCEL \<Rightarrow> Inr om
      | _ \<Rightarrow> if price \<noteq> Price_INVALID
            then bindE (checkPreTradeRisk F k rm ticker_id side qty) (\<lambda>risk_result.
                 Inr (if risk_result = ALLOWED then newOrder pOrder ticker_id price side qty om else om))
            else Inr om)"

definition moveOrders :: "'d fp \<Rightarrow> 'd EPositionKeeper \<Rightarrow> 'd CRiskManager \<Rightarrow> TickerId \<Rightarrow> Price \<Rightarrow> Price \<Rightarrow> Qty
    \<Rightarrow> COrderManager \<Rightarrow> COrderManager outcome" where
  "moveOrders F k rm ticker_id bid_price ask_price clip om =
     bindE (order_at ticker_id BUY) (\<lambda>bid_order.
     bindE (moveOrder F k rm bid_order ticker_id bid_price BUY clip om) (\<lambda>om1.
     bindE (order_at ticker_id SELL) (\<lambda>ask_order.
     moveOrder F k rm ask_order ticker_id ask_price SELL clip om1)))"

end
