(* ===== verification/PositionPnL.thy ===== *)
theory PositionPnL
  imports PositionKeeper
begin

text \<open>
  The profit that the position keeper reports, in exact arithmetic: cash received minus cash paid, plus
  the value of the open position at the last price.  The range of positions is the one in which the
  code's products of two positions do not overflow.
\<close>

section \<open>Specification\<close>

definition fill_qty :: "SMEClientResponse \<Rightarrow> int" where
  "fill_qty r = SideToValue (resp_side r) * uint (resp_execQty r)"

definition net_position :: "SMEClientResponse list \<Rightarrow> int" where
  "net_position fs = sum_list (map fill_qty fs)"

definition cash_flow :: "SMEClientResponse list \<Rightarrow> int" where
  "cash_flow fs = - sum_list (map (\<lambda>r. fill_qty r * sint (resp_price r)) fs)"

definition max_safe :: int where "max_safe = 46340"

definition fill_ok :: "int \<Rightarrow> SMEClientResponse \<Rightarrow> bool" where
  "fill_ok P r \<longleftrightarrow> resp_side r \<in> {BUY, SELL} \<and> \<bar>sint (resp_price r)\<bar> \<le> 2 ^ 32 \<and> \<bar>P + fill_qty r\<bar> \<le> max_safe"

fun fills_ok :: "int \<Rightarrow> SMEClientResponse list \<Rightarrow> bool" where
  "fills_ok P [] = True"
| "fills_ok P (r # rs) = (fill_ok P r \<and> fills_ok (P + fill_qty r) rs)"

section \<open>The invariant\<close>

definition pnl_inv :: "real \<Rightarrow> real option SPositionInfo \<Rightarrow> bool" where
  "pnl_inv c p \<longleftrightarrow> (\<exists>b s. realPnL p = Some (c + b - s) \<and> openVWAP p (SideToIndex BUY) = Some b \<and> openVWAP p (SideToIndex SELL) = Some s
     \<and> (sint (position p) \<ge> 0 \<longrightarrow> s = 0) \<and> (sint (position p) \<le> 0 \<longrightarrow> b = 0))"

lemma small32: "\<bar>n :: int\<bar> < 2 ^ 31 \<Longrightarrow> n \<in> {- (2 ^ (LENGTH(32) - 1)) ..< 2 ^ (LENGTH(32) - 1)}"
  by auto

lemma sabs_small: "\<bar>sint (a :: 32 word)\<bar> < 2 ^ 31 \<Longrightarrow> \<exists>n. sabs a = Inr n \<and> sint n = \<bar>sint a\<bar>"
  unfolding sabs_def by (rule signed_ofI [OF small32]) simp

lemma smul_small: "\<bar>sint (a :: 32 word) * sint b\<bar> < 2 ^ 31 \<Longrightarrow> \<exists>n. smul a b = Inr n \<and> sint n = sint a * sint b"
  unfolding smul_def by (rule signed_ofI [OF small32])

lemma signed64: "\<bar>n\<bar> < 2 ^ 63 \<Longrightarrow> \<exists>w :: 64 word. signed_of n = Inr w \<and> sint w = n"
  by (rule signed_ofI) auto

lemma price_times: "\<bar>p :: int\<bar> \<le> 2 ^ 32 \<Longrightarrow> 0 \<le> q \<Longrightarrow> q \<le> 2 * max_safe \<Longrightarrow> \<bar>p * q :: int\<bar> < 2 ^ 63"
proof -
  assume "\<bar>p\<bar> \<le> 2 ^ 32" "0 \<le> q" "q \<le> 2 * max_safe"
  then have "\<bar>p\<bar> * \<bar>q\<bar> \<le> 2 ^ 32 * (2 * max_safe)" by (intro mult_mono) auto
  then show ?thesis by (simp add: abs_mult max_safe_def)
qed

lemma sint_side: "sint (word_of_int (SideToValue side) :: 32 word) = SideToValue side"
  by (cases side) simp_all

lemma new_position:
  assumes "\<bar>sint p + fill_qty r\<bar> < 2 ^ 31"
  shows "sint (p + resp_execQty r * word_of_int (SideToValue (resp_side r))) = sint p + fill_qty r"
proof -
  have w: "p + resp_execQty r * word_of_int (SideToValue (resp_side r)) = word_of_int (sint p + fill_qty r)"
    by (simp add: fill_qty_def mult.commute)
  show ?thesis unfolding w by (rule sint_word_of_int_range [OF small32 [OF assms]])
qed

lemmas real_sint = of_int_sint of_int_uint

lemma unreal_at_exact:
  assumes "pnl_inv c p" and "position p \<noteq> 0" and "\<bar>sint (position p)\<bar> \<le> max_safe" and "realPnL p = Some r"
  shows "unreal_at exact_fp (Some x) p = Inr (Some (c + x * of_int (sint (position p)) - r))"
proof -
  obtain n where n: "sabs (position p) = Inr n" "sint n = \<bar>sint (position p)\<bar>"
    using sabs_small [of "position p"] assms(3) by (auto simp: max_safe_def)
  have "sint (position p) \<noteq> 0" using assms(2) sint_word_eq [of "position p" 0] by simp
  then show ?thesis using assms(1,4) n by (auto simp: unreal_at_def pnl_inv_def Let_def field_simps simp del: real_sint)
qed

text \<open>One fill that opens or increases, and one that decreases or flips the position.\<close>

lemma open_fill_exact:
  assumes inv: "pnl_inv c p0" and r: "fill_ok (sint (position p0)) r" and P: "\<bar>sint (position p0)\<bar> \<le> max_safe"
    and dir: "sint (position p0) * SideToValue (resp_side r) \<ge> 0"
    and p: "realPnL p = realPnL p0" "openVWAP p = openVWAP p0" "sint (position p) = sint (position p0) + fill_qty r"
  shows "\<exists>p1. open_fill exact_fp r p = Inr p1 \<and> pnl_inv (c - of_int (fill_qty r) * of_int (sint (resp_price r))) p1 \<and> position p1 = position p"
proof -
  have q: "\<bar>fill_qty r\<bar> = uint (resp_execQty r)" "uint (resp_execQty r) \<le> 2 * max_safe"
    using r P by (auto simp: fill_ok_def fill_qty_def max_safe_def)
  obtain w :: "64 word" where w: "signed_of (sint (resp_price r) * uint (resp_execQty r)) = Inr w" "sint w = sint (resp_price r) * uint (resp_execQty r)"
    using signed64 [OF price_times [of "sint (resp_price r)" "uint (resp_execQty r)"]] r q(2) by (auto simp: fill_ok_def)
  define Q X where "Q = uint (resp_execQty r)" and "X = sint (resp_price r)"
  have "0 \<le> Q" by (simp add: Q_def)
  then show ?thesis using inv r dir p w
    by (auto simp: open_fill_def fill_ok_def pnl_inv_def fill_qty_def Q_def [symmetric] X_def [symmetric] algebra_simps simp del: real_sint)
qed


lemma close_fill_exact:
  assumes inv: "pnl_inv c p0" and r: "fill_ok (sint (position p0)) r" and P: "\<bar>sint (position p0)\<bar> \<le> max_safe"
    and dir: "sint (position p0) * SideToValue (resp_side r) < 0"
    and p: "realPnL p = realPnL p0" "openVWAP p = openVWAP p0" "sint (position p) = sint (position p0) + fill_qty r"
  shows "\<exists>p1. close_fill exact_fp (position p0) r p = Inr p1 \<and> pnl_inv (c - of_int (fill_qty r) * of_int (sint (resp_price r))) p1
    \<and> position p1 = position p"
proof -
  define Q X P N where "Q = uint (resp_execQty r)" and "X = sint (resp_price r)" and "P = sint (position p0)" and "N = sint (position p)"
  have N: "N = P + SideToValue (resp_side r) * Q" using p(3) by (simp add: N_def P_def Q_def fill_qty_def)
  have b: "\<bar>N\<bar> \<le> max_safe" "\<bar>P\<bar> \<le> max_safe" "0 \<le> Q" using r P p(3) by (simp_all add: fill_ok_def N_def P_def Q_def)
  have Q: "Q < 2 ^ 31" using N b r by (auto simp: fill_ok_def max_safe_def)
  have sq: "sint (resp_execQty r) = Q"
  proof -
    have "resp_execQty r = word_of_int Q" by (simp add: Q_def)
    then show ?thesis using sint_word_of_int_range [OF small32, of Q] Q b(3) by simp
  qed
  obtain m n where mn: "sabs (position p0) = Inr m" "sint m = \<bar>P\<bar>" "sabs (position p) = Inr n" "sint n = \<bar>N\<bar>"
    using sabs_small [of "position p0"] sabs_small [of "position p"] b by (auto simp: P_def N_def max_safe_def)
  have "\<bar>N\<bar> * \<bar>P\<bar> \<le> max_safe * max_safe" by (intro mult_mono b) (simp_all add: max_safe_def)
  then obtain w where w: "smul (position p) (position p0) = Inr w" "sint w = N * P"
    using smul_small [of "position p" "position p0"] by (auto simp: N_def P_def abs_mult max_safe_def)
  have "\<bar>X * \<bar>N\<bar>\<bar> < 2 ^ 63" using price_times [of X "\<bar>N\<bar>"] r b(1) by (simp add: fill_ok_def X_def)
  then obtain v :: "64 word" where v: "signed_of (X * \<bar>N\<bar>) = Inr v" "sint v = X * \<bar>N\<bar>" using signed64 by blast
  note defs = close_fill_def fill_ok_def pnl_inv_def fill_qty_def Q_def [symmetric] X_def [symmetric] P_def [symmetric] N_def [symmetric]
  consider (buy) "resp_side r = BUY" "P < 0" "N = P + Q" | (sell) "resp_side r = SELL" "0 < P" "N = P - Q"
    using r dir N by (auto simp: fill_ok_def P_def)
  then show ?thesis
  proof cases
    case buy
    then obtain s where s: "realPnL p0 = Some (c - s)" "openVWAP p0 2 = Some 0" "openVWAP p0 0 = Some s"
      using inv by (auto simp: pnl_inv_def P_def)
    show ?thesis
    proof (cases "0 < N")
      case True
      then have "N * P < 0" "min Q \<bar>P\<bar> = - P" using buy by (simp_all add: mult_pos_neg)
      then show ?thesis using buy True s p(1,2) mn w v sq
        by (simp add: defs Let_def field_simps del: real_sint)
    next
      case False
      then have "\<not> N * P < 0" "min Q \<bar>P\<bar> = Q" "\<bar>N\<bar> = - N" using buy by (simp_all add: mult_less_0_iff)
      then show ?thesis using buy False s p(1,2) mn w v sq
        by (simp add: defs Let_def del: real_sint) (auto simp: field_simps simp del: real_sint)
    qed
  next
    case sell
    then obtain s where s: "realPnL p0 = Some (c + s)" "openVWAP p0 2 = Some s" "openVWAP p0 0 = Some 0"
      using inv by (auto simp: pnl_inv_def P_def)
    show ?thesis
    proof (cases "N < 0")
      case True
      then have "N * P < 0" "min Q \<bar>P\<bar> = P" using sell by (simp_all add: mult_neg_pos)
      then show ?thesis using sell True s p(1,2) mn w v sq
        by (simp add: defs Let_def del: real_sint) (simp add: field_simps del: real_sint)
    next
      case False
      then have "\<not> N * P < 0" "min Q \<bar>P\<bar> = Q" "\<bar>N\<bar> = N" using sell by (simp_all add: mult_less_0_iff)
      then show ?thesis using sell False s p(1,2) mn w v sq
        by (simp add: defs Let_def del: real_sint) (auto simp: field_simps simp del: real_sint)
    qed
  qed
qed

section \<open>A fill and a quote\<close>

lemma addFill_exact:
  assumes inv: "pnl_inv c p0" and P: "\<bar>sint (position p0)\<bar> \<le> max_safe" and r: "fill_ok (sint (position p0)) r"
  defines "c' \<equiv> c - of_int (fill_qty r) * of_int (sint (resp_price r))"
  shows "\<exists>p. addFill exact_fp r p0 = Inr p \<and> pnl_inv c' p \<and> sint (position p) = sint (position p0) + fill_qty r
    \<and> volume p = volume p0 + resp_execQty r
    \<and> totalPnL p = Some (c' + of_int (sint (resp_price r)) * of_int (sint (position p)))"
proof -
  let ?side = "resp_side r" and ?x = "Some (of_int (sint (resp_price r))) :: real option"
  define p where "p = p0\<lparr>position := position p0 + resp_execQty r * word_of_int (SideToValue ?side), volume := volume p0 + resp_execQty r\<rparr>"
  have q: "sint (position p) = sint (position p0) + fill_qty r" using r new_position [of "position p0" r] by (simp add: fill_ok_def p_def max_safe_def)
  have pp: "realPnL p = realPnL p0" "openVWAP p = openVWAP p0" by (simp_all add: p_def)
  obtain d where d: "smul (position p0) (word_of_int (SideToValue ?side)) = Inr d" "sint d = sint (position p0) * SideToValue ?side"
    using smul_small [of "position p0" "word_of_int (SideToValue ?side)"] P r by (auto simp: sint_side max_safe_def fill_ok_def)
  have "\<exists>p1. (if sint d \<ge> 0 then open_fill exact_fp r p else close_fill exact_fp (position p0) r p) = Inr p1 \<and> pnl_inv c' p1 \<and> position p1 = position p"
    using open_fill_exact [OF inv r P _ pp q] close_fill_exact [OF inv r P _ pp q] d(2) unfolding c'_def by (cases "sint d \<ge> 0") simp_all
  then obtain p1 where p1: "(if sint d \<ge> 0 then open_fill exact_fp r p else close_fill exact_fp (position p0) r p) = Inr p1"
    "pnl_inv c' p1" "position p1 = position p" by blast
  have vol: "volume p1 = volume p" using p1(1) by (auto simp: open_fill_def close_fill_def Let_def bindE_eq_Inr split: if_splits)
  obtain x where x: "realPnL p1 = Some x" using p1(2) by (auto simp: pnl_inv_def)
  define p2 where "p2 = (if position p1 = 0 then p1\<lparr>openVWAP := (openVWAP p1)(SideToIndex BUY := Some 0, SideToIndex SELL := Some 0), unrealPnL := Some 0\<rparr>
    else p1\<lparr>unrealPnL := Some (c' + of_int (sint (resp_price r)) * of_int (sint (position p1)) - x)\<rparr>)"
  have p2: "pnl_inv c' p2" "unrealPnL p2 = Some (c' + of_int (sint (resp_price r)) * of_int (sint (position p1)) - x)" "realPnL p2 = Some x"
    "position p2 = position p1" "volume p2 = volume p1"
    using p1(2) x by (auto simp: p2_def pnl_inv_def simp del: real_sint)
  have "\<bar>sint (position p1)\<bar> \<le> max_safe" using r q by (simp add: p1(3) fill_ok_def)
  then have u: "unreal_at exact_fp ?x p1 = Inr (Some (c' + of_int (sint (resp_price r)) * of_int (sint (position p1)) - x))" if "position p1 \<noteq> 0"
    using unreal_at_exact [OF p1(2) that _ x] by blast
  have step: "(if position p1 = 0 then Inr (p1\<lparr>openVWAP := (openVWAP p1)(SideToIndex BUY := fp_int exact_fp 0, SideToIndex SELL := fp_int exact_fp 0), unrealPnL := fp_int exact_fp 0\<rparr>)
      else bindE (unreal_at exact_fp (fp_int exact_fp (sint (resp_price r))) p1) (\<lambda>x. Inr (p1\<lparr>unrealPnL := x\<rparr>))) = Inr p2"
    using u by (simp add: p2_def del: real_sint)
  define p3 where "p3 = p2\<lparr>totalPnL := Some (c' + of_int (sint (resp_price r)) * of_int (sint (position p1)))\<rparr>"
  have "addFill exact_fp r p0 = Inr p3"
    using p2(2,3) unfolding addFill_def Let_def p_def [symmetric] d(1) bindE_Inr p1(1) step p3_def by (simp del: real_sint)
  moreover have "pnl_inv c' p3" using p2(1) by (simp add: p3_def pnl_inv_def)
  ultimately show ?thesis using q p1(3) p2(4,5) vol by (simp add: p3_def p_def)
qed

lemma pos_UpdateBBO_exact:
  assumes inv: "pnl_inv c p" and P: "\<bar>sint (position p)\<bar> \<le> max_safe" "position p \<noteq> 0"
    and b: "bidPrice b \<noteq> Price_INVALID" "askPrice b \<noteq> Price_INVALID" "\<bar>sint (bidPrice b)\<bar> \<le> 2 ^ 32" "\<bar>sint (askPrice b)\<bar> \<le> 2 ^ 32"
  shows "\<exists>p'. pos_UpdateBBO exact_fp b p = Inr p' \<and> pnl_inv c p' \<and> position p' = position p
    \<and> totalPnL p' = Some (c + (of_int (sint (bidPrice b)) + of_int (sint (askPrice b))) / 2 * of_int (sint (position p)))"
proof -
  have "\<bar>sint (bidPrice b) + sint (askPrice b)\<bar> < 2 ^ 63" using b(3,4) by simp
  then obtain w where w: "sadd (bidPrice b) (askPrice b) = Inr w" "sint w = sint (bidPrice b) + sint (askPrice b)"
    unfolding sadd_def using signed64 by blast
  obtain x where x: "realPnL p = Some x" using inv by (auto simp: pnl_inv_def)
  show ?thesis using b(1,2) w P x inv unreal_at_exact [OF inv P(2,1) x, of "(of_int (sint (bidPrice b)) + of_int (sint (askPrice b))) * (1 / 2)"]
    by (auto simp: pos_UpdateBBO_def pnl_inv_def simp del: real_sint)
qed

lemma addFill_all:
  "pnl_inv c p0 \<Longrightarrow> \<bar>sint (position p0)\<bar> \<le> max_safe \<Longrightarrow> fills_ok (sint (position p0)) fs \<Longrightarrow>
    \<exists>p. foldE (addFill exact_fp) fs p0 = Inr p \<and> pnl_inv (c + of_int (cash_flow fs)) p \<and> sint (position p) = sint (position p0) + net_position fs
      \<and> \<bar>sint (position p)\<bar> \<le> max_safe \<and> volume p = volume p0 + sum_list (map resp_execQty fs)
      \<and> (fs \<noteq> [] \<longrightarrow> totalPnL p = Some (c + of_int (cash_flow fs) + of_int (sint (resp_price (last fs))) * of_int (sint (position p))))"
proof (induction fs arbitrary: c p0)
  case Nil
  then show ?case by (simp add: cash_flow_def net_position_def)
next
  case (Cons r fs)
  let ?c = "c - of_int (fill_qty r) * of_int (sint (resp_price r))"
  have ok: "fill_ok (sint (position p0)) r" using Cons.prems(3) by simp
  obtain p1 where p1: "addFill exact_fp r p0 = Inr p1" "pnl_inv ?c p1" "sint (position p1) = sint (position p0) + fill_qty r"
    "volume p1 = volume p0 + resp_execQty r" "totalPnL p1 = Some (?c + of_int (sint (resp_price r)) * of_int (sint (position p1)))"
    using addFill_exact [OF Cons.prems(1,2) ok] by blast
  have e: "c + of_int (cash_flow (r # fs)) = ?c + of_int (cash_flow fs)" by (simp add: cash_flow_def del: real_sint)
  have "\<bar>sint (position p1)\<bar> \<le> max_safe" "fills_ok (sint (position p1)) fs" using p1(3) Cons.prems(3) by (simp_all add: fill_ok_def)
  then obtain p where p: "foldE (addFill exact_fp) fs p1 = Inr p" "pnl_inv (?c + of_int (cash_flow fs)) p"
    "sint (position p) = sint (position p1) + net_position fs" "\<bar>sint (position p)\<bar> \<le> max_safe"
    "volume p = volume p1 + sum_list (map resp_execQty fs)"
    "fs \<noteq> [] \<longrightarrow> totalPnL p = Some (?c + of_int (cash_flow fs) + of_int (sint (resp_price (last fs))) * of_int (sint (position p)))"
    using Cons.IH [OF p1(2)] by blast
  have "totalPnL p = Some (?c + of_int (cash_flow fs) + of_int (sint (resp_price (last (r # fs)))) * of_int (sint (position p)))"
    using p(6) p(1) p1(5) by (cases fs) (simp_all add: cash_flow_def del: real_sint)
  then show ?case unfolding e using p1 p by (simp add: net_position_def add.assoc del: real_sint)
qed

end
