(* ===== verification/OrderFlow.thy ===== *)
theory OrderFlow
  imports OrderManager PositionPnL
begin

text \<open>
  Runs of the order manager together with the position keeper: quotes of the algorithm, responses of
  the exchange and changes of the best bid and offer, in any order.  Requests and responses balance per
  instrument and side, and the risk check bounds the position when the responses fit the orders.
\<close>

section \<open>Events\<close>

datatype om_event = Quotes TickerId Price Price Qty | Responded SMEClientResponse | BboChanged TickerId SBBO

fun om_run_event :: "'d fp \<Rightarrow> 'd CRiskManager \<Rightarrow> om_event \<Rightarrow> 'd EPositionKeeper \<times> COrderManager \<Rightarrow> ('d EPositionKeeper \<times> COrderManager) outcome" where
  "om_run_event F rm (Quotes t bid ask clip) (k, om) = bindE (moveOrders F k rm t bid ask clip om) (\<lambda>om'. Inr (k, om'))"
| "om_run_event F rm (Responded r) (k, om) =
     bindE (if resp_type r = FILLED then pk_addFill F r k else Inr k) (\<lambda>k'.
     bindE (om_onOrderUpdate r om) (\<lambda>om'. Inr (k', om')))"
| "om_run_event F rm (BboChanged t bbo) (k, om) = bindE (pk_UpdateBBO F t bbo k) (\<lambda>k'. Inr (k', om))"

definition active :: "EOMOrderState \<Rightarrow> bool" where
  "active st \<longleftrightarrow> st \<noteq> OM_INVALID \<and> st \<noteq> DEAD"

section \<open>What one call changes\<close>

text \<open>The three outcomes of \<open>moveOrder\<close>: nothing, one new order, or one cancel.\<close>

lemma moveOrder_cases:
  assumes "moveOrder F k rm pl t price side qty om = Inr om'"
  obtains "om' = om"
  | "om' = newOrder pl t price side qty om" "\<not> active (om_orderState (m_tickerSideOrder om pl))"
    "checkPreTradeRisk F k rm t side qty = Inr ALLOWED"
  | "om' = cancelOrder pl om" "om_orderState (m_tickerSideOrder om pl) = LIVE"
  using assms unfolding moveOrder_def
  by (auto simp: bindE_eq_Inr active_def split: EOMOrderState.splits if_splits)

lemma moveOrders_steps:
  assumes "moveOrders F k rm t bid ask clip om = Inr om'"
  obtains om1 where "unat t < ME_MAX_TICKERS" "moveOrder F k rm (t, SideToIndex BUY) t bid BUY clip om = Inr om1"
    "moveOrder F k rm (t, SideToIndex SELL) t ask SELL clip om1 = Inr om'"
  using assms by (auto simp: moveOrders_def order_at_def bindE_eq_Inr split: if_splits)

lemma newOrder_sel:
  "m_tickerSideOrder (newOrder pl t price side qty om) = (m_tickerSideOrder om)(pl := \<lparr>om_tickerId = t, om_orderId = m_nextOrderId om,
     om_side = side, om_price = price, om_qty = qty, om_orderState = PENDING_NEW\<rparr>)"
  "om_requests (newOrder pl t price side qty om) = enqueue \<lparr>req_type = Req_NEW, req_clientId = om_clientId om, req_tickerId = t,
     req_orderId = m_nextOrderId om, req_side = side, req_price = price, req_qty = qty\<rparr> (om_requests om)"
  by (simp_all add: newOrder_def Let_def sendClientRequest_def order_put_def)

lemma cancelOrder_sel:
  "m_tickerSideOrder (cancelOrder pl om) = (m_tickerSideOrder om)(pl := (m_tickerSideOrder om pl)\<lparr>om_orderState := PENDING_CANCEL\<rparr>)"
  "om_requests (cancelOrder pl om) = enqueue \<lparr>req_type = Req_CANCEL, req_clientId = om_clientId om, req_tickerId = om_tickerId (m_tickerSideOrder om pl),
     req_orderId = om_orderId (m_tickerSideOrder om pl), req_side = om_side (m_tickerSideOrder om pl),
     req_price = om_price (m_tickerSideOrder om pl), req_qty = om_qty (m_tickerSideOrder om pl)\<rparr> (om_requests om)"
  by (simp_all add: cancelOrder_def Let_def sendClientRequest_def order_put_def)

definition respond :: "SMEClientResponse \<Rightarrow> SOMOrder \<Rightarrow> SOMOrder" where
  "respond r x = (case resp_type r of
      ACCEPTED \<Rightarrow> x\<lparr>om_orderState := LIVE\<rparr>
    | CANCELED \<Rightarrow> x\<lparr>om_orderState := DEAD\<rparr>
    | FILLED \<Rightarrow> x\<lparr>om_qty := resp_leavesQty r, om_orderState := if resp_leavesQty r = 0 then DEAD else om_orderState x\<rparr>
    | _ \<Rightarrow> x)"

lemma om_onOrderUpdate_eq:
  "om_onOrderUpdate r om = (if unat (resp_tickerId r) < ME_MAX_TICKERS
     then let pl = (resp_tickerId r, SideToIndex (resp_side r)) in Inr (order_put pl (respond r (m_tickerSideOrder om pl)) om)
     else Inl OutOfRange)"
  by (auto simp: om_onOrderUpdate_def order_at_def respond_def Let_def order_put_def split: EClientResponseType.splits)

section \<open>Requests and responses balance\<close>

definition about :: "TickerId \<Rightarrow> ESide \<Rightarrow> EClientRequestType \<Rightarrow> SMEClientRequest \<Rightarrow> bool" where
  "about t side ty r \<longleftrightarrow> req_type r = ty \<and> req_tickerId r = t \<and> req_side r = side"

fun ends_order :: "TickerId \<Rightarrow> ESide \<Rightarrow> om_event \<Rightarrow> bool" where
  "ends_order t side (Responded r) \<longleftrightarrow> resp_tickerId r = t \<and> resp_side r = side
     \<and> (resp_type r = CANCELED \<or> resp_type r = FILLED \<and> resp_leavesQty r = 0)"
| "ends_order t side _ = False"

fun accepts_order :: "TickerId \<Rightarrow> ESide \<Rightarrow> om_event \<Rightarrow> bool" where
  "accepts_order t side (Responded r) \<longleftrightarrow> resp_tickerId r = t \<and> resp_side r = side \<and> resp_type r = ACCEPTED"
| "accepts_order t side _ = False"

definition count :: "('a \<Rightarrow> bool) \<Rightarrow> 'a list \<Rightarrow> nat" where
  "count P xs = length (filter P xs)"

lemma count_simps [simp]: "count P [] = 0" "count P (x # xs) = (if P x then 1 else 0) + count P xs" "count P (xs @ ys) = count P xs + count P ys"
  by (simp_all add: count_def)

definition at_home :: "COrderManager \<Rightarrow> bool" where
  "at_home om \<longleftrightarrow> (\<forall>pl. let x = m_tickerSideOrder om pl in om_side x = Side_INVALID \<or> pl = (om_tickerId x, SideToIndex (om_side x)))"

definition sided :: "TickerId \<Rightarrow> ESide \<Rightarrow> om_event list \<Rightarrow> COrderManager \<Rightarrow> bool" where
  "sided t side es om \<longleftrightarrow> (let st = om_orderState (m_tickerSideOrder om (t, SideToIndex side)); rs = contents (om_requests om) in
     count (about t side Req_NEW) rs \<le> count (ends_order t side) es + (if active st then 1 else 0)
     \<and> count (about t side Req_CANCEL) rs + (if st = LIVE then 1 else 0) \<le> count (accepts_order t side) es)"

definition balanced :: "om_event list \<Rightarrow> COrderManager \<Rightarrow> bool" where
  "balanced es om \<longleftrightarrow> queue_ok (om_requests om) \<and> at_home om \<and> (\<forall>t. \<forall>side\<in>sides. sided t side es om)"

lemma newOrder_sided:
  assumes q: "contents (om_requests om') = contents (om_requests om) @ [\<lparr>req_type = Req_NEW, req_clientId = c, req_tickerId = t,
      req_orderId = i, req_side = side, req_price = p, req_qty = n\<rparr>]"
    and o: "m_tickerSideOrder om' = (m_tickerSideOrder om)((t, SideToIndex side) := x)" "om_orderState x = PENDING_NEW"
    and st: "\<not> active (om_orderState (m_tickerSideOrder om (t, SideToIndex side)))" and s: "sided t' side' es om"
  shows "sided t' side' es om'"
proof (cases "t' = t \<and> side' = side")
  case True
  then show ?thesis using s st unfolding sided_def Let_def q o(1) by (simp add: about_def active_def o(2)) auto
next
  case False
  then have "(t', SideToIndex side') \<noteq> (t, SideToIndex side)" by (auto simp: SideToIndex_inj)
  then show ?thesis using s False unfolding sided_def Let_def q o(1) by (auto simp: about_def)
qed

lemma cancelOrder_sided:
  assumes q: "contents (om_requests om') = contents (om_requests om) @ [\<lparr>req_type = Req_CANCEL, req_clientId = c, req_tickerId = t,
      req_orderId = i, req_side = side, req_price = p, req_qty = n\<rparr>]"
    and o: "m_tickerSideOrder om' = (m_tickerSideOrder om)(pl := x)" "om_orderState x = PENDING_CANCEL"
    and st: "om_orderState (m_tickerSideOrder om pl) = LIVE" and home: "side = Side_INVALID \<or> pl = (t, SideToIndex side)"
    and s: "sided t' side' es om" "side' \<in> sides"
  shows "sided t' side' es om'"
proof (cases "t' = t \<and> side' = side")
  case True
  then have "pl = (t', SideToIndex side')" using home s(2) by (auto simp: sides_def)
  then show ?thesis using True s(1) st unfolding sided_def Let_def q o(1) by (simp add: about_def active_def o(2))
next
  case False
  then show ?thesis using s(1) st o(2) unfolding sided_def Let_def q o(1)
    by (cases "pl = (t', SideToIndex side')") (auto simp: about_def active_def)
qed

lemma moveOrder_balanced:
  assumes m: "moveOrder F k rm (t, SideToIndex side) t price side qty om = Inr om'" and b: "balanced es om"
    and room: "length (contents (om_requests om)) < q_size (om_requests om)"
  shows "balanced es om' \<and> length (contents (om_requests om')) \<le> Suc (length (contents (om_requests om)))
    \<and> q_size (om_requests om') = q_size (om_requests om)"
  using m
proof (cases rule: moveOrder_cases)
  case 1
  then show ?thesis using b by simp
next
  case 2
  have q: "queue_ok (om_requests om')" "q_size (om_requests om') = q_size (om_requests om)"
    "contents (om_requests om') = contents (om_requests om) @ [\<lparr>req_type = Req_NEW, req_clientId = om_clientId om, req_tickerId = t,
      req_orderId = m_nextOrderId om, req_side = side, req_price = price, req_qty = qty\<rparr>]"
    using b lfq.enq_law [OF _ room] unfolding 2(1) newOrder_sel balanced_def by (simp_all del: length_contents)
  have "at_home om'" using b unfolding 2(1) at_home_def newOrder_sel balanced_def by simp
  moreover have "sided t' side' es om'" if "side' \<in> sides" for t' side'
    using newOrder_sided [OF q(3) newOrder_sel(1) [of "(t, SideToIndex side)" t price side qty om, folded 2(1)] _ 2(2), of t' side' es] b that
    by (simp add: balanced_def)
  ultimately show ?thesis using q by (simp add: balanced_def del: length_contents)
next
  case 3
  let ?x = "m_tickerSideOrder om (t, SideToIndex side)"
  have q: "queue_ok (om_requests om')" "q_size (om_requests om') = q_size (om_requests om)"
    "contents (om_requests om') = contents (om_requests om) @ [\<lparr>req_type = Req_CANCEL, req_clientId = om_clientId om, req_tickerId = om_tickerId ?x,
      req_orderId = om_orderId ?x, req_side = om_side ?x, req_price = om_price ?x, req_qty = om_qty ?x\<rparr>]"
    using b lfq.enq_law [OF _ room] unfolding 3(1) cancelOrder_sel balanced_def by (simp_all del: length_contents)
  have home: "om_side ?x = Side_INVALID \<or> (t, SideToIndex side) = (om_tickerId ?x, SideToIndex (om_side ?x))"
    using b unfolding balanced_def at_home_def Let_def by blast
  have "at_home om'" using b unfolding 3(1) at_home_def cancelOrder_sel balanced_def Let_def by simp
  moreover have "sided t' side' es om'" if "side' \<in> sides" for t' side'
    using cancelOrder_sided [OF q(3) cancelOrder_sel(1) [of "(t, SideToIndex side)" om, folded 3(1)] _ 3(2) home _ that, of t' es] b that
    by (simp add: balanced_def)
  ultimately show ?thesis using q by (simp add: balanced_def del: length_contents)
qed

lemma sided_more: "sided t side es om \<Longrightarrow> sided t side (es @ [e]) om"
  unfolding sided_def Let_def count_simps by (elim conjE, intro conjI; linarith)

lemma balanced_more: "balanced es om \<Longrightarrow> balanced (es @ [e]) om"
  using sided_more by (simp add: balanced_def)

lemma respond_sel [simp]: "om_side (respond r x) = om_side x" "om_tickerId (respond r x) = om_tickerId x"
  by (simp_all add: respond_def split: EClientResponseType.splits)

lemma onOrderUpdate_balanced:
  assumes m: "om_onOrderUpdate r om = Inr om'" and b: "balanced es om"
  shows "balanced (es @ [Responded r]) om' \<and> om_requests om' = om_requests om"
proof -
  let ?pl = "(resp_tickerId r, SideToIndex (resp_side r))"
  have om': "om' = order_put ?pl (respond r (m_tickerSideOrder om ?pl)) om"
    using m by (auto simp: om_onOrderUpdate_eq Let_def split: if_splits)
  have "at_home om'" using b by (auto simp: om' balanced_def at_home_def order_put_def Let_def)
  moreover have "sided t side (es @ [Responded r]) om'" if "side \<in> sides" for t side
  proof (cases "t = resp_tickerId r \<and> side = resp_side r")
    case True
    then have "sided t side es om" using b that by (simp add: balanced_def)
    then show ?thesis using True
      by (auto simp: sided_def Let_def om' order_put_def respond_def active_def split: EClientResponseType.splits if_splits)
  next
    case False
    then have "(t, SideToIndex side) \<noteq> ?pl" by (auto simp: SideToIndex_inj)
    then have "m_tickerSideOrder om' (t, SideToIndex side) = m_tickerSideOrder om (t, SideToIndex side)" "om_requests om' = om_requests om"
      by (auto simp: om' order_put_def)
    then have "sided t side (es @ [Responded r]) om' = sided t side (es @ [Responded r]) om" by (simp only: sided_def)
    moreover have "sided t side es om" using b that by (simp add: balanced_def)
    ultimately show ?thesis using sided_more by blast
  qed
  ultimately show ?thesis using b by (simp add: balanced_def om' order_put_def)
qed

lemma event_balanced:
  assumes m: "om_run_event F rm e (k, om) = Inr (k', om')" and b: "balanced es om"
    and room: "Suc (length (contents (om_requests om))) < q_size (om_requests om)"
  shows "balanced (es @ [e]) om' \<and> length (contents (om_requests om')) \<le> 2 + length (contents (om_requests om))
    \<and> q_size (om_requests om') = q_size (om_requests om)"
proof (cases e)
  case (Quotes t bid ask clip)
  then have "moveOrders F k rm t bid ask clip om = Inr om'" using m by (auto simp: bindE_eq_Inr)
  then obtain om1 where om1: "moveOrder F k rm (t, SideToIndex BUY) t bid BUY clip om = Inr om1"
    "moveOrder F k rm (t, SideToIndex SELL) t ask SELL clip om1 = Inr om'" by (rule moveOrders_steps)
  have 1: "balanced es om1" "length (contents (om_requests om1)) \<le> Suc (length (contents (om_requests om)))"
    "q_size (om_requests om1) = q_size (om_requests om)"
    using moveOrder_balanced [OF om1(1) b] room by (simp_all del: length_contents)
  then have "length (contents (om_requests om1)) < q_size (om_requests om1)" using room by (simp del: length_contents)
  from moveOrder_balanced [OF om1(2) 1(1) this] show ?thesis using 1 balanced_more by (auto simp del: length_contents)
next
  case (Responded r)
  then have "om_onOrderUpdate r om = Inr om'" using m by (auto simp: bindE_eq_Inr)
  from onOrderUpdate_balanced [OF this b] show ?thesis using Responded by simp
next
  case (BboChanged t bbo)
  then have "om' = om" using m by (auto simp: bindE_eq_Inr)
  then show ?thesis using balanced_more [OF b] by simp
qed

lemma events_balanced:
  "foldE (om_run_event F rm) es (k, om) = Inr (k', om') \<Longrightarrow> balanced es0 om \<Longrightarrow>
    length (contents (om_requests om)) + 2 * length es \<le> q_size (om_requests om) \<Longrightarrow> balanced (es0 @ es) om'"
proof (induction es arbitrary: k om es0)
  case (Cons e es)
  obtain k1 om1 where 1: "om_run_event F rm e (k, om) = Inr (k1, om1)" "foldE (om_run_event F rm) es (k1, om1) = Inr (k', om')"
    using Cons.prems(1) by (auto simp: bindE_eq_Inr)
  have "Suc (length (contents (om_requests om))) < q_size (om_requests om)" using Cons.prems(3) by (simp del: length_contents)
  note b = event_balanced [OF 1(1) Cons.prems(2) this]
  then have "balanced ((es0 @ [e]) @ es) om'" using Cons.IH [OF 1(2)] Cons.prems(3) by (simp del: length_contents append_assoc)
  then show ?case by simp
qed simp

lemma balanced_new: "queue_ok q \<Longrightarrow> contents q = [] \<Longrightarrow> balanced [] (COrderManager_new c q)"
  by (simp add: balanced_def at_home_def sided_def COrderManager_new_def SOMOrder_default_def active_def)

end
