(* ===== verification/PositionLimit.thy ===== *)
theory PositionLimit
  imports OrderFlow
begin

text \<open>
  The risk limit: while the exchange's responses fit the orders they answer, position and working
  orders together never leave the configured limit.
\<close>

section \<open>Responses that fit\<close>

fun event_fits :: "om_event \<Rightarrow> COrderManager \<Rightarrow> bool" where
  "event_fits (Responded r) om \<longleftrightarrow> (let x = m_tickerSideOrder om (resp_tickerId r, SideToIndex (resp_side r)) in
     case resp_type r of
       ACCEPTED \<Rightarrow> active (om_orderState x)
     | FILLED \<Rightarrow> resp_side r \<in> {BUY, SELL} \<and> active (om_orderState x) \<and> uint (resp_execQty r) + uint (resp_leavesQty r) = uint (om_qty x)
     | _ \<Rightarrow> True)"
| "event_fits _ om = True"

fun fitting_run :: "'d fp \<Rightarrow> 'd CRiskManager \<Rightarrow> om_event list \<Rightarrow> 'd EPositionKeeper \<times> COrderManager \<Rightarrow> bool" where
  "fitting_run F rm [] s = True"
| "fitting_run F rm (e # es) s = (event_fits e (snd s) \<and> (case om_run_event F rm e s of Inl _ \<Rightarrow> True | Inr s' \<Rightarrow> fitting_run F rm es s'))"

section \<open>The invariant\<close>

definition working :: "TickerId \<Rightarrow> ESide \<Rightarrow> COrderManager \<Rightarrow> int" where
  "working t side om = (let x = m_tickerSideOrder om (t, SideToIndex side) in if active (om_orderState x) then uint (om_qty x) else 0)"

definition net :: "TickerId \<Rightarrow> 'd EPositionKeeper \<Rightarrow> int" where
  "net t k = sint (position (m_tickerPosition k t))"

definition within_limit :: "int \<Rightarrow> TickerId \<Rightarrow> 'd EPositionKeeper \<Rightarrow> COrderManager \<Rightarrow> bool" where
  "within_limit bound t k om \<longleftrightarrow> net t k + working t BUY om \<le> bound \<and> - bound \<le> net t k - working t SELL om"

lemma working_nonneg [simp]: "0 \<le> working t side om"
  by (simp add: working_def Let_def)

lemma open_fill_position: "open_fill F r p = Inr p1 \<Longrightarrow> position p1 = position p"
  by (auto simp: open_fill_def Let_def bindE_eq_Inr)

lemma close_fill_position: "close_fill F old r p = Inr p1 \<Longrightarrow> position p1 = position p"
  unfolding close_fill_def Let_def by (elim bindE_InrE) (auto simp: bindE_eq_Inr split: if_splits)

lemma addFill_position: "addFill F r p = Inr p' \<Longrightarrow> position p' = position p + resp_execQty r * word_of_int (SideToValue (resp_side r))"
  unfolding addFill_def Let_def
  by (elim bindE_InrE) (auto simp: bindE_eq_Inr dest: open_fill_position close_fill_position split: if_splits)

lemma pos_UpdateBBO_position: "pos_UpdateBBO F b p = Inr p' \<Longrightarrow> position p' = position p"
  by (auto simp: pos_UpdateBBO_def bindE_eq_Inr split: if_splits)

lemma on_position_cases:
  assumes "on_position f t k = Inr k'"
  obtains p' where "f (m_tickerPosition k t) = Inr p'" "m_tickerPosition k' = (m_tickerPosition k)(t := p')"
  using assms by (auto simp: on_position_def arr_at_def bindE_eq_Inr split: if_splits)

text \<open>What the risk check allows.\<close>

lemma risk_allows:
  assumes c: "checkPreTradeRisk F k rm t side qty = Inr ALLOWED" and side: "side \<in> {BUY, SELL}"
    and max: "uint (max_order_size (m_tickerRisk rm t)) < 2 ^ 31"
  shows "\<bar>net t k + SideToValue side * uint qty\<bar> \<le> sint (max_position (m_tickerRisk rm t))"
proof -
  obtain w a n where q: "\<not> qty > max_order_size (m_tickerRisk rm t)" and w: "smul (word_of_int (SideToValue side)) qty = Inr w"
    and a: "sadd (position (m_tickerPosition k t)) w = Inr a" and n: "sabs a = Inr n" "\<not> sint n > sint (max_position (m_tickerRisk rm t))"
    using c by (auto simp: checkPreTradeRisk_def getPositionInfo_def arr_at_def SRiskInfo_check_def bindE_eq_Inr split: if_splits)
  have "uint qty < 2 ^ 31" using q max by (simp add: word_less_alt not_less word_le_def)
  then have "sint qty = uint qty" using sint_word_of_int_range [OF small32, of "uint qty"] by simp
  then have "sint w = SideToValue side * uint qty" using w by (simp add: smul_def signed_of_eq_Inr sint_side)
  then show ?thesis using a n by (simp add: sadd_def sabs_def signed_of_eq_Inr net_def)
qed

lemma working_put:
  "m_tickerSideOrder om' = (m_tickerSideOrder om)((t, SideToIndex side) := x) \<Longrightarrow>
    working t' side' om' = (if t' = t \<and> side' = side then if active (om_orderState x) then uint (om_qty x) else 0 else working t' side' om)"
  by (auto simp: working_def Let_def SideToIndex_inj)

lemma moveOrder_limit:
  assumes m: "moveOrder F k rm (t', SideToIndex side) t' price side qty om = Inr om'" and side: "side \<in> {BUY, SELL}"
    and max: "uint (max_order_size (m_tickerRisk rm t)) < 2 ^ 31" and w: "within_limit (sint (max_position (m_tickerRisk rm t))) t k om"
  shows "within_limit (sint (max_position (m_tickerRisk rm t))) t k om'"
  using m
proof (cases rule: moveOrder_cases)
  case 1
  then show ?thesis using w by simp
next
  case 2
  note wp = working_put [OF newOrder_sel(1) [of "(t', SideToIndex side)" t' price side qty om], folded 2(1)]
  show ?thesis
  proof (cases "t' = t")
    case True
    then show ?thesis using risk_allows [OF 2(3) side] max w side by (auto simp: within_limit_def wp active_def)
  next
    case False
    then show ?thesis using w by (simp add: within_limit_def wp)
  qed
next
  case 3
  have x: "om_orderState (m_tickerSideOrder om (t', SideToIndex side)) = LIVE" by (rule 3(2))
  have "working t s om' = working t s om" for s
    using x unfolding 3(1) working_put [OF cancelOrder_sel(1)] by (auto simp: active_def working_def Let_def)
  then show ?thesis using w by (simp add: within_limit_def)
qed

lemma respond_working:
  assumes "om_onOrderUpdate r om = Inr om'"
  shows "working t side om' = (if t = resp_tickerId r \<and> side = resp_side r
    then let x = respond r (m_tickerSideOrder om (t, SideToIndex side)) in if active (om_orderState x) then uint (om_qty x) else 0
    else working t side om)"
  using assms working_put [of om' om "resp_tickerId r" "resp_side r"]
  by (auto simp: om_onOrderUpdate_eq Let_def order_put_def split: if_splits)

lemma fill_limit:
  assumes k: "pk_addFill F r k = Inr k'" and o: "om_onOrderUpdate r om = Inr om'" and ty: "resp_type r = FILLED"
    and fit: "event_fits (Responded r) om" and bound: "bound < 2 ^ 31" and w: "within_limit bound t k om"
  shows "within_limit bound t k' om'"
proof (cases "t = resp_tickerId r")
  case False
  then have "net t k' = net t k" using k unfolding pk_addFill_def by (elim on_position_cases) (simp add: net_def)
  then show ?thesis using False w by (simp add: within_limit_def respond_working [OF o])
next
  case True
  let ?x = "m_tickerSideOrder om (t, SideToIndex (resp_side r))"
  have f: "resp_side r \<in> {BUY, SELL}" "active (om_orderState ?x)" "uint (resp_execQty r) + uint (resp_leavesQty r) = uint (om_qty ?x)"
    using fit ty True by (simp_all add: Let_def)
  have wk: "working t (resp_side r) om = uint (resp_execQty r) + uint (resp_leavesQty r)" using f by (simp add: working_def)
  have wk': "working t (resp_side r) om' = uint (resp_leavesQty r)"
    using f(2) ty True by (auto simp: respond_working [OF o] respond_def active_def)
  have other: "working t s om' = working t s om" if "s \<noteq> resp_side r" for s using that by (simp add: respond_working [OF o])
  obtain p' where p': "addFill F r (m_tickerPosition k t) = Inr p'" "m_tickerPosition k' = (m_tickerPosition k)(t := p')"
    using k True unfolding pk_addFill_def by (elim on_position_cases) blast
  have nn: "0 \<le> uint (resp_execQty r)" "0 \<le> uint (resp_leavesQty r)" "0 \<le> working t BUY om" "0 \<le> working t SELL om" by simp_all
  have b: "\<bar>net t k + fill_qty r\<bar> < 2 ^ 31"
  proof (cases "resp_side r = BUY")
    case True
    then have "fill_qty r = uint (resp_execQty r)" "working t BUY om = uint (resp_execQty r) + uint (resp_leavesQty r)"
      using wk by (simp_all add: fill_qty_def)
    then show ?thesis using w bound nn unfolding within_limit_def by linarith
  next
    case False
    then have "fill_qty r = - uint (resp_execQty r)" "working t SELL om = uint (resp_execQty r) + uint (resp_leavesQty r)"
      using wk f(1) by (auto simp: fill_qty_def)
    then show ?thesis using w bound nn unfolding within_limit_def by linarith
  qed
  then have n: "net t k' = net t k + fill_qty r"
    using new_position [of "position (m_tickerPosition k t)" r] addFill_position [OF p'(1)] p'(2) by (simp add: net_def)
  consider (buy) "resp_side r = BUY" "fill_qty r = uint (resp_execQty r)" | (sell) "resp_side r = SELL" "fill_qty r = - uint (resp_execQty r)"
    using f(1) by (auto simp: fill_qty_def)
  then show ?thesis
  proof cases
    case buy
    then show ?thesis using n wk wk' other [of SELL] w nn unfolding within_limit_def by (simp only: ESide.distinct simp_thms) linarith
  next
    case sell
    then show ?thesis using n wk wk' other [of BUY] w nn unfolding within_limit_def by (simp only: ESide.distinct simp_thms) linarith
  qed
qed

lemma response_limit:
  assumes o: "om_onOrderUpdate r om = Inr om'" and ty: "resp_type r \<noteq> FILLED" and fit: "event_fits (Responded r) om" and w: "within_limit bound t k om"
  shows "within_limit bound t k om'"
proof -
  have "working t s om' \<le> working t s om" for s
  proof (cases "t = resp_tickerId r \<and> s = resp_side r")
    case True
    then show ?thesis using ty fit unfolding respond_working [OF o]
      by (auto simp: respond_def working_def Let_def active_def split: EClientResponseType.splits)
  next
    case False
    then show ?thesis unfolding respond_working [OF o] by auto
  qed
  from this [of BUY] this [of SELL] show ?thesis using w unfolding within_limit_def by linarith
qed

lemma event_limit:
  assumes m: "om_run_event F rm e (k, om) = Inr (k', om')" and fit: "event_fits e om"
    and max: "uint (max_order_size (m_tickerRisk rm t)) < 2 ^ 31" and w: "within_limit (sint (max_position (m_tickerRisk rm t))) t k om"
  shows "within_limit (sint (max_position (m_tickerRisk rm t))) t k' om'"
proof (cases e)
  case (Quotes t' bid ask clip)
  then have mo: "moveOrders F k rm t' bid ask clip om = Inr om'" and k: "k' = k" using m by (auto simp: bindE_eq_Inr)
  from mo obtain om1 where "moveOrder F k rm (t', SideToIndex BUY) t' bid BUY clip om = Inr om1"
    "moveOrder F k rm (t', SideToIndex SELL) t' ask SELL clip om1 = Inr om'" by (rule moveOrders_steps)
  then show ?thesis using moveOrder_limit max w k by (metis insertCI)
next
  case (Responded r)
  have bound: "sint (max_position (m_tickerRisk rm t)) < 2 ^ 31" using sint_lt [of "max_position (m_tickerRisk rm t)"] by simp
  show ?thesis
  proof (cases "resp_type r = FILLED")
    case True
    then have "pk_addFill F r k = Inr k'" "om_onOrderUpdate r om = Inr om'" using m Responded by (auto simp: bindE_eq_Inr)
    then show ?thesis using fill_limit [OF _ _ True _ bound w] fit Responded by blast
  next
    case False
    then have "om_onOrderUpdate r om = Inr om'" "k' = k" using m Responded by (auto simp: bindE_eq_Inr)
    then show ?thesis using response_limit [OF _ False _ w] fit Responded by blast
  qed
next
  case (BboChanged t' bbo)
  then have u: "pk_UpdateBBO F t' bbo k = Inr k'" and o: "om' = om" using m by (auto simp: bindE_eq_Inr)
  from u have "net t k' = net t k" unfolding pk_UpdateBBO_def
    by (elim on_position_cases) (auto simp: net_def dest: pos_UpdateBBO_position)
  then show ?thesis using w o by (simp add: within_limit_def)
qed

lemma events_limit:
  "foldE (om_run_event F rm) es (k, om) = Inr (k', om') \<Longrightarrow> fitting_run F rm es (k, om) \<Longrightarrow>
    uint (max_order_size (m_tickerRisk rm t)) < 2 ^ 31 \<Longrightarrow> within_limit (sint (max_position (m_tickerRisk rm t))) t k om \<Longrightarrow>
    within_limit (sint (max_position (m_tickerRisk rm t))) t k' om'"
proof (induction es arbitrary: k om)
  case (Cons e es)
  obtain k1 om1 where 1: "om_run_event F rm e (k, om) = Inr (k1, om1)" "foldE (om_run_event F rm) es (k1, om1) = Inr (k', om')"
    using Cons.prems(1) by (auto simp: bindE_eq_Inr)
  have f: "event_fits e om" "fitting_run F rm es (k1, om1)" using Cons.prems(2) 1(1) by simp_all
  show ?case by (rule Cons.IH [OF 1(2) f(2) Cons.prems(3) event_limit [OF 1(1) f(1) Cons.prems(3,4)]])
qed simp

end
