(* ===== verification/TradeEngine.thy ===== *)
theory TradeEngine
  imports OrderManager
begin

text \<open>
  \<open>trading/strategy/FeatureEngine.h\<close>, \<open>MarketMaker.h\<close> and \<open>.cpp\<close>, \<open>LiquidityTaker.h\<close> and \<open>.cpp\<close>,
  \<open>TradeEngine.h\<close> and \<open>.cpp\<close>: the features, the two algorithms and the loop that hands responses and
  market updates to them.  The callbacks that a constructor installs are the cases of \<open>te_algo\<close>; the
  queue of outgoing requests is the one of the order manager.  Threads and logging are left out.
\<close>

section \<open>Features\<close>

record 'd CFeatureEngine =
  mkt_price :: 'd
  agg_trade_qty_ratio :: 'd

definition CFeatureEngine_new :: "'d fp \<Rightarrow> 'd CFeatureEngine" where
  "CFeatureEngine_new F = \<lparr>mkt_price = fp_nan F, agg_trade_qty_ratio = fp_nan F\<rparr>"

definition both_sides :: "SBBO \<Rightarrow> bool" where
  "both_sides bbo \<longleftrightarrow> bidPrice bbo \<noteq> Price_INVALID \<and> askPrice bbo \<noteq> Price_INVALID"

definition fe_onOrderBookUpdate :: "'d fp \<Rightarrow> SBBO \<Rightarrow> 'd CFeatureEngine \<Rightarrow> 'd CFeatureEngine outcome" where
  "fe_onOrderBookUpdate F bbo fe =
     (if both_sides bbo
      then bindE (signed_of (sint (bidPrice bbo) * uint (askQty bbo))) (\<lambda>a :: 64 word.
           bindE (signed_of (sint (askPrice bbo) * uint (bidQty bbo))) (\<lambda>b.
           bindE (sadd a b) (\<lambda>sum.
           Inr (fe\<lparr>mkt_price := fp_div F (fp_int F (sint sum)) (fp_int F (uint (bidQty bbo + askQty bbo)))\<rparr>))))
      else Inr fe)"

definition fe_onTradeUpdate :: "'d fp \<Rightarrow> SMEMarketUpdate \<Rightarrow> SBBO \<Rightarrow> 'd CFeatureEngine \<Rightarrow> 'd CFeatureEngine" where
  "fe_onTradeUpdate F u bbo fe =
     (if both_sides bbo
      then fe\<lparr>agg_trade_qty_ratio := fp_div F (fp_int F (uint (upd_qty u)))
                (fp_int F (uint (if upd_side u = BUY then askQty bbo else bidQty bbo)))\<rparr>
      else fe)"

section \<open>The algorithms\<close>

definition mm_quotes :: "'d fp \<Rightarrow> 'd \<Rightarrow> 'd \<Rightarrow> SBBO \<Rightarrow> (Price \<times> Price) outcome" where
  "mm_quotes F fairPrice threshold bbo =
     bindE (ssub (bidPrice bbo) (if fp_le F threshold (fp_sub F fairPrice (fp_int F (sint (bidPrice bbo)))) then 0 else 1)) (\<lambda>bid_price.
     bindE (sadd (askPrice bbo) (if fp_le F threshold (fp_sub F (fp_int F (sint (askPrice bbo))) fairPrice) then 0 else 1)) (\<lambda>ask_price.
     Inr (bid_price, ask_price)))"

definition mm_onOrderBookUpdate :: "'d fp \<Rightarrow> (TickerId \<Rightarrow> 'd ETradeEngineCfg) \<Rightarrow> 'd EPositionKeeper \<Rightarrow> 'd CRiskManager \<Rightarrow> 'd CFeatureEngine
    \<Rightarrow> TickerId \<Rightarrow> SBBO \<Rightarrow> COrderManager \<Rightarrow> COrderManager outcome" where
  "mm_onOrderBookUpdate F tickerCfg k rm fe t bbo om =
     (if both_sides bbo \<and> \<not> fp_eq F (mkt_price fe) (fp_nan F)
      then bindE (arr_at ME_MAX_TICKERS tickerCfg t) (\<lambda>cfg.
           bindE (mm_quotes F (mkt_price fe) (cfg_threshold cfg) bbo) (\<lambda>(bid_price, ask_price).
           moveOrders F k rm t bid_price ask_price (cfg_clip cfg) om))
      else Inr om)"

definition lt_onTradeUpdate :: "'d fp \<Rightarrow> (TickerId \<Rightarrow> 'd ETradeEngineCfg) \<Rightarrow> 'd EPositionKeeper \<Rightarrow> 'd CRiskManager \<Rightarrow> 'd CFeatureEngine
    \<Rightarrow> SMEMarketUpdate \<Rightarrow> SBBO \<Rightarrow> COrderManager \<Rightarrow> COrderManager outcome" where
  "lt_onTradeUpdate F tickerCfg k rm fe u bbo om =
     (if both_sides bbo \<and> \<not> fp_eq F (agg_trade_qty_ratio fe) (fp_nan F)
      then bindE (arr_at ME_MAX_TICKERS tickerCfg (upd_tickerId u)) (\<lambda>cfg.
           if fp_le F (cfg_threshold cfg) (agg_trade_qty_ratio fe)
           then if upd_side u = BUY
                then moveOrders F k rm (upd_tickerId u) (askPrice bbo) Price_INVALID (cfg_clip cfg) om
                else moveOrders F k rm (upd_tickerId u) Price_INVALID (bidPrice bbo) (cfg_clip cfg) om
           else Inr om)
      else Inr om)"

section \<open>The trade engine\<close>

record 'd CTradeEngine =
  te_algo :: EAlgoType
  te_tickerCfg :: "TickerId \<Rightarrow> 'd ETradeEngineCfg"
  te_tickerOrderBook :: "TickerId \<Rightarrow> CMarketOrderBook"
  pIncomingOgwResponses :: "SMEClientResponse CLockFreeQueue"
  pIncomingMdUpdates :: "SMEMarketUpdate CLockFreeQueue"
  m_lastEventTime :: Nanos
  m_featureEngine :: "'d CFeatureEngine"
  m_positionKeeper :: "'d EPositionKeeper"
  m_orderManager :: COrderManager
  m_riskManager :: "'d CRiskManager"

definition CTradeEngine_new :: "'d fp \<Rightarrow> (TickerId \<Rightarrow> 64 word \<Rightarrow> 'd) \<Rightarrow> ClientId \<Rightarrow> EAlgoType \<Rightarrow> (TickerId \<Rightarrow> 'd ETradeEngineCfg)
    \<Rightarrow> SMEClientRequest CLockFreeQueue \<Rightarrow> SMEClientResponse CLockFreeQueue \<Rightarrow> SMEMarketUpdate CLockFreeQueue \<Rightarrow> 'd CTradeEngine" where
  "CTradeEngine_new F junk clientId algoType tickerCfg requests responses updates =
     \<lparr>te_algo = algoType, te_tickerCfg = tickerCfg, te_tickerOrderBook = CMarketOrderBook_new,
      pIncomingOgwResponses = responses, pIncomingMdUpdates = updates, m_lastEventTime = 0,
      m_featureEngine = CFeatureEngine_new F, m_positionKeeper = EPositionKeeper_new F junk,
      m_orderManager = COrderManager_new clientId requests, m_riskManager = CRiskManager_new tickerCfg\<rparr>"

definition te_algoOnOrderBookUpdate :: "'d fp \<Rightarrow> TickerId \<Rightarrow> SBBO \<Rightarrow> 'd CTradeEngine \<Rightarrow> 'd CTradeEngine outcome" where
  "te_algoOnOrderBookUpdate F t bbo te =
     (case te_algo te of
        MAKER \<Rightarrow> bindE (mm_onOrderBookUpdate F (te_tickerCfg te) (m_positionKeeper te) (m_riskManager te) (m_featureEngine te) t bbo (m_orderManager te))
                  (\<lambda>om. Inr (te\<lparr>m_orderManager := om\<rparr>))
      | _ \<Rightarrow> Inr te)"

definition te_algoOnTradeUpdate :: "'d fp \<Rightarrow> SMEMarketUpdate \<Rightarrow> SBBO \<Rightarrow> 'd CTradeEngine \<Rightarrow> 'd CTradeEngine outcome" where
  "te_algoOnTradeUpdate F u bbo te =
     (case te_algo te of
        TAKER \<Rightarrow> bindE (lt_onTradeUpdate F (te_tickerCfg te) (m_positionKeeper te) (m_riskManager te) (m_featureEngine te) u bbo (m_orderManager te))
                  (\<lambda>om. Inr (te\<lparr>m_orderManager := om\<rparr>))
      | _ \<Rightarrow> Inr te)"

definition te_algoOnOrderUpdate :: "SMEClientResponse \<Rightarrow> 'd CTradeEngine \<Rightarrow> 'd CTradeEngine outcome" where
  "te_algoOnOrderUpdate r te =
     (if te_algo te = MAKER \<or> te_algo te = TAKER
      then bindE (om_onOrderUpdate r (m_orderManager te)) (\<lambda>om. Inr (te\<lparr>m_orderManager := om\<rparr>))
      else Inr te)"

definition te_onOrderBookUpdate :: "'d fp \<Rightarrow> TickerId \<Rightarrow> SBBO \<Rightarrow> 'd CTradeEngine \<Rightarrow> 'd CTradeEngine outcome" where
  "te_onOrderBookUpdate F t bbo te =
     bindE (pk_UpdateBBO F t bbo (m_positionKeeper te)) (\<lambda>k.
     bindE (fe_onOrderBookUpdate F bbo (m_featureEngine te)) (\<lambda>fe.
     te_algoOnOrderBookUpdate F t bbo (te\<lparr>m_positionKeeper := k, m_featureEngine := fe\<rparr>)))"

definition te_onTradeUpdate :: "'d fp \<Rightarrow> SMEMarketUpdate \<Rightarrow> SBBO \<Rightarrow> 'd CTradeEngine \<Rightarrow> 'd CTradeEngine outcome" where
  "te_onTradeUpdate F u bbo te =
     te_algoOnTradeUpdate F u bbo (te\<lparr>m_featureEngine := fe_onTradeUpdate F u bbo (m_featureEngine te)\<rparr>)"

definition te_onOrderUpdate :: "'d fp \<Rightarrow> SMEClientResponse \<Rightarrow> 'd CTradeEngine \<Rightarrow> 'd CTradeEngine outcome" where
  "te_onOrderUpdate F r te =
     bindE (if resp_type r = FILLED
            then bindE (pk_addFill F r (m_positionKeeper te)) (\<lambda>k. Inr (te\<lparr>m_positionKeeper := k\<rparr>))
            else Inr te) (te_algoOnOrderUpdate r)"

text \<open>What a book has called the trade engine for; the calls were the last actions of \<open>OnMarketUpdate\<close>.\<close>

fun te_book_event :: "'d fp \<Rightarrow> CMarketOrderBook \<Rightarrow> book_event \<Rightarrow> 'd CTradeEngine \<Rightarrow> 'd CTradeEngine outcome" where
  "te_book_event F bk (OnTradeUpdate u) te = te_onTradeUpdate F u (m_pBbo bk) te"
| "te_book_event F bk (OnOrderBookUpdate t price side) te = te_onOrderBookUpdate F t (m_pBbo bk) te"

text \<open>The bodies of the two inner loops of \<open>Run\<close>, and one round of the loop; \<open>now\<close> is the clock.\<close>

definition te_response :: "'d fp \<Rightarrow> Nanos \<Rightarrow> SMEClientResponse \<Rightarrow> 'd CTradeEngine \<Rightarrow> 'd CTradeEngine outcome" where
  "te_response F now r te = bindE (te_onOrderUpdate F r te) (\<lambda>te1. Inr (te1\<lparr>m_lastEventTime := now\<rparr>))"

definition te_market_update :: "'d fp \<Rightarrow> Nanos \<Rightarrow> SMEMarketUpdate \<Rightarrow> 'd CTradeEngine \<Rightarrow> 'd CTradeEngine outcome" where
  "te_market_update F now u te =
     bindE (ASSERT (unat (upd_tickerId u) < ME_MAX_TICKERS) (''Unknown ticker-id on update:'' @ SMEMarketUpdate_ToString u)) (\<lambda>_.
     bindE (OnMarketUpdate u ((te_tickerOrderBook te (upd_tickerId u))\<lparr>notified := []\<rparr>)) (\<lambda>bk.
     bindE (foldE (te_book_event F bk) (notified bk) (te\<lparr>te_tickerOrderBook := (te_tickerOrderBook te)(upd_tickerId u := bk)\<rparr>)) (\<lambda>te1.
     Inr (te1\<lparr>m_lastEventTime := now\<rparr>))))"

definition te_Run :: "'d fp \<Rightarrow> Nanos \<Rightarrow> 'd CTradeEngine \<Rightarrow> 'd CTradeEngine outcome" where
  "te_Run F now te =
     bindE (drain (Suc (m_numElements (pIncomingOgwResponses te))) front UpdateReadIndex (te_response F now) (pIncomingOgwResponses te) te) (\<lambda>(q1, te1).
     let te2 = te1\<lparr>pIncomingOgwResponses := q1\<rparr> in
     bindE (drain (Suc (m_numElements (pIncomingMdUpdates te2))) front UpdateReadIndex (te_market_update F now) (pIncomingMdUpdates te2) te2) (\<lambda>(q2, te3).
     Inr (te3\<lparr>pIncomingMdUpdates := q2\<rparr>)))"

end
