(* ===== verification/EngineEvents.thy ===== *)
theory EngineEvents
  imports OrderFlow TradeEngine
begin

text \<open>
  A round of the trade engine with one of the two algorithms is a run of the order manager's events:
  its responses in order, and the quotes and best bids and offers that its books give rise to.
\<close>

definition algorithmic :: "'d CTradeEngine \<Rightarrow> bool" where
  "algorithmic te \<longleftrightarrow> te_algo te = MAKER \<or> te_algo te = TAKER"

definition orders_of_engine :: "'d CTradeEngine \<Rightarrow> 'd EPositionKeeper \<times> COrderManager" where
  "orders_of_engine te = (m_positionKeeper te, m_orderManager te)"

fun responses_in :: "om_event list \<Rightarrow> SMEClientResponse list" where
  "responses_in [] = []"
| "responses_in (Responded r # es) = r # responses_in es"
| "responses_in (_ # es) = responses_in es"

lemma responses_in_append [simp]: "responses_in (es @ fs) = responses_in es @ responses_in fs"
  by (induction es rule: responses_in.induct) simp_all

text \<open>\<open>follows\<close>: the engine went from one state to the other by these events.\<close>

definition follows :: "'d fp \<Rightarrow> om_event list \<Rightarrow> 'd CTradeEngine \<Rightarrow> 'd CTradeEngine \<Rightarrow> bool" where
  "follows F es te te' \<longleftrightarrow> foldE (om_run_event F (m_riskManager te)) es (orders_of_engine te) = Inr (orders_of_engine te')
     \<and> m_riskManager te' = m_riskManager te \<and> te_algo te' = te_algo te \<and> pIncomingOgwResponses te' = pIncomingOgwResponses te
     \<and> pIncomingMdUpdates te' = pIncomingMdUpdates te"

lemma follows_Nil: "orders_of_engine te' = orders_of_engine te \<Longrightarrow> m_riskManager te' = m_riskManager te \<Longrightarrow> te_algo te' = te_algo te
    \<Longrightarrow> pIncomingOgwResponses te' = pIncomingOgwResponses te \<Longrightarrow> pIncomingMdUpdates te' = pIncomingMdUpdates te \<Longrightarrow> follows F [] te te'"
  by (simp add: follows_def)

lemma follows_append: "follows F es te te1 \<Longrightarrow> follows F fs te1 te' \<Longrightarrow> follows F (es @ fs) te te'"
  by (auto simp: follows_def foldE_append)

lemma follows_frame:
  "follows F es te te' \<Longrightarrow> algorithmic te' = algorithmic te"
  by (simp add: follows_def algorithmic_def)

lemma follows_response:
  assumes "te_response F now r te = Inr te'" and "algorithmic te"
  shows "follows F [Responded r] te te'"
proof -
  define s where "s = (if resp_type r = FILLED then bindE (pk_addFill F r (m_positionKeeper te)) (\<lambda>k. Inr (te\<lparr>m_positionKeeper := k\<rparr>)) else Inr te)"
  obtain te1 te2 where 1: "s = Inr te1" "te_algoOnOrderUpdate r te1 = Inr te2" "te' = te2\<lparr>m_lastEventTime := now\<rparr>"
    using assms(1) unfolding te_response_def te_onOrderUpdate_def s_def [symmetric] by (elim bindE_InrE) simp
  obtain k where k: "(if resp_type r = FILLED then pk_addFill F r (m_positionKeeper te) else Inr (m_positionKeeper te)) = Inr k"
    "te1 = te\<lparr>m_positionKeeper := k\<rparr>" using 1(1) unfolding s_def by (cases "resp_type r = FILLED") (auto elim: bindE_InrE)
  have "algorithmic te1" using assms(2) k(2) by (simp add: algorithmic_def)
  then obtain om where om: "om_onOrderUpdate r (m_orderManager te) = Inr om" "te2 = te1\<lparr>m_orderManager := om\<rparr>"
    using 1(2) k(2) unfolding te_algoOnOrderUpdate_def algorithmic_def by (auto elim: bindE_InrE)
  show ?thesis using k om 1(3) by (simp add: follows_def orders_of_engine_def)
qed

lemma mm_cases:
  assumes "mm_onOrderBookUpdate F cfg k rm fe t bbo om = Inr om'"
  shows "om' = om \<or> (\<exists>b a c. moveOrders F k rm t b a c om = Inr om')"
  using assms unfolding mm_onOrderBookUpdate_def by (auto elim!: bindE_InrE split: if_splits)

lemma lt_cases:
  assumes "lt_onTradeUpdate F cfg k rm fe u bbo om = Inr om'"
  shows "om' = om \<or> (\<exists>b a c. moveOrders F k rm (upd_tickerId u) b a c om = Inr om')"
  using assms unfolding lt_onTradeUpdate_def by (auto elim!: bindE_InrE split: if_splits)

lemma follows_book_update:
  assumes "te_onOrderBookUpdate F t bbo te = Inr te'"
  shows "\<exists>es. follows F es te te' \<and> responses_in es = []"
proof -
  obtain k fe where k: "pk_UpdateBBO F t bbo (m_positionKeeper te) = Inr k" and
    alg: "te_algoOnOrderBookUpdate F t bbo (te\<lparr>m_positionKeeper := k, m_featureEngine := fe\<rparr>) = Inr te'"
    using assms by (auto simp: te_onOrderBookUpdate_def bindE_eq_Inr)
  let ?te = "te\<lparr>m_positionKeeper := k, m_featureEngine := fe\<rparr>"
  have 1: "follows F [BboChanged t bbo] te ?te" using k by (simp add: follows_def orders_of_engine_def)
  have "\<exists>es. follows F es ?te te' \<and> responses_in es = []"
  proof (cases "te_algo te = MAKER")
    case True
    then obtain om where om: "mm_onOrderBookUpdate F (te_tickerCfg te) k (m_riskManager te) fe t bbo (m_orderManager te) = Inr om" "te' = ?te\<lparr>m_orderManager := om\<rparr>"
      using alg by (auto simp: te_algoOnOrderBookUpdate_def bindE_eq_Inr)
    consider "om = m_orderManager te" | b a c where "moveOrders F k (m_riskManager te) t b a c (m_orderManager te) = Inr om"
      using mm_cases [OF om(1)] by blast
    then show ?thesis
    proof cases
      case 1
      then show ?thesis using om(2) by (intro exI [of _ "[]"]) (simp add: follows_def orders_of_engine_def)
    next
      case 2
      then show ?thesis using om(2) by (intro exI [of _ "[Quotes t b a c]"]) (simp add: follows_def orders_of_engine_def)
    qed
  next
    case False
    then have "te' = ?te" using alg by (cases "te_algo te") (auto simp: te_algoOnOrderBookUpdate_def)
    then show ?thesis by (intro exI [of _ "[]"]) (simp add: follows_def)
  qed
  then obtain es where "follows F es ?te te'" "responses_in es = []" by blast
  then show ?thesis using follows_append [OF 1] by (intro exI [of _ "[BboChanged t bbo] @ es"]) simp
qed

lemma follows_trade_update:
  assumes "te_onTradeUpdate F u bbo te = Inr te'"
  shows "\<exists>es. follows F es te te' \<and> responses_in es = []"
proof -
  define fe where "fe = fe_onTradeUpdate F u bbo (m_featureEngine te)"
  have alg: "te_algoOnTradeUpdate F u bbo (te\<lparr>m_featureEngine := fe\<rparr>) = Inr te'" using assms by (simp add: te_onTradeUpdate_def fe_def)
  show ?thesis
  proof (cases "te_algo te = TAKER")
    case True
    then obtain om where om: "lt_onTradeUpdate F (te_tickerCfg te) (m_positionKeeper te) (m_riskManager te) fe u bbo (m_orderManager te) = Inr om"
      "te' = te\<lparr>m_featureEngine := fe, m_orderManager := om\<rparr>"
      using alg by (auto simp: te_algoOnTradeUpdate_def bindE_eq_Inr)
    consider "om = m_orderManager te" | b a c where "moveOrders F (m_positionKeeper te) (m_riskManager te) (upd_tickerId u) b a c (m_orderManager te) = Inr om"
      using lt_cases [OF om(1)] by blast
    then show ?thesis
    proof cases
      case 1
      then show ?thesis using om(2) by (intro exI [of _ "[]"]) (simp add: follows_def orders_of_engine_def)
    next
      case 2
      then show ?thesis using om(2) by (intro exI [of _ "[Quotes (upd_tickerId u) b a c]"]) (simp add: follows_def orders_of_engine_def)
    qed
  next
    case False
    then have "te' = te\<lparr>m_featureEngine := fe\<rparr>" using alg by (cases "te_algo te") (auto simp: te_algoOnTradeUpdate_def)
    then show ?thesis by (intro exI [of _ "[]"]) (simp add: follows_def orders_of_engine_def)
  qed
qed

lemma concat_map_Nil: "concat (map (\<lambda>_. []) xs) = []"
  by (induction xs) simp_all

text \<open>Composition over a list of steps.\<close>

lemma follows_steps:
  assumes step: "\<And>x s s'. h x s = Inr s' \<Longrightarrow> algorithmic s \<Longrightarrow> \<exists>es. follows F es s s' \<and> responses_in es = f x"
  shows "foldE h xs te = Inr te' \<Longrightarrow> algorithmic te \<Longrightarrow> \<exists>es. follows F es te te' \<and> responses_in es = concat (map f xs)"
proof (induction xs arbitrary: te)
  case Nil
  then show ?case by (intro exI [of _ "[]"]) (simp add: follows_def)
next
  case (Cons x xs)
  obtain te1 where 1: "h x te = Inr te1" "foldE h xs te1 = Inr te'" using Cons.prems(1) by (auto simp: bindE_eq_Inr)
  obtain es where es: "follows F es te te1" "responses_in es = f x" using step [OF 1(1) Cons.prems(2)] by blast
  have "algorithmic te1" using follows_frame [OF es(1)] Cons.prems(2) by simp
  then obtain fs where "follows F fs te1 te'" "responses_in fs = concat (map f xs)" using Cons.IH [OF 1(2)] by blast
  then show ?case using follows_append [OF es(1)] es(2) by (intro exI [of _ "es @ fs"]) simp
qed

lemma follows_market_update:
  assumes "te_market_update F now u te = Inr te'" and "algorithmic te"
  shows "\<exists>es. follows F es te te' \<and> responses_in es = []"
proof -
  obtain bk te1 where bk: "foldE (te_book_event F bk) (notified bk) (te\<lparr>te_tickerOrderBook := (te_tickerOrderBook te)(upd_tickerId u := bk)\<rparr>) = Inr te1"
    and te': "te' = te1\<lparr>m_lastEventTime := now\<rparr>" using assms(1) by (auto simp: te_market_update_def bindE_eq_Inr)
  let ?te = "te\<lparr>te_tickerOrderBook := (te_tickerOrderBook te)(upd_tickerId u := bk)\<rparr>"
  have "\<exists>es. follows F es s s' \<and> responses_in es = []" if "te_book_event F bk e s = Inr s'" for e s s'
    using that follows_trade_update follows_book_update by (cases e) auto
  moreover have "algorithmic ?te" using assms(2) by (simp add: algorithmic_def)
  ultimately obtain es where es: "follows F es ?te te1" "responses_in es = []"
    using follows_steps [of "te_book_event F bk" F "\<lambda>_. []", OF _ bk] by (simp only: concat_map_Nil) blast
  have "follows F es te te'" using es(1) by (simp add: follows_def te' orders_of_engine_def)
  then show ?thesis using es(2) by blast
qed

lemma drained:
  assumes "queue_ok q" and "drain (Suc (m_numElements q)) front UpdateReadIndex h q s = Inr (q', s')"
  shows "foldE h (contents q) s = Inr s'"
proof -
  have "length (contents q) < Suc (m_numElements q)" by simp
  from lfq.drain_law [OF assms(1) this, of h s] assms(2) show ?thesis by (cases "foldE h (contents q) s") auto
qed

lemma te_Run_follows:
  assumes run: "te_Run F now te = Inr te'" and alg: "algorithmic te"
    and q: "queue_ok (pIncomingOgwResponses te)" "queue_ok (pIncomingMdUpdates te)"
  shows "\<exists>es. foldE (om_run_event F (m_riskManager te)) es (orders_of_engine te) = Inr (orders_of_engine te')
    \<and> responses_in es = contents (pIncomingOgwResponses te)"
proof -
  let ?r = "pIncomingOgwResponses te"
  obtain q1 te1 where 1: "drain (Suc (m_numElements ?r)) front UpdateReadIndex (te_response F now) ?r te = Inr (q1, te1)"
    and rest: "bindE (drain (Suc (m_numElements (pIncomingMdUpdates te1))) front UpdateReadIndex (te_market_update F now) (pIncomingMdUpdates te1)
      (te1\<lparr>pIncomingOgwResponses := q1\<rparr>)) (\<lambda>(q2, te3). Inr (te3\<lparr>pIncomingMdUpdates := q2\<rparr>)) = Inr te'"
    using run unfolding te_Run_def Let_def by (rule bindE_InrE) (auto simp del: drain.simps)
  let ?te2 = "te1\<lparr>pIncomingOgwResponses := q1\<rparr>"
  obtain q2 te3 where 2: "drain (Suc (m_numElements (pIncomingMdUpdates te1))) front UpdateReadIndex (te_market_update F now) (pIncomingMdUpdates te1)
      ?te2 = Inr (q2, te3)" "te' = te3\<lparr>pIncomingMdUpdates := q2\<rparr>" using rest by (rule bindE_InrE) (auto simp del: drain.simps)
  have "\<exists>es. follows F es s s' \<and> responses_in es = [r]" if "te_response F now r s = Inr s'" "algorithmic s" for r s s'
    using follows_response [OF that] by (intro exI [of _ "[Responded r]"]) simp
  from follows_steps [of "te_response F now" F "\<lambda>r. [r]", OF this drained [OF q(1) 1] alg]
  obtain es where es: "follows F es te te1" "responses_in es = contents ?r" by auto
  have alg2: "algorithmic ?te2" using follows_frame [OF es(1)] alg by (simp add: algorithmic_def)
  have "queue_ok (pIncomingMdUpdates te1)" using es(1) q(2) by (simp add: follows_def)
  from follows_steps [of "te_market_update F now" F "\<lambda>_. []", OF _ drained [OF this 2(1)] alg2]
  obtain fs where fs: "follows F fs ?te2 te3" "responses_in fs = []" using follows_market_update unfolding concat_map_Nil by blast
  have "orders_of_engine ?te2 = orders_of_engine te1" "orders_of_engine te' = orders_of_engine te3" "m_riskManager ?te2 = m_riskManager te1"
    using 2(2) by (simp_all add: orders_of_engine_def)
  then have "foldE (om_run_event F (m_riskManager te)) (es @ fs) (orders_of_engine te) = Inr (orders_of_engine te')"
    using es(1) fs(1) by (simp add: follows_def foldE_append)
  then show ?thesis using es(2) fs(2) by (intro exI [of _ "es @ fs"]) simp
qed

end
