(* ===== verification/TradingProperties.thy ===== *)
theory TradingProperties
  imports PositionLimit EngineEvents
begin

text \<open>
  Properties of the trading side: profit and loss, the balance of requests and responses, the
  position limit, and the market maker's quotes.
\<close>

section \<open>Profit and loss\<close>





definition ex_fill :: "ESide \<Rightarrow> Price \<Rightarrow> Qty \<Rightarrow> SMEClientResponse" where
  "ex_fill sd p q = \<lparr>resp_type = FILLED, resp_clientId = 1, resp_tickerId = 0, resp_clientOrderId = 1, resp_marketOrderId = 1,
     resp_side = sd, resp_price = p, resp_execQty = q, resp_leavesQty = 0\<rparr>"


text \<open>The test for a flipped position multiplies the new and the old position; when a position of size \<open>P\<close> is reduced and the
  product does not fit 32 bits, the operation is undefined whatever the floating-point arithmetic, already from
  \<open>46342\<close> units on.\<close>

theorem position_product_overflows:
  assumes "0 < sint (position p)" and "resp_side r = SELL" and "uint (resp_execQty r) \<le> sint (position p)"
    and "sint (position p) * (sint (position p) - uint (resp_execQty r)) \<ge> 2 ^ 31"
  shows "addFill F r p = Inl SignedOverflow"
proof -
  let ?P = "sint (position p)" and ?q = "position p + resp_execQty r * word_of_int (SideToValue (resp_side r))"
  have f: "fill_qty r = - uint (resp_execQty r)" "0 \<le> uint (resp_execQty r)" "?P < 2 ^ 31"
    using assms(2) sint_lt [of "position p"] by (simp_all add: fill_qty_def)
  then have P: "\<bar>?P\<bar> < 2 ^ 31" "\<bar>?P + fill_qty r\<bar> < 2 ^ 31" using assms(1,3) by linarith+
  have q: "sint ?q = ?P - uint (resp_execQty r)" using new_position [OF P(2)] assms(2) by (simp add: fill_qty_def)
  obtain d where d: "smul (position p) (word_of_int (SideToValue (resp_side r))) = Inr d" "sint d = - ?P"
    using smul_small [of "position p" "word_of_int (SideToValue (resp_side r))"] P assms(2) by (auto simp: sint_side)
  obtain m n where mn: "sabs (position p) = Inr m" "sabs ?q = Inr n" using sabs_small [of "position p"] sabs_small [of ?q] P q assms(2) by (auto simp: fill_qty_def)
  have "smul ?q (position p) = Inl SignedOverflow"
    using assms(4) by (simp add: smul_def signed_of_def q mult.commute)
  then show ?thesis using d mn assms(1) by (simp add: addFill_def close_fill_def Let_def)
qed

theorem position_product_overflows_witness:
  "addFill exact_fp (ex_fill SELL 100 1) ((SPositionInfo_default exact_fp (\<lambda>_. Some 0))\<lparr>position := 46342\<rparr>) = Inl SignedOverflow"
  by (rule position_product_overflows) (simp_all add: ex_fill_def)

text \<open>\<open>openVWAP\<close> is not initialised: the first fill of a position adds to whatever it holds, and the total profit
  is off by that value.\<close>

theorem first_fill_counts_junk:
  assumes "junk (SideToIndex BUY) = Some v" and "resp_side r = BUY" and "resp_execQty r \<noteq> 0" and "fill_ok 0 r"
  shows "\<exists>p. addFill exact_fp r (SPositionInfo_default exact_fp junk) = Inr p \<and> totalPnL p = Some (- v)"
proof -
  let ?p0 = "SPositionInfo_default exact_fp junk"
  define Q X where "Q = uint (resp_execQty r)" and "X = sint (resp_price r)"
  have Q: "0 < Q" "Q \<le> max_safe" using assms(2-4) by (auto simp: Q_def fill_ok_def fill_qty_def word_neq_0_conv word_less_def)
  have sq: "sint (resp_execQty r) = Q"
    using sint_word_of_int_range [OF small32, of Q] Q by (simp add: Q_def max_safe_def)
  obtain w :: "64 word" where w: "signed_of (X * Q) = Inr w" "sint w = X * Q"
    using signed64 [OF price_times [of X Q]] Q assms(4) by (auto simp: fill_ok_def X_def)
  obtain n where n: "sabs (resp_execQty r) = Inr n" "sint n = Q" using sabs_small [of "resp_execQty r"] Q sq by (auto simp: max_safe_def)
  have "smul 0 1 = Inr (0 :: 32 word)" by (simp add: smul_def signed_of_def)
  then show ?thesis using assms(1-3) Q w n sq
    by (simp add: addFill_def open_fill_def unreal_at_def SPositionInfo_default_def Let_def Q_def [symmetric] X_def [symmetric] field_simps del: real_sint)
qed

theorem first_fill_counts_junk_witness:
  "\<exists>p. addFill exact_fp (ex_fill BUY 100 10) (SPositionInfo_default exact_fp (\<lambda>_. Some 777)) = Inr p \<and> totalPnL p = Some (- 777)"
  by (rule first_fill_counts_junk) (simp_all add: ex_fill_def fill_ok_def fill_qty_def max_safe_def)

section \<open>Orders\<close>

text \<open>C18: whatever the algorithm quotes and whatever the exchange answers, in any order: per instrument and side the order
  manager sends at most one new order more than the number of orders that have ended, and at most one
  cancel per accepted order.\<close>

theorem orders_balance:
  assumes "foldE (om_run_event F rm) es (k, COrderManager_new c q) = Inr (k', om)" and "queue_ok q" and "contents q = []"
    and "2 * length es \<le> q_size q" and "side \<in> {BUY, SELL}"
  shows "count (about t side Req_NEW) (contents (om_requests om)) \<le> Suc (count (ends_order t side) es)
    \<and> count (about t side Req_CANCEL) (contents (om_requests om)) \<le> count (accepts_order t side) es"
proof -
  have "length (contents (om_requests (COrderManager_new c q))) + 2 * length es \<le> q_size (om_requests (COrderManager_new c q))"
    using assms(3,4) by (simp add: COrderManager_new_def del: length_contents)
  from events_balanced [OF assms(1) balanced_new [OF assms(2,3)] this] have "sided t side es om"
    using assms(5) by (auto simp: balanced_def sides_def)
  then show ?thesis by (auto simp: sided_def Let_def split: if_splits)
qed

definition ex_cfg :: "TickerId \<Rightarrow> real option ETradeEngineCfg" where
  "ex_cfg t = \<lparr>cfg_clip = 10, cfg_threshold = Some 0, cfg_riskCfg = \<lparr>max_order_size = 20, max_position = 30, max_loss = Some (- 100)\<rparr>\<rparr>"

definition ex_accept :: "ESide \<Rightarrow> SMEClientResponse" where
  "ex_accept sd = \<lparr>resp_type = ACCEPTED, resp_clientId = 1, resp_tickerId = 0, resp_clientOrderId = 1, resp_marketOrderId = 1,
     resp_side = sd, resp_price = 99, resp_execQty = 0, resp_leavesQty = 10\<rparr>"

definition ex_events :: "om_event list" where
  "ex_events = [Quotes 0 99 102 10, Responded (ex_accept BUY), Quotes 0 98 102 10, Responded (ex_fill BUY 99 10), Quotes 0 98 102 10]"

definition ex_om :: COrderManager where
  "ex_om = COrderManager_new 1 (CLockFreeQueue_new 16 SMEClientRequest_default)"

definition ex_keeper :: "real option EPositionKeeper" where
  "ex_keeper = EPositionKeeper_new exact_fp (\<lambda>_ _. Some 0)"

lemmas om_eval = moveOrders_def moveOrder_def order_at_def checkPreTradeRisk_def getPositionInfo_def SRiskInfo_check_def
  newOrder_def cancelOrder_def Let_def order_put_def sendClientRequest_def om_onOrderUpdate_eq respond_def
  CRiskManager_new_def EPositionKeeper_new_def COrderManager_new_def SOMOrder_default_def SPositionInfo_default_def
  smul_def sadd_def sabs_def signed_of_def bounds_defs Price_INVALID_def

lemmas ex_om_defs = ex_events_def ex_keeper_def ex_om_def ex_cfg_def ex_accept_def ex_fill_def pk_addFill_def on_position_def
  addFill_def open_fill_def unreal_at_def

lemma ex_run: "\<exists>k om. foldE (om_run_event exact_fp (CRiskManager_new ex_cfg)) ex_events (ex_keeper, ex_om) = Inr (k, om) \<and> net 0 k = 10"
  by (simp add: ex_om_defs om_eval net_def)

lemma ex_run_fits: "fitting_run exact_fp (CRiskManager_new ex_cfg) ex_events (ex_keeper, ex_om)"
  by (simp add: ex_om_defs om_eval active_def)

theorem orders_balance_witness:
  "\<exists>k om. foldE (om_run_event exact_fp (CRiskManager_new ex_cfg)) ex_events (ex_keeper, ex_om) = Inr (k, om)
    \<and> count (about 0 BUY Req_NEW) (contents (om_requests om)) \<le> 2 \<and> count (about 0 BUY Req_CANCEL) (contents (om_requests om)) \<le> 1"
proof -
  let ?q = "CLockFreeQueue_new 16 SMEClientRequest_default"
  obtain k om where r: "foldE (om_run_event exact_fp (CRiskManager_new ex_cfg)) ex_events (ex_keeper, COrderManager_new 1 ?q) = Inr (k, om)"
    using ex_run by (auto simp: ex_om_def)
  have c: "count (ends_order 0 BUY) ex_events = 1" "count (accepts_order 0 BUY) ex_events = 1"
    by (simp_all add: ex_events_def ex_accept_def ex_fill_def)
  show ?thesis
    using orders_balance [OF r queue_ok_new contents_new, of BUY 0] r unfolding c by (auto simp: ex_events_def ex_om_def)
qed

text \<open>C17: while every fill and acceptance answers a working order and the filled and remaining quantities add up, position and
  working orders together stay within the risk manager's position limit at every moment, however the two sides of the quote are
  filled and replaced.\<close>

theorem position_within_limit:
  assumes "foldE (om_run_event F (CRiskManager_new cfg)) es (EPositionKeeper_new F junk, COrderManager_new c q) = Inr (k, om)"
    and "fitting_run F (CRiskManager_new cfg) es (EPositionKeeper_new F junk, COrderManager_new c q)"
    and "uint (max_order_size (cfg_riskCfg (cfg t))) < 2 ^ 31" and "0 \<le> sint (max_position (cfg_riskCfg (cfg t)))"
  shows "\<bar>sint (position (m_tickerPosition k t))\<bar> \<le> sint (max_position (cfg_riskCfg (cfg t)))
    \<and> net t k + working t BUY om \<le> sint (max_position (cfg_riskCfg (cfg t)))
    \<and> - sint (max_position (cfg_riskCfg (cfg t))) \<le> net t k - working t SELL om"
proof -
  let ?b = "sint (max_position (m_tickerRisk (CRiskManager_new cfg) t))"
  have rm: "m_tickerRisk (CRiskManager_new cfg) t = cfg_riskCfg (cfg t)" by (simp add: CRiskManager_new_def)
  have "within_limit ?b t (EPositionKeeper_new F junk) (COrderManager_new c q)"
    using assms(4) by (simp add: rm within_limit_def net_def working_def EPositionKeeper_new_def SPositionInfo_default_def COrderManager_new_def
        SOMOrder_default_def active_def)
  from events_limit [OF assms(1,2) _ this] assms(3) have "within_limit ?b t k om" by (simp add: rm)
  then show ?thesis using working_nonneg [of t BUY om] working_nonneg [of t SELL om] unfolding within_limit_def rm net_def by linarith
qed

theorem position_within_limit_witness:
  "\<exists>k om. foldE (om_run_event exact_fp (CRiskManager_new ex_cfg)) ex_events (ex_keeper, ex_om) = Inr (k, om)
    \<and> sint (position (m_tickerPosition k 0)) = 10 \<and> net 0 k + working 0 BUY om \<le> 30 \<and> - 30 \<le> net 0 k - working 0 SELL om"
proof -
  obtain k om where r: "foldE (om_run_event exact_fp (CRiskManager_new ex_cfg)) ex_events (ex_keeper, ex_om) = Inr (k, om)" "net 0 k = 10"
    using ex_run by auto
  show ?thesis using position_within_limit [OF r(1) [unfolded ex_keeper_def ex_om_def] ex_run_fits [unfolded ex_keeper_def ex_om_def], of 0] r
    by (auto simp: ex_cfg_def net_def)
qed

section \<open>The market maker's quotes\<close>






section \<open>The trade engine\<close>

text \<open>C21: a round of the trade engine with either algorithm is a run of order-manager events whose responses are exactly those
  on the incoming queue, in order: everything proved of such runs holds of the engine.\<close>

theorem engine_runs_order_events:
  assumes "te_Run F now te = Inr te'" and "te_algo te \<in> {MAKER, TAKER}"
    and "queue_ok (pIncomingOgwResponses te)" and "queue_ok (pIncomingMdUpdates te)"
  shows "\<exists>es. foldE (om_run_event F (m_riskManager te)) es (m_positionKeeper te, m_orderManager te) = Inr (m_positionKeeper te', m_orderManager te')
    \<and> responses_in es = contents (pIncomingOgwResponses te)"
  using te_Run_follows [OF assms(1) _ assms(3,4)] assms(2) by (simp add: algorithmic_def orders_of_engine_def)

definition ex_te :: "real option CTradeEngine" where
  "ex_te = CTradeEngine_new exact_fp (\<lambda>_ _. Some 0) 1 TAKER ex_cfg (CLockFreeQueue_new 16 SMEClientRequest_default)
     (fold enqueue [ex_accept BUY, ex_fill BUY 99 10] (CLockFreeQueue_new 8 SMEClientResponse_default)) (CLockFreeQueue_new 8 SMEMarketUpdate_default)"

lemma ex_te_queues: "queue_ok (pIncomingOgwResponses ex_te)" "contents (pIncomingOgwResponses ex_te) = [ex_accept BUY, ex_fill BUY 99 10]"
  "queue_ok (pIncomingMdUpdates ex_te)" "contents (pIncomingMdUpdates ex_te) = []" "te_algo ex_te = TAKER"
  using lfq.enq_all [of "CLockFreeQueue_new 8 SMEClientResponse_default" "[ex_accept BUY, ex_fill BUY 99 10]"]
  by (simp_all add: ex_te_def CTradeEngine_new_def queue_ok_new)

lemma ex_te_runs: "\<exists>te'. te_Run exact_fp 5 ex_te = Inr te'"
proof -
  let ?q = "pIncomingOgwResponses ex_te"
  have "\<exists>te1. foldE (te_response exact_fp 5) (contents ?q) ex_te = Inr te1 \<and> pIncomingMdUpdates te1 = pIncomingMdUpdates ex_te"
    unfolding ex_te_queues(2)
    by (simp add: ex_te_def CTradeEngine_new_def te_response_def te_onOrderUpdate_def te_algoOnOrderUpdate_def ex_om_defs om_eval)
  then obtain te1 where 1: "foldE (te_response exact_fp 5) (contents ?q) ex_te = Inr te1" "pIncomingMdUpdates te1 = pIncomingMdUpdates ex_te" by blast
  have "length (contents ?q) < Suc (m_numElements ?q)" by simp
  from lfq.drain_law [OF ex_te_queues(1) this, of "te_response exact_fp 5" ex_te] 1(1)
  obtain q1 where q1: "drain (Suc (m_numElements ?q)) front UpdateReadIndex (te_response exact_fp 5) ?q ex_te = Inr (q1, te1)" by auto
  have "length (contents (pIncomingMdUpdates ex_te)) < Suc (m_numElements (pIncomingMdUpdates ex_te))" by simp
  from lfq.drain_law [OF ex_te_queues(3) this, of "te_market_update exact_fp 5" "te1\<lparr>pIncomingOgwResponses := q1\<rparr>"]
  obtain q2 where "drain (Suc (m_numElements (pIncomingMdUpdates ex_te))) front UpdateReadIndex (te_market_update exact_fp 5) (pIncomingMdUpdates ex_te)
      (te1\<lparr>pIncomingOgwResponses := q1\<rparr>) = Inr (q2, te1\<lparr>pIncomingOgwResponses := q1\<rparr>)" unfolding ex_te_queues(4) by auto
  then show ?thesis unfolding te_Run_def Let_def q1 bindE_Inr prod.case by (simp add: 1(2) del: drain.simps)
qed

theorem engine_runs_order_events_witness:
  "\<exists>te' es. te_Run exact_fp 5 ex_te = Inr te'
    \<and> foldE (om_run_event exact_fp (m_riskManager ex_te)) es (m_positionKeeper ex_te, m_orderManager ex_te) = Inr (m_positionKeeper te', m_orderManager te')
    \<and> responses_in es = [ex_accept BUY, ex_fill BUY 99 10]"
proof -
  obtain te' where te': "te_Run exact_fp 5 ex_te = Inr te'" using ex_te_runs by blast
  from engine_runs_order_events [OF this _ ex_te_queues(1,3)] te' show ?thesis by (auto simp: ex_te_queues(2,5))
qed

end
