(* ===== verification/EngineBounds.thy ===== *)
theory EngineBounds
  imports MatchingEngine
begin

text \<open>
  How much work the matching engine is made for: a bound on what a stream of requests does to the books and queues,
  from the shape of the requests alone.  The number of messages is bounded by a potential: every trade takes an order
  out of a book, apart from at most one per request, and every request puts at most one order into a book.
\<close>

section \<open>Requests of the expected shape\<close>

definition in_band :: "int \<Rightarrow> Price \<Rightarrow> bool" where
  "in_band lo p \<longleftrightarrow> lo \<le> sint p \<and> sint p < lo + 254"

definition sane_request :: "int \<Rightarrow> SMEClientRequest \<Rightarrow> bool" where
  "sane_request lo r \<longleftrightarrow> unat (req_tickerId r) < ME_MAX_TICKERS \<and> id_in_range (req_clientId r) (req_orderId r)
     \<and> (req_type r = Req_CANCEL \<or> req_type r = Req_NEW \<and> req_side r \<in> sides \<and> in_band lo (req_price r))"

definition request_key :: "SMEClientRequest \<Rightarrow> ClientId \<times> OrderId" where
  "request_key r = (req_clientId r, req_orderId r)"

definition new_keys :: "SMEClientRequest list \<Rightarrow> (ClientId \<times> OrderId) list" where
  "new_keys rs = map request_key (filter (\<lambda>r. req_type r = Req_NEW) rs)"

definition sane_stream :: "int \<Rightarrow> SMEClientRequest list \<Rightarrow> bool" where
  "sane_stream lo rs \<longleftrightarrow> (\<forall>r\<in>set rs. sane_request lo r) \<and> distinct (new_keys rs)
     \<and> 3 * length rs \<le> ME_MAX_CLIENT_UPDATES \<and> 3 * length rs \<le> ME_MAX_MARKET_UPDATES"

section \<open>Prices of a band have entries of their own\<close>

lemma sint_eqD: "sint (p :: Price) = sint q \<Longrightarrow> p = q"
  by (metis of_int_sint scast_id)

lemma sint_mod_256: "sint (p :: Price) mod 256 = uint p mod 256"
proof -
  have "sint p = signed_take_bit 63 (uint p)" by (simp add: sint_uint)
  then have "take_bit 8 (sint p) = take_bit 8 (uint p)" by (simp add: take_bit_signed_take_bit)
  then show ?thesis by (simp add: take_bit_eq_mod)
qed

lemma PriceToIndex_inj:
  assumes "in_band lo p" and "in_band lo q" and "PriceToIndex p = PriceToIndex q"
  shows "p = q"
proof -
  have "uint p mod 256 = uint q mod 256"
    using arg_cong [OF assms(3), of uint] by (simp add: PriceToIndex_def ME_MAX_PRICE_LEVELS_def uint_mod)
  then have "256 dvd sint p - sint q" by (simp add: mod_eq_dvd_iff flip: sint_mod_256)
  moreover have "\<bar>sint p - sint q\<bar> < 256" using assms(1,2) unfolding in_band_def by linarith
  ultimately have "sint p - sint q = 0" using zdvd_imp_le by fastforce
  then show ?thesis unfolding right_minus_eq by (rule sint_eqD)
qed

lemma card_band:
  assumes "\<forall>r\<in>A. in_band lo (ord_price r)" shows "card (ord_price ` A) \<le> 254"
proof -
  have inj: "inj_on sint (ord_price ` A)" by (auto intro: inj_onI sint_eqD)
  have "sint ` ord_price ` A \<subseteq> {lo..<lo + 254}" using assms by (auto simp: in_band_def)
  then have "card (sint ` ord_price ` A) \<le> card {lo..<lo + 254}" by (intro card_mono) simp_all
  then show ?thesis using card_image [OF inj] by simp
qed

section \<open>What one request adds\<close>

lemma fill_count:
  "spec_fill side price leaves rs = (fills, l, rest) \<Longrightarrow>
    length fills + length rest \<le> length rs + (if l = 0 then 1 else 0)"
proof (induction side price leaves rs arbitrary: fills l rest rule: spec_fill.induct)
  case (2 side price leaves r rs)
  then show ?case by (fastforce split: if_splits prod.splits)
qed simp

lemma fill_calls_count:
  "length (responses_of (fill_calls t c sd coid moid leaves fs)) = 2 * length fs
    \<and> length (updates_of (fill_calls t c sd coid moid leaves fs)) = 2 * length fs"
  by (induction t c sd coid moid leaves fs rule: fill_calls.induct) (simp_all add: trade_calls_def)

definition book_size :: "abook \<Rightarrow> nat" where
  "book_size B = length (B BUY) + length (B SELL)"

lemma book_size_side: "sd \<in> sides \<Longrightarrow> book_size B = length (B sd) + length (B (opp sd))"
  by (auto simp: book_size_def sides_def opp_def)

definition book_within :: "int \<Rightarrow> (ClientId \<times> OrderId) set \<Rightarrow> abook \<Rightarrow> bool" where
  "book_within lo K B \<longleftrightarrow> (\<forall>r\<in>live_orders B. client_key r \<in> K \<and> in_band lo (ord_price r))"

lemma live_orders_side: "sd \<in> sides \<Longrightarrow> live_orders B = set (B sd) \<union> set (B (opp sd))"
  by (auto simp: live_orders_def sides_def opp_def)

lemma book_within_I:
  assumes "sd \<in> sides" and "\<forall>r\<in>set (B sd) \<union> set (B (opp sd)). client_key r \<in> K \<and> in_band lo (ord_price r)"
  shows "book_within lo K B"
  using assms unfolding book_within_def live_orders_side [OF assms(1)] by blast

lemma spec_insert_length: "length (spec_insert pr sd n rs) = Suc (length rs)"
  using arg_cong [OF spec_insert_mset, of size pr sd n rs] by simp

lemma AddOrder_bounds:
  assumes inv: "side_inv m (opp side) (B (opp side))" and w: "book_within lo K B" and sd: "side \<in> sides" and p: "in_band lo price"
    and add: "spec_AddOrder client coid t side price qty m B = (B', calls)"
  shows "book_within lo (insert (client, coid) K) B'"
    and "length (responses_of calls) + 2 * book_size B' \<le> 3 + 2 * book_size B"
    and "length (updates_of calls) + 2 * book_size B' \<le> 3 + 2 * book_size B"
proof -
  obtain fills l rest where f: "spec_fill side price qty (B (opp side)) = (fills, l, rest)" by (metis prod_cases3)
  note n = fill_count [OF f] and R = side_inv_rest [OF inv f] and C = spec_AddOrder_cases [where B = B, OF f refl refl refl refl]
  have ne: "opp side \<noteq> side" using sd by simp
  have s: "\<forall>r\<in>set (B side). client_key r \<in> K \<and> in_band lo (ord_price r)"
    and o: "\<forall>r\<in>set rest. client_key r \<in> K \<and> in_band lo (ord_price r)"
    using w R(2,4) sd unfolding book_within_def live_orders_side [OF sd] by (auto dest!: subsetD)
  show "book_within lo (insert (client, coid) K) B'"
    using add C s o p ne by (intro book_within_I [OF sd]) (auto split: if_splits simp: client_key_def)
  have len: "book_size B' = length (B side) + length rest + (if l = 0 then 0 else 1)"
    "length (responses_of calls) = 1 + 2 * length fills" "length (updates_of calls) = 2 * length fills + (if l = 0 then 0 else 1)"
    using add C ne by (auto split: if_splits simp: book_size_side [OF sd] fill_calls_count spec_insert_length)
  show "length (responses_of calls) + 2 * book_size B' \<le> 3 + 2 * book_size B"
    "length (updates_of calls) + 2 * book_size B' \<le> 3 + 2 * book_size B"
    using n unfolding len book_size_side [OF sd, of B] by (auto split: if_splits)
qed

lemma CancelOrder_shrinks:
  assumes "spec_CancelOrder client coid t B = (B', calls)"
  shows "set (B' sd) \<subseteq> set (B sd)" and "length (B' sd) \<le> length (B sd)"
  using assms by (auto simp: spec_CancelOrder_def length_remove1 dest!: subsetD [OF set_remove1_subset] split: option.splits if_splits)

lemma CancelOrder_bounds:
  assumes w: "book_within lo K B" and c: "spec_CancelOrder client coid t B = (B', calls)"
  shows "book_within lo K B'" and "length (responses_of calls) = 1" and "length (updates_of calls) \<le> 1" and "book_size B' \<le> book_size B"
proof -
  note sub = CancelOrder_shrinks [OF c]
  show "book_within lo K B'" using w sub(1) by (fastforce simp: book_within_def live_orders_def)
  show "length (responses_of calls) = 1" "length (updates_of calls) \<le> 1"
    using c by (auto simp: spec_CancelOrder_def split: option.splits)
  show "book_size B' \<le> book_size B" using sub(2) by (simp add: book_size_def add_mono)
qed

section \<open>The state after some requests\<close>

definition total_size :: "spec_engine \<Rightarrow> nat" where
  "total_size sp = (\<Sum>t | unat t < ME_MAX_TICKERS. book_size (sp_books sp t))"

text \<open>After \<open>n\<close> requests, whose NEW requests had the keys \<open>K\<close>.\<close>

definition engine_bounded :: "int \<Rightarrow> (ClientId \<times> OrderId) set \<Rightarrow> nat \<Rightarrow> spec_engine \<Rightarrow> bool" where
  "engine_bounded lo K n sp \<longleftrightarrow> spec_engine_inv sp \<and> (\<forall>t. book_within lo K (sp_books sp t) \<and> unat (sp_next sp t) \<le> Suc n)
     \<and> length (sp_responses sp) + 2 * total_size sp \<le> 3 * n \<and> length (sp_updates sp) + 2 * total_size sp \<le> 3 * n"

lemma total_size_update:
  assumes "unat (t :: TickerId) < ME_MAX_TICKERS"
  shows "total_size (sp\<lparr>sp_books := (sp_books sp)(t := B)\<rparr>) + book_size (sp_books sp t) = total_size sp + book_size B"
proof -
  let ?A = "{t :: TickerId. unat t < ME_MAX_TICKERS}"
  have "(\<Sum>t'\<in>?A. f t') = f t + (\<Sum>t'\<in>?A - {t}. f t')" for f :: "TickerId \<Rightarrow> nat"
    using assms by (simp add: sum.remove)
  moreover have "(\<Sum>t'\<in>?A - {t}. book_size (((sp_books sp)(t := B)) t')) = (\<Sum>t'\<in>?A - {t}. book_size (sp_books sp t'))"
    by (rule sum.cong) simp_all
  ultimately show ?thesis by (simp add: total_size_def)
qed

lemma total_size_ge:
  assumes "unat t < ME_MAX_TICKERS" shows "book_size (sp_books sp t) \<le> total_size sp"
  unfolding total_size_def using assms by (intro member_le_sum) simp_all

lemma bounded_start: "engine_bounded lo {} 0 spec_start"
  by (simp add: engine_bounded_def spec_start_inv) (simp add: spec_start_def book_within_def live_orders_def total_size_def book_size_def)

lemma bounded_mono: "engine_bounded lo K n sp \<Longrightarrow> K \<subseteq> K' \<Longrightarrow> engine_bounded lo K' n sp"
  by (fastforce simp: engine_bounded_def book_within_def)

text \<open>The result of one request, before its bounds are known to be those of the engine.\<close>

lemma result_bounds:
  assumes b: "engine_bounded lo K n sp" and r: "sane_request lo r" and res: "spec_result r sp = (B, calls)"
  shows "book_within lo (if req_type r = Req_NEW then insert (request_key r) K else K) B"
    and "length (responses_of calls) + 2 * book_size B \<le> 3 + 2 * book_size (sp_books sp (req_tickerId r))"
    and "length (updates_of calls) + 2 * book_size B \<le> 3 + 2 * book_size (sp_books sp (req_tickerId r))"
proof -
  let ?t = "req_tickerId r"
  have w: "book_within lo K (sp_books sp ?t)" and i: "spec_inv (sp_next sp ?t) (sp_books sp ?t)"
    using b by (simp_all add: engine_bounded_def spec_engine_inv_def)
  have "book_within lo (if req_type r = Req_NEW then insert (request_key r) K else K) B
    \<and> length (responses_of calls) + 2 * book_size B \<le> 3 + 2 * book_size (sp_books sp ?t)
    \<and> length (updates_of calls) + 2 * book_size B \<le> 3 + 2 * book_size (sp_books sp ?t)"
  proof (cases "req_type r = Req_NEW")
    case True
    then have s: "req_side r \<in> sides" "in_band lo (req_price r)" using r by (simp_all add: sane_request_def)
    show ?thesis using AddOrder_bounds [OF spec_invD(2) [OF i s(1)] w s] res True
      by (simp add: spec_result_def Let_def request_key_def)
  next
    case False
    then have "spec_CancelOrder (req_clientId r) (req_orderId r) ?t (sp_books sp ?t) = (B, calls)"
      using res by (simp add: spec_result_def Let_def)
    from CancelOrder_bounds [OF w this] False show ?thesis by simp
  qed
  then show "book_within lo (if req_type r = Req_NEW then insert (request_key r) K else K) B"
    "length (responses_of calls) + 2 * book_size B \<le> 3 + 2 * book_size (sp_books sp ?t)"
    "length (updates_of calls) + 2 * book_size B \<le> 3 + 2 * book_size (sp_books sp ?t)" by blast+
qed

lemma request_fits_bounded:
  assumes b: "engine_bounded lo K n sp" and r: "sane_request lo r" and fresh: "req_type r = Req_NEW \<longrightarrow> request_key r \<notin> K"
    and lim: "3 * Suc n < ME_MAX_ORDER_IDS"
  shows "request_fits r sp"
    and "engine_bounded lo (if req_type r = Req_NEW then insert (request_key r) K else K) (Suc n) (spec_request r sp)"
proof -
  let ?t = "req_tickerId r" and ?B = "sp_books sp (req_tickerId r)"
  obtain B calls where res: "spec_result r sp = (B, calls)" by fastforce
  note R = result_bounds [OF b r res]
  have t: "unat ?t < ME_MAX_TICKERS" using r by (simp add: sane_request_def)
  have st: "sp_books (spec_request r sp) = (sp_books sp)(?t := B)" "sp_responses (spec_request r sp) = sp_responses sp @ responses_of calls"
    "sp_updates (spec_request r sp) = sp_updates sp @ updates_of calls"
    "sp_next (spec_request r sp) = (if req_type r = Req_NEW then (sp_next sp)(?t := sp_next sp ?t + 1) else sp_next sp)"
    using res by (simp_all add: spec_request_def Let_def)
  have "total_size (spec_request r sp) = total_size (sp\<lparr>sp_books := (sp_books sp)(?t := B)\<rparr>)" by (simp add: total_size_def st)
  then have tot: "total_size (spec_request r sp) + book_size ?B = total_size sp + book_size B" using total_size_update [OF t] by simp
  have old: "length (sp_responses sp) + 2 * total_size sp \<le> 3 * n" "length (sp_updates sp) + 2 * total_size sp \<le> 3 * n"
    and w: "book_within lo K ?B" and nx: "unat (sp_next sp t) \<le> Suc n" for t using b by (simp_all add: engine_bounded_def)
  have new: "length (sp_responses (spec_request r sp)) + 2 * total_size (spec_request r sp) \<le> 3 * Suc n"
    "length (sp_updates (spec_request r sp)) + 2 * total_size (spec_request r sp) \<le> 3 * Suc n"
    using R(2,3) old tot by (simp_all add: st)
  have small: "Suc (Suc n) < 2 ^ 64" using lim by (simp add: bounds_defs)
  have inc: "unat (sp_next sp t + 1) = Suc (unat (sp_next sp t))" for t
    using nx [of t] small by (simp add: unat_word_ariths)
  have "has_room ?B"
    using total_size_ge [OF t, of sp] old(1) lim card_band [of "live_orders ?B" lo] w
    by (simp add: has_room_def book_size_def book_within_def bounds_defs)
  moreover have "table_distinguishes p ?B" if "in_band lo p" for p
    using w that PriceToIndex_inj by (fastforce simp: table_distinguishes_def book_within_def)
  moreover have "(req_clientId r, req_orderId r) \<notin> client_key ` live_orders ?B" if "req_type r = Req_NEW"
    using w fresh that by (fastforce simp: book_within_def request_key_def)
  moreover have "sp_next sp ?t + 1 \<noteq> 0" using inc by (metis nat.distinct(1) unat_0)
  ultimately show ok: "request_fits r sp"
    using r t by (auto simp: request_fits_def Let_def sane_request_def id_in_range_def)
  show "engine_bounded lo (if req_type r = Req_NEW then insert (request_key r) K else K) (Suc n) (spec_request r sp)"
  proof -
    have "spec_engine_inv (spec_request r sp)" using b spec_fits_inv [OF _ ok] by (simp add: engine_bounded_def)
    moreover have "unat (sp_next (spec_request r sp) t) \<le> Suc (Suc n)" for t using nx [of t] nx [of ?t] inc by (simp add: st)
    moreover have "book_within lo (if req_type r = Req_NEW then insert (request_key r) K else K) (sp_books (spec_request r sp) t)" for t
      using R(1) b by (auto simp: st engine_bounded_def book_within_def)
    ultimately show ?thesis using new unfolding engine_bounded_def by blast
  qed
qed

lemma request_bounded:
  assumes b: "engine_bounded lo K n sp" and r: "sane_request lo r" and fresh: "req_type r = Req_NEW \<longrightarrow> request_key r \<notin> K"
    and lim_r: "3 * Suc n \<le> ME_MAX_CLIENT_UPDATES" and lim_u: "3 * Suc n \<le> ME_MAX_MARKET_UPDATES"
  shows "request_ok r sp"
    and "engine_bounded lo (if req_type r = Req_NEW then insert (request_key r) K else K) (Suc n) (spec_request r sp)"
proof -
  have "3 * Suc n < ME_MAX_ORDER_IDS" using lim_r by (simp add: bounds_defs)
  from request_fits_bounded [OF b r fresh this] show "request_ok r sp"
    and "engine_bounded lo (if req_type r = Req_NEW then insert (request_key r) K else K) (Suc n) (spec_request r sp)"
    using lim_r lim_u by (simp_all add: request_ok_fits engine_bounded_def)
qed

lemma requests_bounded:
  "engine_bounded lo K n sp \<Longrightarrow> \<forall>r\<in>set rs. sane_request lo r \<Longrightarrow> distinct (new_keys rs) \<Longrightarrow> set (new_keys rs) \<inter> K = {}
    \<Longrightarrow> 3 * (n + length rs) \<le> ME_MAX_CLIENT_UPDATES \<Longrightarrow> 3 * (n + length rs) \<le> ME_MAX_MARKET_UPDATES
    \<Longrightarrow> requests_ok rs sp \<and> engine_bounded lo (K \<union> set (new_keys rs)) (n + length rs) (fold spec_request rs sp)"
proof (induction rs arbitrary: K n sp)
  case Nil
  then show ?case by (simp add: new_keys_def)
next
  case (Cons r rs)
  let ?K = "if req_type r = Req_NEW then insert (request_key r) K else K"
  have step: "request_ok r sp" "engine_bounded lo ?K (Suc n) (spec_request r sp)"
  proof -
    have "req_type r = Req_NEW \<longrightarrow> request_key r \<notin> K" using Cons.prems(4) by (auto simp: new_keys_def)
    then show "request_ok r sp" "engine_bounded lo ?K (Suc n) (spec_request r sp)"
      using request_bounded [OF Cons.prems(1), of r] Cons.prems(2,5,6) by auto
  qed
  have nk: "new_keys (r # rs) = (if req_type r = Req_NEW then request_key r # new_keys rs else new_keys rs)" by (simp add: new_keys_def)
  have "set (new_keys rs) \<inter> ?K = {}" "K \<union> set (new_keys (r # rs)) = ?K \<union> set (new_keys rs)"
    using Cons.prems(3,4) unfolding nk by (cases "req_type r = Req_NEW"; simp)+
  then show ?case using Cons.IH [OF step(2)] step(1) Cons.prems(2,3,5,6) by (auto simp: new_keys_def)
qed

lemma sane_stream_ok:
  assumes "sane_stream lo rs"
  shows "requests_ok rs spec_start" and "engine_bounded lo (set (new_keys rs)) (length rs) (fold spec_request rs spec_start)"
  using requests_bounded [OF bounded_start, of rs lo] assms by (simp_all add: sane_stream_def)

end
