(* ===== verification/NumberText.thy ===== *)
theory NumberText
  imports Types Arith
begin

text \<open>\<open>std::atoi\<close>, and that it reads back what \<open>std::to_string\<close> prints.\<close>

definition is_space :: "char \<Rightarrow> bool" where
  "is_space c \<longleftrightarrow> (of_char c :: nat) = 32 \<or> (of_char c :: nat) \<in> {9..13}"

definition is_digit :: "char \<Rightarrow> bool" where
  "is_digit c \<longleftrightarrow> (of_char c :: nat) \<in> {48..57}"

definition digits_value :: "string \<Rightarrow> int" where
  "digits_value = foldl (\<lambda>v c. 10 * v + (of_char c - 48)) 0"

definition atoi :: "string \<Rightarrow> 32 word outcome" where
  "atoi s =
     (let t = dropWhile is_space s;
          u = (if t \<noteq> [] \<and> hd t \<in> {CHR ''-'', CHR ''+''} then tl t else t);
          v = digits_value (takeWhile is_digit u)
      in signed_of (if t \<noteq> [] \<and> hd t = CHR ''-'' then - v else v))"

lemma digit_char: "d < 10 \<Longrightarrow> (of_char (digit d) :: nat) = 48 + d" "d < 10 \<Longrightarrow> (of_char (digit d) :: int) = int (48 + d)"
proof -
  assume d: "d < 10"
  then show "(of_char (digit d) :: nat) = 48 + d" by (simp add: digit_def)
  then show "(of_char (digit d) :: int) = int (48 + d)" by (metis of_nat_of_char)
qed

lemma digits_value_append: "digits_value (s @ [c]) = 10 * digits_value s + (of_char c - 48)"
  by (simp add: digits_value_def)

lemma to_string_nat_value: "(\<forall>c\<in>set (to_string_nat n). is_digit c) \<and> digits_value (to_string_nat n) = int n"
proof (induction n rule: to_string_nat.induct)
  case (1 n)
  show ?case
  proof (cases "n < 10")
    case True
    then show ?thesis by (simp add: to_string_nat_small is_digit_def digits_value_def digit_char)
  next
    case False
    have "digits_value (to_string_nat (n div 10) @ [digit (n mod 10)]) = 10 * int (n div 10) + int (n mod 10)"
      using 1 False by (simp add: digits_value_append digit_char)
    also have "\<dots> = int n" using mult_div_mod_eq [of 10 n] by (metis of_nat_add of_nat_mult of_nat_numeral)
    finally show ?thesis using 1 False by (simp add: to_string_nat_large is_digit_def digit_char)
  qed
qed

lemma atoi_to_string:
  assumes "n < 2 ^ 31" shows "atoi (to_string_nat n) = Inr (of_nat n)"
proof -
  let ?s = "to_string_nat n"
  have d: "\<forall>c\<in>set ?s. is_digit c" "digits_value ?s = int n" using to_string_nat_value by simp_all
  have ne: "?s \<noteq> []" by (rule to_string_nat_ne)
  then have "is_digit (hd ?s)" using d(1) by simp
  then have h: "\<not> is_space (hd ?s)" "hd ?s \<notin> {CHR ''-'', CHR ''+''}" by (auto simp: is_digit_def is_space_def)
  then have "dropWhile is_space ?s = ?s" using ne by (simp add: dropWhile_eq_self_iff)
  moreover have "digits_value (takeWhile is_digit ?s) = int n" using d by (metis takeWhile_eq_all_conv)
  ultimately show ?thesis using h assms by (simp add: atoi_def Let_def signed_of_def)
qed

end
