(* ===== verification/MainProgram.thy ===== *)
theory MainProgram
  imports EngineBounds SnapshotSynthesizer OrderServer TradeEngine NumberText "HOL-Library.Signed_Division"
begin

text \<open>
  The two main programs, \<open>exchange/ExchangeMain.cpp\<close> and \<open>trading/TradingMain.cpp\<close>: how the exchange is put together,
  how a trading client reads its arguments, and the requests of the random algorithm.  The random numbers and the clock
  are parameters; starting and stopping are in theory \<open>Startup\<close>.
\<close>

section \<open>The exchange\<close>

text \<open>The queues are empty at the start, so that every thread may be given a copy of its own.\<close>

definition exchange_main :: "CMatchingEngine \<times> CMarketDataPublisher \<times> COrderServer" where
  "exchange_main =
     (let client_requests = CLockFreeQueue_new ME_MAX_CLIENT_UPDATES SMEClientRequest_default;
          client_responses = CLockFreeQueue_new ME_MAX_CLIENT_UPDATES SMEClientResponse_default;
          market_updates = CLockFreeQueue_new ME_MAX_MARKET_UPDATES SMEMarketUpdate_default
      in (CMatchingEngine_new client_requests client_responses market_updates,
          CMarketDataPublisher_new market_updates, COrderServer_new client_requests client_responses))"

section \<open>The arguments of a trading client\<close>

text \<open>\<open>argv[argc]\<close> is the null pointer; \<open>args\<close> starts with the name of the program.\<close>

definition argv :: "string list \<Rightarrow> nat \<Rightarrow> string outcome" where
  "argv args i = (if i < length args then Inr (args ! i) else if i = length args then Inl NullDeref else Inl OutOfBounds)"

definition arg_int :: "string list \<Rightarrow> nat \<Rightarrow> 32 word outcome" where
  "arg_int args i = bindE (argv args i) atoi"

text \<open>\<open>atof\<close> is a parameter, as all floating-point arithmetic is.  The right operand of an assignment is evaluated first.\<close>

definition read_cfg :: "(string \<Rightarrow> 'd) \<Rightarrow> string list \<Rightarrow> nat \<Rightarrow> 'd ETradeEngineCfg outcome" where
  "read_cfg atof args i =
     bindE (arg_int args i) (\<lambda>clip.
     bindE (argv args (i + 1)) (\<lambda>threshold.
     bindE (arg_int args (i + 2)) (\<lambda>order_size.
     bindE (arg_int args (i + 3)) (\<lambda>position.
     bindE (argv args (i + 4)) (\<lambda>loss.
     Inr \<lparr>cfg_clip = clip, cfg_threshold = atof threshold,
          cfg_riskCfg = \<lparr>max_order_size = order_size, max_position = position, max_loss = atof loss\<rparr>\<rparr>)))))"

function read_cfgs :: "(string \<Rightarrow> 'd) \<Rightarrow> string list \<Rightarrow> nat \<Rightarrow> nat \<Rightarrow> (TickerId \<Rightarrow> 'd ETradeEngineCfg) \<Rightarrow> (TickerId \<Rightarrow> 'd ETradeEngineCfg) outcome" where
  "read_cfgs atof args i nextTickerId cfg =
     (if i < length args
      then bindE (read_cfg atof args i) (\<lambda>c.
           if nextTickerId < ME_MAX_TICKERS
           then read_cfgs atof args (i + 5) (nextTickerId + 1) (cfg(of_nat nextTickerId := c))
           else Inl OutOfRange)
      else Inr cfg)"
  by auto
termination by (relation "measure (\<lambda>(atof, args, i, n, cfg). length args - i)") auto

declare read_cfgs.simps [simp del]

definition ETradeEngineCfg_default :: "'d fp \<Rightarrow> 'd ETradeEngineCfg" where
  "ETradeEngineCfg_default F = \<lparr>cfg_clip = 0, cfg_threshold = fp_int F 0,
     cfg_riskCfg = \<lparr>max_order_size = 0, max_position = 0, max_loss = fp_int F 0\<rparr>\<rparr>"

definition USAGE :: string where
  "USAGE = ''USAGE trading_main CLIENT_ID ALGO_TYPE [CLIP_1 THRESH_1 MAX_ORDER_SIZE_1 MAX_POS_1 MAX_LOSS_1] [CLIP_2 THRESH_2 MAX_ORDER_SIZE_2 MAX_POS_2 MAX_LOSS_2] ...''"

definition trading_args :: "'d fp \<Rightarrow> (string \<Rightarrow> 'd) \<Rightarrow> string list \<Rightarrow> (ClientId \<times> EAlgoType \<times> (TickerId \<Rightarrow> 'd ETradeEngineCfg)) outcome" where
  "trading_args F atof args =
     (if length args < 3 then FATAL USAGE
      else bindE (arg_int args 1) (\<lambda>clientId.
           bindE (argv args 2) (\<lambda>algo.
           bindE (read_cfgs atof args 3 0 (\<lambda>_. ETradeEngineCfg_default F)) (\<lambda>tickerCfg.
           Inr (clientId, StringToAlgoType algo, tickerCfg)))))"

text \<open>The trade engine that the program starts; \<open>junk\<close> is what its position keeper's uninitialised members hold.\<close>

definition trading_engine :: "'d fp \<Rightarrow> (TickerId \<Rightarrow> 64 word \<Rightarrow> 'd) \<Rightarrow> (string \<Rightarrow> 'd) \<Rightarrow> string list \<Rightarrow> 'd CTradeEngine outcome" where
  "trading_engine F junk atof args =
     bindE (trading_args F atof args) (\<lambda>(clientId, algoType, tickerCfg).
     Inr (CTradeEngine_new F junk clientId algoType tickerCfg
            (CLockFreeQueue_new ME_MAX_CLIENT_UPDATES SMEClientRequest_default)
            (CLockFreeQueue_new ME_MAX_CLIENT_UPDATES SMEClientResponse_default)
            (CLockFreeQueue_new ME_MAX_MARKET_UPDATES SMEMarketUpdate_default)))"

section \<open>The random algorithm\<close>

definition te_sendClientRequest :: "SMEClientRequest \<Rightarrow> 'd CTradeEngine \<Rightarrow> 'd CTradeEngine" where
  "te_sendClientRequest r te = te\<lparr>m_orderManager := sendClientRequest r (m_orderManager te)\<rparr>"

definition silentSeconds :: "Nanos \<Rightarrow> Nanos \<Rightarrow> int outcome" where
  "silentSeconds now lastEventTime = bindE (ssub now lastEventTime) (\<lambda>d. Inr (sint d sdiv sint NANOS_TO_SECS))"

text \<open>\<open>rand()\<close> takes a state to a non-negative number and the next state.\<close>

definition draw :: "('g \<Rightarrow> nat \<times> 'g) \<Rightarrow> nat \<Rightarrow> 'g \<Rightarrow> nat \<times> 'g" where
  "draw rand m g = (let (v, g') = rand g in (v mod m, g'))"

fun base_prices :: "('g \<Rightarrow> nat \<times> 'g) \<Rightarrow> nat \<Rightarrow> 'g \<Rightarrow> Price list \<times> 'g" where
  "base_prices rand 0 g = ([], g)"
| "base_prices rand (Suc n) g =
     (let (v, g1) = draw rand 100 g; (ps, g2) = base_prices rand n g1 in ((of_nat v + 100) # ps, g2))"

record ('g, 'd) random_state =
  rand_state :: 'g
  next_orderId :: OrderId
  clientRequestsVec :: "SMEClientRequest list"
  rs_engine :: "'d CTradeEngine"

definition random_round :: "('g \<Rightarrow> nat \<times> 'g) \<Rightarrow> ClientId \<Rightarrow> Price list \<Rightarrow> ('g, 'd) random_state \<Rightarrow> ('g, 'd) random_state" where
  "random_round rand clientId tickerBasePrice s =
     (let (tickerId, g1) = draw rand ME_MAX_TICKERS (rand_state s);
          (dp, g2) = draw rand 10 g1;
          (dq, g3) = draw rand 100 g2;
          (b, g4) = draw rand 2 g3;
          newRequest = \<lparr>req_type = Req_NEW, req_clientId = clientId, req_tickerId = of_nat tickerId, req_orderId = next_orderId s,
             req_side = (if b \<noteq> 0 then BUY else SELL), req_price = tickerBasePrice ! tickerId + of_nat dp + 1,
             req_qty = 1 + of_nat dq + 1\<rparr>;
          vec = clientRequestsVec s @ [newRequest];
          (cxlIndex, g5) = draw rand (length vec) g4;
          cxlRequest = (vec ! cxlIndex)\<lparr>req_type := Req_CANCEL\<rparr>
      in \<lparr>rand_state = g5, next_orderId = next_orderId s + 1, clientRequestsVec = vec,
          rs_engine = te_sendClientRequest cxlRequest (te_sendClientRequest newRequest (rs_engine s))\<rparr>)"

text \<open>
  \<open>clocks i\<close> is the clock and the time of the last event at the end of round \<open>i\<close>: the latter is written by the trade
  engine's thread meanwhile.
\<close>

fun random_loop :: "('g \<Rightarrow> nat \<times> 'g) \<Rightarrow> (nat \<Rightarrow> Nanos \<times> Nanos) \<Rightarrow> ClientId \<Rightarrow> Price list \<Rightarrow> nat \<Rightarrow> nat \<Rightarrow> ('g, 'd) random_state
    \<Rightarrow> ('g, 'd) random_state outcome" where
  "random_loop rand clocks clientId prices i 0 s = Inr s"
| "random_loop rand clocks clientId prices i (Suc n) s =
     (let s' = random_round rand clientId prices s
      in bindE (silentSeconds (fst (clocks i)) (snd (clocks i))) (\<lambda>secs.
         if secs \<ge> 60 then Inr s' else random_loop rand clocks clientId prices (i + 1) n s'))"

definition random_trading :: "('g \<Rightarrow> nat \<times> 'g) \<Rightarrow> 'g \<Rightarrow> (nat \<Rightarrow> Nanos \<times> Nanos) \<Rightarrow> ClientId \<Rightarrow> 'd CTradeEngine \<Rightarrow> 'd CTradeEngine outcome" where
  "random_trading rand g clocks clientId te =
     (if te_algo te = RANDOM
      then let (tickerBasePrice, g') = base_prices rand ME_MAX_TICKERS g
           in bindE (random_loop rand clocks clientId tickerBasePrice 0 10000
                \<lparr>rand_state = g', next_orderId = ucast (clientId * 1000), clientRequestsVec = [], rs_engine = te\<rparr>) (\<lambda>s.
              Inr (rs_engine s))
      else Inr te)"

end
