(* ===== verification/MainFacts.thy ===== *)
theory MainFacts
  imports MainProgram
begin

text \<open>What the random algorithm sends, and how the arguments of a trading client are read.\<close>

section \<open>The requests of the random algorithm\<close>

abbreviation outgoing :: "'d CTradeEngine \<Rightarrow> SMEClientRequest CLockFreeQueue" where
  "outgoing te \<equiv> om_requests (m_orderManager te)"

definition client_order_id :: "ClientId \<Rightarrow> nat \<Rightarrow> OrderId" where
  "client_order_id c k = ucast (c * 1000) + of_nat k"

definition random_new :: "ClientId \<Rightarrow> nat \<Rightarrow> SMEClientRequest \<Rightarrow> bool" where
  "random_new c k r \<longleftrightarrow> req_type r = Req_NEW \<and> req_clientId r = c \<and> req_orderId r = client_order_id c k
     \<and> unat (req_tickerId r) < ME_MAX_TICKERS \<and> req_side r \<in> sides \<and> in_band 101 (req_price r)"

text \<open>The requests after \<open>k\<close> rounds: every NEW request is kept in the vector, and only its orders are cancelled.\<close>

definition random_sent :: "ClientId \<Rightarrow> SMEClientRequest list \<Rightarrow> SMEClientRequest list \<Rightarrow> bool" where
  "random_sent c vec rs \<longleftrightarrow> (\<forall>j<length vec. random_new c j (vec ! j)) \<and> length rs = 2 * length vec
     \<and> filter (\<lambda>r. req_type r = Req_NEW) rs = vec
     \<and> (\<forall>r\<in>set rs. r \<in> set vec \<or> (\<exists>v\<in>set vec. r = v\<lparr>req_type := Req_CANCEL\<rparr>))"

definition random_ok :: "ClientId \<Rightarrow> SMEClientRequest CLockFreeQueue \<Rightarrow> ('g, 'd) random_state \<Rightarrow> bool" where
  "random_ok c q s \<longleftrightarrow> next_orderId s = client_order_id c (length (clientRequestsVec s))
     \<and> (\<exists>rs. random_sent c (clientRequestsVec s) rs \<and> queue_ok (outgoing (rs_engine s))
          \<and> contents (outgoing (rs_engine s)) = contents q @ rs \<and> q_size (outgoing (rs_engine s)) = q_size q)"

lemma draw_lt: "0 < m \<Longrightarrow> draw rand m g = (v, g') \<Longrightarrow> v < m"
  by (auto simp: draw_def split: prod.splits)

lemma base_prices_range:
  "base_prices rand n g = (ps, g') \<Longrightarrow> length ps = n \<and> (\<forall>p\<in>set ps. \<exists>v<100. p = of_nat (v + 100))"
proof (induction n arbitrary: g ps)
  case (Suc n)
  obtain v g1 where v: "draw rand 100 g = (v, g1)" by fastforce
  obtain qs where qs: "base_prices rand n g1 = (qs, g')" "ps = (of_nat v + 100) # qs"
    using Suc.prems v by (auto split: prod.splits)
  have "v < 100" using draw_lt [OF _ v] by simp
  then have "\<exists>w<100. (of_nat v + 100 :: Price) = of_nat (w + 100)" by (intro exI [of _ v]) simp
  then show ?case using Suc.IH [OF qs(1)] qs(2) by auto
qed simp

lemma sint_of_nat_small: "n < 2 ^ 63 \<Longrightarrow> sint (of_nat n :: Price) = int n"
  using sint_word_of_int_range [of "int n", where ?'w = 64] by simp

lemma random_price:
  assumes "base_prices rand ME_MAX_TICKERS g = (ps, g')" and "t < ME_MAX_TICKERS" and "d < 10"
  shows "in_band 101 (ps ! t + of_nat d + 1)"
proof -
  have "ps ! t \<in> set ps" using base_prices_range [OF assms(1)] assms(2) by simp
  then obtain v where v: "v < 100" "ps ! t = of_nat (v + 100)" using base_prices_range [OF assms(1)] by blast
  have "ps ! t + of_nat d + 1 = of_nat (v + 100 + d + 1)" unfolding v(2) by simp
  moreover have "sint (of_nat (v + 100 + d + 1) :: Price) = int (v + 100 + d + 1)"
    using v(1) assms(3) by (intro sint_of_nat_small) simp
  ultimately show ?thesis using v(1) assms(3) unfolding in_band_def by simp
qed

lemma send_requests:
  assumes "queue_ok (outgoing te)" and "length (contents (outgoing te)) + 2 \<le> q_size (outgoing te)"
    and te': "te' = te_sendClientRequest b (te_sendClientRequest a te)"
  shows "queue_ok (outgoing te') \<and> contents (outgoing te') = contents (outgoing te) @ [a, b] \<and> q_size (outgoing te') = q_size (outgoing te)"
  using lfq.enq_all [OF assms(1), of "[a, b]"] assms(2) by (simp add: te' te_sendClientRequest_def sendClientRequest_def)

lemma random_sent_step:
  assumes "random_sent c vec rs" and "random_new c (length vec) new" and "cxl \<in> set (vec @ [new])"
  shows "random_sent c (vec @ [new]) (rs @ [new, cxl\<lparr>req_type := Req_CANCEL\<rparr>])"
  using assms by (auto simp: random_sent_def nth_append less_Suc_eq random_new_def)

lemma random_round_ok:
  assumes ok: "random_ok c q s" and p: "base_prices rand ME_MAX_TICKERS g = (ps, g')"
    and room: "length (contents q) + 2 * length (clientRequestsVec s) + 2 \<le> q_size q"
  shows "random_ok c q (random_round rand c ps s)"
    and "length (clientRequestsVec (random_round rand c ps s)) = Suc (length (clientRequestsVec s))"
proof -
  obtain t g1 where d1: "draw rand ME_MAX_TICKERS (rand_state s) = (t, g1)" by fastforce
  obtain dp g2 where d2: "draw rand 10 g1 = (dp, g2)" by fastforce
  obtain dq g3 where d3: "draw rand 100 g2 = (dq, g3)" by fastforce
  obtain b g4 where d4: "draw rand 2 g3 = (b, g4)" by fastforce
  define new where "new = \<lparr>req_type = Req_NEW, req_clientId = c, req_tickerId = of_nat t, req_orderId = next_orderId s,
             req_side = (if b \<noteq> 0 then BUY else SELL), req_price = ps ! t + of_nat dp + 1, req_qty = 1 + of_nat dq + 1\<rparr>"
  let ?vec = "clientRequestsVec s @ [new]"
  obtain i g5 where d5: "draw rand (length ?vec) g4 = (i, g5)" by fastforce
  let ?cxl = "?vec ! i"
  have round: "random_round rand c ps s = \<lparr>rand_state = g5, next_orderId = next_orderId s + 1, clientRequestsVec = ?vec,
          rs_engine = te_sendClientRequest (?cxl\<lparr>req_type := Req_CANCEL\<rparr>) (te_sendClientRequest new (rs_engine s))\<rparr>"
    using d5 by (simp add: random_round_def Let_def d1 d2 d3 d4 new_def)
  have t: "t < ME_MAX_TICKERS" "dp < 10" using draw_lt [OF _ d1] draw_lt [OF _ d2] by (simp_all add: bounds_defs)
  then have "unat (of_nat t :: TickerId) < ME_MAX_TICKERS" by (simp add: bounds_defs unat_of_nat)
  then have new: "random_new c (length (clientRequestsVec s)) new"
    using ok random_price [OF p t] by (auto simp: random_new_def new_def random_ok_def sides_def)
  have cxl: "?cxl \<in> set ?vec" using draw_lt [OF _ d5] by (intro nth_mem) simp
  obtain rs where rs: "random_sent c (clientRequestsVec s) rs" "queue_ok (outgoing (rs_engine s))"
    "contents (outgoing (rs_engine s)) = contents q @ rs" "q_size (outgoing (rs_engine s)) = q_size q"
    using ok unfolding random_ok_def by blast
  have "length rs = 2 * length (clientRequestsVec s)" using rs(1) by (simp add: random_sent_def)
  then have snd: "length (contents (outgoing (rs_engine s))) + 2 \<le> q_size (outgoing (rs_engine s))" using room rs(3,4) by simp
  from send_requests [OF rs(2) this refl] rs(3,4)
  have q: "queue_ok (outgoing (rs_engine (random_round rand c ps s)))"
    "contents (outgoing (rs_engine (random_round rand c ps s))) = contents q @ rs @ [new, ?cxl\<lparr>req_type := Req_CANCEL\<rparr>]"
    "q_size (outgoing (rs_engine (random_round rand c ps s))) = q_size q" unfolding round by simp_all
  have "next_orderId s + 1 = client_order_id c (length ?vec)" using ok by (simp add: random_ok_def client_order_id_def)
  then show "random_ok c q (random_round rand c ps s)"
    using random_sent_step [OF rs(1) new cxl] q unfolding random_ok_def by (metis random_state.select_convs(2,3) round)
  show "length (clientRequestsVec (random_round rand c ps s)) = Suc (length (clientRequestsVec s))" unfolding round by simp
qed

lemma random_loop_ok:
  "random_ok c q s \<Longrightarrow> base_prices rand ME_MAX_TICKERS g = (ps, g') \<Longrightarrow> \<forall>j. \<exists>d. ssub (fst (clocks j)) (snd (clocks j)) = Inr d
    \<Longrightarrow> length (contents q) + 2 * (length (clientRequestsVec s) + n) \<le> q_size q
    \<Longrightarrow> \<exists>s'. random_loop rand clocks c ps i n s = Inr s' \<and> random_ok c q s' \<and> length (clientRequestsVec s') \<le> length (clientRequestsVec s) + n"
proof (induction n arbitrary: i s)
  case (Suc n)
  let ?s = "random_round rand c ps s"
  have ok: "random_ok c q ?s" "length (clientRequestsVec ?s) = Suc (length (clientRequestsVec s))"
    using random_round_ok [OF Suc.prems(1,2)] Suc.prems(4) by simp_all
  obtain d where d: "ssub (fst (clocks i)) (snd (clocks i)) = Inr d" using Suc.prems(3) by blast
  show ?case
  proof (cases "sint d sdiv sint NANOS_TO_SECS \<ge> 60")
    case True
    then show ?thesis using ok d by (simp add: silentSeconds_def Let_def)
  next
    case False
    then show ?thesis using Suc.IH [OF ok(1) Suc.prems(2,3), of "i + 1"] Suc.prems(4) ok(2) d by (fastforce simp: silentSeconds_def Let_def)
  qed
qed simp

lemma random_trading_sends:
  assumes "te_algo te = RANDOM" and "queue_ok (outgoing te)" and "length (contents (outgoing te)) + 20000 \<le> q_size (outgoing te)"
    and "\<forall>j. \<exists>d. ssub (fst (clocks j)) (snd (clocks j)) = Inr d"
  shows "\<exists>te' vec rs. random_trading rand g clocks c te = Inr te' \<and> contents (outgoing te') = contents (outgoing te) @ rs
    \<and> queue_ok (outgoing te') \<and> random_sent c vec rs \<and> length vec \<le> 10000"
proof -
  obtain ps g' where p: "base_prices rand ME_MAX_TICKERS g = (ps, g')" by fastforce
  let ?s = "\<lparr>rand_state = g', next_orderId = ucast (c * 1000), clientRequestsVec = [], rs_engine = te\<rparr>"
  have "random_ok c (outgoing te) ?s" using assms(2) by (simp add: random_ok_def client_order_id_def random_sent_def)
  from random_loop_ok [OF this p assms(4), of 10000 0] assms(3)
  obtain s' where "random_loop rand clocks c ps 0 10000 ?s = Inr s'" "random_ok c (outgoing te) s'" "length (clientRequestsVec s') \<le> 10000"
    by auto
  then show ?thesis using assms(1) p unfolding random_ok_def by (auto simp: random_trading_def)
qed

section \<open>They are of the expected shape\<close>

lemma client_order_id_value:
  assumes "unat c < ME_MAX_NUM_CLIENTS" and "k < 10000"
  shows "unat (client_order_id c k) = unat c * 1000 + k"
proof -
  have "unat (c * 1000) = unat c * 1000" using assms(1) by (simp add: unat_word_ariths bounds_defs)
  moreover have "unat (ucast (c * 1000) :: OrderId) = unat (c * 1000)"
    using unsigned_less [of "c * 1000", where ?'a = nat] by (simp add: unsigned_ucast_eq take_bit_nat_eq_self_iff)
  ultimately show ?thesis using assms by (simp add: client_order_id_def unat_word_ariths unat_of_nat bounds_defs)
qed

lemma random_sent_sane:
  assumes s: "random_sent c vec rs" and c: "unat c < ME_MAX_NUM_CLIENTS" and n: "length vec \<le> 10000"
  shows "\<forall>r\<in>set rs. sane_request 101 r \<and> req_clientId r = c" and "distinct (new_keys rs)"
proof -
  have new: "sane_request 101 r \<and> req_clientId r = c \<and> sane_request 101 (r\<lparr>req_type := Req_CANCEL\<rparr>)" if "r \<in> set vec" for r
  proof -
    obtain j where j: "j < length vec" "vec ! j = r" using \<open>r \<in> set vec\<close> by (auto simp: in_set_conv_nth)
    then have "random_new c j r" using s unfolding random_sent_def by blast
    moreover have "unat (client_order_id c j) < ME_MAX_ORDER_IDS"
      using client_order_id_value [OF c, of j] c n j(1) by (simp add: bounds_defs)
    ultimately show ?thesis using c by (simp add: random_new_def sane_request_def id_in_range_def)
  qed
  show "\<forall>r\<in>set rs. sane_request 101 r \<and> req_clientId r = c" using s new unfolding random_sent_def by fastforce
  have "new_keys rs = map request_key vec" using s by (simp add: new_keys_def random_sent_def)
  moreover have "request_key (vec ! i) \<noteq> request_key (vec ! j)" if "i < length vec" "j < length vec" "i \<noteq> j" for i j
  proof
    assume "request_key (vec ! i) = request_key (vec ! j)"
    then have "client_order_id c i = client_order_id c j" using s that(1,2) by (simp add: request_key_def random_sent_def random_new_def)
    then show False using client_order_id_value [OF c, of i] client_order_id_value [OF c, of j] that n by simp
  qed
  ultimately show "distinct (new_keys rs)" by (simp add: distinct_conv_nth)
qed

lemma mset_sum_list_concat: "mset (concat xss) = sum_list (map mset xss)"
  by (induction xss) simp_all

lemma new_keys_mset: "mset (new_keys rs) = image_mset request_key (filter_mset (\<lambda>r. req_type r = Req_NEW) (mset rs))"
  by (simp add: new_keys_def)

lemma new_keys_concat: "new_keys (concat rss) = concat (map new_keys rss)"
  by (induction rss) (simp_all add: new_keys_def)

lemma distinct_submset:
  assumes "mset xs \<subseteq># mset ys" and "distinct ys" shows "distinct xs"
proof -
  obtain C where "mset ys = mset xs + C" using assms(1) by (auto simp: mset_subset_eq_exists_conv)
  moreover obtain zs where "C = mset zs" using ex_mset [of C] by blast
  ultimately have "mset ys = mset (xs @ zs)" by simp
  then show ?thesis using assms(2) mset_eq_imp_distinct_iff by fastforce
qed

text \<open>Any arrangement of some of the requests of several clients.\<close>

lemma clients_sane:
  assumes ks: "distinct ks" "inj_on c (set ks)"
    and each: "\<forall>k\<in>set ks. (\<forall>r\<in>set (reqs k). sane_request lo r \<and> req_clientId r = c k) \<and> distinct (new_keys (reqs k))"
    and rs: "mset rs \<subseteq># (\<Sum>k\<leftarrow>ks. mset (reqs k))" and len: "length rs \<le> 87381"
  shows "sane_stream lo rs"
proof -
  let ?all = "concat (map reqs ks)"
  have all: "mset rs \<subseteq># mset ?all" using rs by (simp add: mset_sum_list_concat comp_def)
  have "sane_request lo r" if "r \<in> set rs" for r using that set_mset_mono [OF all] each by fastforce
  moreover have "distinct (new_keys ?all)"
    using ks each unfolding new_keys_concat
  proof (induction ks)
    case (Cons k ks)
    have key: "fst x = c j" if "j \<in> set (k # ks)" "x \<in> set (new_keys (reqs j))" for j x
      using that Cons.prems(3) by (auto simp: new_keys_def request_key_def)
    have "fst x \<in> c ` set ks" if x: "x \<in> set (concat (map new_keys (map reqs ks)))" for x
    proof -
      obtain j where "j \<in> set ks" "x \<in> set (new_keys (reqs j))" using x by auto
      then show ?thesis using key [of j x] by simp
    qed
    moreover have "fst x = c k" if "x \<in> set (new_keys (reqs k))" for x using key [OF _ that] by simp
    moreover have "c k \<notin> c ` set ks" using Cons.prems(1,2) by (auto simp: inj_on_def)
    ultimately have "set (new_keys (reqs k)) \<inter> set (concat (map new_keys (map reqs ks))) = {}" by (metis disjoint_iff)
    then show ?case using Cons by simp
  qed simp
  moreover have "mset (new_keys rs) \<subseteq># mset (new_keys ?all)"
    unfolding new_keys_mset using all by (intro image_mset_subseteq_mono multiset_filter_mono)
  ultimately show ?thesis unfolding sane_stream_def using distinct_submset len by (auto simp: bounds_defs)
qed

lemma sessions_sane:
  assumes "distinct cs" and "length cs \<le> 4"
    and s: "\<forall>c\<in>set cs. unat c < ME_MAX_NUM_CLIENTS \<and> random_sent c (vec c) (sent_by c) \<and> length (vec c) \<le> 10000"
    and rs: "mset rs \<subseteq># (\<Sum>c\<leftarrow>cs. mset (sent_by c))"
  shows "sane_stream 101 rs"
proof -
  have len: "length (sent_by c) \<le> 20000" if "c \<in> set cs" for c using s that by (auto simp: random_sent_def)
  have "size (\<Sum>c\<leftarrow>cs. mset (sent_by c)) \<le> 20000 * length cs" using len
    by (induction cs) (simp_all add: algebra_simps, fastforce)
  then have "length rs \<le> 87381" using size_mset_mono [OF rs] assms(2) by simp
  moreover have "\<forall>c\<in>set cs. (\<forall>r\<in>set (sent_by c). sane_request 101 r \<and> req_clientId r = c) \<and> distinct (new_keys (sent_by c))"
    using random_sent_sane s by blast
  ultimately show ?thesis using clients_sane [of cs "\<lambda>c. c", OF assms(1) _ _ rs] by simp
qed

section \<open>The arguments\<close>

definition cfg_args :: "('d \<Rightarrow> string) \<Rightarrow> 'd ETradeEngineCfg \<Rightarrow> string list" where
  "cfg_args shown c = [to_string_nat (unat (cfg_clip c)), shown (cfg_threshold c),
     to_string_nat (unat (max_order_size (cfg_riskCfg c))), to_string_nat (unat (max_position (cfg_riskCfg c))), shown (max_loss (cfg_riskCfg c))]"

definition cfg_small :: "'d ETradeEngineCfg \<Rightarrow> bool" where
  "cfg_small c \<longleftrightarrow> unat (cfg_clip c) < 2 ^ 31 \<and> unat (max_order_size (cfg_riskCfg c)) < 2 ^ 31 \<and> unat (max_position (cfg_riskCfg c)) < 2 ^ 31"

lemma read_cfg_shown:
  assumes "cfg_small c" and "\<forall>d. atof (shown d) = d"
  shows "read_cfg atof (before @ cfg_args shown c @ behind) (length before) = Inr c"
proof -
  have "length (cfg_args shown c) = 5" by (simp add: cfg_args_def)
  then have "argv (before @ cfg_args shown c @ behind) (length before + k) = Inr (cfg_args shown c ! k)" if "k < 5" for k
    using that by (simp add: argv_def nth_append)
  from this [of 0] this [of 1] this [of 2] this [of 3] this [of 4] show ?thesis
    using assms by (simp add: read_cfg_def arg_int_def cfg_args_def atoi_to_string cfg_small_def)
qed

lemma read_cfgs_shown:
  "\<forall>c\<in>set cfgs. cfg_small c \<Longrightarrow> \<forall>d. atof (shown d) = d \<Longrightarrow>
    read_cfgs atof (before @ concat (map (cfg_args shown) cfgs)) (length before) n cfg =
      (if n + length cfgs \<le> ME_MAX_TICKERS \<or> cfgs = []
       then Inr (\<lambda>t. if n \<le> unat t \<and> unat t < n + length cfgs then cfgs ! (unat t - n) else cfg t)
       else Inl OutOfRange)"
proof (induction cfgs arbitrary: before n cfg)
  case Nil
  then show ?case by (auto simp: read_cfgs.simps fun_eq_iff)
next
  case (Cons c cfgs)
  let ?args = "before @ concat (map (cfg_args shown) (c # cfgs))"
  have r: "read_cfg atof ?args (length before) = Inr c"
    using read_cfg_shown [of c atof shown before "concat (map (cfg_args shown) cfgs)"] Cons.prems by simp
  have small: "\<forall>c\<in>set cfgs. cfg_small c" using Cons.prems(1) by simp
  have len: "length before < length ?args" by (simp add: cfg_args_def)
  have next_group: "?args = (before @ cfg_args shown c) @ concat (map (cfg_args shown) cfgs)" "length (before @ cfg_args shown c) = length before + 5"
    by (simp_all add: cfg_args_def)
  show ?case
  proof (cases "n < ME_MAX_TICKERS")
    case True
    have tick: "unat t = n \<longleftrightarrow> t = of_nat n" for t :: TickerId
      using True by (auto simp: bounds_defs unat_of_nat)
    have "read_cfgs atof ?args (length before) n cfg = read_cfgs atof ?args (length before + 5) (n + 1) (cfg(of_nat n := c))"
      using r len True by (subst read_cfgs.simps) simp
    also have "\<dots> = (if n + 1 + length cfgs \<le> ME_MAX_TICKERS \<or> cfgs = []
       then Inr (\<lambda>t. if n + 1 \<le> unat t \<and> unat t < n + 1 + length cfgs then cfgs ! (unat t - (n + 1)) else (cfg(of_nat n := c)) t)
       else Inl OutOfRange)"
      unfolding next_group(1) by (rule Cons.IH [OF small Cons.prems(2), of "before @ cfg_args shown c" "n + 1" "cfg(of_nat n := c)", unfolded next_group(2)])
    also have "(\<lambda>t. if n + 1 \<le> unat t \<and> unat t < n + 1 + length cfgs then cfgs ! (unat t - (n + 1)) else (cfg(of_nat n := c)) t)
      = (\<lambda>t. if n \<le> unat t \<and> unat t < n + length (c # cfgs) then (c # cfgs) ! (unat t - n) else cfg t)"
      by (auto simp: fun_eq_iff nth_Cons' simp flip: tick)
    finally show ?thesis using True by auto
  next
    case False
    then show ?thesis using r len by (subst read_cfgs.simps) simp
  qed
qed

end
