(* ===== verification/MainProperties.thy ===== *)
theory MainProperties
  imports MainFacts DumpProperties
begin

text \<open>
  The programs as a whole: the requests the exchange is made for, what becomes of a session of random clients, and the
  arguments of a trading client.
\<close>

section \<open>The exchange under a bounded load\<close>

definition started_exchange :: "SMEClientRequest CLockFreeQueue \<Rightarrow> CMatchingEngine" where
  "started_exchange q = (fst exchange_main)\<lparr>m_pIncomingRequests := q\<rparr>"

text \<open>What holds of a book at the end: its orders are in price-time priority, and its destructor's check passes.\<close>

definition book_healthy :: "CMEOrderBook \<Rightarrow> bool" where
  "book_healthy bk \<longleftrightarrow> (\<exists>B. me_repr bk B \<and> sorted_wrt (precedes BUY) (B BUY) \<and> sorted_wrt (precedes SELL) (B SELL) \<and> uncrossed B
     \<and> (\<forall>r\<in>live_orders B. ord_qty r \<noteq> 0) \<and> distinct (map client_key (B BUY @ B SELL))
     \<and> me_ToString False True bk = Inr (spec_dump (m_tickerId bk) False B))"

lemma band_prices_inside:
  assumes "book_within lo K B" and "- (2 ^ 63) < lo" and "lo + 254 < 2 ^ 63"
  shows "prices_inside B"
proof -
  have "in_band lo (ord_price r)" if "r \<in> set (B SELL) \<or> r \<in> set (B BUY)" for r
    using assms(1) that unfolding book_within_def live_orders_def by blast
  moreover have "\<not> in_band lo Price_min" "\<not> in_band lo Price_max"
    using assms(2,3) by (simp_all add: in_band_def Price_min_def Price_max_def)
  ultimately show ?thesis unfolding prices_inside_def by metis
qed

lemma started_runs:
  assumes "requests_ok rs spec_start" and "queue_ok q" and "contents q = rs"
  shows "\<exists>me'. me_Run (started_exchange q) = Inr me' \<and> contents (m_pIncomingRequests me') = []
    \<and> engine_rel me' (fold spec_request rs spec_start)"
proof -
  have "engine_rel (started_exchange q) spec_start"
    using engine_rel_new [of "CLockFreeQueue_new ME_MAX_CLIENT_UPDATES SMEClientResponse_default"
        "CLockFreeQueue_new ME_MAX_MARKET_UPDATES SMEMarketUpdate_default" q]
    by (simp add: started_exchange_def exchange_main_def CMatchingEngine_new_def Let_def queue_ok_new bounds_defs)
  moreover have "m_pIncomingRequests (started_exchange q) = q" by (simp add: started_exchange_def)
  ultimately show ?thesis using me_Run_spec [of "started_exchange q" spec_start] assms by auto
qed

lemma sane_stream_served:
  assumes s: "sane_stream lo rs" and lo: "- (2 ^ 63) < lo" "lo + 254 < 2 ^ 63" and q: "queue_ok q" "contents q = rs"
  shows "\<exists>me'. me_Run (started_exchange q) = Inr me' \<and> contents (m_pIncomingRequests me') = []
    \<and> length (contents (m_pOutgoingOgwResponses me')) \<le> 3 * length rs \<and> length (contents (m_pOutgoingMdUpdates me')) \<le> 3 * length rs
    \<and> (\<forall>t. unat t < ME_MAX_TICKERS \<longrightarrow> book_healthy (m_tickerOrderBook me' t))"
proof -
  let ?sp = "fold spec_request rs spec_start" and ?me = "started_exchange q"
  obtain me' where me': "me_Run ?me = Inr me'" "contents (m_pIncomingRequests me') = []" "engine_rel me' ?sp"
    using started_runs [OF sane_stream_ok(1) [OF s] q] by blast
  have b: "engine_bounded lo (set (new_keys rs)) (length rs) ?sp" by (rule sane_stream_ok(2) [OF s])
  have "book_healthy (m_tickerOrderBook me' t)" if t: "unat t < ME_MAX_TICKERS" for t
  proof -
    have r: "me_repr (m_tickerOrderBook me' t) (sp_books ?sp t)" using me'(3) t by (simp add: engine_rel_def)
    have i: "spec_inv (sp_next ?sp t) (sp_books ?sp t)" and w: "book_within lo (set (new_keys rs)) (sp_books ?sp t)"
      using b by (simp_all add: engine_bounded_def spec_engine_inv_def)
    show ?thesis unfolding book_healthy_def
      using r i me_ToString_repr [OF r, of True False] band_prices_inside [OF w lo]
      by (intro exI [of _ "sp_books ?sp t"]) (auto simp: spec_inv_def side_inv_def live_orders_def)
  qed
  moreover have "contents (m_pOutgoingOgwResponses me') = sp_responses ?sp" "contents (m_pOutgoingMdUpdates me') = sp_updates ?sp"
    using me'(3) unfolding engine_rel_def by blast+
  moreover have "length (sp_responses ?sp) \<le> 3 * length rs" "length (sp_updates ?sp) \<le> 3 * length rs"
    using b by (simp_all add: engine_bounded_def)
  ultimately show ?thesis using me'(1,2) by metis
qed

text \<open>C8: the load the exchange is made for.  From its start, the matching engine serves any stream of at most 87381
  requests on its tickers, with client and order ids in the range of its tables, prices within a band of 254, and no client
  order id used twice: it returns, no table, pool or queue overflows, at most three responses and three updates per request
  are queued, and every book is in price-time priority, uncrossed and passes the check of its destructor.\<close>

theorem exchange_serves_sane_requests:
  assumes "\<forall>r\<in>set rs. sane_request lo r" and "distinct (new_keys rs)" and "length rs \<le> 87381"
    and "- (2 ^ 63) < lo" and "lo + 254 < 2 ^ 63" and "queue_ok q" and "contents q = rs"
  shows "\<exists>me'. me_Run (started_exchange q) = Inr me' \<and> contents (m_pIncomingRequests me') = []
    \<and> length (contents (m_pOutgoingOgwResponses me')) \<le> 3 * length rs \<and> length (contents (m_pOutgoingMdUpdates me')) \<le> 3 * length rs
    \<and> (\<forall>t. unat t < ME_MAX_TICKERS \<longrightarrow> book_healthy (m_tickerOrderBook me' t))"
  using assms by (intro sane_stream_served) (simp_all add: sane_stream_def bounds_defs)

lemma ex_stream_sane: "\<forall>r\<in>set ex_stream. sane_request 0 r" "distinct (new_keys ex_stream)" "length ex_stream \<le> 87381"
  by (simp_all add: ex_defs sane_request_def in_band_def id_in_range_def sides_def bounds_defs new_keys_def request_key_def)

theorem exchange_serves_sane_requests_witness:
  "\<exists>me'. me_Run (started_exchange (m_pIncomingRequests ex_engine)) = Inr me'
    \<and> length (contents (m_pOutgoingOgwResponses me')) \<le> 3 * length ex_stream \<and> book_healthy (m_tickerOrderBook me' 1)"
  using exchange_serves_sane_requests [OF ex_stream_sane _ _ ex_engine_incoming] by (auto simp: bounds_defs)

section \<open>Random clients\<close>

definition client_args :: "ClientId \<Rightarrow> EAlgoType \<Rightarrow> ('d \<Rightarrow> string) \<Rightarrow> 'd ETradeEngineCfg list \<Rightarrow> string list" where
  "client_args c algo shown cfgs =
     [''trading_main'', to_string_nat (unat c), AlgoTypeToString algo] @ concat (map (cfg_args shown) cfgs)"

definition given_cfgs :: "'d fp \<Rightarrow> 'd ETradeEngineCfg list \<Rightarrow> TickerId \<Rightarrow> 'd ETradeEngineCfg" where
  "given_cfgs F cfgs t = (if unat t < length cfgs then cfgs ! unat t else ETradeEngineCfg_default F)"

lemma trading_args_shown:
  assumes "unat c < 2 ^ 31" and "\<forall>x\<in>set cfgs. cfg_small x" and "\<forall>d. atof (shown d) = d"
  shows "trading_args F atof (client_args c algo shown cfgs) =
    (if length cfgs \<le> ME_MAX_TICKERS then Inr (c, algo, given_cfgs F cfgs) else Inl OutOfRange)"
proof -
  let ?args = "client_args c algo shown cfgs"
  have a: "argv ?args 1 = Inr (to_string_nat (unat c))" "argv ?args 2 = Inr (AlgoTypeToString algo)" "\<not> length ?args < 3"
    by (simp_all add: client_args_def argv_def)
  have "StringToAlgoType (AlgoTypeToString algo) = algo" by (cases algo) (simp_all add: StringToAlgoType_def algo_types_def)
  moreover have "read_cfgs atof ?args 3 0 (\<lambda>_. ETradeEngineCfg_default F)
    = (if length cfgs \<le> ME_MAX_TICKERS then Inr (given_cfgs F cfgs) else Inl OutOfRange)"
  proof -
    have "given_cfgs F cfgs = (\<lambda>t. if unat t < length cfgs then cfgs ! unat t else ETradeEngineCfg_default F)"
      by (simp add: given_cfgs_def fun_eq_iff)
    then show ?thesis
      using read_cfgs_shown [OF assms(2,3), of "[''trading_main'', to_string_nat (unat c), AlgoTypeToString algo]" 0 "\<lambda>_. ETradeEngineCfg_default F"]
      by (auto simp: client_args_def simp flip: numeral_3_eq_3)
  qed
  ultimately show ?thesis using a assms(1) by (simp add: trading_args_def arg_int_def atoi_to_string)
qed

text \<open>C31: a trading client reads its arguments back: the client id, the algorithm, and the configuration of as many tickers as
  groups of five numbers are given; a ninth group stops the process.\<close>

theorem arguments_read_back:
  assumes "unat c < 2 ^ 31" and "\<forall>x\<in>set cfgs. cfg_small x" and "\<forall>d. atof (shown d) = d"
  shows "trading_args F atof (client_args c algo shown cfgs) =
    (if length cfgs \<le> ME_MAX_TICKERS then Inr (c, algo, given_cfgs F cfgs) else Inl OutOfRange)"
  by (rule trading_args_shown [OF assms])

definition ex_cfg :: "string ETradeEngineCfg" where
  "ex_cfg = \<lparr>cfg_clip = 100, cfg_threshold = ''0.6'', cfg_riskCfg = \<lparr>max_order_size = 150, max_position = 300, max_loss = ''-100''\<rparr>\<rparr>"

theorem arguments_read_back_witness:
  "\<forall>F. trading_args F (\<lambda>s. s) (client_args 3 MAKER (\<lambda>s. s) [ex_cfg]) = Inr (3, MAKER, given_cfgs F [ex_cfg])
    \<and> cfg_clip (given_cfgs F [ex_cfg] 0) = 100"
proof (intro allI conjI)
  fix F :: "string fp"
  show "trading_args F (\<lambda>s. s) (client_args 3 MAKER (\<lambda>s. s) [ex_cfg]) = Inr (3, MAKER, given_cfgs F [ex_cfg])"
    using arguments_read_back [of 3 "[ex_cfg]" "\<lambda>s. s" "\<lambda>s. s" F MAKER] by (simp add: cfg_small_def ex_cfg_def bounds_defs)
  show "cfg_clip (given_cfgs F [ex_cfg] 0) = 100" by (simp add: given_cfgs_def ex_cfg_def)
qed

lemma random_engine_sends:
  assumes "trading_args F atof args = Inr (c, RANDOM, cfg)" and "\<forall>j. \<exists>d. ssub (fst (clocks j)) (snd (clocks j)) = Inr d"
  shows "\<exists>te' vec rs. bindE (trading_engine F junk atof args) (random_trading rand g clocks c) = Inr te'
    \<and> contents (outgoing te') = rs \<and> random_sent c vec rs \<and> length vec \<le> 10000"
proof -
  let ?te = "CTradeEngine_new F junk c RANDOM cfg (CLockFreeQueue_new ME_MAX_CLIENT_UPDATES SMEClientRequest_default)
            (CLockFreeQueue_new ME_MAX_CLIENT_UPDATES SMEClientResponse_default)
            (CLockFreeQueue_new ME_MAX_MARKET_UPDATES SMEMarketUpdate_default)"
  have "outgoing ?te = CLockFreeQueue_new ME_MAX_CLIENT_UPDATES SMEClientRequest_default"
    by (simp add: CTradeEngine_new_def COrderManager_new_def)
  then have "te_algo ?te = RANDOM" "queue_ok (outgoing ?te)" "contents (outgoing ?te) = []"
    "length (contents (outgoing ?te)) + 20000 \<le> q_size (outgoing ?te)"
    by (simp_all add: CTradeEngine_new_def queue_ok_new bounds_defs)
  from random_trading_sends [OF this(1,2,4) assms(2)] this(3) show ?thesis
    using assms(1) by (fastforce simp: trading_engine_def)
qed

text \<open>C4: random clients on the exchange.  Up to four programs \<open>trading_main\<close> with the random algorithm and distinct client ids
  below 256, whatever their random numbers and however long they run: each ends its loop with its requests in its queue, and
  in whatever order these requests reach the matching engine, even if some are lost, it serves all it gets within the
  capacity of its tables and queues, and every book stays in price-time priority.\<close>

theorem random_clients_served:
  assumes "distinct cs" and "length cs \<le> 4"
    and "\<forall>c\<in>set cs. unat c < ME_MAX_NUM_CLIENTS \<and> trading_args F atof (args c) = Inr (c, RANDOM, cfg c)
      \<and> (\<forall>j. \<exists>d. ssub (fst (clocks c j)) (snd (clocks c j)) = Inr d)"
  shows "\<exists>te'. (\<forall>c\<in>set cs. bindE (trading_engine F junk atof (args c)) (random_trading rand (srand c) (clocks c) c) = Inr (te' c))
    \<and> (\<forall>q. queue_ok q \<and> mset (contents q) \<subseteq># (\<Sum>c\<leftarrow>cs. mset (contents (outgoing (te' c)))) \<longrightarrow>
        (\<exists>me'. me_Run (started_exchange q) = Inr me' \<and> contents (m_pIncomingRequests me') = []
          \<and> length (contents (m_pOutgoingOgwResponses me')) \<le> ME_MAX_CLIENT_UPDATES
          \<and> length (contents (m_pOutgoingMdUpdates me')) \<le> ME_MAX_MARKET_UPDATES
          \<and> (\<forall>t. unat t < ME_MAX_TICKERS \<longrightarrow> book_healthy (m_tickerOrderBook me' t))))"
proof -
  have "\<forall>c\<in>set cs. \<exists>te' vec. bindE (trading_engine F junk atof (args c)) (random_trading rand (srand c) (clocks c) c) = Inr te'
    \<and> random_sent c vec (contents (outgoing te')) \<and> length vec \<le> 10000"
    using random_engine_sends assms(3) by meson
  then obtain te' vec where te': "\<forall>c\<in>set cs. bindE (trading_engine F junk atof (args c)) (random_trading rand (srand c) (clocks c) c) = Inr (te' c)
    \<and> random_sent c (vec c) (contents (outgoing (te' c))) \<and> length (vec c) \<le> 10000"
    unfolding bchoice_iff by blast
  have "sane_stream 101 (contents q)" if "mset (contents q) \<subseteq># (\<Sum>c\<leftarrow>cs. mset (contents (outgoing (te' c))))" for q
    using te' assms(3) by (intro sessions_sane [OF assms(1,2) _ that, where vec = vec]) blast
  moreover have "3 * length rs \<le> ME_MAX_CLIENT_UPDATES \<and> 3 * length rs \<le> ME_MAX_MARKET_UPDATES" if "sane_stream 101 rs" for rs
    using that by (simp add: sane_stream_def)
  ultimately show ?thesis
    using te' sane_stream_served [of 101] by (intro exI [of _ te']) (fastforce intro: order_trans)
qed

definition queue_of :: "SMEClientRequest list \<Rightarrow> SMEClientRequest CLockFreeQueue" where
  "queue_of rs = fold enqueue rs (CLockFreeQueue_new (Suc (length rs)) SMEClientRequest_default)"

lemma queue_of: "queue_ok (queue_of rs)" "contents (queue_of rs) = rs"
  using lfq.enq_all [OF queue_ok_new [of "Suc (length rs)" SMEClientRequest_default], of rs] by (simp_all add: queue_of_def)

definition ex_random_args :: "ClientId \<Rightarrow> string list" where
  "ex_random_args c = [''trading_main'', to_string_nat (unat c), ''RANDOM'']"

definition ex_random_client :: "ClientId \<Rightarrow> real option CTradeEngine outcome" where
  "ex_random_client c = bindE (trading_engine exact_fp (\<lambda>_ _. None) (\<lambda>_. None) (ex_random_args c))
     (random_trading (\<lambda>g. (g, g * 75 mod 65537)) (unat c) (\<lambda>_. (0, 0)) c)"

lemma ex_random_args:
  assumes "unat c < ME_MAX_NUM_CLIENTS"
  shows "trading_args exact_fp (\<lambda>_. None) (ex_random_args c) = Inr (c, RANDOM, \<lambda>_. ETradeEngineCfg_default exact_fp)"
  using assms atoi_to_string [of "unat c"]
  by (simp add: trading_args_def ex_random_args_def arg_int_def argv_def read_cfgs.simps StringToAlgoType_def algo_types_def bounds_defs)

theorem random_clients_served_witness:
  "\<exists>a b me'. ex_random_client 1 = Inr a \<and> ex_random_client 2 = Inr b
    \<and> me_Run (started_exchange (queue_of (contents (outgoing b) @ contents (outgoing a)))) = Inr me'
    \<and> book_healthy (m_tickerOrderBook me' 7)"
proof -
  have h: "\<forall>c\<in>set [1, 2]. unat c < ME_MAX_NUM_CLIENTS
      \<and> trading_args exact_fp (\<lambda>_. None) (ex_random_args c) = Inr (c, RANDOM, \<lambda>_. ETradeEngineCfg_default exact_fp)
      \<and> (\<forall>j. \<exists>d. ssub (fst ((\<lambda>_. (0, 0)) j)) (snd ((\<lambda>_. (0, 0)) j)) = Inr (d :: 64 word))"
    using ex_random_args by (auto simp: bounds_defs ssub_def signed_of_def)
  have "distinct [1 :: ClientId, 2]" "length [1 :: ClientId, 2] \<le> 4" by simp_all
  from random_clients_served [OF this, of exact_fp "\<lambda>_. None" ex_random_args "\<lambda>_ _. ETradeEngineCfg_default exact_fp" "\<lambda>_ _. (0, 0)"
      "\<lambda>_ _. None" "\<lambda>g. (g, g * 75 mod 65537)" unat, OF h]
  obtain te' where te': "\<forall>c\<in>set [1, 2]. ex_random_client c = Inr (te' c)"
    and run: "queue_ok q \<and> mset (contents q) \<subseteq># (\<Sum>c\<leftarrow>[1, 2]. mset (contents (outgoing (te' c)))) \<longrightarrow>
        (\<exists>me'. me_Run (started_exchange q) = Inr me' \<and> (\<forall>t. unat t < ME_MAX_TICKERS \<longrightarrow> book_healthy (m_tickerOrderBook me' t)))" for q
    unfolding ex_random_client_def by blast
  have "unat (7 :: TickerId) < ME_MAX_TICKERS" by (simp add: bounds_defs)
  moreover obtain me' where "me_Run (started_exchange (queue_of (contents (outgoing (te' 2)) @ contents (outgoing (te' 1))))) = Inr me'"
    "\<forall>t. unat t < ME_MAX_TICKERS \<longrightarrow> book_healthy (m_tickerOrderBook me' t)"
    using run [of "queue_of (contents (outgoing (te' 2)) @ contents (outgoing (te' 1)))"] by (auto simp: queue_of union_commute)
  ultimately show ?thesis using te' by (metis list.set_intros)
qed

end
