(* ===== verification/SocketUtils.thy ===== *)
theory SocketUtils
  imports Sockets NumberText "HOL-Library.Sublist"
begin

text \<open>
  \<open>common/SocketUtils.cpp\<close> and the parts of \<open>TcpSocket.cpp\<close> and \<open>MultiCastSocket.cpp\<close> that open and close sockets.  The
  kernel is a parameter: it answers each system call with a number, which may depend on all calls before it; the state is
  the list of the calls made so far.
\<close>

section \<open>System calls\<close>

datatype sock_type = SOCK_STREAM | SOCK_DGRAM
datatype protocol = IPPROTO_TCP | IPPROTO_UDP

datatype syscall =
    SOCKET_CALL int sock_type protocol
  | F_GETFL int
  | F_SETFL int int
  | TCP_NODELAY int
  | SO_TIMESTAMP int
  | SO_REUSEADDR int
  | IP_MULTICAST_TTL int int
  | IP_TTL int int
  | IP_ADD_MEMBERSHIP int string
  | CONNECT_CALL int string
  | BIND_ANY int int
  | BIND_ADDR int string
  | LISTEN_CALL int nat
  | CLOSE_CALL int

type_synonym trace = "syscall list"
type_synonym kernel = "trace \<Rightarrow> syscall \<Rightarrow> int"

definition call :: "kernel \<Rightarrow> syscall \<Rightarrow> trace \<Rightarrow> int \<times> trace" where
  "call sys c t = (sys t c, t @ [c])"

text \<open>A call that is only compared with -1.\<close>

definition works :: "kernel \<Rightarrow> syscall \<Rightarrow> trace \<Rightarrow> bool \<times> trace" where
  "works sys c t = (let (rc, t') = call sys c t in (rc \<noteq> - 1, t'))"

section \<open>Helpers\<close>

text \<open>The interfaces with their IPv4 address, if they have one; nothing when \<open>getifaddrs\<close> fails.\<close>

definition GetIFaceIP :: "(string \<times> string option) list option \<Rightarrow> string \<Rightarrow> string" where
  "GetIFaceIP ifaddrs iface =
     (case ifaddrs of
        None \<Rightarrow> []
      | Some ifs \<Rightarrow> (case find (\<lambda>(name, addr). addr \<noteq> None \<and> iface = name) ifs of Some (_, Some ip) \<Rightarrow> ip | _ \<Rightarrow> []))"

definition O_NONBLOCK :: int where "O_NONBLOCK = 2048"

unbundle bit_operations_syntax

definition SetNonBlocking :: "kernel \<Rightarrow> int \<Rightarrow> trace \<Rightarrow> bool \<times> trace" where
  "SetNonBlocking sys fd t =
     (let (flags, t1) = call sys (F_GETFL fd) t
      in if flags = - 1 then (False, t1)
         else if flags AND O_NONBLOCK \<noteq> 0 then (True, t1)
         else works sys (F_SETFL fd (flags OR O_NONBLOCK)) t1)"

definition SetNoDelay :: "kernel \<Rightarrow> int \<Rightarrow> trace \<Rightarrow> bool \<times> trace" where
  "SetNoDelay sys fd = works sys (TCP_NODELAY fd)"

definition SetSOTimestamp :: "kernel \<Rightarrow> int \<Rightarrow> trace \<Rightarrow> bool \<times> trace" where
  "SetSOTimestamp sys fd = works sys (SO_TIMESTAMP fd)"

definition SetMultiCastTTL :: "kernel \<Rightarrow> int \<Rightarrow> int \<Rightarrow> trace \<Rightarrow> bool \<times> trace" where
  "SetMultiCastTTL sys fd mcast_ttl = works sys (IP_MULTICAST_TTL fd mcast_ttl)"

definition SetTTL :: "kernel \<Rightarrow> int \<Rightarrow> int \<Rightarrow> trace \<Rightarrow> bool \<times> trace" where
  "SetTTL sys fd ttl = works sys (IP_TTL fd ttl)"

text \<open>The address of the interface is overwritten by \<open>INADDR_ANY\<close>.\<close>

definition Join :: "kernel \<Rightarrow> int \<Rightarrow> string \<Rightarrow> string \<Rightarrow> int \<Rightarrow> trace \<Rightarrow> bool \<times> trace" where
  "Join sys fd ip iface port = works sys (IP_ADD_MEMBERSHIP fd ip)"

section \<open>CreateSocket\<close>

record sock_opts =
  is_udp :: bool
  is_blocking :: bool
  is_listening :: bool
  so_ttl :: int
  needs_so_timestamp :: bool

record addrinfo =
  ai_family :: int
  ai_socktype :: sock_type
  ai_protocol :: protocol
  ai_addr :: string

record addr_hints =
  hint_socktype :: sock_type
  hint_protocol :: protocol
  hint_passive :: bool
  hint_numeric_host :: bool

text \<open>The steps after \<open>socket()\<close>: each makes calls, and the first that fails ends the function.\<close>

type_synonym step = "trace \<Rightarrow> (bool \<times> trace) outcome"

fun run_steps :: "step list \<Rightarrow> step" where
  "run_steps [] t = Inr (True, t)"
| "run_steps (f # fs) t = bindE (f t) (\<lambda>(ok, t'). if ok then run_steps fs t' else Inr (False, t'))"

definition step_if :: "bool \<Rightarrow> (trace \<Rightarrow> bool \<times> trace) \<Rightarrow> step" where
  "step_if c f t = Inr (if c then f t else (True, t))"

definition connect_step :: "kernel \<Rightarrow> (trace \<Rightarrow> bool) \<Rightarrow> int \<Rightarrow> string \<Rightarrow> trace \<Rightarrow> bool \<times> trace" where
  "connect_step sys would_block fd addr t = (let (rc, t') = call sys (CONNECT_CALL fd addr) t in (\<not> (rc = 1 \<and> \<not> would_block t'), t'))"

definition is_multicast :: "string \<Rightarrow> bool outcome" where
  "is_multicast ip = bindE (atoi ip) (\<lambda>n. Inr (n AND 0xe0 \<noteq> 0))"

definition ttl_step :: "kernel \<Rightarrow> sock_opts \<Rightarrow> string \<Rightarrow> int \<Rightarrow> step" where
  "ttl_step sys opts ip fd t =
     (if is_udp opts \<and> so_ttl opts \<noteq> 0
      then bindE (is_multicast ip) (\<lambda>m. Inr (if m then SetMultiCastTTL sys fd (so_ttl opts) t else SetTTL sys fd (so_ttl opts) t))
      else Inr (True, t))"

definition MaxTCPServerBacklog :: nat where "MaxTCPServerBacklog = 1024"

text \<open>\<open>would_block\<close> is \<open>WouldBlock()\<close>, the test of \<open>errno\<close> after the calls made so far.\<close>

definition socket_steps :: "kernel \<Rightarrow> (trace \<Rightarrow> bool) \<Rightarrow> sock_opts \<Rightarrow> string \<Rightarrow> int \<Rightarrow> string \<Rightarrow> int \<Rightarrow> step list" where
  "socket_steps sys would_block opts ip port addr fd =
     [step_if (\<not> is_blocking opts) (SetNonBlocking sys fd),
      step_if (\<not> is_blocking opts \<and> \<not> is_udp opts) (SetNoDelay sys fd),
      step_if (\<not> is_listening opts) (connect_step sys would_block fd addr),
      step_if (is_listening opts) (works sys (SO_REUSEADDR fd)),
      step_if (is_listening opts) (works sys (if is_udp opts then BIND_ANY fd port else BIND_ADDR fd addr)),
      step_if (\<not> is_udp opts \<and> is_listening opts) (works sys (LISTEN_CALL fd MaxTCPServerBacklog)),
      ttl_step sys opts ip fd,
      step_if (needs_so_timestamp opts) (SetSOTimestamp sys fd)]"

text \<open>The loop over the addresses; \<open>fd\<close> is what the function returns at its end.\<close>

fun open_addresses :: "kernel \<Rightarrow> (trace \<Rightarrow> bool) \<Rightarrow> sock_opts \<Rightarrow> string \<Rightarrow> int \<Rightarrow> addrinfo list \<Rightarrow> int \<Rightarrow> trace \<Rightarrow> (int \<times> trace) outcome" where
  "open_addresses sys would_block opts ip port [] fd t = Inr (fd, t)"
| "open_addresses sys would_block opts ip port (rp # rps) fd t =
     (let (fd', t1) = call sys (SOCKET_CALL (ai_family rp) (ai_socktype rp) (ai_protocol rp)) t
      in if fd' = - 1 then Inr (- 1, t1)
         else bindE (run_steps (socket_steps sys would_block opts ip port (ai_addr rp) fd') t1) (\<lambda>(ok, t2).
              if ok then open_addresses sys would_block opts ip port rps fd' t2 else Inr (- 1, t2)))"

text \<open>\<open>resolve\<close> is \<open>getaddrinfo\<close>: nothing when it fails.\<close>

definition CreateSocket :: "kernel \<Rightarrow> (trace \<Rightarrow> bool) \<Rightarrow> (string \<times> string option) list option
    \<Rightarrow> (string \<Rightarrow> string \<Rightarrow> addr_hints \<Rightarrow> addrinfo list option) \<Rightarrow> string \<Rightarrow> string \<Rightarrow> int \<Rightarrow> sock_opts \<Rightarrow> trace \<Rightarrow> (int \<times> trace) outcome" where
  "CreateSocket sys would_block ifaddrs resolve t_ip iface port opts t =
     (let ip = (if t_ip = [] then GetIFaceIP ifaddrs iface else t_ip);
          hints = \<lparr>hint_socktype = (if is_udp opts then SOCK_DGRAM else SOCK_STREAM),
                   hint_protocol = (if is_udp opts then IPPROTO_UDP else IPPROTO_TCP), hint_passive = is_listening opts,
                   hint_numeric_host = (ip \<noteq> [] \<and> is_digit (hd ip))\<rparr>
      in case resolve ip (to_string_int port) hints of
           None \<Rightarrow> Inr (- 1, t)
         | Some result \<Rightarrow> open_addresses sys would_block opts ip port result (- 1) t)"

section \<open>Opening and closing sockets\<close>

definition tcp_Destroy :: "CTCPSocket \<Rightarrow> trace \<Rightarrow> CTCPSocket \<times> trace" where
  "tcp_Destroy s t = (s\<lparr>m_fd := - 1\<rparr>, t @ [CLOSE_CALL (m_fd s)])"

definition tcp_connect :: "kernel \<Rightarrow> (trace \<Rightarrow> bool) \<Rightarrow> (string \<times> string option) list option
    \<Rightarrow> (string \<Rightarrow> string \<Rightarrow> addr_hints \<Rightarrow> addrinfo list option) \<Rightarrow> string \<Rightarrow> string \<Rightarrow> int \<Rightarrow> bool \<Rightarrow> CTCPSocket \<Rightarrow> trace
    \<Rightarrow> (int \<times> CTCPSocket \<times> trace) outcome" where
  "tcp_connect sys would_block ifaddrs resolve ip iface port listening s t =
     (let (s1, t1) = tcp_Destroy s t
      in bindE (CreateSocket sys would_block ifaddrs resolve ip iface port
             \<lparr>is_udp = False, is_blocking = False, is_listening = listening, so_ttl = 0, needs_so_timestamp = True\<rparr> t1) (\<lambda>(fd, t2).
         Inr (fd, s1\<lparr>m_fd := fd\<rparr>, t2)))"

definition mcast_Init :: "kernel \<Rightarrow> (trace \<Rightarrow> bool) \<Rightarrow> (string \<times> string option) list option
    \<Rightarrow> (string \<Rightarrow> string \<Rightarrow> addr_hints \<Rightarrow> addrinfo list option) \<Rightarrow> string \<Rightarrow> string \<Rightarrow> int \<Rightarrow> bool \<Rightarrow> CTCPSocket \<Rightarrow> trace
    \<Rightarrow> (int \<times> CTCPSocket \<times> trace) outcome" where
  "mcast_Init sys would_block ifaddrs resolve ip iface port listening s t =
     (let (s1, t1) = tcp_Destroy s t
      in bindE (CreateSocket sys would_block ifaddrs resolve ip iface port
             \<lparr>is_udp = True, is_blocking = False, is_listening = listening, so_ttl = 32, needs_so_timestamp = False\<rparr> t1) (\<lambda>(fd, t2).
         Inr (fd, s1\<lparr>m_fd := fd\<rparr>, t2)))"

definition mcast_Join :: "kernel \<Rightarrow> string \<Rightarrow> string \<Rightarrow> int \<Rightarrow> CTCPSocket \<Rightarrow> trace \<Rightarrow> bool \<times> trace" where
  "mcast_Join sys ip iface port s = Join sys (m_fd s) ip iface port"

definition mcast_Leave :: "CTCPSocket \<Rightarrow> trace \<Rightarrow> CTCPSocket \<times> trace" where
  "mcast_Leave s t = tcp_Destroy s t"

end
