(* ===== verification/SocketProperties.thy ===== *)
theory SocketProperties
  imports SocketUtils
begin

text \<open>What a socket that \<open>CreateSocket\<close> returns has been through, and what it does not check.\<close>

definition extends :: "step \<Rightarrow> bool" where
  "extends f \<longleftrightarrow> (\<forall>t ok t'. f t = Inr (ok, t') \<longrightarrow> prefix t t')"

text \<open>The call \<open>c\<close> was made and did not fail.\<close>

definition succeeded :: "kernel \<Rightarrow> trace \<Rightarrow> syscall \<Rightarrow> bool" where
  "succeeded sys t c \<longleftrightarrow> (\<exists>p. prefix (p @ [c]) t \<and> sys p c \<noteq> - 1)"

lemma succeeded_prefix: "succeeded sys t c \<Longrightarrow> prefix t t' \<Longrightarrow> succeeded sys t' c"
  unfolding succeeded_def by (meson prefix_order.order_trans)

lemma works_True: "works sys c t = (True, t') \<Longrightarrow> succeeded sys t' c"
  by (auto simp: works_def call_def succeeded_def)

lemma extends_step_if: "(\<And>t ok t'. f t = (ok, t') \<Longrightarrow> prefix t t') \<Longrightarrow> extends (step_if c f)"
  by (auto simp: extends_def step_if_def)

lemma works_extends: "works sys c t = (ok, t') \<Longrightarrow> prefix t t'"
  by (auto simp: works_def call_def)

lemma steps_extend: "\<forall>f\<in>set (socket_steps sys would_block opts ip port addr fd). extends f"
proof -
  have "extends (ttl_step sys opts ip fd)"
    by (auto simp: extends_def ttl_step_def bindE_eq_Inr SetMultiCastTTL_def SetTTL_def dest: works_extends split: if_splits)
  moreover have "prefix t t'" if "SetNonBlocking sys fd t = (ok, t')" for t ok t'
    using that by (auto simp: SetNonBlocking_def works_def call_def Let_def split: if_splits)
  moreover have "prefix t t'" if "connect_step sys would_block fd addr t = (ok, t')" for t ok t'
    using that by (auto simp: connect_step_def call_def)
  ultimately show ?thesis unfolding socket_steps_def SetNoDelay_def SetSOTimestamp_def
    by (auto intro!: extends_step_if dest: works_extends)
qed

lemma run_steps_extends: "\<forall>f\<in>set fs. extends f \<Longrightarrow> run_steps fs t = Inr (ok, t') \<Longrightarrow> prefix t t'"
proof (induction fs arbitrary: t)
  case (Cons f fs)
  then obtain b t1 where "f t = Inr (b, t1)" "(if b then run_steps fs t1 else Inr (False, t1)) = Inr (ok, t')"
    by (auto simp: bindE_eq_Inr)
  moreover have "prefix t t1" using Cons.prems(1) \<open>f t = _\<close> by (simp add: extends_def)
  ultimately show ?case using Cons.IH [of t1] Cons.prems(1) by (auto split: if_splits dest: prefix_order.order_trans)
qed simp

lemma run_steps_done:
  "\<forall>f\<in>set fs. extends f \<Longrightarrow> run_steps fs t = Inr (True, t') \<Longrightarrow> \<forall>f\<in>set fs. \<exists>ta tb. f ta = Inr (True, tb) \<and> prefix tb t'"
proof (induction fs arbitrary: t)
  case (Cons f fs)
  then obtain t1 where t1: "f t = Inr (True, t1)" "run_steps fs t1 = Inr (True, t')"
    by (auto simp: bindE_eq_Inr split: if_splits)
  moreover have "prefix t1 t'" using run_steps_extends [OF _ t1(2)] Cons.prems(1) by simp
  ultimately show ?case using Cons.IH [OF _ t1(2)] Cons.prems(1) by auto
qed simp

lemma open_addresses_last:
  "open_addresses sys would_block opts ip port rps fd0 t = Inr (fd, t') \<Longrightarrow> fd \<noteq> - 1 \<Longrightarrow>
    prefix t t' \<and> (rps = [] \<and> fd = fd0
      \<or> (\<exists>rp\<in>set rps. \<exists>ta tb. run_steps (socket_steps sys would_block opts ip port (ai_addr rp) fd) ta = Inr (True, tb) \<and> prefix tb t'))"
proof (induction rps arbitrary: fd0 t)
  case (Cons rp rps)
  define fd' where "fd' = sys t (SOCKET_CALL (ai_family rp) (ai_socktype rp) (ai_protocol rp))"
  define t1 where "t1 = t @ [SOCKET_CALL (ai_family rp) (ai_socktype rp) (ai_protocol rp)]"
  have ne: "fd' \<noteq> - 1" using Cons.prems by (auto simp: call_def fd'_def)
  obtain t2 where t2: "run_steps (socket_steps sys would_block opts ip port (ai_addr rp) fd') t1 = Inr (True, t2)"
    "open_addresses sys would_block opts ip port rps fd' t2 = Inr (fd, t')"
    using Cons.prems ne by (auto simp: call_def Let_def bindE_eq_Inr fd'_def [symmetric] t1_def [symmetric] split: if_splits)
  note I = Cons.IH [OF t2(2) Cons.prems(2)]
  have "prefix t1 t2" by (rule run_steps_extends [OF steps_extend t2(1)])
  moreover have "prefix t t1" by (simp add: t1_def)
  ultimately have "prefix t t'" using I by (meson prefix_order.order_trans)
  then show ?case using I t2(1) by auto
qed simp

text \<open>Two kernels that differ only in what \<open>connect\<close> answers, which is 0 or -1.\<close>

definition same_but_connect :: "kernel \<Rightarrow> kernel \<Rightarrow> bool" where
  "same_but_connect sys sys' \<longleftrightarrow> (\<forall>p fd addr. sys p (CONNECT_CALL fd addr) \<in> {0, - 1} \<and> sys' p (CONNECT_CALL fd addr) \<in> {0, - 1})
     \<and> (\<forall>p c. (\<forall>fd addr. c \<noteq> CONNECT_CALL fd addr) \<longrightarrow> sys' p c = sys p c)"

lemma socket_steps_connect:
  assumes "same_but_connect sys sys'"
  shows "socket_steps sys' would_block opts ip port addr fd = socket_steps sys would_block opts ip port addr fd"
proof -
  have c: "sys' p c = sys p c" if "\<And>fd addr. c \<noteq> CONNECT_CALL fd addr" for p c using assms that by (simp add: same_but_connect_def)
  have n: "sys p (CONNECT_CALL fd addr) \<noteq> 1" "sys' p (CONNECT_CALL fd addr) \<noteq> 1" for p
  proof -
    have "sys p (CONNECT_CALL fd addr) \<in> {0, - 1}" "sys' p (CONNECT_CALL fd addr) \<in> {0, - 1}"
      using assms unfolding same_but_connect_def by blast+
    then show "sys p (CONNECT_CALL fd addr) \<noteq> 1" "sys' p (CONNECT_CALL fd addr) \<noteq> 1" by auto
  qed
  have w: "works sys' c = works sys c" if "\<And>fd addr. c \<noteq> CONNECT_CALL fd addr" for c
    using c [OF that] by (simp add: works_def call_def fun_eq_iff)
  have "connect_step sys' would_block fd addr = connect_step sys would_block fd addr"
    using n by (simp add: connect_step_def call_def fun_eq_iff)
  moreover have "SetNonBlocking sys' fd = SetNonBlocking sys fd" by (simp add: SetNonBlocking_def call_def c w fun_eq_iff)
  moreover have "SetMultiCastTTL sys' fd ttl = SetMultiCastTTL sys fd ttl" "SetTTL sys' fd ttl = SetTTL sys fd ttl" for ttl
    by (simp_all add: SetMultiCastTTL_def SetTTL_def w fun_eq_iff)
  then have "ttl_step sys' opts ip fd t = ttl_step sys opts ip fd t" for t unfolding ttl_step_def by metis
  then have "ttl_step sys' opts ip fd = ttl_step sys opts ip fd" by (rule ext)
  ultimately show ?thesis by (simp add: socket_steps_def SetNoDelay_def SetSOTimestamp_def w)
qed

lemma open_addresses_connect:
  assumes "same_but_connect sys sys'"
  shows "open_addresses sys' would_block opts ip port rps fd t = open_addresses sys would_block opts ip port rps fd t"
proof (induction rps arbitrary: fd t)
  case (Cons rp rps)
  have "call sys' (SOCKET_CALL a b d) t = call sys (SOCKET_CALL a b d) t" for a b d
    using assms by (simp add: call_def same_but_connect_def)
  then show ?case unfolding open_addresses.simps socket_steps_connect [OF assms] Cons.IH by simp
qed simp

text \<open>C34: a socket that \<open>CreateSocket\<close> returns is set up as asked: it does not block, does not delay packets (TCP), may reuse
  its address, is bound and listens, has a time to live and delivers time stamps, each as the options say and each by a call
  that succeeded; only the connection is not among these: the function returns the same socket whether \<open>connect\<close> succeeds or fails, for it
  compares its answer with 1.\<close>

theorem created_socket_configured:
  assumes "CreateSocket sys would_block ifaddrs resolve t_ip iface port opts t = Inr (fd, t')" and "fd \<noteq> - 1"
    and "same_but_connect sys sys'"
  shows "(is_blocking opts \<or> (\<exists>p. prefix (p @ [F_GETFL fd]) t' \<and> sys p (F_GETFL fd) AND O_NONBLOCK \<noteq> 0)
        \<or> (\<exists>flags. succeeded sys t' (F_SETFL fd (flags OR O_NONBLOCK))))
    \<and> (is_blocking opts \<or> is_udp opts \<or> succeeded sys t' (TCP_NODELAY fd))
    \<and> (is_listening opts \<longrightarrow> succeeded sys t' (SO_REUSEADDR fd)
        \<and> (if is_udp opts then succeeded sys t' (BIND_ANY fd port)
           else succeeded sys t' (LISTEN_CALL fd MaxTCPServerBacklog) \<and> (\<exists>addr. succeeded sys t' (BIND_ADDR fd addr))))
    \<and> (is_udp opts \<and> so_ttl opts \<noteq> 0 \<longrightarrow> succeeded sys t' (IP_MULTICAST_TTL fd (so_ttl opts)) \<or> succeeded sys t' (IP_TTL fd (so_ttl opts)))
    \<and> (needs_so_timestamp opts \<longrightarrow> succeeded sys t' (SO_TIMESTAMP fd))
    \<and> CreateSocket sys' would_block ifaddrs resolve t_ip iface port opts t = Inr (fd, t')"
proof -
  obtain ip rps where "open_addresses sys would_block opts ip port rps (- 1) t = Inr (fd, t')"
    using assms by (auto simp: CreateSocket_def Let_def split: option.splits)
  from open_addresses_last [OF this assms(2)] obtain addr ta tb where
    r: "run_steps (socket_steps sys would_block opts ip port addr fd) ta = Inr (True, tb)" and tb: "prefix tb t'"
    using assms(2) by blast
  have D: "\<exists>ta tc. f ta = Inr (True, tc) \<and> prefix tc t'" if "f \<in> set (socket_steps sys would_block opts ip port addr fd)" for f
    using run_steps_done [OF steps_extend r] that tb by (meson prefix_order.order_trans)
  have W: "succeeded sys t' c" if "step_if b (works sys c) \<in> set (socket_steps sys would_block opts ip port addr fd)" "b" for b c
    using D [OF that(1)] that(2) works_True succeeded_prefix by (fastforce simp: step_if_def)
  have nb: "(\<exists>p. prefix (p @ [F_GETFL fd]) t' \<and> sys p (F_GETFL fd) AND O_NONBLOCK \<noteq> 0)
        \<or> (\<exists>flags. succeeded sys t' (F_SETFL fd (flags OR O_NONBLOCK)))" if nonblocking: "\<not> is_blocking opts"
  proof -
    obtain ta tc where "SetNonBlocking sys fd ta = (True, tc)" "prefix tc t'"
      using D [of "step_if (\<not> is_blocking opts) (SetNonBlocking sys fd)"] nonblocking by (auto simp: socket_steps_def step_if_def)
    then show ?thesis using works_True succeeded_prefix
      by (fastforce simp: SetNonBlocking_def call_def split: if_splits)
  qed
  have ttl: "succeeded sys t' (IP_MULTICAST_TTL fd (so_ttl opts)) \<or> succeeded sys t' (IP_TTL fd (so_ttl opts))"
    if "is_udp opts" "so_ttl opts \<noteq> 0"
  proof -
    obtain ta tc where "ttl_step sys opts ip fd ta = Inr (True, tc)" "prefix tc t'"
      using D [of "ttl_step sys opts ip fd"] by (auto simp: socket_steps_def)
    then show ?thesis using that works_True succeeded_prefix
      by (fastforce simp: ttl_step_def bindE_eq_Inr SetMultiCastTTL_def SetTTL_def split: if_splits)
  qed
  note steps = socket_steps_def SetNoDelay_def SetSOTimestamp_def
  have "succeeded sys t' (TCP_NODELAY fd)" if "\<not> is_blocking opts" "\<not> is_udp opts"
    by (rule W [of "\<not> is_blocking opts \<and> \<not> is_udp opts"]) (use that in \<open>simp_all add: steps\<close>)
  moreover have "succeeded sys t' (SO_REUSEADDR fd)" if "is_listening opts"
    by (rule W [of "is_listening opts"]) (use that in \<open>simp_all add: steps\<close>)
  moreover have "succeeded sys t' (if is_udp opts then BIND_ANY fd port else BIND_ADDR fd addr)" if "is_listening opts"
    by (rule W [of "is_listening opts"]) (use that in \<open>simp_all add: steps\<close>)
  moreover have "succeeded sys t' (LISTEN_CALL fd MaxTCPServerBacklog)" if "is_listening opts" "\<not> is_udp opts"
    by (rule W [of "\<not> is_udp opts \<and> is_listening opts"]) (use that in \<open>simp_all add: steps\<close>)
  moreover have "succeeded sys t' (SO_TIMESTAMP fd)" if "needs_so_timestamp opts"
    by (rule W [of "needs_so_timestamp opts"]) (use that in \<open>simp_all add: steps\<close>)
  moreover have "CreateSocket sys' would_block ifaddrs resolve t_ip iface port opts t = Inr (fd, t')"
    using assms(1) unfolding CreateSocket_def open_addresses_connect [OF assms(3)] .
  ultimately show ?thesis using nb ttl by metis
qed

definition ex_kernel :: "int \<Rightarrow> kernel" where
  "ex_kernel answer p c = (case c of SOCKET_CALL _ _ _ \<Rightarrow> 5 | CONNECT_CALL _ _ \<Rightarrow> answer | _ \<Rightarrow> 0)"

definition ex_connect :: "kernel \<Rightarrow> (int \<times> trace) outcome" where
  "ex_connect sys = CreateSocket sys (\<lambda>_. False) None (\<lambda>_ _ _. Some [\<lparr>ai_family = 2, ai_socktype = SOCK_STREAM, ai_protocol = IPPROTO_TCP,
     ai_addr = ''127.0.0.1:12345''\<rparr>]) ''127.0.0.1'' ''lo'' 12345
     \<lparr>is_udp = False, is_blocking = False, is_listening = False, so_ttl = 0, needs_so_timestamp = True\<rparr> []"

theorem created_socket_configured_witness:
  "\<exists>t'. ex_connect (ex_kernel 0) = Inr (5, t') \<and> succeeded (ex_kernel 0) t' (TCP_NODELAY 5) \<and> succeeded (ex_kernel 0) t' (SO_TIMESTAMP 5)
    \<and> ex_connect (ex_kernel (- 1)) = Inr (5, t')"
proof -
  obtain t' where t': "ex_connect (ex_kernel 0) = Inr (5, t')"
    by (simp add: ex_connect_def CreateSocket_def Let_def call_def ex_kernel_def socket_steps_def step_if_def SetNonBlocking_def
        works_def SetNoDelay_def SetSOTimestamp_def connect_step_def ttl_step_def)
  have "same_but_connect (ex_kernel 0) (ex_kernel (- 1))" by (auto simp: same_but_connect_def ex_kernel_def split: syscall.splits)
  from created_socket_configured [OF t' [unfolded ex_connect_def] _ this, folded ex_connect_def] t' show ?thesis by simp
qed

end
