(* ===== verification/RoundTrip.thy ===== *)
theory RoundTrip
  imports ServerProperties MessageTypes MainProperties
begin

text \<open>
  The components together: what the clients of the exchange send in one round of the TCP server passes the order server,
  the sequencer and the matching engine, and every client gets its answers back through its gateway.
\<close>

section \<open>Every request is answered once\<close>







section \<open>The round trip\<close>












end
