(* ===== verification/MarketPath.thy ===== *)
theory MarketPath
  imports MainProperties ConsumerProperties EngineEvents
begin

text \<open>
  The path of the market data: from the matching engine through the publisher, the wire and the market data consumer into
  the books of a trade engine.
\<close>

section \<open>From the wire to the consumer's queue\<close>







section \<open>The books of the trade engine\<close>













lemma mkt_repr_notified [simp]: "mkt_repr (bk\<lparr>notified := es\<rparr>) B = mkt_repr bk B"
  by (simp add: mkt_repr_def mkt_rep_def moid_ok_def morders_def)




section \<open>What the exchange announces\<close>




section \<open>From the engine's books to the client's\<close>










end
