(* ===== verification/Threads.thy ===== *)
theory Threads
  imports Prelude
begin

text \<open>
  \<open>common/ThreadUtils.h\<close>: how a thread is started.  \<open>CreateAndStartThread\<close> and the thread that it creates run interleaved: a
  schedule is the list of whose step is next, and every access to what the two share is a step of its own.  The thread's
  body refers to the starter's arguments and local variables, which exist until the starter's caller has ended the statement with
  the call.
\<close>

section \<open>The two threads\<close>

datatype starter_pc =
    S_Create         \<comment> \<open>\<open>new std::thread(threadBody)\<close>\<close>
  | S_ReadRunning    \<comment> \<open>\<open>while (!isRunning\<close>\<close>
  | S_ReadFailed     \<comment> \<open>\<open>&& !isFailed)\<close>, and sleep\<close>
  | S_IfFailed       \<comment> \<open>\<open>if (isFailed)\<close>\<close>
  | S_Join           \<comment> \<open>\<open>pThread->join()\<close>, and delete\<close>
  | S_Return
  | S_Returned       \<comment> \<open>the arguments and variables are gone\<close>

datatype body_pc =
    B_Absent         \<comment> \<open>not created yet\<close>
  | B_Core           \<comment> \<open>\<open>if (core_id >= 0 && !setThreadCore(core_id))\<close>\<close>
  | B_Failed         \<comment> \<open>\<open>isFailed = true\<close>\<close>
  | B_Print          \<comment> \<open>the message with \<open>name\<close> and \<open>core_id\<close>\<close>
  | B_Running        \<comment> \<open>\<open>isRunning = true\<close>\<close>
  | B_Call           \<comment> \<open>\<open>std::forward<T>(func)(...)\<close>\<close>
  | B_Inside         \<comment> \<open>inside the function\<close>
  | B_Exit

record thread_start =
  starter :: starter_pc
  body :: body_pc
  isRunning :: bool
  isFailed :: bool
  pThread :: bool    \<comment> \<open>is the pointer not null?\<close>
  dangling :: bool   \<comment> \<open>has the body used an argument or variable that was gone?\<close>

definition thread_start_init :: thread_start where
  "thread_start_init = \<lparr>starter = S_Create, body = B_Absent, isRunning = False, isFailed = False, pThread = False, dangling = False\<rparr>"

text \<open>\<open>bound\<close> says whether \<open>pthread_setaffinity_np\<close> succeeds on this core.\<close>

definition setThreadCore :: "(int \<Rightarrow> bool) \<Rightarrow> int \<Rightarrow> bool" where
  "setThreadCore bound core_id = bound core_id"

definition starter_step :: "thread_start \<Rightarrow> thread_start" where
  "starter_step s =
     (case starter s of
        S_Create \<Rightarrow> s\<lparr>body := B_Core, pThread := True, starter := S_ReadRunning\<rparr>
      | S_ReadRunning \<Rightarrow> s\<lparr>starter := if \<not> isRunning s then S_ReadFailed else S_IfFailed\<rparr>
      | S_ReadFailed \<Rightarrow> s\<lparr>starter := if \<not> isFailed s then S_ReadRunning else S_IfFailed\<rparr>
      | S_IfFailed \<Rightarrow> s\<lparr>starter := if isFailed s then S_Join else S_Return\<rparr>
      | S_Join \<Rightarrow> if body s = B_Exit then s\<lparr>pThread := False, starter := S_Return\<rparr> else s
      | S_Return \<Rightarrow> s\<lparr>starter := S_Returned\<rparr>
      | S_Returned \<Rightarrow> s)"

definition use_frame :: "thread_start \<Rightarrow> thread_start" where
  "use_frame s = s\<lparr>dangling := dangling s \<or> starter s = S_Returned\<rparr>"

definition body_step :: "(int \<Rightarrow> bool) \<Rightarrow> int \<Rightarrow> thread_start \<Rightarrow> thread_start" where
  "body_step bound core_id s =
     (case body s of
        B_Core \<Rightarrow> (use_frame s)\<lparr>body := if core_id \<ge> 0 \<and> \<not> setThreadCore bound core_id then B_Failed else B_Print\<rparr>
      | B_Failed \<Rightarrow> (use_frame s)\<lparr>isFailed := True, body := B_Exit\<rparr>
      | B_Print \<Rightarrow> (use_frame s)\<lparr>body := B_Running\<rparr>
      | B_Running \<Rightarrow> (use_frame s)\<lparr>isRunning := True, body := B_Call\<rparr>
      | B_Call \<Rightarrow> (use_frame s)\<lparr>body := B_Inside\<rparr>
      | _ \<Rightarrow> s)"

datatype runner = Starter | Body

fun start_step :: "(int \<Rightarrow> bool) \<Rightarrow> int \<Rightarrow> runner \<Rightarrow> thread_start \<Rightarrow> thread_start" where
  "start_step bound core_id Starter s = starter_step s"
| "start_step bound core_id Body s = body_step bound core_id s"

definition start_run :: "(int \<Rightarrow> bool) \<Rightarrow> int \<Rightarrow> runner list \<Rightarrow> thread_start" where
  "start_run bound core_id sched = fold (start_step bound core_id) sched thread_start_init"

text \<open>What \<open>CreateAndStartThread\<close> returns under a schedule: whether the pointer is not null, if it has returned.\<close>

definition CreateAndStartThread :: "(int \<Rightarrow> bool) \<Rightarrow> int \<Rightarrow> runner list \<Rightarrow> bool option" where
  "CreateAndStartThread bound core_id sched =
     (let s = start_run bound core_id sched in if starter s \<in> {S_Return, S_Returned} then Some (pThread s) else None)"

section \<open>What it returns\<close>

abbreviation core_fails :: "(int \<Rightarrow> bool) \<Rightarrow> int \<Rightarrow> bool" where
  "core_fails bound core_id \<equiv> core_id \<ge> 0 \<and> \<not> setThreadCore bound core_id"

definition start_inv :: "(int \<Rightarrow> bool) \<Rightarrow> int \<Rightarrow> thread_start \<Rightarrow> bool" where
  "start_inv bound core_id s \<longleftrightarrow>
     (body s = B_Absent \<longleftrightarrow> starter s = S_Create)
     \<and> (isRunning s \<longleftrightarrow> body s \<in> {B_Call, B_Inside})
     \<and> (isFailed s \<longleftrightarrow> body s = B_Exit)
     \<and> (body s \<in> {B_Failed, B_Exit} \<longrightarrow> core_fails bound core_id) \<and> (body s \<in> {B_Print, B_Running, B_Call, B_Inside} \<longrightarrow> \<not> core_fails bound core_id)
     \<and> (starter s \<in> {S_IfFailed, S_Join, S_Return, S_Returned} \<longrightarrow> isRunning s \<or> isFailed s)
     \<and> (starter s = S_Join \<longrightarrow> isFailed s)
     \<and> (starter s \<in> {S_ReadRunning, S_ReadFailed, S_IfFailed, S_Join} \<longrightarrow> pThread s)
     \<and> (starter s \<in> {S_Return, S_Returned} \<longrightarrow> pThread s = isRunning s)
     \<and> (dangling s \<longrightarrow> starter s = S_Returned \<and> body s = B_Inside)"

lemma start_inv_init: "start_inv bound core_id thread_start_init"
  by (simp add: start_inv_def thread_start_init_def)

lemma start_inv_step: "start_inv bound core_id s \<Longrightarrow> start_inv bound core_id (start_step bound core_id r s)"
  by (cases r; cases "starter s"; cases "body s") (auto simp: start_inv_def starter_step_def body_step_def use_frame_def)

lemma start_inv_run: "start_inv bound core_id (start_run bound core_id sched)"
proof -
  have "start_inv bound core_id s \<Longrightarrow> start_inv bound core_id (fold (start_step bound core_id) sched s)" for s
    by (induction sched arbitrary: s) (simp_all add: start_inv_step)
  then show ?thesis using start_inv_init by (simp add: start_run_def)
qed

lemma CreateAndStartThread_result:
  assumes "CreateAndStartThread bound core_id sched = Some p"
  shows "p \<longleftrightarrow> \<not> core_fails bound core_id" and "body (start_run bound core_id sched) \<in> (if p then {B_Call, B_Inside} else {B_Exit})"
proof -
  let ?s = "start_run bound core_id sched"
  have st: "starter ?s \<in> {S_Return, S_Returned}" and p: "p = pThread ?s" using assms by (simp_all add: CreateAndStartThread_def Let_def split: if_splits)
  have i: "start_inv bound core_id ?s" by (rule start_inv_run)
  have "pThread ?s = isRunning ?s" "isRunning ?s \<or> isFailed ?s" using i st unfolding start_inv_def by blast+
  moreover have "isRunning ?s \<longleftrightarrow> body ?s \<in> {B_Call, B_Inside}" "isFailed ?s \<longleftrightarrow> body ?s = B_Exit" using i unfolding start_inv_def by blast+
  moreover have "body ?s \<in> {B_Failed, B_Exit} \<longrightarrow> core_fails bound core_id"
    "body ?s \<in> {B_Print, B_Running, B_Call, B_Inside} \<longrightarrow> \<not> core_fails bound core_id" using i unfolding start_inv_def by blast+
  ultimately show "p \<longleftrightarrow> \<not> core_fails bound core_id" "body ?s \<in> (if p then {B_Call, B_Inside} else {B_Exit})" using p by auto
qed

section \<open>It returns\<close>

text \<open>How many steps of the thread, and then of the starter, are left: a step of the one whose turn is counted takes one off,
  and the other's steps put none on.\<close>

lemma count_steps:
  fixes left :: "'s \<Rightarrow> nat"
  assumes keep: "\<And>s x. P s \<Longrightarrow> P (step x s)" and other: "\<And>s x. P s \<Longrightarrow> left (step x s) \<le> left s" and own: "\<And>s. P s \<Longrightarrow> left (step a s) \<le> left s - 1"
  shows "P s \<Longrightarrow> P (fold step xs s) \<and> left (fold step xs s) \<le> left s - count_list xs a"
proof (induction xs arbitrary: s)
  case (Cons x xs)
  have s: "P (step x s)" by (rule keep [OF Cons.prems])
  have "left (step x s) \<le> left s - (if x = a then 1 else 0)" using other [OF Cons.prems, of x] own [OF Cons.prems] by simp
  then show ?case using Cons.IH [OF s] by (cases "x = a") auto
qed simp

definition body_left :: "thread_start \<Rightarrow> nat" where
  "body_left s = (case body s of B_Core \<Rightarrow> 3 | B_Print \<Rightarrow> 2 | B_Failed \<Rightarrow> 1 | B_Running \<Rightarrow> 1 | _ \<Rightarrow> 0)"

definition starter_left :: "thread_start \<Rightarrow> nat" where
  "starter_left s = (case starter s of S_Create \<Rightarrow> 6 | S_ReadRunning \<Rightarrow> (if isRunning s then 3 else 5) | S_ReadFailed \<Rightarrow> 4
     | S_IfFailed \<Rightarrow> (if isFailed s then 3 else 2) | S_Join \<Rightarrow> 2 | S_Return \<Rightarrow> 1 | S_Returned \<Rightarrow> 0)"

lemma body_left_step:
  assumes "start_inv bound core_id s" and "starter s \<noteq> S_Create"
  shows "body_left (start_step bound core_id r s) \<le> body_left s - (if r = Body then 1 else 0)" and "starter (start_step bound core_id r s) \<noteq> S_Create"
  using assms by (cases r; cases "starter s"; cases "body s"; simp add: start_inv_def starter_step_def body_step_def use_frame_def body_left_def)+

lemma starter_left_step:
  assumes "start_inv bound core_id s" and "isRunning s \<or> isFailed s"
  shows "starter_left (start_step bound core_id r s) \<le> starter_left s - (if r = Starter then 1 else 0)"
    and "isRunning (start_step bound core_id r s) \<or> isFailed (start_step bound core_id r s)"
  using assms by (cases r; cases "starter s"; cases "body s"; simp add: start_inv_def starter_step_def body_step_def use_frame_def starter_left_def)+

lemma body_settled: "start_inv bound core_id s \<Longrightarrow> starter s \<noteq> S_Create \<Longrightarrow> body_left s = 0 \<Longrightarrow> isRunning s \<or> isFailed s"
  by (cases "body s") (simp_all add: start_inv_def body_left_def)

lemma starter_settled: "start_inv bound core_id s \<Longrightarrow> isRunning s \<or> isFailed s \<Longrightarrow> starter_left s \<le> 5"
  by (cases "starter s") (simp_all add: start_inv_def starter_left_def)

lemma starter_done: "starter_left s = 0 \<Longrightarrow> starter s = S_Returned"
  by (cases "starter s") (simp_all add: starter_left_def split: if_splits)

lemma body_steps:
  assumes "start_inv bound core_id s" and "starter s \<noteq> S_Create"
  shows "(start_inv bound core_id (fold (start_step bound core_id) xs s) \<and> starter (fold (start_step bound core_id) xs s) \<noteq> S_Create)
    \<and> body_left (fold (start_step bound core_id) xs s) \<le> body_left s - count_list xs Body"
proof (rule count_steps [where P = "\<lambda>s. start_inv bound core_id s \<and> starter s \<noteq> S_Create"])
  fix s x assume s: "start_inv bound core_id s \<and> starter s \<noteq> S_Create"
  show "start_inv bound core_id (start_step bound core_id x s) \<and> starter (start_step bound core_id x s) \<noteq> S_Create"
    using s start_inv_step body_left_step(2) by blast
  have L: "body_left (start_step bound core_id x s) \<le> body_left s - (if x = Body then 1 else 0)" for x using s by (intro body_left_step(1)) simp_all
  show "body_left (start_step bound core_id x s) \<le> body_left s" using L [of x] by (simp split: if_splits)
    show "body_left (start_step bound core_id Body s) \<le> body_left s - 1" using L [of Body] by simp
qed (use assms in simp)

lemma starter_steps:
  assumes "start_inv bound core_id s" and "isRunning s \<or> isFailed s"
  shows "starter_left (fold (start_step bound core_id) xs s) \<le> starter_left s - count_list xs Starter"
proof -
  let ?P = "\<lambda>s. start_inv bound core_id s \<and> (isRunning s \<or> isFailed s)"
  have "?P (fold (start_step bound core_id) xs s) \<and> starter_left (fold (start_step bound core_id) xs s) \<le> starter_left s - count_list xs Starter"
  proof (rule count_steps [where P = ?P])
    fix s x assume s: "?P s"
    show "?P (start_step bound core_id x s)" using s start_inv_step starter_left_step(2) by blast
    have L: "starter_left (start_step bound core_id x s) \<le> starter_left s - (if x = Starter then 1 else 0)" for x
      using s by (intro starter_left_step(1)) simp_all
    show "starter_left (start_step bound core_id x s) \<le> starter_left s" using L [of x] by (simp split: if_splits)
    show "starter_left (start_step bound core_id Starter s) \<le> starter_left s - 1" using L [of Starter] by simp
  qed (use assms in simp)
  then show ?thesis ..
qed

lemma CreateAndStartThread_returns:
  assumes "Starter \<in> set ws" and "3 \<le> count_list xs Body" and "5 \<le> count_list ys Starter"
  shows "CreateAndStartThread bound core_id (ws @ xs @ ys) = Some (\<not> core_fails bound core_id)"
proof -
  let ?step = "start_step bound core_id" and ?inv = "start_inv bound core_id"
  define s1 where "s1 = start_run bound core_id ws"
  define s2 where "s2 = fold ?step xs s1"
  define s3 where "s3 = fold ?step ys s2"
  have s3: "start_run bound core_id (ws @ xs @ ys) = s3" by (simp add: s1_def s2_def s3_def start_run_def)
  have created: "starter (fold ?step ws s) \<noteq> S_Create" if "?inv s" "Starter \<in> set ws" for s
    using that
  proof (induction ws arbitrary: s)
    case (Cons r ws)
    have i: "?inv (?step r s)" by (rule start_inv_step [OF Cons.prems(1)])
    have keep: "?inv s' \<Longrightarrow> starter s' \<noteq> S_Create \<Longrightarrow> starter (fold ?step ws s') \<noteq> S_Create" for s'
      by (induction ws arbitrary: s') (simp_all add: start_inv_step body_left_step(2))
    show ?case
    proof (cases "r = Starter")
      case True
      then have "starter (?step r s) \<noteq> S_Create" by (simp add: starter_step_def split: starter_pc.splits)
      then show ?thesis using keep [OF i] by simp
    next
      case False
      then show ?thesis using Cons.IH [OF i] Cons.prems(2) by simp
    qed
  qed simp
  have 1: "?inv s1 \<and> starter s1 \<noteq> S_Create" using start_inv_run created [OF start_inv_init assms(1)] by (simp add: s1_def start_run_def)
  have 2: "?inv s2 \<and> starter s2 \<noteq> S_Create" "body_left s2 \<le> body_left s1 - count_list xs Body"
    using body_steps [of bound core_id s1 xs] 1 unfolding s2_def by blast+
  have "body_left s1 \<le> 3" by (simp add: body_left_def split: body_pc.split)
  then have "body_left s2 = 0" using 2(2) assms(2) by simp
  then have f: "isRunning s2 \<or> isFailed s2" using body_settled 2(1) by blast
  then have "starter_left s2 \<le> 5" "starter_left s3 \<le> starter_left s2 - count_list ys Starter"
    using starter_settled starter_steps 2(1) unfolding s3_def by blast+
  then have "starter s3 = S_Returned" using assms(3) by (intro starter_done) simp
  then have "CreateAndStartThread bound core_id (ws @ xs @ ys) = Some (pThread s3)" by (simp add: CreateAndStartThread_def s3 Let_def)
  then show ?thesis using CreateAndStartThread_result(1) [of bound core_id "ws @ xs @ ys" "pThread s3"] by simp
qed

text \<open>C29: starting a thread ends and decides: under any schedule that lets the starter create the thread, then the new thread make
  three steps, then the starter five, \<open>CreateAndStartThread\<close> has returned; and whenever it has returned, under any schedule, the
  pointer is null exactly when a core was asked for that cannot be had, and the function runs exactly when the pointer is not null.\<close>

theorem thread_start_decides:
  assumes "Starter \<in> set ws" and "3 \<le> count_list xs Body" and "5 \<le> count_list ys Starter"
  shows "CreateAndStartThread bound core_id (ws @ xs @ ys) = Some (\<not> core_fails bound core_id)
    \<and> (\<forall>sched p. CreateAndStartThread bound core_id sched = Some p \<longrightarrow>
        p = (\<not> core_fails bound core_id) \<and> body (start_run bound core_id sched) \<in> (if p then {B_Call, B_Inside} else {B_Exit}))"
  using CreateAndStartThread_returns [OF assms] CreateAndStartThread_result by blast

theorem thread_start_decides_witness:
  "CreateAndStartThread (\<lambda>_. False) 2 ([Starter, Body] @ [Starter, Body, Body, Starter, Body] @ replicate 5 Starter) = Some False
    \<and> CreateAndStartThread (\<lambda>_. False) (- 1) ([Starter] @ [Body, Body, Body] @ replicate 5 Starter) = Some True"
  using thread_start_decides [of "[Starter, Body]" "[Starter, Body, Body, Starter, Body]" "replicate 5 Starter" "\<lambda>_. False" 2]
    thread_start_decides [of "[Starter]" "[Body, Body, Body]" "replicate 5 Starter" "\<lambda>_. False" "- 1"]
  by (simp add: setThreadCore_def numeral_eq_Suc)

text \<open>The flag is raised before the function is called.  If the starter returns in between, the thread calls the function through
  a reference to an object that no longer exists.\<close>

theorem started_function_may_dangle:
  "dangling (start_run bound (- 1) [Starter, Body, Body, Body, Starter, Starter, Starter, Body])"
  by (simp add: start_run_def thread_start_init_def starter_step_def body_step_def use_frame_def)

section \<open>The end of a thread\<close>

text \<open>
  The loop of every component is \<open>while (m_isRunning)\<close> over its rounds.  Its destructor clears the flag and sleeps; it does not
  join the thread, so the object may be gone when the loop looks at it again.
\<close>

datatype loop_pc = L_Test | L_Round | L_Left

record component_life =
  m_isRunning :: bool
  destroyed :: bool
  loop :: loop_pc
  used_destroyed :: bool

datatype life_event = Owner_Stop | Owner_Destroy | Loop_Step

fun life_step :: "life_event \<Rightarrow> component_life \<Rightarrow> component_life" where
  "life_step Owner_Stop s = s\<lparr>m_isRunning := False\<rparr>"
| "life_step Owner_Destroy s = s\<lparr>destroyed := True\<rparr>"
| "life_step Loop_Step s =
     (case loop s of
        L_Test \<Rightarrow> s\<lparr>loop := if m_isRunning s then L_Round else L_Left, used_destroyed := used_destroyed s \<or> destroyed s\<rparr>
      | L_Round \<Rightarrow> s\<lparr>loop := L_Test, used_destroyed := used_destroyed s \<or> destroyed s\<rparr>
      | L_Left \<Rightarrow> s)"

definition life_init :: component_life where
  "life_init = \<lparr>m_isRunning = True, destroyed = False, loop = L_Test, used_destroyed = False\<rparr>"

definition loop_left :: "component_life \<Rightarrow> nat" where
  "loop_left s = (case loop s of L_Round \<Rightarrow> 2 | L_Test \<Rightarrow> 1 | L_Left \<Rightarrow> 0)"

lemma life_safe_left: "\<not> used_destroyed s \<Longrightarrow> loop s = L_Left \<Longrightarrow> \<not> used_destroyed (fold life_step es s)"
proof (induction es arbitrary: s)
  case (Cons e es)
  then show ?case by (cases e) simp_all
qed simp

lemma life_alive: "\<not> destroyed s \<and> \<not> used_destroyed s \<Longrightarrow> Owner_Destroy \<notin> set es
    \<Longrightarrow> \<not> destroyed (fold life_step es s) \<and> \<not> used_destroyed (fold life_step es s)"
proof (induction es arbitrary: s)
  case (Cons e es)
  then show ?case by (cases e) (auto split: loop_pc.split)
qed simp

lemma loop_steps: "\<not> m_isRunning s \<Longrightarrow> loop_left (fold life_step es s) \<le> loop_left s - count_list es Loop_Step"
proof (rule conjunct2 [OF count_steps [where P = "\<lambda>s. \<not> m_isRunning s" and left = loop_left]])
  fix s :: component_life and x assume s: "\<not> m_isRunning s"
  show "\<not> m_isRunning (life_step x s)" using s by (cases x) (simp_all split: loop_pc.split)
  show "loop_left (life_step x s) \<le> loop_left s" using s by (cases x) (simp_all add: loop_left_def split: loop_pc.split)
  show "loop_left (life_step Loop_Step s) \<le> loop_left s - 1" using s by (simp add: loop_left_def split: loop_pc.split)
qed simp

text \<open>If the loop gets to make two steps while the destructor sleeps, it has been left when the object goes; if it gets none, it
  looks at an object that is gone.\<close>

theorem destructor_waits_long_enough:
  assumes "Owner_Destroy \<notin> set es" and "Owner_Destroy \<notin> set xs" and "2 \<le> count_list xs Loop_Step"
  shows "\<not> used_destroyed (fold life_step (es @ Owner_Stop # xs @ Owner_Destroy # ys) life_init)"
proof -
  define s1 where "s1 = life_step Owner_Stop (fold life_step es life_init)"
  define s2 where "s2 = fold life_step xs s1"
  have a1: "\<not> destroyed s1 \<and> \<not> used_destroyed s1" using life_alive [OF _ assms(1), of life_init] by (simp add: s1_def life_init_def)
  have a2: "\<not> destroyed s2 \<and> \<not> used_destroyed s2" using life_alive [OF a1 assms(2)] by (simp add: s2_def)
  have "loop_left s2 \<le> loop_left s1 - count_list xs Loop_Step" unfolding s2_def by (rule loop_steps) (simp add: s1_def)
  moreover have "loop_left s1 \<le> 2" by (simp add: loop_left_def split: loop_pc.split)
  ultimately have "loop_left s2 = 0" using assms(3) by simp
  then have l: "loop s2 = L_Left" by (simp add: loop_left_def split: loop_pc.splits)
  have "fold life_step (es @ Owner_Stop # xs @ Owner_Destroy # ys) life_init = fold life_step ys (life_step Owner_Destroy s2)"
    by (simp add: s1_def s2_def)
  then show ?thesis using life_safe_left [of "life_step Owner_Destroy s2" ys] a2 l by simp
qed

theorem destructor_race: "used_destroyed (fold life_step [Loop_Step, Owner_Stop, Owner_Destroy, Loop_Step] life_init)"
  by (simp add: life_init_def)

end
