(* ===== verification/Startup.thy ===== *)
theory Startup
  imports Threads SocketUtils TcpServer MarketDataConsumer OrderGateway MainProgram
begin

text \<open>
  Starting and stopping: the constructors that open sockets, \<open>Start\<close> and \<open>Stop\<close> of every component, and the order in which
  the two main programs create, start and stop their components.  The answers of the system calls, the scheduler and the
  text of \<open>errno\<close> are parameters.
\<close>

section \<open>The world around the programs\<close>

record world =
  w_sys :: kernel
  w_would_block :: "trace \<Rightarrow> bool"
  w_ifaddrs :: "(string \<times> string option) list option"
  w_resolve :: "string \<Rightarrow> string \<Rightarrow> addr_hints \<Rightarrow> addrinfo list option"
  w_epoll_create :: int
  w_epoll_added :: bool
  w_error :: string
  w_sched :: "string \<Rightarrow> runner list"  \<comment> \<open>the schedule while the thread of this name is started\<close>

definition init_socket :: "world \<Rightarrow> string \<Rightarrow> string \<Rightarrow> int \<Rightarrow> bool \<Rightarrow> trace \<Rightarrow> (int \<times> SMultiCastSocket \<times> trace) outcome" where
  "init_socket w ip iface port listening =
     mcast_Init (w_sys w) (w_would_block w) (w_ifaddrs w) (w_resolve w) ip iface port listening SMultiCastSocket_new"

definition connect_socket :: "world \<Rightarrow> string \<Rightarrow> string \<Rightarrow> int \<Rightarrow> bool \<Rightarrow> CTCPSocket \<Rightarrow> trace \<Rightarrow> (int \<times> CTCPSocket \<times> trace) outcome" where
  "connect_socket w ip iface port listening =
     tcp_connect (w_sys w) (w_would_block w) (w_ifaddrs w) (w_resolve w) ip iface port listening"

text \<open>A component with its flag \<open>m_isRunning\<close>, and whether its thread has been started.\<close>

record 'a component =
  is_running :: bool
  has_thread :: bool
  comp :: 'a

definition idle :: "'a \<Rightarrow> 'a component" where
  "idle a = \<lparr>is_running = False, has_thread = False, comp = a\<rparr>"

definition start_thread :: "world \<Rightarrow> string \<Rightarrow> string \<Rightarrow> 'a component \<Rightarrow> 'a component outcome" where
  "start_thread w name msg c =
     (case CreateAndStartThread (\<lambda>_. True) (- 1) (w_sched w name) of
        None \<Rightarrow> Inl Diverges
      | Some p \<Rightarrow> bindE (ASSERT p msg) (\<lambda>_. Inr (c\<lparr>has_thread := True\<rparr>)))"

section \<open>The exchange\<close>

definition me_Start :: "world \<Rightarrow> CMatchingEngine component \<Rightarrow> CMatchingEngine component outcome" where
  "me_Start w c = start_thread w ''Exchange/MatchingEngine'' ''Failed to start MatchingEngine thread.'' (c\<lparr>is_running := True\<rparr>)"

definition me_Stop :: "CMatchingEngine component \<Rightarrow> CMatchingEngine component" where
  "me_Stop c = c\<lparr>is_running := False\<rparr>"

definition snap_open :: "world \<Rightarrow> MDPMarketUpdate CLockFreeQueue \<Rightarrow> string \<Rightarrow> string \<Rightarrow> int \<Rightarrow> trace
    \<Rightarrow> (CSnapshotSynthesizer component \<times> SMultiCastSocket \<times> trace) outcome" where
  "snap_open w market_updates iface snapshot_ip snapshot_port t =
     bindE (init_socket w snapshot_ip iface snapshot_port False t) (\<lambda>(fd, m_snapshotSocket, t1).
     bindE (ASSERT (fd \<ge> 0) (''Unable to create snapshot mcast socket. error:'' @ w_error w)) (\<lambda>_.
     Inr (idle (CSnapshotSynthesizer_new market_updates), m_snapshotSocket, t1)))"

definition snap_Start :: "world \<Rightarrow> CSnapshotSynthesizer component \<Rightarrow> CSnapshotSynthesizer component outcome" where
  "snap_Start w c = start_thread w ''Exchange/SnapshotSynthesizer'' ''Failed to start SnapshotSynthesizer thread.'' (c\<lparr>is_running := True\<rparr>)"

definition snap_Stop :: "CSnapshotSynthesizer component \<Rightarrow> CSnapshotSynthesizer component" where
  "snap_Stop c = c\<lparr>is_running := False\<rparr>"

text \<open>The publisher owns the synthesizer.\<close>

record publisher =
  pub_self :: "CMarketDataPublisher component"
  m_incrementalSocket :: SMultiCastSocket
  m_pSnapshotSynthesizer :: "CSnapshotSynthesizer component"
  m_snapshotSocket :: SMultiCastSocket

definition pub_open :: "world \<Rightarrow> SMEMarketUpdate CLockFreeQueue \<Rightarrow> string \<Rightarrow> string \<Rightarrow> int \<Rightarrow> string \<Rightarrow> int \<Rightarrow> trace \<Rightarrow> (publisher \<times> trace) outcome" where
  "pub_open w market_updates iface snapshot_ip snapshot_port incremental_ip incremental_port t =
     bindE (init_socket w incremental_ip iface incremental_port False t) (\<lambda>(fd, inc, t1).
     bindE (ASSERT (fd \<ge> 0) (''Unable to create incremental mcast socket. error:'' @ w_error w)) (\<lambda>_.
     let p = CMarketDataPublisher_new market_updates in
     bindE (snap_open w (pub_snapshotMdUpdates p) iface snapshot_ip snapshot_port t1) (\<lambda>(s, snap, t2).
     Inr (\<lparr>pub_self = idle p, m_incrementalSocket = inc, m_pSnapshotSynthesizer = s, m_snapshotSocket = snap\<rparr>, t2))))"

definition pub_Start :: "world \<Rightarrow> publisher \<Rightarrow> publisher outcome" where
  "pub_Start w p =
     bindE (start_thread w ''Exchange/MarketDataPublisher'' ''Failed to start MarketData thread.'' ((pub_self p)\<lparr>is_running := True\<rparr>)) (\<lambda>c.
     bindE (snap_Start w (m_pSnapshotSynthesizer p)) (\<lambda>s.
     Inr (p\<lparr>pub_self := c, m_pSnapshotSynthesizer := s\<rparr>)))"

definition pub_Stop :: "publisher \<Rightarrow> publisher" where
  "pub_Stop p = p\<lparr>pub_self := (pub_self p)\<lparr>is_running := False\<rparr>, m_pSnapshotSynthesizer := snap_Stop (m_pSnapshotSynthesizer p)\<rparr>"

definition os_Start :: "world \<Rightarrow> string \<Rightarrow> int \<Rightarrow> COrderServer component \<Rightarrow> CTCPServer \<Rightarrow> trace
    \<Rightarrow> (COrderServer component \<times> CTCPServer \<times> trace) outcome" where
  "os_Start w iface port c srv t =
     bindE (connect_socket w [] iface port True (tcp_sock srv (m_listenerSocket srv)) t) (\<lambda>(fd, _, t1).
     bindE (srv_Listen (w_epoll_create w) fd (w_epoll_added w) (w_error w) iface port srv) (\<lambda>srv1.
     bindE (start_thread w ''Exchange/OrderServer'' ''Failed to start OrderServer thread.'' (c\<lparr>is_running := True\<rparr>)) (\<lambda>c1.
     Inr (c1, srv1, t1))))"

definition os_Stop :: "COrderServer component \<Rightarrow> COrderServer component" where
  "os_Stop c = c\<lparr>is_running := False\<rparr>"

record exchange =
  pMatchingEngine :: "CMatchingEngine component"
  pMarketDataPublisher :: publisher
  pOrderServer :: "COrderServer component"
  m_tcpServer :: CTCPServer

definition exchange_startup :: "world \<Rightarrow> trace \<Rightarrow> (exchange \<times> trace) outcome" where
  "exchange_startup w t =
     (let (me, pub, os) = exchange_main
      in bindE (me_Start w (idle me)) (\<lambda>me'.
         bindE (pub_open w (pub_pOutgoingMdUpdates pub) ''lo'' ''233.252.14.1'' 20000 ''233.252.14.3'' 20001 t) (\<lambda>(pub0, t1).
         bindE (pub_Start w pub0) (\<lambda>pub'.
         bindE (os_Start w ''lo'' 12345 (idle os) CTCPServer_new t1) (\<lambda>(os', srv, t2).
         Inr (\<lparr>pMatchingEngine = me', pMarketDataPublisher = pub', pOrderServer = os', m_tcpServer = srv\<rparr>, t2))))))"

text \<open>What the signal handler does: the destructors, in this order, begin with \<open>Stop\<close>.\<close>

definition exchange_shutdown :: "exchange \<Rightarrow> exchange" where
  "exchange_shutdown ex =
     (let ex1 = ex\<lparr>pMatchingEngine := me_Stop (pMatchingEngine ex)\<rparr>;
          ex2 = ex1\<lparr>pMarketDataPublisher := pub_Stop (pMarketDataPublisher ex1)\<rparr>
      in ex2\<lparr>pOrderServer := os_Stop (pOrderServer ex2)\<rparr>)"

section \<open>A trading client\<close>

definition te_Start :: "world \<Rightarrow> 'd CTradeEngine component \<Rightarrow> 'd CTradeEngine component outcome" where
  "te_Start w c = start_thread w ''Trading/TradeEngine'' ''Failed to start TradeEngine thread.'' (c\<lparr>is_running := True\<rparr>)"

definition og_Start :: "world \<Rightarrow> string \<Rightarrow> string \<Rightarrow> int \<Rightarrow> COrderGateway component \<Rightarrow> trace \<Rightarrow> (COrderGateway component \<times> trace) outcome" where
  "og_Start w ip iface port c t =
     bindE (connect_socket w ip iface port False (m_tcpSocket (comp c)) t) (\<lambda>(fd, sock, t1).
     bindE (ASSERT (fd \<ge> 0) (''Unable to connect to ip:'' @ ip @ '' port:'' @ to_string_int port @ '' on iface:'' @ iface @ '' error:'' @ w_error w)) (\<lambda>_.
     bindE (start_thread w ''Trading/OrderGateway'' ''Failed to start OrderGateway thread.''
              (c\<lparr>is_running := True, comp := (comp c)\<lparr>m_tcpSocket := sock\<rparr>\<rparr>)) (\<lambda>c1.
     Inr (c1, t1))))"

definition og_Stop :: "COrderGateway component \<Rightarrow> COrderGateway component" where
  "og_Stop c = c\<lparr>is_running := False\<rparr>"

definition mdc_open :: "world \<Rightarrow> SMEMarketUpdate CLockFreeQueue \<Rightarrow> string \<Rightarrow> string \<Rightarrow> int \<Rightarrow> trace
    \<Rightarrow> (CMarketDataConsumer component \<times> SMultiCastSocket \<times> trace) outcome" where
  "mdc_open w market_updates iface incremental_ip incremental_port t =
     bindE (init_socket w incremental_ip iface incremental_port True t) (\<lambda>(fd, inc, t1).
     bindE (ASSERT (fd \<ge> 0) (''Unable to create incremental mcast socket. error:'' @ w_error w)) (\<lambda>_.
     let (joined, t2) = mcast_Join (w_sys w) incremental_ip iface incremental_port inc t1 in
     bindE (ASSERT joined (''Join failed on:'' @ to_string_int (m_fd inc) @ '' error:'' @ w_error w)) (\<lambda>_.
     Inr (idle (CMarketDataConsumer_new market_updates), inc, t2))))"

definition mdc_Start :: "world \<Rightarrow> CMarketDataConsumer component \<Rightarrow> CMarketDataConsumer component outcome" where
  "mdc_Start w c = start_thread w ''Trading/MarketDataConsumer'' ''Failed to start MarketData thread.'' (c\<lparr>is_running := True\<rparr>)"

definition mdc_Stop :: "CMarketDataConsumer component \<Rightarrow> CMarketDataConsumer component" where
  "mdc_Stop c = c\<lparr>is_running := False\<rparr>"

record 'd client =
  pTradeEngine :: "'d CTradeEngine component"
  pOrderGateway :: "COrderGateway component"
  pMarketDataConsumer :: "CMarketDataConsumer component"
  m_incrementalMcastSocket :: SMultiCastSocket

definition trading_startup :: "world \<Rightarrow> 'd fp \<Rightarrow> (TickerId \<Rightarrow> 64 word \<Rightarrow> 'd) \<Rightarrow> (string \<Rightarrow> 'd) \<Rightarrow> string list \<Rightarrow> trace \<Rightarrow> ('d client \<times> trace) outcome" where
  "trading_startup w F junk atof args t =
     bindE (trading_engine F junk atof args) (\<lambda>te.
     bindE (te_Start w (idle te)) (\<lambda>te'.
     bindE (og_Start w ''127.0.0.1'' ''lo'' 12345
              (idle (COrderGateway_new (om_clientId (m_orderManager te)) (om_requests (m_orderManager te)) (pIncomingOgwResponses te))) t) (\<lambda>(og, t1).
     bindE (mdc_open w (pIncomingMdUpdates te) ''lo'' ''233.252.14.3'' 20001 t1) (\<lambda>(mdc, inc, t2).
     bindE (mdc_Start w mdc) (\<lambda>mdc'.
     Inr (\<lparr>pTradeEngine = te', pOrderGateway = og, pMarketDataConsumer = mdc', m_incrementalMcastSocket = inc\<rparr>, t2))))))"

text \<open>\<open>readings\<close> are the clock and the time of the last event at each test of the loop that waits for silence; \<open>sizes\<close> the
  sizes of the two queues at each test of the loop of \<open>CTradeEngine::Stop\<close>.  \<open>False\<close>: still waiting when the readings end.\<close>

fun wait_for_silence :: "(Nanos \<times> Nanos) list \<Rightarrow> bool outcome" where
  "wait_for_silence [] = Inr False"
| "wait_for_silence ((now, last_event) # readings) =
     bindE (silentSeconds now last_event) (\<lambda>secs. if secs < 60 then wait_for_silence readings else Inr True)"

fun wait_for_queues :: "(nat \<times> nat) list \<Rightarrow> bool" where
  "wait_for_queues [] = False"
| "wait_for_queues ((responses, updates) # sizes) = (if responses \<noteq> 0 \<or> updates \<noteq> 0 then wait_for_queues sizes else True)"

definition te_Stop :: "(nat \<times> nat) list \<Rightarrow> 'd CTradeEngine component \<Rightarrow> 'd CTradeEngine component outcome" where
  "te_Stop sizes c = (if wait_for_queues sizes then Inr (c\<lparr>is_running := False\<rparr>) else Inl Diverges)"

definition trading_end :: "(Nanos \<times> Nanos) list \<Rightarrow> (nat \<times> nat) list \<Rightarrow> 'd client \<Rightarrow> 'd client outcome" where
  "trading_end readings sizes c =
     bindE (wait_for_silence readings) (\<lambda>silent. if \<not> silent then Inl Diverges else
     bindE (te_Stop sizes (pTradeEngine c)) (\<lambda>te.
     Inr (c\<lparr>pTradeEngine := te, pMarketDataConsumer := mdc_Stop (pMarketDataConsumer c), pOrderGateway := og_Stop (pOrderGateway c)\<rparr>)))"

definition initLastEventTime :: "Nanos \<Rightarrow> 'd CTradeEngine \<Rightarrow> 'd CTradeEngine" where
  "initLastEventTime now te = te\<lparr>m_lastEventTime := now\<rparr>"

text \<open>
  The main thread from the start of the components to their stop.  \<open>srand(clientId)\<close> seeds the random numbers.  What the other
  threads do meanwhile enters through \<open>clocks\<close>, \<open>readings\<close> and \<open>sizes\<close>.
\<close>

definition trading_main :: "world \<Rightarrow> 'd fp \<Rightarrow> (TickerId \<Rightarrow> 64 word \<Rightarrow> 'd) \<Rightarrow> (string \<Rightarrow> 'd) \<Rightarrow> ('g \<Rightarrow> nat \<times> 'g) \<Rightarrow> (nat \<Rightarrow> 'g) \<Rightarrow> (nat \<Rightarrow> Nanos \<times> Nanos)
    \<Rightarrow> (Nanos \<times> Nanos) list \<Rightarrow> (nat \<times> nat) list \<Rightarrow> Nanos \<Rightarrow> string list \<Rightarrow> trace \<Rightarrow> ('d client \<times> trace) outcome" where
  "trading_main w F junk atof rand srand clocks readings sizes now args t =
     bindE (trading_startup w F junk atof args t) (\<lambda>(cl, t').
     let te = pTradeEngine cl; clientId = om_clientId (m_orderManager (comp te)) in
     bindE (random_trading rand (srand (unat clientId)) clocks clientId (initLastEventTime now (comp te))) (\<lambda>te'.
     bindE (trading_end readings sizes (cl\<lparr>pTradeEngine := te\<lparr>comp := te'\<rparr>\<rparr>)) (\<lambda>cl'.
     Inr (cl', t'))))"

end
