(* ===== verification/StartupProperties.thy ===== *)
theory StartupProperties
  imports Startup ServerProperties SocketProperties MainProperties
begin

text \<open>
  What start-up brings about: everything runs and every socket is open, or the process stops at the first assertion.
\<close>

section \<open>An obliging world\<close>

definition fair_start :: "runner list \<Rightarrow> bool" where
  "fair_start sched \<longleftrightarrow> (\<exists>ws xs ys. sched = ws @ xs @ ys \<and> Starter \<in> set ws \<and> 3 \<le> count_list xs Body \<and> 5 \<le> count_list ys Starter)"

definition obliging :: "world \<Rightarrow> bool" where
  "obliging w \<longleftrightarrow> (\<forall>p c. w_sys w p c \<noteq> - 1) \<and> (\<forall>p d ty pr. 0 \<le> w_sys w p (SOCKET_CALL d ty pr)) \<and> (\<forall>p fd a. w_sys w p (CONNECT_CALL fd a) = 0)
     \<and> (\<forall>h s hints. \<exists>a as. w_resolve w h s hints = Some (a # as)) \<and> 0 \<le> w_epoll_create w \<and> w_epoll_added w
     \<and> (\<forall>name. fair_start (w_sched w name))"

lemma start_thread_cases:
  "start_thread w name msg c = Inr c' \<Longrightarrow> c' = c\<lparr>has_thread := True\<rparr>"
  by (auto simp: start_thread_def bindE_eq_Inr split: option.splits)

lemma start_thread_ok:
  assumes "obliging w"
  shows "start_thread w name msg c = Inr (c\<lparr>has_thread := True\<rparr>)"
proof -
  have "fair_start (w_sched w name)" using assms by (simp add: obliging_def)
  then obtain ws xs ys where s: "w_sched w name = ws @ xs @ ys" "Starter \<in> set ws" "3 \<le> count_list xs Body" "5 \<le> count_list ys Starter"
    unfolding fair_start_def by blast
  show ?thesis using CreateAndStartThread_returns [OF s(2,3,4), of "\<lambda>_. True" "- 1"] by (simp add: start_thread_def s(1))
qed

section \<open>Sockets\<close>

definition step_ok :: "step \<Rightarrow> bool" where
  "step_ok f \<longleftrightarrow> (\<forall>t. \<exists>t'. f t = Inr (True, t'))"

lemma run_steps_ok: "\<forall>f\<in>set fs. step_ok f \<Longrightarrow> \<exists>t'. run_steps fs t = Inr (True, t')"
proof (induction fs arbitrary: t)
  case (Cons f fs)
  obtain t1 where "f t = Inr (True, t1)" using Cons.prems by (auto simp: step_ok_def)
  then show ?case using Cons.IH [of t1] Cons.prems by simp
qed simp

lemma socket_steps_ok:
  assumes "obliging w" and "is_udp opts \<longrightarrow> (\<exists>n. atoi ip = Inr n)"
  shows "\<forall>f\<in>set (socket_steps (w_sys w) wb opts ip port addr fd). step_ok f"
proof -
  have k: "w_sys w p c \<noteq> - 1" "w_sys w p (CONNECT_CALL fd a) = 0" for p c fd a using assms(1) by (simp_all add: obliging_def)
  then have wk: "works (w_sys w) c t = (True, t @ [c])" for c t by (simp add: works_def call_def)
  have "step_ok (ttl_step (w_sys w) opts ip fd)"
    using assms(2) by (auto simp: step_ok_def ttl_step_def is_multicast_def SetMultiCastTTL_def SetTTL_def wk)
  then show ?thesis
    by (auto simp: socket_steps_def step_ok_def step_if_def SetNonBlocking_def SetNoDelay_def SetSOTimestamp_def connect_step_def wk call_def k)
qed

lemma open_addresses_ok:
  assumes "obliging w" and "is_udp opts \<longrightarrow> (\<exists>n. atoi ip = Inr n)"
  shows "rps \<noteq> [] \<or> 0 \<le> fd \<Longrightarrow> \<exists>fd' t'. open_addresses (w_sys w) wb opts ip port rps fd t = Inr (fd', t') \<and> 0 \<le> fd'"
proof (induction rps arbitrary: fd t)
  case (Cons rp rps)
  let ?c = "SOCKET_CALL (ai_family rp) (ai_socktype rp) (ai_protocol rp)"
  have fd: "w_sys w t ?c \<noteq> - 1" "0 \<le> w_sys w t ?c" using assms(1) by (simp_all add: obliging_def)
  obtain t1 where t1: "run_steps (socket_steps (w_sys w) wb opts ip port (ai_addr rp) (w_sys w t ?c)) (t @ [?c]) = Inr (True, t1)"
    using run_steps_ok [OF socket_steps_ok [OF assms]] by blast
  then show ?case using Cons.IH [of "w_sys w t ?c" t1] fd by (simp add: call_def)
qed simp

lemma CreateSocket_ok:
  assumes "obliging w" and "is_udp opts \<longrightarrow> t_ip \<noteq> [] \<and> (\<exists>n. atoi t_ip = Inr n)"
  shows "\<exists>fd t'. CreateSocket (w_sys w) (w_would_block w) (w_ifaddrs w) (w_resolve w) t_ip iface port opts t = Inr (fd, t') \<and> 0 \<le> fd"
proof -
  define ip where "ip = (if t_ip = [] then GetIFaceIP (w_ifaddrs w) iface else t_ip)"
  define hints where "hints = \<lparr>hint_socktype = (if is_udp opts then SOCK_DGRAM else SOCK_STREAM),
    hint_protocol = (if is_udp opts then IPPROTO_UDP else IPPROTO_TCP), hint_passive = is_listening opts,
    hint_numeric_host = (ip \<noteq> [] \<and> is_digit (hd ip))\<rparr>"
  have "is_udp opts \<longrightarrow> (\<exists>n. atoi ip = Inr n)" using assms(2) by (simp add: ip_def)
  note O = open_addresses_ok [OF assms(1) this, of _ "- 1"]
  obtain a as where "w_resolve w ip (to_string_int port) hints = Some (a # as)" using assms(1) unfolding obliging_def by blast
  then show ?thesis using O [of "a # as"] by (simp add: CreateSocket_def Let_def flip: ip_def hints_def)
qed

lemma init_socket_ok:
  assumes "obliging w" and "ip \<noteq> []" and "atoi ip = Inr n"
  shows "\<exists>fd s t'. init_socket w ip iface port listening t = Inr (fd, s, t') \<and> 0 \<le> fd"
proof -
  let ?opts = "\<lparr>is_udp = True, is_blocking = False, is_listening = listening, so_ttl = 32, needs_so_timestamp = False\<rparr>"
  have "is_udp ?opts \<longrightarrow> ip \<noteq> [] \<and> (\<exists>n. atoi ip = Inr n)" using assms(2,3) by simp
  from CreateSocket_ok [OF assms(1) this, of iface port "snd (tcp_Destroy SMultiCastSocket_new t)"] show ?thesis
    by (auto simp: init_socket_def mcast_Init_def tcp_Destroy_def)
qed

lemma connect_socket_ok:
  assumes "obliging w"
  shows "\<exists>fd s' t'. connect_socket w ip iface port listening s t = Inr (fd, s', t') \<and> 0 \<le> fd"
proof -
  let ?opts = "\<lparr>is_udp = False, is_blocking = False, is_listening = listening, so_ttl = 0, needs_so_timestamp = True\<rparr>"
  have "is_udp ?opts \<longrightarrow> ip \<noteq> [] \<and> (\<exists>n. atoi ip = Inr n)" by simp
  from CreateSocket_ok [OF assms(1) this, of iface port "snd (tcp_Destroy s t)"] show ?thesis
    by (auto simp: connect_socket_def tcp_connect_def tcp_Destroy_def)
qed

text \<open>The descriptor that is returned is the socket's.\<close>

lemma init_socket_fd: "init_socket w ip iface port listening t = Inr (fd, s, t') \<Longrightarrow> m_fd s = fd"
  by (auto simp: init_socket_def mcast_Init_def bindE_eq_Inr Let_def split: prod.splits)

lemma connect_socket_fd: "connect_socket w ip iface port listening s t = Inr (fd, s', t') \<Longrightarrow> m_fd s' = fd"
  by (auto simp: connect_socket_def tcp_connect_def bindE_eq_Inr Let_def split: prod.splits)

section \<open>The two programs\<close>

definition up :: "'a component \<Rightarrow> bool" where
  "up c \<longleftrightarrow> is_running c \<and> has_thread c"

definition exchange_up :: "exchange \<Rightarrow> bool" where
  "exchange_up ex \<longleftrightarrow> (let pub = pMarketDataPublisher ex; srv = m_tcpServer ex in
     up (pMatchingEngine ex) \<and> up (pub_self pub) \<and> up (m_pSnapshotSynthesizer pub) \<and> up (pOrderServer ex)
     \<and> (comp (pMatchingEngine ex), comp (pub_self pub), comp (pOrderServer ex)) = exchange_main
     \<and> comp (m_pSnapshotSynthesizer pub) = CSnapshotSynthesizer_new (pub_snapshotMdUpdates (comp (pub_self pub)))
     \<and> 0 \<le> m_fd (m_incrementalSocket pub) \<and> 0 \<le> m_fd (m_snapshotSocket pub) \<and> 0 \<le> m_fd (tcp_sock srv (m_listenerSocket srv)) \<and> 0 \<le> m_efd srv
     \<and> server_ok srv)"

definition client_up :: "ClientId \<Rightarrow> EAlgoType \<Rightarrow> 'd client \<Rightarrow> bool" where
  "client_up c algo cl \<longleftrightarrow> up (pTradeEngine cl) \<and> up (pOrderGateway cl) \<and> up (pMarketDataConsumer cl)
     \<and> te_algo (comp (pTradeEngine cl)) = algo \<and> om_clientId (m_orderManager (comp (pTradeEngine cl))) = c \<and> og_clientId (comp (pOrderGateway cl)) = c
     \<and> m_nextExpSeqNum (comp (pOrderGateway cl)) = 1 \<and> \<not> m_isInRecovery (comp (pMarketDataConsumer cl)) \<and> m_nextExpIncSeqNum (comp (pMarketDataConsumer cl)) = 1
     \<and> 0 \<le> m_fd (m_tcpSocket (comp (pOrderGateway cl))) \<and> 0 \<le> m_fd (m_incrementalMcastSocket cl)"

lemmas open_defs = pub_open_def snap_open_def pub_Start_def snap_Start_def me_Start_def os_Start_def te_Start_def og_Start_def mdc_open_def mdc_Start_def

lemma srv_Listen_new:
  "srv_Listen efd fd added err iface port CTCPServer_new = Inr srv \<longleftrightarrow>
    0 \<le> efd \<and> 0 \<le> fd \<and> added \<and> srv = CTCPServer_new\<lparr>m_efd := efd, epoll_list := [0], tcp_sock := (\<lambda>_. CTCPSocket_new (- 1))(0 := CTCPSocket_new fd)\<rparr>"
  by (auto simp: srv_Listen_def srv_Destroy_def set_sock_def EPollAdd_def CTCPServer_new_def CTCPSocket_new_def Let_def ASSERT_def fun_eq_iff)

lemma listener_up:
  "srv_Listen efd fd added err iface port CTCPServer_new = Inr srv \<Longrightarrow>
    0 \<le> m_efd srv \<and> 0 \<le> m_fd (tcp_sock srv (m_listenerSocket srv)) \<and> server_ok srv"
  unfolding srv_Listen_new by (simp add: CTCPServer_new_def CTCPSocket_new_def server_ok_def)

lemma exchange_startup_up:
  assumes "exchange_startup w t = Inr (ex, t')"
  shows "exchange_up ex"
proof -
  obtain me pub os where m: "exchange_main = (me, pub, os)" by (cases exchange_main) auto
  have new: "CMarketDataPublisher_new (pub_pOutgoingMdUpdates pub) = pub" using m by (auto simp: exchange_main_def Let_def CMarketDataPublisher_new_def)
  show ?thesis using assms
    by (auto simp: exchange_startup_def m open_defs bindE_eq_Inr Let_def ASSERT_eq_Inr new exchange_up_def up_def idle_def
        dest!: start_thread_cases init_socket_fd listener_up)
qed

lemma multicast_address: "\<exists>n. atoi ''233.252.14.1'' = Inr n" "\<exists>n. atoi ''233.252.14.3'' = Inr n"
  by (simp_all add: atoi_def is_space_def is_digit_def digits_value_def signed_of_def)

lemma exchange_startup_ok:
  assumes "obliging w"
  shows "\<exists>ex t'. exchange_startup w t = Inr (ex, t')"
proof -
  obtain me pub os where m: "exchange_main = (me, pub, os)" by (cases exchange_main) auto
  obtain n1 n3 where n: "atoi ''233.252.14.1'' = Inr n1" "atoi ''233.252.14.3'' = Inr n3" using multicast_address by blast
  obtain fd1 inc t1 where 1: "init_socket w ''233.252.14.3'' ''lo'' 20001 False t = Inr (fd1, inc, t1)" "0 \<le> fd1"
    using init_socket_ok [OF assms _ n(2)] by blast
  obtain fd2 snap t2 where 2: "init_socket w ''233.252.14.1'' ''lo'' 20000 False t1 = Inr (fd2, snap, t2)" "0 \<le> fd2"
    using init_socket_ok [OF assms _ n(1)] by blast
  obtain fd3 s t3 where 3: "connect_socket w [] ''lo'' 12345 True (tcp_sock CTCPServer_new (m_listenerSocket CTCPServer_new)) t2 = Inr (fd3, s, t3)" "0 \<le> fd3"
    using connect_socket_ok [OF assms] by blast
  have e: "0 \<le> w_epoll_create w" "w_epoll_added w" using assms by (simp_all add: obliging_def)
  then obtain srv where "srv_Listen (w_epoll_create w) fd3 (w_epoll_added w) (w_error w) ''lo'' 12345 CTCPServer_new = Inr srv"
    using srv_Listen_new 3(2) by blast
  then show ?thesis by (simp add: exchange_startup_def m open_defs start_thread_ok [OF assms] 1 2 3 Let_def)
qed

lemma mdc_open_up:
  assumes "mdc_open w q iface ip port t = Inr (c, inc, t')"
  shows "0 \<le> m_fd inc \<and> c = idle (CMarketDataConsumer_new q)"
proof -
  obtain x where "init_socket w ip iface port True t = Inr x" "0 \<le> fst x" "fst (snd x) = inc" "c = idle (CMarketDataConsumer_new q)"
    using assms unfolding mdc_open_def by (auto simp: bindE_eq_Inr ASSERT_eq_Inr Let_def case_prod_beta)
  then show ?thesis using init_socket_fd [of w ip iface port True t "fst x" inc "snd (snd x)"] by (cases x) auto
qed

lemma trading_startup_up:
  assumes "trading_startup w F junk atof args t = Inr (cl, t')" and "trading_args F atof args = Inr (c, algo, cfg)"
  shows "client_up c algo cl"
  using assms
  by (auto simp: trading_startup_def trading_engine_def te_Start_def og_Start_def mdc_Start_def bindE_eq_Inr Let_def ASSERT_eq_Inr client_up_def up_def idle_def CTradeEngine_new_def
      COrderManager_new_def COrderGateway_new_def CMarketDataConsumer_new_def dest!: start_thread_cases mdc_open_up connect_socket_fd)

lemma trading_startup_ok:
  assumes "obliging w" and "trading_args F atof args = Inr (c, algo, cfg)"
  shows "\<exists>cl t'. trading_startup w F junk atof args t = Inr (cl, t')"
proof -
  obtain te where te: "trading_engine F junk atof args = Inr te" using assms(2) by (simp add: trading_engine_def)
  let ?og = "COrderGateway_new (om_clientId (m_orderManager te)) (om_requests (m_orderManager te)) (pIncomingOgwResponses te)"
  obtain fd1 s t1 where 1: "connect_socket w ''127.0.0.1'' ''lo'' 12345 False (m_tcpSocket ?og) t = Inr (fd1, s, t1)" "0 \<le> fd1"
    using connect_socket_ok [OF assms(1)] by blast
  obtain n3 where n: "atoi ''233.252.14.3'' = Inr n3" using multicast_address by blast
  obtain fd2 inc t2 where 2: "init_socket w ''233.252.14.3'' ''lo'' 20001 True t1 = Inr (fd2, inc, t2)" "0 \<le> fd2"
    using init_socket_ok [OF assms(1) _ n] by blast
  have "w_sys w p c \<noteq> - 1" for p c using assms(1) by (simp add: obliging_def)
  then have "mcast_Join (w_sys w) ''233.252.14.3'' ''lo'' 20001 inc t2 = (True, t2 @ [IP_ADD_MEMBERSHIP (m_fd inc) ''233.252.14.3''])"
    by (simp add: mcast_Join_def Join_def works_def call_def)
  then show ?thesis using 1 2 by (simp add: trading_startup_def te open_defs start_thread_ok [OF assms(1)] idle_def)
qed

text \<open>The waiting loops end with the first reading that satisfies them, and then every component has been told to stop.\<close>

lemma wait_for_silence_ends:
  "\<forall>(now, last_event)\<in>set early. \<exists>d. silentSeconds now last_event = Inr d \<and> d < 60 \<Longrightarrow> silentSeconds now last_event = Inr d \<Longrightarrow> 60 \<le> d
    \<Longrightarrow> wait_for_silence (early @ (now, last_event) # later) = Inr True"
  by (induction early) auto

lemma wait_for_queues_iff: "wait_for_queues sizes \<longleftrightarrow> (0, 0) \<in> set sizes"
  by (induction sizes rule: wait_for_queues.induct) auto

lemma trading_end_stops:
  "trading_end readings sizes cl = Inr cl' \<Longrightarrow>
    \<not> is_running (pTradeEngine cl') \<and> \<not> is_running (pOrderGateway cl') \<and> \<not> is_running (pMarketDataConsumer cl') \<and> (0, 0) \<in> set sizes"
  by (auto simp: trading_end_def te_Stop_def mdc_Stop_def og_Stop_def bindE_eq_Inr wait_for_queues_iff split: if_splits)

lemma exchange_shutdown_stops:
  "\<not> is_running (pMatchingEngine (exchange_shutdown ex)) \<and> \<not> is_running (pub_self (pMarketDataPublisher (exchange_shutdown ex)))
    \<and> \<not> is_running (m_pSnapshotSynthesizer (pMarketDataPublisher (exchange_shutdown ex))) \<and> \<not> is_running (pOrderServer (exchange_shutdown ex))"
  by (simp add: exchange_shutdown_def Let_def me_Stop_def pub_Stop_def snap_Stop_def os_Stop_def)

text \<open>C28: start-up is all or nothing.  Whatever the system calls answer and however the threads are scheduled, if the main program
  of the exchange gets to its waiting loop, all four threads have been started, all sockets are open, and the listener is registered; the same
  holds of a trading client's three threads and two sockets; and when the system calls succeed and the scheduler lets every new
  thread run, both programs get there.\<close>

theorem startup_all_or_nothing:
  assumes "trading_args F atof args = Inr (c, algo, cfg)"
  shows "(\<forall>ex t'. exchange_startup w t = Inr (ex, t') \<longrightarrow> exchange_up ex)
    \<and> (\<forall>cl t'. trading_startup w F junk atof args t = Inr (cl, t') \<longrightarrow> client_up c algo cl)
    \<and> (obliging w \<longrightarrow> (\<exists>ex t'. exchange_startup w t = Inr (ex, t')) \<and> (\<exists>cl t'. trading_startup w F junk atof args t = Inr (cl, t')))"
proof (intro conjI allI impI)
  show "exchange_up ex" if "exchange_startup w t = Inr (ex, t')" for ex t' by (rule exchange_startup_up [OF that])
  show "client_up c algo cl" if "trading_startup w F junk atof args t = Inr (cl, t')" for cl t' by (rule trading_startup_up [OF that assms])
  show "\<exists>ex t'. exchange_startup w t = Inr (ex, t')" if "obliging w" by (rule exchange_startup_ok [OF that])
  show "\<exists>cl t'. trading_startup w F junk atof args t = Inr (cl, t')" if "obliging w" by (rule trading_startup_ok [OF that assms])
qed

definition ex_world :: world where
  "ex_world = \<lparr>w_sys = ex_kernel 0, w_would_block = (\<lambda>_. False), w_ifaddrs = Some [(''lo'', Some ''127.0.0.1'')],
     w_resolve = (\<lambda>host _ hints. Some [\<lparr>ai_family = 2, ai_socktype = hint_socktype hints, ai_protocol = hint_protocol hints, ai_addr = host\<rparr>]),
     w_epoll_create = 4, w_epoll_added = True, w_error = [], w_sched = (\<lambda>_. Starter # replicate 3 Body @ replicate 5 Starter)\<rparr>"

theorem startup_all_or_nothing_witness:
  "\<exists>ex t1 cl t2. exchange_startup ex_world [] = Inr (ex, t1) \<and> exchange_up ex
    \<and> trading_startup ex_world exact_fp (\<lambda>_ _. None) (\<lambda>_. None) (ex_random_args 3) [] = Inr (cl, t2) \<and> client_up 3 RANDOM cl"
proof -
  have "fair_start (Starter # replicate 3 Body @ replicate 5 Starter)"
    unfolding fair_start_def by (rule exI [of _ "[Starter]"], rule exI [of _ "replicate 3 Body"], rule exI [of _ "replicate 5 Starter"]) (simp add: numeral_eq_Suc)
  then have "obliging ex_world" by (auto simp: obliging_def ex_world_def ex_kernel_def split: syscall.splits)
  moreover have "trading_args exact_fp (\<lambda>_. None) (ex_random_args 3) = Inr (3, RANDOM, \<lambda>_. ETradeEngineCfg_default exact_fp)"
    by (rule ex_random_args) (simp add: bounds_defs)
  ultimately show ?thesis
    using startup_all_or_nothing [of exact_fp "\<lambda>_. None" "ex_random_args 3" 3 RANDOM _ ex_world "[]" "\<lambda>_ _. None"] by metis
qed

end
