(* ===== verification/HashBenchmark.thy ===== *)
theory HashBenchmark
  imports UnorderedProperties MainFacts
begin

text \<open>
  \<open>benchmarks/HashBenchmark.cpp\<close>: the program that drives the book with arrays and the book with unordered maps with the
  same random requests.  The function template \<open>benchmarkHashMap\<close> works on every book with the interface \<open>order_book\<close>, whose
  contract both books keep.
\<close>

section \<open>The program\<close>

definition loop_count :: nat where "loop_count = 100000"

text \<open>A book with the engine that it reports to: a method of the book, and the calls it makes.\<close>

definition array_call :: "(CMEOrderBook \<Rightarrow> CMEOrderBook outcome) \<Rightarrow> CMEOrderBook \<times> CMatchingEngine \<Rightarrow> (CMEOrderBook \<times> CMatchingEngine) outcome" where
  "array_call f = (\<lambda>(b, me). bindE (f b) (\<lambda>b'. Inr (b'\<lparr>sent := []\<rparr>, perform (sent b') me)))"

definition map_call :: "(CUnorderedMapMEOrderBook \<Rightarrow> CUnorderedMapMEOrderBook outcome) \<Rightarrow> CUnorderedMapMEOrderBook \<times> CMatchingEngine
    \<Rightarrow> (CUnorderedMapMEOrderBook \<times> CMatchingEngine) outcome" where
  "map_call f = (\<lambda>(u, me). bindE (f u) (\<lambda>u'. Inr (u'\<lparr>um_sent := []\<rparr>, perform (um_sent u') me)))"

type_synonym 'b add_method = "ClientId \<Rightarrow> OrderId \<Rightarrow> TickerId \<Rightarrow> ESide \<Rightarrow> Price \<Rightarrow> Qty \<Rightarrow> 'b \<Rightarrow> 'b outcome"
type_synonym 'b cancel_method = "ClientId \<Rightarrow> OrderId \<Rightarrow> TickerId \<Rightarrow> 'b \<Rightarrow> 'b outcome"

definition array_add :: "(CMEOrderBook \<times> CMatchingEngine) add_method" where
  "array_add c oid t side price qty = array_call (me_AddOrder c oid t side price qty)"

definition array_cancel :: "(CMEOrderBook \<times> CMatchingEngine) cancel_method" where
  "array_cancel c oid t = array_call (me_CancelOrder c oid t)"

definition map_add :: "(CUnorderedMapMEOrderBook \<times> CMatchingEngine) add_method" where
  "map_add c oid t side price qty = map_call (um_AddOrder c oid t side price qty)"

definition map_cancel :: "(CUnorderedMapMEOrderBook \<times> CMatchingEngine) cancel_method" where
  "map_cancel c oid t = map_call (um_CancelOrder c oid t)"

text \<open>\<open>rdtsc k\<close> is the cycle counter when it is read for the \<open>k\<close>-th time.  A switch without a case for a type does nothing.\<close>

definition bench_step :: "'b add_method \<Rightarrow> 'b cancel_method \<Rightarrow> (nat \<Rightarrow> 64 word) \<Rightarrow> SMEClientRequest \<Rightarrow> 64 word \<times> nat \<times> 'b
    \<Rightarrow> (64 word \<times> nat \<times> 'b) outcome" where
  "bench_step add cancel rdtsc r = (\<lambda>(total_rdtsc, k, b).
     case req_type r of
       Req_NEW \<Rightarrow> bindE (add (req_clientId r) (req_orderId r) (req_tickerId r) (req_side r) (req_price r) (req_qty r) b) (\<lambda>b'.
         Inr (total_rdtsc + (rdtsc (k + 1) - rdtsc k), k + 2, b'))
     | Req_CANCEL \<Rightarrow> bindE (cancel (req_clientId r) (req_orderId r) (req_tickerId r) b) (\<lambda>b'.
         Inr (total_rdtsc + (rdtsc (k + 1) - rdtsc k), k + 2, b'))
     | _ \<Rightarrow> Inr (total_rdtsc, k, b))"

fun bench_loop :: "'b add_method \<Rightarrow> 'b cancel_method \<Rightarrow> (nat \<Rightarrow> 64 word) \<Rightarrow> SMEClientRequest list \<Rightarrow> nat \<Rightarrow> nat \<Rightarrow> 64 word \<times> nat \<times> 'b
    \<Rightarrow> (64 word \<times> nat \<times> 'b) outcome" where
  "bench_loop add cancel rdtsc client_requests i 0 s = Inr s"
| "bench_loop add cancel rdtsc client_requests i (Suc n) s =
     (if i < length client_requests
      then bindE (bench_step add cancel rdtsc (client_requests ! i) s) (bench_loop add cancel rdtsc client_requests (i + 1) n)
      else Inl OutOfBounds)"

definition benchmarkHashMap :: "'b add_method \<Rightarrow> 'b cancel_method \<Rightarrow> (nat \<Rightarrow> 64 word) \<Rightarrow> SMEClientRequest list \<Rightarrow> nat \<times> 'b
    \<Rightarrow> (64 word \<times> nat \<times> 'b) outcome" where
  "benchmarkHashMap add cancel rdtsc client_requests = (\<lambda>(k, b).
     bindE (bench_loop add cancel rdtsc client_requests 0 loop_count (0, k, b)) (\<lambda>(total_rdtsc, k', b').
     Inr (total_rdtsc div of_nat (loop_count * 2), k', b')))"

text \<open>The requests: a new order and the cancel of a request drawn from all requests so far, cancels included.\<close>

function bench_requests :: "('g \<Rightarrow> nat \<times> 'g) \<Rightarrow> Price \<Rightarrow> OrderId \<Rightarrow> SMEClientRequest list \<Rightarrow> 'g \<Rightarrow> SMEClientRequest list \<times> 'g" where
  "bench_requests rand base_price order_id vec g0 =
     (if length vec < loop_count
      then let (dp, g1) = draw rand 10 g0;
               (dq, g2) = draw rand 100 g1;
               (b, g3) = draw rand 2 g2;
               new_request = \<lparr>req_type = Req_NEW, req_clientId = 0, req_tickerId = 0, req_orderId = order_id,
                 req_side = (if b \<noteq> 0 then BUY else SELL), req_price = base_price + of_nat dp + 1, req_qty = 1 + of_nat dq + 1\<rparr>;
               vec1 = vec @ [new_request];
               (cxl_index, g4) = draw rand (length vec1) g3;
               cxl_request = (vec1 ! cxl_index)\<lparr>req_type := Req_CANCEL\<rparr>
           in bench_requests rand base_price (order_id + 1) (vec1 @ [cxl_request]) g4
      else (vec, g0))"
  by pat_completeness auto
termination by (relation "measure (\<lambda>(rand, base, oid, vec, g). loop_count - length vec)") auto

declare bench_requests.simps [simp del]

definition benchmark_engine :: CMatchingEngine where
  "benchmark_engine = CMatchingEngine_new (CLockFreeQueue_new ME_MAX_CLIENT_UPDATES SMEClientRequest_default)
     (CLockFreeQueue_new ME_MAX_CLIENT_UPDATES SMEClientResponse_default) (CLockFreeQueue_new ME_MAX_MARKET_UPDATES SMEMarketUpdate_default)"

text \<open>What \<open>main\<close> prints, the two numbers of cycles, with the books and the engine it leaves.\<close>

definition hash_benchmark :: "('g \<Rightarrow> nat \<times> 'g) \<Rightarrow> 'g \<Rightarrow> (nat \<Rightarrow> 64 word)
    \<Rightarrow> ((64 word \<times> CMEOrderBook) \<times> (64 word \<times> CUnorderedMapMEOrderBook) \<times> CMatchingEngine) outcome" where
  "hash_benchmark rand g0 rdtsc =
     (let (v, g1) = draw rand 100 g0;
          base_price = of_nat v + 100;
          (client_requests_vec, g2) = bench_requests rand base_price 1000 [] g1
      in bindE (benchmarkHashMap array_add array_cancel rdtsc client_requests_vec (0, CMEOrderBook_new 0, benchmark_engine))
           (\<lambda>(cycles1, k, b1, me1).
         bindE (benchmarkHashMap map_add map_cancel rdtsc client_requests_vec (k, CUnorderedMapMEOrderBook_new 0, me1))
           (\<lambda>(cycles2, k', b2, me2). Inr ((cycles1, b1), (cycles2, b2), me2))))"

section \<open>What the benchmark asks of a book\<close>

text \<open>\<open>fresh\<close>: nothing has been done to the book yet; \<open>known\<close>: the book can look client 0 up.\<close>

definition agrees :: "('b \<Rightarrow> abook \<Rightarrow> bool) \<Rightarrow> ('b \<Rightarrow> OrderId) \<Rightarrow> abook \<times> engine_call list \<Rightarrow> OrderId \<Rightarrow> 'b \<times> CMatchingEngine \<Rightarrow> CMatchingEngine \<Rightarrow> bool" where
  "agrees repr next_id res m = (\<lambda>(b, me') me. repr b (fst res) \<and> next_id b = m \<and> me' = perform (snd res) me)"

text \<open>The calls that the contract answers a list of requests with.\<close>

fun spec_calls :: "SMEClientRequest list \<Rightarrow> spec_engine \<Rightarrow> engine_call list" where
  "spec_calls [] sp = []"
| "spec_calls (r # rs) sp = snd (spec_result r sp) @ spec_calls rs (spec_request r sp)"

definition bench_request :: "SMEClientRequest \<Rightarrow> bool" where
  "bench_request r \<longleftrightarrow> sane_request 101 r \<and> req_clientId r = 0 \<and> req_tickerId r = 0 \<and> (req_type r = Req_NEW \<longrightarrow> req_qty r \<noteq> 0)"

lemma perform_append: "perform (cs @ ds) me = perform ds (perform cs me)"
  by (induction cs me rule: perform.induct) simp_all

lemma spec_request_sel:
  "sp_books (spec_request r sp) (req_tickerId r) = fst (spec_result r sp)"
  "sp_next (spec_request r sp) (req_tickerId r) = (if req_type r = Req_NEW then sp_next sp (req_tickerId r) + 1 else sp_next sp (req_tickerId r))"
  by (simp_all add: spec_request_def Let_def split: prod.split)

locale order_book =
  fixes add :: "('b \<times> CMatchingEngine) add_method" and cancel :: "('b \<times> CMatchingEngine) cancel_method"
    and repr :: "'b \<Rightarrow> abook \<Rightarrow> bool" and next_id :: "'b \<Rightarrow> OrderId" and fresh :: "'b \<Rightarrow> bool" and known :: "'b \<Rightarrow> bool"
  assumes add_law: "repr b B \<Longrightarrow> fresh b \<or> known b \<Longrightarrow> side \<in> sides \<Longrightarrow> id_in_range c oid \<Longrightarrow> (c, oid) \<notin> client_key ` live_orders B
      \<Longrightarrow> table_distinguishes price B \<Longrightarrow> has_room B \<Longrightarrow> qty \<noteq> 0
      \<Longrightarrow> \<exists>x. add c oid t side price qty (b, me) = Inr x \<and> known (fst x)
            \<and> agrees repr next_id (spec_AddOrder c oid t side price qty (next_id b) B) (next_id b + 1) x me"
    and cancel_law: "repr b B \<Longrightarrow> known b \<Longrightarrow> id_in_range 0 oid
      \<Longrightarrow> \<exists>x. cancel 0 oid t (b, me) = Inr x \<and> known (fst x) \<and> agrees repr next_id (spec_CancelOrder 0 oid t B) (next_id b) x me"
begin

text \<open>A book that represents the contract's book of ticker 0.\<close>

definition tracks :: "spec_engine \<Rightarrow> 'b \<Rightarrow> bool" where
  "tracks sp b \<longleftrightarrow> repr b (sp_books sp 0) \<and> next_id b = sp_next sp 0"

lemma step_ok:
  assumes a: "tracks sp b" and r: "bench_request r" and fits: "request_fits r sp" and k: "known b \<or> fresh b \<and> req_type r = Req_NEW"
  shows "\<exists>tot' k' b'. bench_step add cancel rdtsc r (tot, k, b, me) = Inr (tot', k', b', perform (snd (spec_result r sp)) me)
    \<and> known b' \<and> tracks (spec_request r sp) b'"
proof -
  have r0: "req_clientId r = 0" "req_tickerId r = 0" and ty: "req_type r = Req_NEW \<or> req_type r = Req_CANCEL"
    and id: "id_in_range 0 (req_orderId r)"
    using r by (auto simp: bench_request_def sane_request_def)
  note S = spec_request_sel [of r sp, unfolded r0(2)]
  from ty show ?thesis
  proof
    assume n: "req_type r = Req_NEW"
    let ?res = "spec_AddOrder 0 (req_orderId r) 0 (req_side r) (req_price r) (req_qty r) (next_id b) (sp_books sp 0)"
    have "\<exists>x. add 0 (req_orderId r) 0 (req_side r) (req_price r) (req_qty r) (b, me) = Inr x \<and> known (fst x)
        \<and> agrees repr next_id ?res (next_id b + 1) x me"
      using a k id r fits n by (intro add_law) (auto simp: tracks_def request_fits_def r0 bench_request_def Let_def)
    moreover have "spec_result r sp = ?res" using n a by (simp add: spec_result_def r0 tracks_def Let_def)
    ultimately show ?thesis using n a S by (auto simp: bench_step_def r0 tracks_def agrees_def)
  next
    assume n: "req_type r = Req_CANCEL"
    let ?res = "spec_CancelOrder 0 (req_orderId r) 0 (sp_books sp 0)"
    have "\<exists>x. cancel 0 (req_orderId r) 0 (b, me) = Inr x \<and> known (fst x) \<and> agrees repr next_id ?res (next_id b) x me"
      using a k id n by (intro cancel_law) (auto simp: tracks_def)
    moreover have "spec_result r sp = ?res" using n by (simp add: spec_result_def r0 Let_def)
    ultimately show ?thesis using n a S by (auto simp: bench_step_def r0 tracks_def agrees_def)
  qed
qed

text \<open>A list of requests, within the tables and with new ids, is carried out as the contract says.\<close>

lemma requests_ok:
  "tracks sp b \<Longrightarrow> \<forall>r\<in>set rs. bench_request r \<Longrightarrow> known b \<or> fresh b \<and> (rs \<noteq> [] \<longrightarrow> req_type (hd rs) = Req_NEW)
    \<Longrightarrow> engine_bounded 101 K n sp \<Longrightarrow> distinct (new_keys rs) \<Longrightarrow> set (new_keys rs) \<inter> K = {} \<Longrightarrow> 3 * (n + length rs) < ME_MAX_ORDER_IDS
    \<Longrightarrow> \<exists>tot' k' b'. foldE (bench_step add cancel rdtsc) rs (tot, k, b, me) = Inr (tot', k', b', perform (spec_calls rs sp) me)
      \<and> tracks (fold spec_request rs sp) b'"
proof (induction rs arbitrary: sp b K n tot k me)
  case (Cons r rs)
  let ?K = "if req_type r = Req_NEW then insert (request_key r) K else K"
  have r: "bench_request r" "sane_request 101 r" using Cons.prems(2) by (simp_all add: bench_request_def)
  have key: "req_type r = Req_NEW \<longrightarrow> request_key r \<notin> K" using Cons.prems(6) by (auto simp: new_keys_def)
  have lim: "3 * Suc n < ME_MAX_ORDER_IDS" using Cons.prems(7) by simp
  note F = request_fits_bounded [OF Cons.prems(4) r(2) key lim]
  obtain tot1 k1 b1 where 1: "bench_step add cancel rdtsc r (tot, k, b, me) = Inr (tot1, k1, b1, perform (snd (spec_result r sp)) me)"
    "known b1" "tracks (spec_request r sp) b1"
    using step_ok [OF Cons.prems(1) r(1) F(1)] Cons.prems(3) by fastforce
  have nk: "new_keys (r # rs) = (if req_type r = Req_NEW then request_key r # new_keys rs else new_keys rs)" by (simp add: new_keys_def)
  have "distinct (new_keys rs)" "set (new_keys rs) \<inter> ?K = {}"
    using Cons.prems(5,6) unfolding nk by (cases "req_type r = Req_NEW"; simp)+
  moreover have "\<forall>r\<in>set rs. bench_request r" "3 * (Suc n + length rs) < ME_MAX_ORDER_IDS" using Cons.prems(2,7) by simp_all
  ultimately show ?case
    using Cons.IH [OF 1(3) _ _ F(2), of tot1 k1 "perform (snd (spec_result r sp)) me"] 1(1,2) by (simp add: perform_append)
qed simp

end

section \<open>Both books keep the contract\<close>

definition array_repr :: "CMEOrderBook \<Rightarrow> abook \<Rightarrow> bool" where
  "array_repr b B \<longleftrightarrow> me_repr b B \<and> sent b = []"

interpretation array_book: order_book array_add array_cancel array_repr m_nextMarketOrderId "\<lambda>_. True" "\<lambda>_. True"
proof unfold_locales
  fix b B side c oid price and qty :: Qty and t me
  assume a: "array_repr b B" "side \<in> sides" "id_in_range c oid" "(c, oid) \<notin> client_key ` live_orders B" "table_distinguishes price B" "has_room B"
  let ?res = "spec_AddOrder c oid t side price qty (m_nextMarketOrderId b) B"
  have "me_repr b B" "sent b = []" using a(1) by (simp_all add: array_repr_def)
  then obtain b' where b: "me_AddOrder c oid t side price qty b = Inr b'" "me_repr b' (fst ?res)" "sent b' = snd ?res"
    "m_nextMarketOrderId b' = m_nextMarketOrderId b + 1"
    using me_repr_AddOrder [OF _ a(2-6) prod.collapse [symmetric], of b t qty] by auto
  then show "\<exists>x. array_add c oid t side price qty (b, me) = Inr x \<and> True \<and> agrees array_repr m_nextMarketOrderId ?res (m_nextMarketOrderId b + 1) x me"
    by (simp add: array_add_def array_call_def agrees_def array_repr_def)
next
  fix b B oid t me
  assume a: "array_repr b B" "id_in_range 0 oid"
  let ?res = "spec_CancelOrder 0 oid t B"
  have "me_repr b B" "sent b = []" using a(1) by (simp_all add: array_repr_def)
  then obtain b' where b: "me_CancelOrder 0 oid t b = Inr b'" "me_repr b' (fst ?res)" "sent b' = snd ?res" "m_nextMarketOrderId b' = m_nextMarketOrderId b"
    using me_repr_CancelOrder [OF _ _ prod.collapse [symmetric], of b B 0 oid t] a(2) by (auto simp: id_in_range_def)
  then show "\<exists>x. array_cancel 0 oid t (b, me) = Inr x \<and> True \<and> agrees array_repr m_nextMarketOrderId ?res (m_nextMarketOrderId b) x me"
    by (simp add: array_cancel_def array_call_def agrees_def array_repr_def)
qed

text \<open>The book with maps knows a client when it has a row for it; rows are never removed.\<close>

definition has_rows :: "CUnorderedMapMEOrderBook \<Rightarrow> bool" where
  "has_rows u \<longleftrightarrow> um_cidOidToOrder u \<noteq> []"

definition map_fresh :: "CUnorderedMapMEOrderBook \<Rightarrow> bool" where
  "map_fresh u \<longleftrightarrow> m_pAsksByPrice (um_core u) = None \<and> m_pBidsByPrice (um_core u) = None"

definition map_repr :: "CUnorderedMapMEOrderBook \<Rightarrow> abook \<Rightarrow> bool" where
  "map_repr u B \<longleftrightarrow> me_repr (as_array u) B \<and> um_sent u = []"

lemma has_rows_simps [simp]:
  "has_rows (um_set c oid x u)" "has_rows (um_SendCall e u) = has_rows u" "has_rows (u\<lparr>um_core := cc\<rparr>) = has_rows u"
  "has_rows (u\<lparr>um_nextMarketOrderId := m\<rparr>) = has_rows u" "has_rows (u\<lparr>um_sent := es\<rparr>) = has_rows u"
  by (auto simp: has_rows_def um_set_def touch_row_def um_SendCall_def)

lemma um_with_core_has_rows: "um_with_core f u = Inr u' \<Longrightarrow> has_rows u' = has_rows u"
  by (auto simp: um_with_core_def bindE_eq_Inr)

lemma um_RemoveOrder_has_rows: "um_RemoveOrder p u = Inr u' \<Longrightarrow> has_rows u'"
  by (auto simp: um_RemoveOrder_def bindE_eq_Inr dest: um_with_core_has_rows)

lemma um_AddOrder_node_has_rows: "um_AddOrder_node p u = Inr u' \<Longrightarrow> has_rows u'"
  by (auto simp: um_AddOrder_node_def bindE_eq_Inr)

lemma um_Match_has_rows: "um_Match t c sd coid moid p l u = Inr (l', u') \<Longrightarrow> has_rows u \<Longrightarrow> has_rows u'"
  by (auto simp: um_Match_def bindE_eq_Inr Let_def split: if_splits dest!: um_with_core_has_rows um_RemoveOrder_has_rows)

lemma um_match_loop_has_rows:
  "um_match_loop n c coid t sd price moid l u = Inr (l', u') \<Longrightarrow> has_rows u \<Longrightarrow> has_rows u'"
proof (induction n arbitrary: l u)
  case 0
  then show ?case by (subst (asm) um_match_loop.simps) (auto simp: bindE_eq_Inr split: if_splits)
next
  case (Suc n)
  then show ?case by (subst (asm) um_match_loop.simps) (fastforce simp: bindE_eq_Inr split: if_splits dest: um_Match_has_rows)
qed

lemma um_CheckForMatch_has_rows:
  "um_CheckForMatch c coid t sd price q moid u = Inr (l', u') \<Longrightarrow> has_rows u \<Longrightarrow> has_rows u'"
  by (auto simp: um_CheckForMatch_def split: if_splits dest: um_match_loop_has_rows)

lemma um_CheckForMatch_fresh: "map_fresh u \<Longrightarrow> um_CheckForMatch c coid t sd price q moid u = Inr (q, u)"
  by (simp add: um_CheckForMatch_def um_match_loop.simps um_opposite_top_def map_fresh_def)

lemma um_AddOrder_has_rows:
  assumes "um_AddOrder c coid t sd price q u = Inr u'" and "map_fresh u \<and> q \<noteq> 0 \<or> has_rows u"
  shows "has_rows u'"
proof -
  define v where "v = um_SendCall (SendClientResponse \<lparr>resp_type = ACCEPTED, resp_clientId = c, resp_tickerId = t,
                 resp_clientOrderId = coid, resp_marketOrderId = um_nextMarketOrderId u, resp_side = sd,
                 resp_price = price, resp_execQty = 0, resp_leavesQty = q\<rparr>) (u\<lparr>um_nextMarketOrderId := um_nextMarketOrderId u + 1\<rparr>)"
  have fv: "map_fresh v = map_fresh u" "has_rows v = has_rows u"
    unfolding v_def has_rows_simps by (simp_all add: map_fresh_def um_SendCall_def)
  obtain l w where m: "um_CheckForMatch c coid t sd price q (ucast (um_nextMarketOrderId u)) v = Inr (l, w)"
    and rest: "if l \<noteq> 0 then has_rows u' else u' = w"
    using assms(1) by (fastforce simp: um_AddOrder_def um_GenerateNewMarketOrderId_def bindE_eq_Inr Let_def v_def [symmetric]
        split: if_splits dest: um_AddOrder_node_has_rows)
  show ?thesis
  proof (cases "has_rows u")
    case True
    then show ?thesis using rest um_CheckForMatch_has_rows [OF m] fv by (auto split: if_splits)
  next
    case False
    then show ?thesis using assms(2) rest m um_CheckForMatch_fresh [of v] fv by auto
  qed
qed

lemma um_CancelOrder_has_rows: "um_CancelOrder c oid t u = Inr u' \<Longrightarrow> has_rows u \<Longrightarrow> has_rows u'"
  by (auto simp: um_CancelOrder_def Let_def bindE_eq_Inr has_rows_def touch_row_def um_SendCall_def split: if_splits
      dest!: um_RemoveOrder_has_rows)

lemma as_array_sent: "sent (as_array u) = um_sent u" and as_array_clear: "as_array (u\<lparr>um_sent := es\<rparr>) = (as_array u)\<lparr>sent := es\<rparr>"
  by (simp_all add: as_array_def)

interpretation map_book: order_book map_add map_cancel map_repr um_nextMarketOrderId map_fresh has_rows
proof unfold_locales
  fix u B side c oid price and qty :: Qty and t me
  assume a: "map_repr u B" "map_fresh u \<or> has_rows u" "side \<in> sides" "id_in_range c oid" "(c, oid) \<notin> client_key ` live_orders B"
    "table_distinguishes price B" "has_room B" "qty \<noteq> 0"
  let ?res = "spec_AddOrder c oid t side price qty (um_nextMarketOrderId u) B"
  obtain b' where b: "me_AddOrder c oid t side price qty (as_array u) = Inr b'" "me_repr b' (fst ?res)" "sent b' = snd ?res"
    "m_nextMarketOrderId b' = um_nextMarketOrderId u + 1"
    using me_repr_AddOrder [OF _ a(3-7) prod.collapse [symmetric], of "as_array u" t qty] a(1) by (auto simp: map_repr_def as_array_sent)
  then obtain u' where u: "um_AddOrder c oid t side price qty u = Inr u'" "as_array u' = b'"
    using um_AddOrder_sim [of c oid t side price qty u] unfolding simulates_def by blast
  have "um_sent u' = snd ?res" "um_nextMarketOrderId u' = um_nextMarketOrderId u + 1" using b(3,4) u(2) as_array_sent by auto
  then show "\<exists>x. map_add c oid t side price qty (u, me) = Inr x \<and> has_rows (fst x) \<and> agrees map_repr um_nextMarketOrderId ?res (um_nextMarketOrderId u + 1) x me"
    using u b(2) um_AddOrder_has_rows [OF u(1)] a(2,8) by (auto simp: map_add_def map_call_def agrees_def map_repr_def as_array_clear)
next
  fix u B oid t me
  assume a: "map_repr u B" "has_rows u" "id_in_range 0 oid"
  let ?res = "spec_CancelOrder 0 oid t B"
  obtain b' where b: "me_CancelOrder 0 oid t (as_array u) = Inr b'" "me_repr b' (fst ?res)" "sent b' = snd ?res"
    "m_nextMarketOrderId b' = um_nextMarketOrderId u"
    using me_repr_CancelOrder [OF _ _ prod.collapse [symmetric], of "as_array u" B 0 oid t] a(1,3) by (auto simp: map_repr_def as_array_sent id_in_range_def)
  have "unat (0 :: ClientId) < length (um_cidOidToOrder u)" "unat (0 :: ClientId) < ME_MAX_NUM_CLIENTS" using a(2) by (simp_all add: has_rows_def bounds_defs)
  then obtain u' where u: "um_CancelOrder 0 oid t u = Inr u'" "as_array u' = b'"
    using um_CancelOrder_sim [of 0 u oid t] b(1) unfolding simulates_def by blast
  have "um_sent u' = snd ?res" "um_nextMarketOrderId u' = um_nextMarketOrderId u" using b(3,4) u(2) as_array_sent by auto
  then show "\<exists>x. map_cancel 0 oid t (u, me) = Inr x \<and> has_rows (fst x) \<and> agrees map_repr um_nextMarketOrderId ?res (um_nextMarketOrderId u) x me"
    using u b(2) um_CancelOrder_has_rows [OF u(1) a(2)] by (auto simp: map_cancel_def map_call_def agrees_def map_repr_def as_array_clear)
qed

section \<open>The requests\<close>

definition bench_vec :: "SMEClientRequest list \<Rightarrow> bool" where
  "bench_vec vec \<longleftrightarrow> (\<forall>r\<in>set vec. bench_request r) \<and> even (length vec)
     \<and> new_keys vec = map (\<lambda>j. (0, 1000 + of_nat j)) [0..<length vec div 2] \<and> (vec \<noteq> [] \<longrightarrow> req_type (hd vec) = Req_NEW)"

lemma bench_vec_round:
  assumes vec: "bench_vec vec" and len: "length vec < loop_count"
    and new: "bench_request new" "req_type new = Req_NEW" "req_orderId new = 1000 + of_nat (length vec div 2)"
    and i: "i < length (vec @ [new])"
  shows "bench_vec (vec @ [new] @ [((vec @ [new]) ! i)\<lparr>req_type := Req_CANCEL\<rparr>])"
proof -
  have "bench_request ((vec @ [new]) ! i)"
    using nth_mem [OF i] vec new(1) unfolding bench_vec_def by (auto simp del: nth_mem)
  then have cxl: "bench_request (((vec @ [new]) ! i)\<lparr>req_type := Req_CANCEL\<rparr>)" by (auto simp: bench_request_def sane_request_def)
  have "new_keys (vec @ [new] @ [((vec @ [new]) ! i)\<lparr>req_type := Req_CANCEL\<rparr>]) = new_keys vec @ [(0, req_orderId new)]"
    using new(1,2) by (simp add: new_keys_def request_key_def bench_request_def)
  also have "\<dots> = map (\<lambda>j. (0, 1000 + of_nat j)) [0..<Suc (length vec div 2)]" using vec new(3) by (simp add: bench_vec_def)
  finally show ?thesis using vec new(1,2) cxl by (cases vec) (auto simp: bench_vec_def)
qed

lemma bench_order_id: "k < loop_count \<Longrightarrow> unat (1000 + of_nat k :: OrderId) = 1000 + k"
  by (simp add: unat_word_ariths unat_of_nat loop_count_def)

lemma bench_price:
  assumes "v < 100" and "d < 10"
  shows "in_band 101 (of_nat v + 100 + of_nat d + 1)"
proof -
  have "of_nat v + 100 + of_nat d + 1 = (of_nat (v + 100 + d + 1) :: Price)" by simp
  moreover have "sint (of_nat (v + 100 + d + 1) :: Price) = int (v + 100 + d + 1)" using assms by (intro sint_of_nat_small) simp
  ultimately show ?thesis using assms unfolding in_band_def by simp
qed

lemma bench_requests_ok:
  "bench_vec vec \<Longrightarrow> length vec \<le> loop_count \<Longrightarrow> order_id = 1000 + of_nat (length vec div 2) \<Longrightarrow> base_price = of_nat v + 100 \<Longrightarrow> v < 100
    \<Longrightarrow> bench_requests rand base_price order_id vec g = (rs, g') \<Longrightarrow> bench_vec rs \<and> length rs = loop_count"
proof (induction rand base_price order_id vec g rule: bench_requests.induct)
  case (1 rand base_price order_id vec g0)
  show ?case
  proof (cases "length vec < loop_count")
    case False
    then have "bench_requests rand base_price order_id vec g0 = (vec, g0)" by (simp add: bench_requests.simps)
    then show ?thesis using "1.prems"(1,2,6) False by simp
  next
    case True
    obtain dp g1 where d1: "draw rand 10 g0 = (dp, g1)" by fastforce
    obtain dq g2 where d2: "draw rand 100 g1 = (dq, g2)" by fastforce
    obtain b g3 where d3: "draw rand 2 g2 = (b, g3)" by fastforce
    define new where "new = \<lparr>req_type = Req_NEW, req_clientId = 0, req_tickerId = 0, req_orderId = order_id,
      req_side = (if b \<noteq> 0 then BUY else SELL), req_price = base_price + of_nat dp + 1, req_qty = 1 + of_nat dq + 1\<rparr>"
    obtain i g4 where d4: "draw rand (length (vec @ [new])) g3 = (i, g4)" by fastforce
    let ?cxl = "((vec @ [new]) ! i)\<lparr>req_type := Req_CANCEL\<rparr>"
    have dp: "dp < 10" "dq < 100" and i: "i < length (vec @ [new])" using draw_lt [OF _ d1] draw_lt [OF _ d2] draw_lt [OF _ d4] by simp_all
    have "unat order_id < ME_MAX_ORDER_IDS" using bench_order_id [of "length vec div 2"] True "1.prems"(3) by (simp add: loop_count_def bounds_defs)
    moreover have "(1 + of_nat dq + 1 :: Qty) \<noteq> 0"
    proof -
      have "(1 + of_nat dq + 1 :: Qty) = of_nat (dq + 2)" by simp
      moreover have "unat (of_nat (dq + 2) :: Qty) = dq + 2" using dp(2) by (simp add: unat_of_nat del: of_nat_add of_nat_Suc)
      ultimately show ?thesis by (metis add_2_eq_Suc' nat.distinct(1) unat_0)
    qed
    ultimately have new: "bench_request new" "req_type new = Req_NEW" "req_orderId new = 1000 + of_nat (length vec div 2)"
      using bench_price [OF "1.prems"(5) dp(1)] "1.prems"(3,4)
      by (simp_all add: new_def bench_request_def sane_request_def id_in_range_def sides_def bounds_defs)
    note V = bench_vec_round [OF "1.prems"(1) True new i]
    have l: "Suc (Suc (length vec)) \<le> loop_count" using True "1.prems"(1) by (auto simp: bench_vec_def loop_count_def elim!: evenE)
    have "bench_requests rand base_price order_id vec g0 = bench_requests rand base_price (order_id + 1) ((vec @ [new]) @ [?cxl]) g4"
      using d4 unfolding bench_requests.simps [of rand base_price order_id vec g0] Let_def d1 d2 d3 prod.case new_def [symmetric] if_P [OF True] by simp
    then have eq: "bench_requests rand base_price (order_id + 1) ((vec @ [new]) @ [?cxl]) g4 = (rs, g')" using "1.prems"(6) by simp
    show ?thesis
      by (rule "1.IH" [OF True d1 [symmetric] refl d2 [symmetric] refl d3 [symmetric] refl new_def refl d4 [symmetric] refl refl _ _ _ "1.prems"(4,5) eq])
        (use V l "1.prems"(3) in simp_all)
  qed
qed

lemma bench_vec_distinct:
  assumes "bench_vec rs" and "length rs = loop_count"
  shows "distinct (new_keys rs)"
proof -
  have "inj_on (\<lambda>j. (0 :: ClientId, 1000 + of_nat j :: OrderId)) (set [0..<length rs div 2])"
  proof (rule inj_onI)
    fix i j assume ij: "i \<in> set [0..<length rs div 2]" "j \<in> set [0..<length rs div 2]" "(0 :: ClientId, 1000 + of_nat i :: OrderId) = (0, 1000 + of_nat j)"
    then have "unat (1000 + of_nat i :: OrderId) = unat (1000 + of_nat j :: OrderId)" by simp
    moreover have "i < loop_count" "j < loop_count" using ij(1,2) assms(2) by (auto simp: loop_count_def)
    ultimately show "i = j" using bench_order_id [of i] bench_order_id [of j] by simp
  qed
  then have "distinct (map (\<lambda>j. (0 :: ClientId, 1000 + of_nat j :: OrderId)) [0..<length rs div 2])" unfolding distinct_map by simp
  then show ?thesis using assms(1) unfolding bench_vec_def by metis
qed

section \<open>The whole program\<close>

lemma bench_loop_foldE:
  "i + n \<le> length rs \<Longrightarrow> bench_loop add cancel rdtsc rs i n s = foldE (bench_step add cancel rdtsc) (take n (drop i rs)) s"
proof (induction n arbitrary: i s)
  case (Suc n)
  then have "take (Suc n) (drop i rs) = rs ! i # take n (drop (Suc i) rs)" by (simp flip: Cons_nth_drop_Suc)
  moreover have "bench_loop add cancel rdtsc rs (Suc i) n = foldE (bench_step add cancel rdtsc) (take n (drop (Suc i) rs))"
    using Suc by (intro ext) simp
  ultimately show ?case using Suc.prems by simp
qed simp

context order_book
begin

lemma benchmark_ok:
  assumes "tracks spec_start b" and "fresh b" and rs: "bench_vec rs" "length rs = loop_count"
  shows "\<exists>cycles k' b'. benchmarkHashMap add cancel rdtsc rs (k, b, me) = Inr (cycles, k', b', perform (spec_calls rs spec_start) me)
    \<and> repr b' (sp_books (fold spec_request rs spec_start) 0)"
proof -
  have r: "\<forall>r\<in>set rs. bench_request r" "rs \<noteq> [] \<longrightarrow> req_type (hd rs) = Req_NEW" using rs(1) by (simp_all add: bench_vec_def)
  have "3 * (0 + length rs) < ME_MAX_ORDER_IDS" unfolding rs(2) by (simp add: loop_count_def bounds_defs)
  then obtain tot' k' b' where "foldE (bench_step add cancel rdtsc) rs (0, k, b, me) = Inr (tot', k', b', perform (spec_calls rs spec_start) me)"
    "tracks (fold spec_request rs spec_start) b'"
    using requests_ok [OF assms(1) r(1) _ bounded_start bench_vec_distinct [OF rs], of rdtsc 0 k me] assms(2) r(2) by auto
  moreover have "bench_loop add cancel rdtsc rs 0 loop_count s = foldE (bench_step add cancel rdtsc) rs s" for s
    using bench_loop_foldE [of 0 loop_count rs] rs(2) by simp
  ultimately show ?thesis by (simp add: benchmarkHashMap_def tracks_def)
qed

end

text \<open>C26: the benchmark compares like with like.  Whatever the random numbers and the cycle counter, it ends without a failed assertion,
  both books have carried out the same requests as the contract of the book says and hold the same orders, and the second book has
  reported to the engine, call by call, what the first one had.\<close>

theorem hash_benchmark_agrees:
  "\<exists>rs cycles1 b1 cycles2 b2 me. hash_benchmark rand g0 rdtsc = Inr ((cycles1, b1), (cycles2, b2), me)
    \<and> rs = fst (bench_requests rand (of_nat (fst (draw rand 100 g0)) + 100) 1000 [] (snd (draw rand 100 g0))) \<and> length rs = loop_count
    \<and> me_repr b1 (sp_books (fold spec_request rs spec_start) 0) \<and> me_repr (as_array b2) (sp_books (fold spec_request rs spec_start) 0)
    \<and> me = perform (spec_calls rs spec_start @ spec_calls rs spec_start) benchmark_engine"
proof -
  obtain v g1 where v: "draw rand 100 g0 = (v, g1)" by fastforce
  obtain rs g2 where rs: "bench_requests rand (of_nat v + 100) 1000 [] g1 = (rs, g2)" by fastforce
  have "v < 100" using draw_lt [OF _ v] by simp
  then have "bench_vec rs \<and> length rs = loop_count"
    by (intro bench_requests_ok [OF _ _ _ refl _ rs]) (simp_all add: bench_vec_def new_keys_def)
  then have ok: "bench_vec rs" "length rs = loop_count" by blast+
  have a: "array_book.tracks spec_start (CMEOrderBook_new 0)"
    using me_repr_new [of 0] by (simp add: array_book.tracks_def array_repr_def spec_start_def CMEOrderBook_new_def)
  have m: "map_book.tracks spec_start (CUnorderedMapMEOrderBook_new 0)" "map_fresh (CUnorderedMapMEOrderBook_new 0)"
    using fresh_book [of 0] by (simp_all add: map_book.tracks_def map_repr_def spec_start_def map_fresh_def CUnorderedMapMEOrderBook_new_def book_core_new_def)
  obtain c1 k b1 where 1: "benchmarkHashMap array_add array_cancel rdtsc rs (0, CMEOrderBook_new 0, benchmark_engine)
      = Inr (c1, k, b1, perform (spec_calls rs spec_start) benchmark_engine)" "array_repr b1 (sp_books (fold spec_request rs spec_start) 0)"
    using array_book.benchmark_ok [OF a TrueI ok] by blast
  obtain c2 k' b2 where 2: "benchmarkHashMap map_add map_cancel rdtsc rs (k, CUnorderedMapMEOrderBook_new 0, perform (spec_calls rs spec_start) benchmark_engine)
      = Inr (c2, k', b2, perform (spec_calls rs spec_start) (perform (spec_calls rs spec_start) benchmark_engine))"
      "map_repr b2 (sp_books (fold spec_request rs spec_start) 0)"
    using map_book.benchmark_ok [OF m ok] by blast
  have "hash_benchmark rand g0 rdtsc = Inr ((c1, b1), (c2, b2), perform (spec_calls rs spec_start @ spec_calls rs spec_start) benchmark_engine)"
    using 1(1) 2(1) by (simp add: hash_benchmark_def v rs perform_append)
  then show ?thesis using ok(2) 1(2) 2(2) by (simp add: v rs array_repr_def map_repr_def)
qed

end
