(* ===== verification/PoolBenchmark.thy ===== *)
theory PoolBenchmark
  imports OptMemoryPool Messages
begin

text \<open>
  \<open>benchmarks/ReleaseBenchmark.cpp\<close>: the program that measures the two pools.  The function template \<open>benchmarkMemPool\<close> works on every
  pool with the contract \<open>object_pool\<close>.
\<close>

section \<open>The program\<close>

definition pool_loop_count :: nat where "pool_loop_count = 100000"

definition num_allocated :: nat where "num_allocated = 256"

text \<open>\<open>rdtsc k\<close> is the cycle counter when it is read for the \<open>k\<close>-th time.\<close>

type_synonym 'p timed = "64 word \<times> nat \<times> 'p"

fun alloc_objs :: "('a \<Rightarrow> 'p \<Rightarrow> (nat \<times> 'p) outcome) \<Rightarrow> 'a \<Rightarrow> (nat \<Rightarrow> 64 word) \<Rightarrow> nat \<Rightarrow> 'p timed \<Rightarrow> (nat list \<times> 'p timed) outcome" where
  "alloc_objs alloc x rdtsc 0 s = Inr ([], s)"
| "alloc_objs alloc x rdtsc (Suc n) (total_rdtsc, k, p) =
     bindE (alloc x p) (\<lambda>(i, p').
     bindE (alloc_objs alloc x rdtsc n (total_rdtsc + (rdtsc (k + 1) - rdtsc k), k + 2, p')) (\<lambda>(is, s'). Inr (i # is, s')))"

fun dealloc_objs :: "(ptr \<Rightarrow> 'p \<Rightarrow> 'p outcome) \<Rightarrow> (nat \<Rightarrow> 64 word) \<Rightarrow> nat list \<Rightarrow> 'p timed \<Rightarrow> 'p timed outcome" where
  "dealloc_objs dealloc rdtsc [] s = Inr s"
| "dealloc_objs dealloc rdtsc (i # is) (total_rdtsc, k, p) =
     bindE (dealloc (Some i) p) (\<lambda>p'. dealloc_objs dealloc rdtsc is (total_rdtsc + (rdtsc (k + 1) - rdtsc k), k + 2, p'))"

fun pool_rounds :: "('a \<Rightarrow> 'p \<Rightarrow> (nat \<times> 'p) outcome) \<Rightarrow> (ptr \<Rightarrow> 'p \<Rightarrow> 'p outcome) \<Rightarrow> 'a \<Rightarrow> (nat \<Rightarrow> 64 word) \<Rightarrow> nat \<Rightarrow> 'p timed \<Rightarrow> 'p timed outcome" where
  "pool_rounds alloc dealloc x rdtsc 0 s = Inr s"
| "pool_rounds alloc dealloc x rdtsc (Suc n) s =
     bindE (alloc_objs alloc x rdtsc num_allocated s) (\<lambda>(allocated_objs, s1).
     bindE (dealloc_objs dealloc rdtsc allocated_objs s1) (pool_rounds alloc dealloc x rdtsc n))"

definition benchmarkMemPool :: "('a \<Rightarrow> 'p \<Rightarrow> (nat \<times> 'p) outcome) \<Rightarrow> (ptr \<Rightarrow> 'p \<Rightarrow> 'p outcome) \<Rightarrow> 'a \<Rightarrow> (nat \<Rightarrow> 64 word) \<Rightarrow> nat \<times> 'p
    \<Rightarrow> 'p timed outcome" where
  "benchmarkMemPool alloc dealloc x rdtsc = (\<lambda>(k, p).
     bindE (pool_rounds alloc dealloc x rdtsc pool_loop_count (0, k, p)) (\<lambda>(total_rdtsc, k', p').
     Inr (total_rdtsc div of_nat (pool_loop_count * num_allocated), k', p')))"

text \<open>\<open>main\<close>, with the numbers of cycles it prints and the pools it leaves; \<open>ndebug\<close> as in theory \<open>OptMemoryPool\<close>.\<close>

definition release_benchmark :: "bool \<Rightarrow> MDPMarketUpdate \<Rightarrow> (nat \<Rightarrow> 64 word)
    \<Rightarrow> ((64 word \<times> MDPMarketUpdate CMemoryPool) \<times> (64 word \<times> MDPMarketUpdate COptMemPool)) outcome" where
  "release_benchmark ndebug T rdtsc =
     bindE (benchmarkMemPool Allocate Deallocate T rdtsc (0, CMemoryPool_new 512 T)) (\<lambda>(cycles1, k, mem_pool).
     bindE (benchmarkMemPool (opt_alloc_returned ndebug) (opt_Deallocate ndebug) T rdtsc (k, CMemoryPool_new 512 T)) (\<lambda>(cycles2, k', opt_mem_pool).
     Inr ((cycles1, mem_pool), (cycles2, opt_mem_pool))))"

section \<open>It ends with empty pools\<close>

context object_pool
begin

lemma alloc_objs_ok:
  "ok p \<Longrightarrow> card (live p) + n < capacity p \<Longrightarrow> \<exists>is tot' k' p'. alloc_objs alloc x rdtsc n (tot, k, p) = Inr (is, tot', k', p')
    \<and> ok p' \<and> distinct is \<and> set is \<inter> live p = {} \<and> live p' = live p \<union> set is \<and> capacity p' = capacity p"
proof (induction n arbitrary: tot k p)
  case (Suc n)
  have "Suc (card (live p)) < capacity p" using Suc.prems(2) by simp
  then obtain i p1 where 1: "alloc x p = Inr (i, p1)" "ok p1" "i \<notin> live p" "live p1 = insert i (live p)" "capacity p1 = capacity p"
    using alloc_law [OF Suc.prems(1), of x] by blast
  have "card (live p1) + n < capacity p1" using Suc.prems(2) live_finite [OF Suc.prems(1)] 1(3-5) by simp
  from Suc.IH [OF 1(2) this, of "tot + (rdtsc (k + 1) - rdtsc k)" "k + 2"] 1 show ?case by fastforce
qed simp

lemma dealloc_objs_ok:
  "ok p \<Longrightarrow> distinct is \<Longrightarrow> set is \<subseteq> live p \<Longrightarrow> \<exists>tot' k' p'. dealloc_objs dealloc rdtsc is (tot, k, p) = Inr (tot', k', p')
    \<and> ok p' \<and> live p' = live p - set is \<and> capacity p' = capacity p"
proof (induction "is" arbitrary: tot k p)
  case (Cons i "is")
  obtain p1 where 1: "dealloc (Some i) p = Inr p1" "ok p1" "live p1 = live p - {i}" "capacity p1 = capacity p"
    using dealloc_law [OF Cons.prems(1), of i] Cons.prems(3) by auto
  have "distinct is" "set is \<subseteq> live p1" using Cons.prems(2,3) 1(3) by auto
  from Cons.IH [OF 1(2) this, of "tot + (rdtsc (k + 1) - rdtsc k)" "k + 2"] 1 show ?case by fastforce
qed simp

lemma pool_rounds_ok:
  "ok p \<Longrightarrow> live p = {} \<Longrightarrow> num_allocated < capacity p \<Longrightarrow> \<exists>tot' k' p'. pool_rounds alloc dealloc x rdtsc n (tot, k, p) = Inr (tot', k', p')
    \<and> ok p' \<and> live p' = {} \<and> capacity p' = capacity p"
proof (induction n arbitrary: tot k p)
  case (Suc n)
  obtain "is" tot1 k1 p1 where 1: "alloc_objs alloc x rdtsc num_allocated (tot, k, p) = Inr (is, tot1, k1, p1)"
    "ok p1" "distinct is" "live p1 = set is" "capacity p1 = capacity p"
    using alloc_objs_ok [OF Suc.prems(1), of num_allocated x rdtsc tot k] Suc.prems(2,3) by auto
  obtain tot2 k2 p2 where 2: "dealloc_objs dealloc rdtsc is (tot1, k1, p1) = Inr (tot2, k2, p2)" "ok p2" "live p2 = {}" "capacity p2 = capacity p"
    using dealloc_objs_ok [OF 1(2,3), of rdtsc tot1 k1] 1(4,5) by auto
  show ?case using Suc.IH [OF 2(2,3), of tot2 k2] Suc.prems(3) 1(1) 2(1,4) by simp
qed simp

end

text \<open>Neither pool stops or hangs the benchmark, checked or not, and both give all blocks back.\<close>

theorem release_benchmark_returns:
  "\<exists>cycles1 p cycles2 q. release_benchmark ndebug T rdtsc = Inr ((cycles1, p), (cycles2, q)) \<and> pused p = {} \<and> pused q = {}"
proof -
  have new: "pool_ok (CMemoryPool_new 512 T)" "pused (CMemoryPool_new 512 T) = {}" "num_allocated < m_size (CMemoryPool_new 512 T)"
    by (simp_all add: pool_ok_new num_allocated_def)
  obtain t1 k1 p where 1: "pool_rounds Allocate Deallocate T rdtsc pool_loop_count (0, 0, CMemoryPool_new 512 T) = Inr (t1, k1, p)" "pused p = {}"
    using pool.pool_rounds_ok [OF new] by blast
  obtain t2 k2 q where 2: "pool_rounds (opt_alloc_returned ndebug) (opt_Deallocate ndebug) T rdtsc pool_loop_count (0, k1, CMemoryPool_new 512 T)
      = Inr (t2, k2, q)" "pused q = {}"
    using opt_pool.pool_rounds_ok [OF new] by blast
  show ?thesis using 1 2 by (simp add: release_benchmark_def benchmarkMemPool_def)
qed

end
