(* ===== verification/LoggerBenchmark.thy ===== *)
theory LoggerBenchmark
  imports LoggingProperties MainFacts
begin

text \<open>
  \<open>benchmarks/LoggerBenchmark.cpp\<close>: the program that writes random lines with both loggers, and how a logger is closed.  When the
  thread of a logger gets to empty the queue is a parameter.
\<close>

section \<open>The program\<close>

definition charset :: string where
  "charset = ''0123456789ABCDEFGHIJKLMNOPQRSTUVWXYZabcdefghijklmnopqrstuvwxyz''"

fun random_string :: "('g \<Rightarrow> nat \<times> 'g) \<Rightarrow> nat \<Rightarrow> 'g \<Rightarrow> string \<times> 'g" where
  "random_string rand 0 g = ([], g)"
| "random_string rand (Suc n) g =
     (let (i, g1) = draw rand (length charset) g; (s, g2) = random_string rand n g1 in (charset ! i # s, g2))"

definition log_loop_count :: nat where "log_loop_count = 100000"

text \<open>\<open>flushes i\<close>: the thread of the logger empties the queue after line \<open>i\<close>.  \<open>rdtsc k\<close> is the \<open>k\<close>-th reading of the cycle counter.\<close>

fun bench_lines :: "(string \<Rightarrow> 'l \<Rightarrow> 'l outcome) \<Rightarrow> ('l \<Rightarrow> 'l outcome) \<Rightarrow> ('g \<Rightarrow> nat \<times> 'g) \<Rightarrow> (nat \<Rightarrow> 64 word) \<Rightarrow> (nat \<Rightarrow> bool) \<Rightarrow> nat \<Rightarrow> nat
    \<Rightarrow> 64 word \<times> nat \<times> 'g \<times> 'l \<Rightarrow> (64 word \<times> nat \<times> 'g \<times> 'l) outcome" where
  "bench_lines log_fn flush rand rdtsc flushes i 0 st = Inr st"
| "bench_lines log_fn flush rand rdtsc flushes i (Suc n) (total_rdtsc, k, g, l) =
     (let (s, g') = random_string rand 128 g
      in bindE (log_fn s l) (\<lambda>l1.
         bindE (if flushes i then flush l1 else Inr l1) (\<lambda>l2.
         bench_lines log_fn flush rand rdtsc flushes (i + 1) n (total_rdtsc + (rdtsc (k + 1) - rdtsc k), k + 2, g', l2))))"

definition benchmarkLogging :: "(string \<Rightarrow> 'l \<Rightarrow> 'l outcome) \<Rightarrow> ('l \<Rightarrow> 'l outcome) \<Rightarrow> ('g \<Rightarrow> nat \<times> 'g) \<Rightarrow> (nat \<Rightarrow> 64 word) \<Rightarrow> (nat \<Rightarrow> bool)
    \<Rightarrow> nat \<times> 'g \<times> 'l \<Rightarrow> (64 word \<times> nat \<times> 'g \<times> 'l) outcome" where
  "benchmarkLogging log_fn flush rand rdtsc flushes = (\<lambda>(k, g, l).
     bindE (bench_lines log_fn flush rand rdtsc flushes 0 log_loop_count (0, k, g, l)) (\<lambda>(total_rdtsc, st).
     Inr (total_rdtsc div of_nat log_loop_count, st)))"

abbreviation line_format :: string where
  "line_format \<equiv> [CHR ''%'', CHR 0x0A]"

definition log_line :: "string \<Rightarrow> 'd SLogElement CLogger \<Rightarrow> 'd SLogElement CLogger outcome" where
  "log_line s = Log line_format [ArgString s]"

definition opt_log_line :: "string \<Rightarrow> 'd OptLogElement CLogger \<Rightarrow> 'd OptLogElement CLogger outcome" where
  "opt_log_line s = opt_Log line_format [ArgString s]"

text \<open>The destructor waits until the thread has emptied the queue, to which nobody writes any more, and closes the file.\<close>

definition CLogger_close :: "('d \<Rightarrow> string) \<Rightarrow> 'd SLogElement CLogger \<Rightarrow> string outcome" where
  "CLogger_close pd l = bindE (FlushQueue pd l) (\<lambda>l'. Inr (m_file l'))"

definition COptLogger_close :: "('d \<Rightarrow> string) \<Rightarrow> 'd OptLogElement CLogger \<Rightarrow> string outcome" where
  "COptLogger_close pd l = bindE (opt_FlushQueue pd l) (\<lambda>l'. Inr (m_file l'))"

text \<open>\<open>main\<close>, with the numbers of cycles it prints and the two files; \<open>started\<close>: files open and threads start.\<close>

definition logger_benchmark :: "('d \<Rightarrow> string) \<Rightarrow> ('g \<Rightarrow> nat \<times> 'g) \<Rightarrow> 'g \<Rightarrow> (nat \<Rightarrow> 64 word) \<Rightarrow> (nat \<Rightarrow> bool) \<Rightarrow> (nat \<Rightarrow> bool) \<Rightarrow> bool
    \<Rightarrow> ((64 word \<times> string) \<times> (64 word \<times> string)) outcome" where
  "logger_benchmark pd rand g0 rdtsc flushes1 flushes2 started =
     bindE (CLogger_new ''logger_benchmark_original.log'' started started) (\<lambda>l0.
     bindE (benchmarkLogging log_line (FlushQueue pd) rand rdtsc flushes1 (0, g0, l0)) (\<lambda>(cycles1, k, g1, l1).
     bindE (CLogger_close pd l1) (\<lambda>file1.
     bindE (COptLogger_new ''logger_benchmark_optimized.log'' started started) (\<lambda>o0.
     bindE (benchmarkLogging opt_log_line (opt_FlushQueue pd) rand rdtsc flushes2 (k, g1, o0)) (\<lambda>(cycles2, k', g2, o1).
     bindE (COptLogger_close pd o1) (\<lambda>file2. Inr ((cycles1, file1), (cycles2, file2))))))))"

section \<open>What the benchmark asks of a logger\<close>

fun random_strings :: "('g \<Rightarrow> nat \<times> 'g) \<Rightarrow> nat \<Rightarrow> 'g \<Rightarrow> string list \<times> 'g" where
  "random_strings rand 0 g = ([], g)"
| "random_strings rand (Suc n) g = (let (s, g1) = random_string rand 128 g; (ss, g2) = random_strings rand n g1 in (s # ss, g2))"

definition text_lines :: "string list \<Rightarrow> string" where
  "text_lines ss = concat (map (\<lambda>s. s @ [CHR 0x0A]) ss)"

definition bench_string :: "string \<Rightarrow> bool" where
  "bench_string s \<longleftrightarrow> length s = 128 \<and> set s \<subseteq> set charset"

text \<open>The lines that wait in the queue after \<open>i\<close> lines.\<close>

fun pending_lines :: "(nat \<Rightarrow> bool) \<Rightarrow> nat \<Rightarrow> nat" where
  "pending_lines flushes 0 = 0"
| "pending_lines flushes (Suc i) = (if flushes i then 0 else Suc (pending_lines flushes i))"

lemma random_string_ok: "random_string rand n g = (s, g') \<Longrightarrow> length s = n \<and> set s \<subseteq> set charset"
proof (induction n arbitrary: g s)
  case (Suc n)
  obtain i g1 where i: "draw rand (length charset) g = (i, g1)" by fastforce
  obtain t where t: "random_string rand n g1 = (t, g')" "s = charset ! i # t" using Suc.prems i by (auto split: prod.splits)
  have "i < length charset" using draw_lt [OF _ i] by (simp add: charset_def)
  then show ?case using Suc.IH [OF t(1)] t(2) nth_mem by auto
qed simp

locale line_logger =
  fixes log_fn :: "string \<Rightarrow> 'l \<Rightarrow> 'l outcome" and flush :: "'l \<Rightarrow> 'l outcome" and shown :: "'l \<Rightarrow> string" and written :: "'l \<Rightarrow> string"
    and room :: "'l \<Rightarrow> nat" and ok :: "'l \<Rightarrow> bool" and per_line :: nat and capacity :: nat
  assumes log_law: "ok l \<Longrightarrow> bench_string s \<Longrightarrow> per_line \<le> room l
      \<Longrightarrow> \<exists>l'. log_fn s l = Inr l' \<and> ok l' \<and> shown l' = shown l @ s @ [CHR 0x0A] \<and> room l \<le> room l' + per_line"
    and flush_law: "ok l \<Longrightarrow> \<exists>l'. flush l = Inr l' \<and> ok l' \<and> shown l' = shown l \<and> written l' = shown l \<and> capacity \<le> room l'"
begin

lemma bench_lines_ok:
  "ok l \<Longrightarrow> capacity \<le> room l + per_line * pending_lines flushes i \<Longrightarrow> \<forall>j<i + n. per_line * Suc (pending_lines flushes j) \<le> capacity
    \<Longrightarrow> \<exists>tot' k' l'. bench_lines log_fn flush rand rdtsc flushes i n (tot, k, g, l) = Inr (tot', k', snd (random_strings rand n g), l')
      \<and> ok l' \<and> shown l' = shown l @ text_lines (fst (random_strings rand n g))"
proof (induction n arbitrary: i tot k g l)
  case 0
  then show ?case by (simp add: text_lines_def)
next
  case (Suc n)
  obtain s g1 where s: "random_string rand 128 g = (s, g1)" by fastforce
  have "per_line * Suc (pending_lines flushes i) \<le> capacity" using Suc.prems(3) by simp
  then have "per_line \<le> room l" using Suc.prems(2) by simp
  then obtain l1 where 1: "log_fn s l = Inr l1" "ok l1" "shown l1 = shown l @ s @ [CHR 0x0A]" "room l \<le> room l1 + per_line"
    using log_law [OF Suc.prems(1)] random_string_ok [OF s] by (auto simp: bench_string_def)
  obtain l2 where 2: "(if flushes i then flush l1 else Inr l1) = Inr l2" "ok l2" "shown l2 = shown l1"
    "capacity \<le> room l2 + per_line * pending_lines flushes (Suc i)"
    using flush_law [OF 1(2)] 1(2,4) Suc.prems(2) by (cases "flushes i") auto
  have "\<forall>j<Suc i + n. per_line * Suc (pending_lines flushes j) \<le> capacity" using Suc.prems(3) by simp
  from Suc.IH [OF 2(2,4) this, of "tot + (rdtsc (k + 1) - rdtsc k)" "k + 2" g1] show ?case
    using s 1(1,3) 2(1,3) by (auto simp: text_lines_def split: prod.splits)
qed

end

section \<open>The two loggers\<close>

definition of_full_size :: "'e CLogger \<Rightarrow> bool" where
  "of_full_size l \<longleftrightarrow> logger_ok l \<and> q_size (log_queue l) = LOG_QUEUE_SIZE"

lemma log_loop_size:
  "\<forall>c l. sz (pc c l) = sz l \<Longrightarrow> \<forall>a l. sz (pa a l) = sz l \<Longrightarrow> log_loop pc pa s args l = Inr l' \<Longrightarrow> sz l' = sz l"
  by (induction pc pa s args l rule: log_loop.induct) (auto simp: FATAL_def split: if_splits list.splits)

lemma PushValue_size: "q_size (log_queue (PushValue e l)) = q_size (log_queue l)"
  by (simp add: PushValue_def)

lemma PushArg_size: "q_size (log_queue (PushArg a l)) = q_size (log_queue l)"
proof (cases a)
  case (ArgString s)
  have "q_size (log_queue (fold (\<lambda>c. PushValue (LOG_CHAR c)) cs m)) = q_size (log_queue m)" for cs and m :: "'a SLogElement CLogger"
    by (induction cs arbitrary: m) (simp_all add: PushValue_size)
  then show ?thesis by (simp add: ArgString)
qed (simp add: PushValue_size)

lemma opt_PushArg_size: "q_size (log_queue (opt_PushArg a l)) = q_size (log_queue l)"
  by (cases a) (simp_all add: PushValue_size)

lemma bench_string_c_str: "bench_string s \<Longrightarrow> c_str s = s"
proof -
  have "CHR 0x00 \<notin> set charset" by (simp add: charset_def)
  moreover assume "bench_string s"
  ultimately have "\<forall>c\<in>set s. c \<noteq> CHR 0x00" by (auto simp: bench_string_def)
  then show ?thesis by (simp add: c_str_def)
qed

lemma line_format_pieces: "pieces line_format = [Hole, Lit (CHR 0x0A)]" "holes line_format = 1" "literals line_format = 1"
  by (simp_all add: pieces_Cons holes_def literals_def)

lemma flush_full_size:
  assumes "of_full_size l"
  shows "\<exists>l'. flush_with show_elem l = Inr l' \<and> of_full_size l' \<and> shown_text show_elem l' = shown_text show_elem l
    \<and> m_file l' = shown_text show_elem l \<and> LOG_QUEUE_SIZE \<le> free_slots l'"
proof -
  have ok: "queue_ok (log_queue l)" "q_size (log_queue l) = LOG_QUEUE_SIZE" using assms by (simp_all add: of_full_size_def logger_ok_def)
  have "foldE (\<lambda>e f. Inr (f @ show_elem e)) es f = Inr (f @ concat (map show_elem es))" for es f
    by (induction es arbitrary: f) simp_all
  with lfq.drain_law [OF ok(1), of "Suc (m_numElements (log_queue l))" "\<lambda>e f. Inr (f @ show_elem e)" "m_file l"]
  obtain q where q: "drain (Suc (m_numElements (log_queue l))) front UpdateReadIndex (\<lambda>e f. Inr (f @ show_elem e)) (log_queue l) (m_file l)
      = Inr (q, m_file l @ concat (map show_elem (contents (log_queue l))))" "queue_ok q" "contents q = []" "q_size q = q_size (log_queue l)"
    by auto
  then show ?thesis using ok(2)
    by (simp add: flush_with_def of_full_size_def logger_ok_def shown_text_def free_slots_def del: length_contents)
qed

interpretation logger_bench: line_logger log_line "FlushQueue pd" "shown_text (log_text pd)" m_file free_slots of_full_size 129 LOG_QUEUE_SIZE
  for pd :: "'d \<Rightarrow> string"
proof
  fix l :: "'d SLogElement CLogger" and s
  assume a: "of_full_size l" "bench_string s" "129 \<le> free_slots l"
  have c: "logger.cost (line_format, [ArgString s :: 'd log_arg]) = 129" "logger.line pd (line_format, [ArgString s]) = s @ [CHR 0x0A]"
    using a(2) by (simp_all add: logger.cost_def logger.line_def line_format_pieces bench_string_c_str bench_string_def)
  obtain l' where l': "log_line s l = Inr l'" "logger_ok l'" "shown_text (log_text pd) l' = shown_text (log_text pd) l @ s @ [CHR 0x0A]"
    "free_slots l' + 129 = free_slots l"
    using logger.log_loop_writes [of line_format "[ArgString s]" l pd] a c unfolding log_line_def Log_def of_full_size_def
    by (auto simp: line_format_pieces)
  have "q_size (log_queue l') = q_size (log_queue l)"
    by (rule log_loop_size [OF _ _ l'(1) [unfolded log_line_def Log_def]]) (simp_all add: PushValue_size PushArg_size)
  then show "\<exists>l'. log_line s l = Inr l' \<and> of_full_size l' \<and> shown_text (log_text pd) l' = shown_text (log_text pd) l @ s @ [CHR 0x0A] \<and> free_slots l \<le> free_slots l' + 129"
    using l' a(1) by (auto simp: of_full_size_def)
qed (use flush_full_size in \<open>simp add: FlushQueue_def\<close>)

interpretation opt_logger_bench: line_logger opt_log_line "opt_FlushQueue pd" "shown_text (opt_log_text pd)" m_file free_slots of_full_size 2 LOG_QUEUE_SIZE
  for pd :: "'d \<Rightarrow> string"
proof
  fix l :: "'d OptLogElement CLogger" and s
  assume a: "of_full_size l" "bench_string s" "2 \<le> free_slots l"
  have c: "opt_logger.cost (line_format, [ArgString s :: 'd log_arg]) = 2" "opt_logger.line pd (line_format, [ArgString s]) = s @ [CHR 0x0A]"
    using a(2) unfolding opt_logger.cost_def opt_logger.line_def
    by (simp_all add: line_format_pieces bench_string_c_str bench_string_def)
  obtain l' where l': "opt_log_line s l = Inr l'" "logger_ok l'" "shown_text (opt_log_text pd) l' = shown_text (opt_log_text pd) l @ s @ [CHR 0x0A]"
    "free_slots l' + 2 = free_slots l"
    using opt_logger.log_loop_writes [of line_format "[ArgString s]" l pd] a c unfolding opt_log_line_def opt_Log_def of_full_size_def
    by (auto simp: line_format_pieces)
  have "q_size (log_queue l') = q_size (log_queue l)"
    by (rule log_loop_size [OF _ _ l'(1) [unfolded opt_log_line_def opt_Log_def]]) (simp_all add: PushValue_size opt_PushArg_size)
  then show "\<exists>l'. opt_log_line s l = Inr l' \<and> of_full_size l' \<and> shown_text (opt_log_text pd) l' = shown_text (opt_log_text pd) l @ s @ [CHR 0x0A] \<and> free_slots l \<le> free_slots l' + 2"
    using l' a(1) by (auto simp: of_full_size_def)
qed (use flush_full_size in \<open>simp add: opt_FlushQueue_def\<close>)

section \<open>Both files are complete\<close>

text \<open>The first logger writes 129 elements per line, so that its thread must not fall behind by 65000 lines: without it the queue
  would be overrun, since the lines of the benchmark are 12900000 elements and \<open>PushValue\<close> does not check for room.  The second one needs two
  elements per line, and its queue holds all lines.\<close>

theorem logger_benchmark_complete:
  assumes "\<forall>i<log_loop_count. pending_lines flushes1 i < 65000"
  shows "\<exists>cycles1 cycles2. logger_benchmark pd rand g0 rdtsc flushes1 flushes2 True =
    (let (ss1, g1) = random_strings rand log_loop_count g0; ss2 = fst (random_strings rand log_loop_count g1)
     in Inr ((cycles1, text_lines ss1), (cycles2, text_lines ss2)))"
proof -
  obtain ss1 g1 where s1: "random_strings rand log_loop_count g0 = (ss1, g1)" by fastforce
  obtain ss2 g2 where s2: "random_strings rand log_loop_count g1 = (ss2, g2)" by fastforce
  have le: "pending_lines f i \<le> i" for f i by (induction i) auto
  have fits1: "\<forall>j<0 + log_loop_count. 129 * Suc (pending_lines flushes1 j) \<le> LOG_QUEUE_SIZE"
  proof (intro allI impI)
    fix j assume "j < 0 + log_loop_count"
    then have "pending_lines flushes1 j < 65000" using assms by simp
    then show "129 * Suc (pending_lines flushes1 j) \<le> LOG_QUEUE_SIZE" by (simp add: LOG_QUEUE_SIZE_def)
  qed
  have fits2: "\<forall>j<0 + log_loop_count. 2 * Suc (pending_lines flushes2 j) \<le> LOG_QUEUE_SIZE"
  proof (intro allI impI)
    fix j assume "j < 0 + log_loop_count"
    then have "pending_lines flushes2 j < 100000" using le [of flushes2 j] by (simp add: log_loop_count_def)
    then show "2 * Suc (pending_lines flushes2 j) \<le> LOG_QUEUE_SIZE" by (simp add: LOG_QUEUE_SIZE_def)
  qed
  have new: "CLogger_new f True True = Inr fresh_logger" "COptLogger_new f True True = Inr fresh_opt_logger"
    "of_full_size fresh_logger" "of_full_size fresh_opt_logger" for f
    using fresh_loggers(1,4) by (simp_all add: CLogger_new_def COptLogger_new_def fresh_logger_def fresh_opt_logger_def of_full_size_def)
  obtain t1 k1 l1 where 1: "bench_lines log_line (FlushQueue pd) rand rdtsc flushes1 0 log_loop_count (0, 0, g0, fresh_logger) = Inr (t1, k1, g1, l1)"
    "of_full_size l1" "shown_text (log_text pd) l1 = text_lines ss1"
    using logger_bench.bench_lines_ok [OF new(3) _ fits1, of pd rand rdtsc 0 0 g0] by (auto simp: fresh_loggers s1)
  obtain t2 k2 l2 where 2: "bench_lines opt_log_line (opt_FlushQueue pd) rand rdtsc flushes2 0 log_loop_count (0, k1, g1, fresh_opt_logger) = Inr (t2, k2, g2, l2)"
    "of_full_size l2" "shown_text (opt_log_text pd) l2 = text_lines ss2"
    using opt_logger_bench.bench_lines_ok [OF new(4) _ fits2, of pd rand rdtsc 0 k1 g1] by (auto simp: fresh_loggers s2)
  have "CLogger_close pd l1 = Inr (text_lines ss1)" "COptLogger_close pd l2 = Inr (text_lines ss2)"
    using logger_bench.flush_law [OF 1(2), of pd] opt_logger_bench.flush_law [OF 2(2), of pd] 1(3) 2(3)
    by (auto simp: CLogger_close_def COptLogger_close_def)
  then show ?thesis using 1(1) 2(1) by (simp add: logger_benchmark_def benchmarkLogging_def new(1,2) s1 s2)
qed

end
