(* ===== verification/Spec2Isabelle.thy ===== *)
theory Spec2Isabelle
  imports CommonProperties LoggingProperties ExchangeProperties UnorderedProperties MarketProperties DumpProperties OrderProperties
    ServerProperties ConsumerProperties TradingProperties MessageTypes MainProperties SocketProperties RoundTrip MarketPath StartupProperties HashBenchmark PoolBenchmark LoggerBenchmark
begin

text \<open>
  \<^bold>\<open>The program.\<close>  An exchange and its trading clients.  Trading clients send requests over TCP; the
  exchange's order server checks their sequence numbers, sorts them by receive time and queues them; the
  matching engine takes them off the queue, trades them against the book of their ticker, and queues client
  responses and market updates; the order server sends the responses back; the market data publisher numbers
  the updates and multicasts them, and the snapshot synthesizer periodically multicasts all live orders.  A
  client's market data consumer follows the incremental stream and repairs gaps with a snapshot; its trade
  engine rebuilds the books, computes features, and runs one of two algorithms, whose orders pass an order
  manager and a risk check.  All threads are connected by bounded single-producer single-consumer queues, and
  all objects live in preallocated pools.

  \<^bold>\<open>Theories and the code they model\<close> (paths under \<open>src/\<close>).

  \<^item> \<open>Prelude\<close>: the faults (a failed assertion, a fatal exit, an access out of range, a null pointer, a signed
    overflow, a loop that does not end) and the sequencing \<open>bindE\<close> of steps that can fail.  \<open>Types\<close>:
    \<open>common/Types.h\<close>.  \<open>Arith\<close>: signed arithmetic with its overflows, and floating point as a parameter.
  \<^item> \<open>MemoryPool\<close>, \<open>OptMemoryPool\<close>: \<open>common/MemoryPool.h\<close>, \<open>common/OptMemoryPool.h\<close>.  A pointer is the index of
    its block, \<open>None\<close> the null pointer.
  \<^item> \<open>LockFreeQueue\<close>: \<open>common/LockFreeQueue.h\<close> with atomic calls, and the contract \<open>fifo_queue\<close> that the loops
    of all threads rely on.  \<open>SpscQueue\<close>: the same queue with every shared access as a step of one producer or
    one consumer, in any interleaving, under sequential consistency.
  \<^item> \<open>Messages\<close>, \<open>Wire\<close>: \<open>exchange/order_server/ClientRequest.h\<close>, \<open>ClientResponse.h\<close>,
    \<open>exchange/market_data/MarketUpdate.h\<close>; their printing, and their packed bytes.  \<open>Sockets\<close>: the send and receive
    buffers of \<open>common/TcpSocket\<close> and \<open>common/MultiCastSocket\<close>.  \<open>SocketUtils\<close>: \<open>common/SocketUtils\<close>, as the system calls it
    makes.  \<open>TcpServer\<close>: \<open>common/TcpServer\<close>.
  \<^item> \<open>Logging\<close>: \<open>common/Logging.h\<close>, \<open>common/OptLogging.h\<close>.  \<open>NumberText\<close>: \<open>std::to_string\<close> and \<open>atoi\<close>.
  \<^item> \<open>Ring\<close>, \<open>BookCore\<close>, \<open>BookLinks\<close>, \<open>BookRep\<close>, \<open>BookLevels\<close>, \<open>BookOps\<close>, \<open>BookRemove\<close>, \<open>BookFacts\<close>: the linked
    levels and orders that the exchange's and the client's book share, over an explicit store.  \<open>BookCore\<close> is the
    code; the others show what each linking method does to the lists that the rings stand for.
  \<^item> \<open>MEOrderBook\<close>: \<open>exchange/matcher/MatchingEngineOrderBook\<close>; \<open>MESpec\<close> its contract on lists; \<open>MERefine\<close>, \<open>MEOps\<close>,
    \<open>MEInv\<close> the refinement and the invariant.  \<open>UnorderedBook\<close>:
    \<open>exchange/matcher/UnorderedMapMatchingEngineOrderBook\<close>.  \<open>MatchingEngine\<close>: \<open>exchange/matcher/MatchingEngine\<close>;
    \<open>EngineBounds\<close>: the work it is made for.  \<open>BookDump\<close>: \<open>ToString\<close> of the three books.
  \<^item> \<open>SnapshotSynthesizer\<close>: \<open>exchange/market_data/SnapshotSynthesizer\<close> and \<open>MarketDataPublisher\<close>;
    \<open>SnapshotRefine\<close>, \<open>SnapshotFeed\<close>: what they keep and send.
  \<^item> \<open>MarketOrderBook\<close>: \<open>trading/strategy/MarketOrderBook\<close>; \<open>MarketSpec\<close> its contract; \<open>MarketRefine\<close>, \<open>MarketClear\<close>,
    \<open>MarketBBO\<close> the refinement.  \<open>FeedMirror\<close>, \<open>FeedChain\<close>: the exchange's updates describe its books.
  \<^item> \<open>OrderServer\<close>: \<open>exchange/order_server/FifoSequencer.h\<close>, \<open>OrderServer\<close>.  \<open>OrderGateway\<close>:
    \<open>trading/order_gw/OrderGateway\<close>.
  \<^item> \<open>MarketDataConsumer\<close>: \<open>trading/market_data/MarketDataConsumer\<close>; \<open>ConsumerRecovery\<close>: its recovery from a gap.
  \<^item> \<open>PositionKeeper\<close>, \<open>OrderManager\<close>, \<open>TradeEngine\<close>: \<open>trading/strategy/PositionKeeper.h\<close>, \<open>OrderManager\<close>,
    \<open>RiskManager\<close>, \<open>FeatureEngine.h\<close>, \<open>MarketMaker\<close>, \<open>LiquidityTaker\<close>, \<open>TradeEngine\<close>.  \<open>PositionPnL\<close>, \<open>OrderFlow\<close>,
    \<open>PositionLimit\<close>, \<open>EngineEvents\<close>: what runs of them keep.
  \<^item> \<open>MainProgram\<close>: how \<open>exchange/ExchangeMain.cpp\<close> and \<open>trading/TradingMain.cpp\<close> are put together, and the random algorithm;
    \<open>MainFacts\<close>: what it sends.  \<open>Threads\<close>: \<open>common/ThreadUtils.h\<close> and the end of a thread, as interleavings.  \<open>Startup\<close>:
    the constructors that open sockets, \<open>Start\<close> and \<open>Stop\<close> of every component, and the two programs from start to end.
  \<^item> \<open>HashBenchmark\<close>, \<open>PoolBenchmark\<close>, \<open>LoggerBenchmark\<close>: \<open>benchmarks/HashBenchmark.cpp\<close>, \<open>ReleaseBenchmark.cpp\<close> and
    \<open>LoggerBenchmark.cpp\<close>, with the contracts \<open>order_book\<close> and \<open>line_logger\<close> that both books and both loggers keep.

  \<^bold>\<open>The correspondence.\<close>  Members keep their names, with a prefix where two structs share one.  Integers keep
  their width (ids and quantities are unsigned, prices and positions are words read with \<open>sint\<close>).  Every
  operation returns either a fault or the new state; \<open>std::array::at\<close> out of range, a failed \<open>ASSERT\<close> and a use of
  a null pointer are faults, in the order of the code's statements.  Calls to another component are recorded in
  order (\<open>sent\<close> of a book, \<open>os_out\<close> of the order server) and performed by the component's loop.  A loop is
  recursive: \<open>match_loop\<close> has as fuel the size of the order pool, since every round but the last removes an
  order; the walks along a ring (\<open>find_target\<close>, \<open>sum_qty\<close>, \<open>clear_ring\<close>) have the size of their pool, as the dump of a level has,
  and the dump of a side has one round more than the pool of levels; the loops that drain a queue have its number of elements and
  one more.  Loops over a known number of rounds count them down; the loops over arguments and over the requests of the benchmark
  end by a measure; a loop that waits reads a list of what it sees.  Running out of fuel is the fault \<open>Diverges\<close>, and
  the theorems state that an operation returns a state, so the fuel is shown to be enough.

  \<^bold>\<open>The properties.\<close>
  \<^item> \<open>CommonProperties\<close>: queue round trip, FIFO order under all interleavings, the capacity of the pools and the
    agreement of the two pools, printing.
  \<^item> \<open>ExchangeProperties\<close>: the matching engine's loop implements the contract; every reachable book is in
    price-time priority and uncrossed; adding, cancelling and matching as the contract says.
    \<open>UnorderedProperties\<close>: the book with maps agrees with it, but for cancels.
  \<^item> \<open>MarketProperties\<close>: the client's book implements its contract, mirrors the exchange's when fed with its
    updates or with a snapshot; when its best bid and offer are those of the book, and when they are not.
  \<^item> \<open>OrderProperties\<close>: requests and responses cross the wire once and in order, however the byte stream is cut;
    what is dropped; the order of the sequencer.  \<open>ServerProperties\<close>: connections, and a round of the TCP server.
  \<^item> \<open>ConsumerProperties\<close>: updates in order are passed on; after a gap, a snapshot and the incremental updates
    that arrived meanwhile, in any interleaving, rebuild the book.
  \<^item> \<open>TradingProperties\<close>: profit and loss in exact arithmetic, balance of requests and responses, the position
    limit, the quotes of the market maker, and the trade engine's loop as a run of such events.
  \<^item> \<open>LoggingProperties\<close>: what the loggers write, and that they agree.  \<open>DumpProperties\<close>: the dumps show the book and end; when the
    check in a destructor stops the process.  \<open>MessageTypes\<close>: messages stay well formed.
  \<^item> \<open>MainProperties\<close>: streams of requests that the exchange serves, sessions of random clients, and the arguments of a
    client.  \<open>SocketProperties\<close>: a socket that is returned is set up as asked.  \<open>Threads\<close>: starting a thread ends and decides.
    \<open>StartupProperties\<close>: start-up is all or nothing.
  \<^item> \<open>RoundTrip\<close>: from the clients' requests through the exchange to their answers.  \<open>MarketPath\<close>: from the requests to the
    books of a trading client.  \<open>HashBenchmark\<close>, \<open>PoolBenchmark\<close>, \<open>LoggerBenchmark\<close>: the benchmarks
    end, and compare like with like.

  \<^bold>\<open>Parameters.\<close>  Results of \<open>send\<close> and \<open>recv\<close>, the answers of \<open>epoll\<close>, \<open>accept\<close> and the other system calls (a function of the
  calls made before), of \<open>getaddrinfo\<close> and \<open>getifaddrs\<close>, the schedules of starting threads, receive times, the clock and the cycle
  counter, the result of joining the snapshot stream, the order in which \<open>std::sort\<close> leaves equal elements, \<open>rand\<close>, \<open>atof\<close>, the
  operations on \<open>double\<close> and their text, and the uninitialised first values of \<open>openVWAP\<close> are arguments of the definitions that use
  them.  \<open>exact_fp\<close> is arithmetic without rounding; the properties of profit and prices that use it do not speak of rounding errors.

  \<^bold>\<open>Not modelled.\<close>  How long threads sleep and when signals arrive; the text of a time stamp (\<open>common/TimeUtils.h\<close>) and the macros
  of \<open>common/PerfUtils.h\<close>, which only feed the loggers; the calls of the loggers inside the components, which do not change the
  components' state; the examples under \<open>common\<close>, which only call the classes that are modelled and print.  The queue's interleavings and those of a starting thread are sequentially consistent; the code uses no weaker
  memory orders.
\<close>

end
